(* ===== verification/Prelude.thy ===== *)
theory Prelude
  imports Main "HOL-Library.Multiset" "HOL-Library.Char_ord"
begin

section \<open>Shared vocabulary: results, strings, decimal text, first-match loops\<close>

text \<open>
  What every component of the development uses: the exceptions a C++ call can raise and the
  result type built on them, \<open>std::to_string\<close> and \<open>atoi\<close> on the decimal texts the program
  puts into its wire format, and the search loop
  \<open>for (i = 0; i < v.size(); i++) if (P(v[i])) return i;\<close> that most of the program's
  operations start with.
\<close>

named_theorems string_simps \<open>decimal texts and their digits\<close>
named_theorems search_simps \<open>first-match loops\<close>

subsection \<open>Exceptions and results\<close>

datatype exn =
    Json_parse_error          \<comment> \<open>\<open>nlohmann::json::parse_error\<close>\<close>
  | Json_type_error           \<comment> \<open>\<open>nlohmann::json::type_error\<close>\<close>
  | Std_exception string      \<comment> \<open>any other \<open>std::exception\<close>, with its text\<close>
  | Undefined_behaviour       \<comment> \<open>the C++ standard gives the execution no meaning\<close>

type_synonym 'a result = "exn + 'a"

text \<open>A C string literal cannot write these bytes in HOL, so they get names.\<close>

abbreviation CR :: char where "CR \<equiv> CHR 0x0D"
abbreviation LF :: char where "LF \<equiv> CHR 0x0A"
abbreviation TAB :: char where "TAB \<equiv> CHR 0x09"
abbreviation NUL :: char where "NUL \<equiv> CHR 0x00"

abbreviation code :: "char \<Rightarrow> nat" where "code c \<equiv> of_char c"

subsection \<open>First-match loops\<close>

primrec first_index :: "('a \<Rightarrow> bool) \<Rightarrow> 'a list \<Rightarrow> nat option" where
  "first_index P [] = None"
| "first_index P (x # xs) = (if P x then Some 0 else map_option Suc (first_index P xs))"

lemma first_index_None [search_simps]:
  "first_index P xs = None \<longleftrightarrow> (\<forall>x \<in> set xs. \<not> P x)"
  by (induction xs) auto

lemma first_index_SomeD:
  "first_index P xs = Some i \<Longrightarrow> i < length xs \<and> P (xs ! i) \<and> (\<forall>j<i. \<not> P (xs ! j))"
proof (induction xs arbitrary: i)
  case (Cons x xs)
  then show ?case
    by (cases i) (auto split: if_splits simp: nth_Cons')
qed simp

lemma first_index_lt [dest]: "first_index P xs = Some i \<Longrightarrow> i < length xs"
  by (simp add: first_index_SomeD)

lemma first_index_holds: "first_index P xs = Some i \<Longrightarrow> P (xs ! i)"
  by (simp add: first_index_SomeD)

lemma first_index_in: "first_index P xs = Some i \<Longrightarrow> xs ! i \<in> set xs"
  by (auto dest: first_index_SomeD)

lemma first_indexI:
  "i < length xs \<Longrightarrow> P (xs ! i) \<Longrightarrow> (\<And>j. j < i \<Longrightarrow> \<not> P (xs ! j)) \<Longrightarrow> first_index P xs = Some i"
proof (induction xs arbitrary: i)
  case (Cons x xs)
  show ?case
  proof (cases i)
    case 0
    with Cons.prems show ?thesis by simp
  next
    case (Suc k)
    have "first_index P xs = Some k"
    proof (rule Cons.IH)
      show "\<And>j. j < k \<Longrightarrow> \<not> P (xs ! j)"
        using Cons.prems(3) [of "Suc _"] Suc by auto
    qed (use Cons.prems Suc in auto)
    moreover have "\<not> P x" using Cons.prems(3) [of 0] Suc by simp
    ultimately show ?thesis using Suc by simp
  qed
qed simp

lemma first_index_cong:
  "length xs = length ys \<Longrightarrow> (\<And>i. i < length xs \<Longrightarrow> P (xs ! i) = Q (ys ! i)) \<Longrightarrow>
   first_index P xs = first_index Q ys"
proof (induction xs ys rule: list_induct2)
  case (Cons x xs y ys)
  have "first_index P xs = first_index Q ys"
    using Cons.prems [of "Suc _"] by (intro Cons.IH) auto
  with Cons.prems [of 0] show ?case by simp
qed simp

text \<open>
  Updating the slot the search found: the search still stops there, or the slot no longer
  matches and the search goes past it.
\<close>

lemma first_index_update_same:
  "first_index P xs = Some i \<Longrightarrow> P y \<Longrightarrow> first_index P (xs[i := y]) = Some i"
  by (rule first_indexI) (auto dest: first_index_SomeD)

lemma first_index_update_other:
  "\<not> P (xs ! i) \<Longrightarrow> \<not> P y \<Longrightarrow> first_index P (xs[i := y]) = first_index P xs"
proof (induction xs arbitrary: i)
  case (Cons x xs)
  then show ?case by (cases i) auto
qed simp

lemma mset_filter_update:
  "i < length xs \<Longrightarrow>
   mset (filter P (xs[i := y])) + (if P (xs ! i) then {#xs ! i#} else {#})
     = mset (filter P xs) + (if P y then {#y#} else {#})"
proof (induction xs arbitrary: i)
  case (Cons x xs)
  show ?case
  proof (cases i)
    case 0
    then show ?thesis by simp
  next
    case (Suc k)
    with Cons.IH [of k] Cons.prems show ?thesis by (auto split: if_splits)
  qed
qed simp

lemma set_update_subsetD: "x \<in> set (xs[i := y]) \<Longrightarrow> x = y \<or> x \<in> set xs"
  using set_update_subset_insert by fastforce

subsection \<open>Decimal texts\<close>

definition digit_char :: "nat \<Rightarrow> char" where
  "digit_char d = char_of (48 + d)"

definition is_digit :: "char \<Rightarrow> bool" where
  "is_digit c \<longleftrightarrow> 48 \<le> code c \<and> code c \<le> 57"

definition digit_val :: "char \<Rightarrow> nat" where
  "digit_val c = code c - 48"

lemma of_char_digit [string_simps]: "d < 10 \<Longrightarrow> code (digit_char d) = 48 + d"
  by (simp add: digit_char_def)

lemma is_digit_digit_char [string_simps]: "d < 10 \<Longrightarrow> is_digit (digit_char d)"
  by (simp add: is_digit_def of_char_digit)

lemma digit_val_digit_char [string_simps]: "d < 10 \<Longrightarrow> digit_val (digit_char d) = d"
  by (simp add: digit_val_def of_char_digit)

text \<open>\<open>std::to_string\<close> on unsigned and signed integers.\<close>

fun dec_nat :: "nat \<Rightarrow> string" where
  "dec_nat n = (if n < 10 then [digit_char n] else dec_nat (n div 10) @ [digit_char (n mod 10)])"

declare dec_nat.simps [simp del]

definition to_string :: "int \<Rightarrow> string" where
  "to_string i = (if i < 0 then CHR ''-'' # dec_nat (nat (- i)) else dec_nat (nat i))"

lemma dec_nat_ne [simp]: "dec_nat n \<noteq> []"
  by (subst dec_nat.simps) simp

lemma dec_nat_digits: "c \<in> set (dec_nat n) \<Longrightarrow> is_digit c"
proof (induction n rule: dec_nat.induct)
  case (1 n)
  then show ?case
    by (cases "n < 10") (auto simp: dec_nat.simps [of n] string_simps)
qed

text \<open>The value a run of digits denotes, as the loop of \<open>atoi\<close> computes it.\<close>

definition digits_val :: "nat \<Rightarrow> string \<Rightarrow> nat" where
  "digits_val a s = foldl (\<lambda>n c. 10 * n + digit_val c) a s"

lemma digits_val_simps [simp]:
  "digits_val a [] = a"
  "digits_val a (c # s) = digits_val (10 * a + digit_val c) s"
  by (simp_all add: digits_val_def)

lemma digits_val_snoc [simp]: "digits_val a (s @ [c]) = 10 * digits_val a s + digit_val c"
  by (simp add: digits_val_def)

lemma digits_val_dec [string_simps]: "digits_val 0 (dec_nat n) = n"
proof (induction n rule: dec_nat.induct)
  case (1 n)
  then show ?case
    by (cases "n < 10") (simp_all add: dec_nat.simps [of n] string_simps)
qed

lemma dec_nat_inj: "dec_nat m = dec_nat n \<Longrightarrow> m = n"
  by (metis digits_val_dec)

lemma dec_nat_hd_digit: "is_digit (hd (dec_nat n))"
  using dec_nat_digits hd_in_set dec_nat_ne by blast

text \<open>
  \<open>atoi\<close>: white space, an optional sign, then digits up to the first other character
  (\<open>int\<close> overflow is undefined in C and is not modelled: the value is unbounded).
\<close>

definition is_cspace :: "char \<Rightarrow> bool" where
  "is_cspace c \<longleftrightarrow> c = CHR '' '' \<or> (9 \<le> code c \<and> code c \<le> 13)"

definition atoi :: "string \<Rightarrow> int" where
  "atoi s =
     (case dropWhile is_cspace s of
        [] \<Rightarrow> 0
      | c # r \<Rightarrow>
          if c = CHR ''-'' then - int (digits_val 0 (takeWhile is_digit r))
          else if c = CHR ''+'' then int (digits_val 0 (takeWhile is_digit r))
          else int (digits_val 0 (takeWhile is_digit (c # r))))"

lemma is_digit_not_sign:
  assumes "is_digit c"
  shows "c \<noteq> CHR ''-''" "c \<noteq> CHR ''+''" "c \<noteq> CHR ''{''" "\<not> is_cspace c" "c \<noteq> NUL"
  using assms by (auto simp: is_digit_def is_cspace_def)

lemma takeWhile_digits_append:
  "(\<And>c. c \<in> set xs \<Longrightarrow> is_digit c) \<Longrightarrow> ys = [] \<or> \<not> is_digit (hd ys) \<Longrightarrow>
   takeWhile is_digit (xs @ ys) = xs"
  by (induction xs) (cases ys; auto)+

lemma atoi_dec_nat:
  assumes "r = [] \<or> \<not> is_digit (hd r)"
  shows "atoi (dec_nat n @ r) = int n"
proof -
  obtain c s where cs: "dec_nat n = c # s"
    by (cases "dec_nat n") auto
  then have d: "is_digit c" using dec_nat_digits [of c n] by simp
  have "takeWhile is_digit (dec_nat n @ r) = dec_nat n"
    using assms by (intro takeWhile_digits_append) (auto intro: dec_nat_digits)
  with cs d is_digit_not_sign [OF d] show ?thesis
    using digits_val_dec [of n] by (simp add: atoi_def)
qed

end
