(* ===== verification/Mutex.thy ===== *)
theory Mutex
  imports Prelude
begin

section \<open>The two recursive mutexes and their scope guard\<close>

text \<open>
  Both namespaces of the program define a class \<open>mutex_n\<close>, a recursive mutex over
  \<open>std::mutex\<close>, and the same RAII guard. The server's version counts locks per thread under a
  second mutex; the connector's version has one count for all threads. Each is a step relation
  over an arbitrary set of threads (numbered by \<open>nat\<close>, for \<open>std::thread::id\<close>): one rule per
  access of a shared variable or block of accesses that the inner mutex makes atomic.
  \<open>std::mutex\<close> is an owner: \<open>lock\<close> is enabled when there is none, \<open>unlock\<close> clears it.
\<close>

subsection \<open>\<open>server::mutex_n\<close>\<close>

text \<open>
  Where a thread is: \<open>Out\<close> between calls; in \<open>lock\<close> before the first \<open>my.lock()\<close>, after it,
  before \<open>mt.lock()\<close>, before the second \<open>my.lock()\<close>, and before the increment, with the
  index \<open>check_thread\<close> returned; in \<open>unlock\<close> likewise.
\<close>

datatype pc =
    Out
  | L_my | L_check | L_mt nat | L_my2 nat | L_inc nat
  | U_my | U_check | U_mt nat | U_my2 nat | U_dec nat

record mutex_n =
  ids :: "(nat \<times> nat) list"       \<comment> \<open>\<open>ident_mute\<close>: thread id and its number of locks\<close>
  my :: "nat option"
  mt :: "nat option"
  pcs :: "nat \<Rightarrow> pc"

definition check_thread :: "nat \<Rightarrow> (nat \<times> nat) list \<Rightarrow> nat \<times> (nat \<times> nat) list" where
  "check_thread t xs =
     (case first_index (\<lambda>e. fst e = t) xs of
        Some i \<Rightarrow> (i, xs)
      | None \<Rightarrow> (length xs, xs @ [(t, 0)]))"

definition bump :: "nat \<Rightarrow> (nat \<Rightarrow> nat) \<Rightarrow> (nat \<times> nat) list \<Rightarrow> (nat \<times> nat) list" where
  "bump i f xs = xs[i := (fst (xs ! i), f (snd (xs ! i)))]"

inductive lock_step :: "mutex_n \<Rightarrow> nat \<Rightarrow> mutex_n \<Rightarrow> bool" where
  call_lock: "pcs s t = Out \<Longrightarrow> lock_step s t (s\<lparr>pcs := (pcs s)(t := L_my)\<rparr>)"
| lock_my: "pcs s t = L_my \<Longrightarrow> my s = None \<Longrightarrow>
     lock_step s t (s\<lparr>my := Some t, pcs := (pcs s)(t := L_check)\<rparr>)"
| lock_first: "pcs s t = L_check \<Longrightarrow> check_thread t (ids s) = (i, xs) \<Longrightarrow> snd (xs ! i) = 0 \<Longrightarrow>
     lock_step s t (s\<lparr>ids := xs, my := None, pcs := (pcs s)(t := L_mt i)\<rparr>)"
| lock_nested: "pcs s t = L_check \<Longrightarrow> check_thread t (ids s) = (i, xs) \<Longrightarrow> snd (xs ! i) \<noteq> 0 \<Longrightarrow>
     lock_step s t (s\<lparr>ids := xs, pcs := (pcs s)(t := L_inc i)\<rparr>)"
| lock_mt: "pcs s t = L_mt i \<Longrightarrow> mt s = None \<Longrightarrow>
     lock_step s t (s\<lparr>mt := Some t, pcs := (pcs s)(t := L_my2 i)\<rparr>)"
| lock_my2: "pcs s t = L_my2 i \<Longrightarrow> my s = None \<Longrightarrow>
     lock_step s t (s\<lparr>my := Some t, pcs := (pcs s)(t := L_inc i)\<rparr>)"
| lock_inc: "pcs s t = L_inc i \<Longrightarrow>
     lock_step s t (s\<lparr>ids := bump i Suc (ids s), my := None, pcs := (pcs s)(t := Out)\<rparr>)"

inductive unlock_step :: "mutex_n \<Rightarrow> nat \<Rightarrow> mutex_n \<Rightarrow> bool" where
  call_unlock: "pcs s t = Out \<Longrightarrow> unlock_step s t (s\<lparr>pcs := (pcs s)(t := U_my)\<rparr>)"
| unlock_my: "pcs s t = U_my \<Longrightarrow> my s = None \<Longrightarrow>
     unlock_step s t (s\<lparr>my := Some t, pcs := (pcs s)(t := U_check)\<rparr>)"
| unlock_last: "pcs s t = U_check \<Longrightarrow> check_thread t (ids s) = (i, xs) \<Longrightarrow> snd (xs ! i) = 1 \<Longrightarrow>
     unlock_step s t (s\<lparr>ids := xs, my := None, pcs := (pcs s)(t := U_mt i)\<rparr>)"
| unlock_nested: "pcs s t = U_check \<Longrightarrow> check_thread t (ids s) = (i, xs) \<Longrightarrow> snd (xs ! i) \<noteq> 1 \<Longrightarrow>
     unlock_step s t (s\<lparr>ids := xs, pcs := (pcs s)(t := U_dec i)\<rparr>)"
| unlock_mt: "pcs s t = U_mt i \<Longrightarrow>
     unlock_step s t (s\<lparr>mt := None, pcs := (pcs s)(t := U_my2 i)\<rparr>)"
| unlock_my2: "pcs s t = U_my2 i \<Longrightarrow> my s = None \<Longrightarrow>
     unlock_step s t (s\<lparr>my := Some t, pcs := (pcs s)(t := U_dec i)\<rparr>)"
| unlock_dec: "pcs s t = U_dec i \<Longrightarrow>
     unlock_step s t (s\<lparr>ids := bump i (\<lambda>n. if n \<noteq> 0 then n - 1 else n) (ids s), my := None,
                       pcs := (pcs s)(t := Out)\<rparr>)"

definition init_mutex :: mutex_n where
  "init_mutex = \<lparr>ids = [], my = None, mt = None, pcs = (\<lambda>_. Out)\<rparr>"

inductive mutex_reach :: "mutex_n \<Rightarrow> bool" where
  mutex_start: "mutex_reach init_mutex"
| mutex_lock: "mutex_reach s \<Longrightarrow> lock_step s t s' \<Longrightarrow> mutex_reach s'"
| mutex_unlock: "mutex_reach s \<Longrightarrow> unlock_step s t s' \<Longrightarrow> mutex_reach s'"

text \<open>A thread's count, and whether it is inside the region the mutex protects.\<close>

definition locks :: "mutex_n \<Rightarrow> nat \<Rightarrow> nat" where
  "locks s t = (case map_of (ids s) t of Some n \<Rightarrow> n | None \<Rightarrow> 0)"

definition holding :: "mutex_n \<Rightarrow> nat \<Rightarrow> bool" where
  "holding s t \<longleftrightarrow> 0 < locks s t \<and>
     (case pcs s t of U_my2 i \<Rightarrow> False | U_dec i \<Rightarrow> locks s t \<noteq> 1 | _ \<Rightarrow> True)"

subsubsection \<open>The invariant\<close>

definition own_pc :: "pc \<Rightarrow> bool" where
  "own_pc p \<longleftrightarrow> p = L_check \<or> p = U_check \<or> (\<exists>i. p = L_inc i \<or> p = U_dec i)"

text \<open>What a thread's place says about its index, its count and the outer mutex.\<close>

definition place_ok :: "(nat \<times> nat) list \<Rightarrow> nat option \<Rightarrow> nat \<Rightarrow> nat \<Rightarrow> pc \<Rightarrow> bool" where
  "place_ok xs owner n t p =
     (let at = (\<lambda>i. i < length xs \<and> fst (xs ! i) = t) in
      case p of
        Out \<Rightarrow> (owner = Some t) = (0 < n)
      | L_my \<Rightarrow> (owner = Some t) = (0 < n)
      | L_check \<Rightarrow> (owner = Some t) = (0 < n)
      | L_mt i \<Rightarrow> at i \<and> n = 0 \<and> owner \<noteq> Some t
      | L_my2 i \<Rightarrow> at i \<and> n = 0 \<and> owner = Some t
      | L_inc i \<Rightarrow> at i \<and> owner = Some t
      | U_my \<Rightarrow> (owner = Some t) = (0 < n)
      | U_check \<Rightarrow> (owner = Some t) = (0 < n)
      | U_mt i \<Rightarrow> at i \<and> n = 1 \<and> owner = Some t
      | U_my2 i \<Rightarrow> at i \<and> n = 1 \<and> owner \<noteq> Some t
      | U_dec i \<Rightarrow> at i \<and> (owner = Some t) = (1 < n))"

definition mutex_inv :: "mutex_n \<Rightarrow> bool" where
  "mutex_inv s \<longleftrightarrow>
     distinct (map fst (ids s)) \<and>
     (\<forall>t. own_pc (pcs s t) = (my s = Some t)) \<and>
     (\<forall>t. place_ok (ids s) (mt s) (locks s t) t (pcs s t))"

lemma mutex_inv_init: "mutex_inv init_mutex"
  by (simp add: mutex_inv_def init_mutex_def own_pc_def place_ok_def locks_def)

lemma check_threadD:
  assumes "check_thread t xs = (i, ys)" "distinct (map fst xs)"
  shows "distinct (map fst ys)" "i < length ys" "fst (ys ! i) = t"
    "map_of ys t = Some (snd (ys ! i))"
    "(case map_of ys u of Some n \<Rightarrow> n | None \<Rightarrow> 0) = (case map_of xs u of Some n \<Rightarrow> n | None \<Rightarrow> 0)"
    "\<exists>zs. ys = xs @ zs"
proof -
  have "distinct (map fst ys) \<and> i < length ys \<and> fst (ys ! i) = t \<and>
    (case map_of ys u of Some n \<Rightarrow> n | None \<Rightarrow> 0) = (case map_of xs u of Some n \<Rightarrow> n | None \<Rightarrow> 0) \<and>
    (\<exists>zs. ys = xs @ zs)"
  proof (cases "first_index (\<lambda>e. fst e = t) xs")
    case None
    then have n: "t \<notin> fst ` set xs" by (auto simp: search_simps)
    then have m: "map_of xs t = None" by (simp add: map_of_eq_None_iff)
    show ?thesis
      using assms None n m
      by (auto simp: check_thread_def map_add_def split: option.split if_splits)
  next
    case (Some k)
    with assms first_index_SomeD [OF Some] show ?thesis by (auto simp: check_thread_def)
  qed
  then show "distinct (map fst ys)" "i < length ys" "fst (ys ! i) = t"
    "(case map_of ys u of Some n \<Rightarrow> n | None \<Rightarrow> 0) = (case map_of xs u of Some n \<Rightarrow> n | None \<Rightarrow> 0)"
    "\<exists>zs. ys = xs @ zs"
    by auto
  then show "map_of ys t = Some (snd (ys ! i))"
    by (metis eq_fst_iff map_of_eq_Some_iff nth_mem snd_conv)
qed

lemma bump_fst [simp]: "map fst (bump i f xs) = map fst xs" "length (bump i f xs) = length xs"
  by (simp_all add: bump_def map_update list_update_beyond list_update_same_conv)
    (metis length_map list_update_beyond list_update_id map_update nth_map not_le)

lemma count_bump:
  assumes "distinct (map fst xs)" "i < length xs" "fst (xs ! i) = t"
  shows "(case map_of (bump i f xs) u of Some n \<Rightarrow> n | None \<Rightarrow> 0) =
    (if u = t then f (case map_of xs t of Some n \<Rightarrow> n | None \<Rightarrow> 0)
     else (case map_of xs u of Some n \<Rightarrow> n | None \<Rightarrow> 0))"
  using assms
proof (induction xs arbitrary: i)
  case (Cons x xs)
  show ?case
  proof (cases i)
    case 0
    with Cons.prems show ?thesis by (auto simp: bump_def)
  next
    case (Suc k)
    have "fst x \<noteq> t" using Cons.prems Suc by (force simp: in_set_conv_nth)
    with Suc Cons.IH [of k] Cons.prems show ?thesis by (auto simp: bump_def)
  qed
qed simp

lemma bump_nth_fst: "i < length xs \<Longrightarrow> fst (bump k f xs ! i) = fst (xs ! i)"
  by (metis bump_fst nth_map)

lemma place_ok_frame:
  assumes "place_ok xs ow n u p" "(ow' = Some u) = (ow = Some u)"
    and "\<And>i. i < length xs \<Longrightarrow> i < length ys \<and> fst (ys ! i) = fst (xs ! i)"
  shows "place_ok ys ow' n u p"
  using assms by (auto simp: place_ok_def Let_def split: pc.splits)

lemma mutex_inv_step:
  assumes "mutex_inv s" "distinct (map fst (ids s'))"
    and "\<And>i. i < length (ids s) \<Longrightarrow> i < length (ids s') \<and> fst (ids s' ! i) = fst (ids s ! i)"
    and "\<And>u. u \<noteq> t \<Longrightarrow> pcs s' u = pcs s u"
    and "\<And>u. u \<noteq> t \<Longrightarrow> locks s' u = locks s u"
    and "\<And>u. u \<noteq> t \<Longrightarrow> (mt s' = Some u) = (mt s = Some u)"
    and "\<And>u. u \<noteq> t \<Longrightarrow> (my s' = Some u) = (my s = Some u)"
    and "own_pc (pcs s' t) = (my s' = Some t)"
    and "place_ok (ids s') (mt s') (locks s' t) t (pcs s' t)"
  shows "mutex_inv s'"
proof -
  have "own_pc (pcs s' u) = (my s' = Some u)" for u
    using assms by (cases "u = t") (auto simp: mutex_inv_def)
  moreover have "place_ok (ids s') (mt s') (locks s' u) u (pcs s' u)" for u
  proof (cases "u = t")
    case False
    have "place_ok (ids s) (mt s) (locks s u) u (pcs s u)" using assms(1) by (simp add: mutex_inv_def)
    from place_ok_frame [OF this assms(6) [OF False] assms(3)] False assms(4,5)
    show ?thesis by simp
  qed (use assms(9) in simp)
  ultimately show ?thesis using assms(2) by (simp add: mutex_inv_def)
qed

text \<open>The facts about the thread that moves, read off the invariant.\<close>

lemma mutex_invD:
  assumes "mutex_inv s"
  shows "distinct (map fst (ids s))" "own_pc (pcs s t) = (my s = Some t)"
    "place_ok (ids s) (mt s) (locks s t) t (pcs s t)"
  using assms by (auto simp: mutex_inv_def)

text \<open>Steps that leave the table alone, and steps that run \<open>check_thread\<close> or \<open>bump\<close>.\<close>

lemma mutex_inv_keep:
  assumes "mutex_inv s" "ids s' = ids s" "\<And>u. u \<noteq> t \<Longrightarrow> pcs s' u = pcs s u"
    and "\<And>u. u \<noteq> t \<Longrightarrow> (mt s' = Some u) = (mt s = Some u)"
    and "\<And>u. u \<noteq> t \<Longrightarrow> (my s' = Some u) = (my s = Some u)"
    and "own_pc (pcs s' t) = (my s' = Some t)"
    and "place_ok (ids s) (mt s') (locks s t) t (pcs s' t)"
  shows "mutex_inv s'"
  using assms mutex_invD(1) [OF assms(1)]
  by (intro mutex_inv_step [OF assms(1)]) (auto simp: locks_def)

lemma mutex_inv_check:
  assumes "mutex_inv s" "check_thread t (ids s) = (i, xs)" "ids s' = xs" "mt s' = mt s"
    and "\<And>u. u \<noteq> t \<Longrightarrow> pcs s' u = pcs s u"
    and "\<And>u. u \<noteq> t \<Longrightarrow> (my s' = Some u) = (my s = Some u)"
    and "own_pc (pcs s' t) = (my s' = Some t)"
    and "i < length xs \<Longrightarrow> fst (xs ! i) = t \<Longrightarrow> locks s t = snd (xs ! i) \<Longrightarrow>
         place_ok xs (mt s) (locks s t) t (pcs s' t)"
  shows "mutex_inv s'"
proof -
  note c = check_threadD [OF assms(2) mutex_invD(1) [OF assms(1)]]
  have l: "locks s' u = locks s u" for u
    using c(5) [of u] assms(3) by (simp add: locks_def)
  moreover have "locks s t = snd (xs ! i)" using l [of t] c(4) assms(3) by (simp add: locks_def)
  moreover obtain zs where "xs = ids s @ zs" using c(6) by blast
  ultimately show ?thesis
    using assms c(1-3) by (intro mutex_inv_step [OF assms(1), where t = t]) (auto simp: nth_append)
qed

lemma mutex_inv_bump:
  assumes "mutex_inv s" "i < length (ids s)" "fst (ids s ! i) = t" "ids s' = bump i f (ids s)"
    and "mt s' = mt s" "\<And>u. u \<noteq> t \<Longrightarrow> pcs s' u = pcs s u"
    and "\<And>u. u \<noteq> t \<Longrightarrow> (my s' = Some u) = (my s = Some u)"
    and "own_pc (pcs s' t) = (my s' = Some t)"
    and "place_ok (bump i f (ids s)) (mt s) (f (locks s t)) t (pcs s' t)"
  shows "mutex_inv s'"
proof -
  have "locks s' u = (if u = t then f (locks s t) else locks s u)" for u
    using count_bump [OF mutex_invD(1) [OF assms(1)] assms(2,3)] assms(4) by (simp add: locks_def)
  then show ?thesis
    using assms mutex_invD(1) [OF assms(1)]
    by (intro mutex_inv_step [OF assms(1), where t = t]) (auto simp: bump_nth_fst)
qed

lemma lock_step_inv: "lock_step s t s' \<Longrightarrow> mutex_inv s \<Longrightarrow> mutex_inv s'"
proof (induction rule: lock_step.induct)
  case (call_lock s t)
  with mutex_invD(2,3) [of s t] show ?case
    by - (rule mutex_inv_keep [of s _ t], auto simp: own_pc_def place_ok_def)
next
  case (lock_my s t)
  with mutex_invD(2,3) [of s t] show ?case
    by - (rule mutex_inv_keep [of s _ t], auto simp: own_pc_def place_ok_def)
next
  case (lock_first s t i xs)
  with mutex_invD(2,3) [of s t] show ?case
    by - (rule mutex_inv_check [of s t i xs], auto simp: own_pc_def place_ok_def Let_def)
next
  case (lock_nested s t i xs)
  with mutex_invD(2,3) [of s t] show ?case
    by - (rule mutex_inv_check [of s t i xs], auto simp: own_pc_def place_ok_def Let_def)
next
  case (lock_mt s t i)
  with mutex_invD(2,3) [of s t] show ?case
    by - (rule mutex_inv_keep [of s _ t], auto simp: own_pc_def place_ok_def Let_def)
next
  case (lock_my2 s t i)
  with mutex_invD(2,3) [of s t] show ?case
    by - (rule mutex_inv_keep [of s _ t], auto simp: own_pc_def place_ok_def Let_def)
next
  case (lock_inc s t i)
  then have p: "i < length (ids s)" "fst (ids s ! i) = t" "mt s = Some t" "my s = Some t"
    using mutex_invD(2,3) [of s t] by (auto simp: own_pc_def place_ok_def)
  show ?case
    by (rule mutex_inv_bump [OF lock_inc(2) p(1,2), where f = Suc])
      (simp_all add: own_pc_def place_ok_def p)
qed

lemma unlock_step_inv: "unlock_step s t s' \<Longrightarrow> mutex_inv s \<Longrightarrow> mutex_inv s'"
proof (induction rule: unlock_step.induct)
  case (call_unlock s t)
  with mutex_invD(2,3) [of s t] show ?case
    by - (rule mutex_inv_keep [of s _ t], auto simp: own_pc_def place_ok_def)
next
  case (unlock_my s t)
  with mutex_invD(2,3) [of s t] show ?case
    by - (rule mutex_inv_keep [of s _ t], auto simp: own_pc_def place_ok_def)
next
  case (unlock_last s t i xs)
  with mutex_invD(2,3) [of s t] show ?case
    by - (rule mutex_inv_check [of s t i xs], auto simp: own_pc_def place_ok_def Let_def)
next
  case (unlock_nested s t i xs)
  with mutex_invD(2,3) [of s t] show ?case
    by - (rule mutex_inv_check [of s t i xs], auto simp: own_pc_def place_ok_def Let_def)
next
  case (unlock_mt s t i)
  with mutex_invD(2,3) [of s t] show ?case
    by - (rule mutex_inv_keep [of s _ t], auto simp: own_pc_def place_ok_def Let_def)
next
  case (unlock_my2 s t i)
  with mutex_invD(2,3) [of s t] show ?case
    by - (rule mutex_inv_keep [of s _ t], auto simp: own_pc_def place_ok_def Let_def)
next
  case (unlock_dec s t i)
  then have p: "i < length (ids s)" "fst (ids s ! i) = t" "my s = Some t"
      "(mt s = Some t) = (1 < locks s t)"
    using mutex_invD(2,3) [of s t] by (auto simp: own_pc_def place_ok_def)
  show ?case
    by (rule mutex_inv_bump [OF unlock_dec(2) p(1,2), where f = "\<lambda>n. if n \<noteq> 0 then n - 1 else n"])
      (use p in \<open>auto simp: own_pc_def place_ok_def\<close>)
qed

lemma mutex_reach_inv: "mutex_reach s \<Longrightarrow> mutex_inv s"
  by (induction rule: mutex_reach.induct) (auto intro: mutex_inv_init lock_step_inv unlock_step_inv)

lemma holding_owner: "mutex_inv s \<Longrightarrow> holding s t \<Longrightarrow> mt s = Some t"
  using mutex_invD(3) [of s t]
  by (cases "pcs s t") (auto simp: holding_def place_ok_def Let_def)

text \<open>
  C9. Mutual exclusion: in every interleaving of any number of threads that lock and unlock,
  nested calls included, at most one thread is in the region between its first \<open>lock\<close> and its
  last \<open>unlock\<close>.
\<close>

theorem mutex_exclusion:
  assumes "mutex_reach s" "holding s t" "holding s u"
  shows "t = u"
proof -
  note owner = holding_owner [OF mutex_reach_inv [OF assms(1)]]
  show ?thesis using owner [OF assms(2)] owner [OF assms(3)] by simp
qed

text \<open>
  The inner \<open>std::mutex\<close> objects are used as the standard requires: \<open>mt.unlock()\<close> is only
  reached by the thread that owns \<open>mt\<close>, and \<open>my.unlock()\<close> by the thread that owns \<open>my\<close>; a thread
  never waits for a mutex it already owns.
\<close>

lemma mutex_inner_usage:
  assumes "mutex_reach s"
  shows "(pcs s t = U_mt i \<longrightarrow> mt s = Some t) \<and>
    (pcs s t \<in> {L_check, U_check, L_inc i, U_dec i} \<longrightarrow> my s = Some t) \<and>
    (pcs s t = L_mt i \<longrightarrow> mt s \<noteq> Some t) \<and>
    (pcs s t \<in> {L_my, U_my, L_my2 i, U_my2 i} \<longrightarrow> my s \<noteq> Some t)"
  using mutex_invD(2,3) [OF mutex_reach_inv [OF assms], of t]
  by (auto simp: own_pc_def place_ok_def)

text \<open>
  C10. No deadlock inside the mutex: while a call is in progress, some call can take a step,
  unless a thread between two calls holds the lock (and will release it).
\<close>

theorem mutex_progress:
  assumes "mutex_reach s" "pcs s t \<noteq> Out"
  shows "(\<exists>u s'. pcs s u \<noteq> Out \<and> (lock_step s u s' \<or> unlock_step s u s')) \<or>
    (\<exists>u. pcs s u = Out \<and> holding s u)"
proof -
  note inv = mutex_reach_inv [OF assms(1)]
  have owner: "\<exists>s'. lock_step s v s' \<or> unlock_step s v s'" if "own_pc (pcs s v)" for v
  proof -
    obtain i xs where "check_thread v (ids s) = (i, xs)" by fastforce
    note ck = this
    show ?thesis
    proof (cases "pcs s v")
      case L_check
      with ck lock_first lock_nested show ?thesis by (cases "snd (xs ! i) = 0") blast+
    next
      case U_check
      with ck unlock_last unlock_nested show ?thesis by (cases "snd (xs ! i) = 1") blast+
    next
      case (L_inc k)
      with lock_inc show ?thesis by blast
    next
      case (U_dec k)
      with unlock_dec show ?thesis by blast
    qed (use that in \<open>simp_all add: own_pc_def\<close>)
  qed
  have free: "\<exists>s'. lock_step s v s' \<or> unlock_step s v s'"
    if "my s = None" "pcs s v \<noteq> Out" "\<not> own_pc (pcs s v)" "\<And>i. pcs s v = L_mt i \<Longrightarrow> mt s = None" for v
    using that
    by (cases "pcs s v")
      (simp_all add: own_pc_def, (blast intro: lock_my lock_my2 lock_mt unlock_my unlock_my2 unlock_mt)+)
  show ?thesis
  proof (cases "my s")
    case (Some v)
    then have "own_pc (pcs s v)" using mutex_invD(2) [OF inv, of v] by simp
    moreover from this have "pcs s v \<noteq> Out" by (auto simp: own_pc_def)
    ultimately show ?thesis using owner [of v] by blast
  next
    case None
    then have no: "\<not> own_pc (pcs s v)" for v using mutex_invD(2) [OF inv, of v] by simp
    show ?thesis
    proof (cases "\<exists>i. pcs s t = L_mt i \<and> mt s \<noteq> None")
      case False
      with free [OF None assms(2) no] assms(2) show ?thesis by blast
    next
      case True
      then obtain v where v: "mt s = Some v" by blast
      then have pv: "place_ok (ids s) (Some v) (locks s v) v (pcs s v)"
        using mutex_invD(3) [OF inv, of v] by simp
      show ?thesis
      proof (cases "pcs s v = Out")
        case True
        with pv show ?thesis by (auto simp: place_ok_def holding_def)
      next
        case False
        have "mt s = None" if "pcs s v = L_mt i" for i using that pv by (simp add: place_ok_def Let_def)
        with free [OF None False no] False show ?thesis by blast
      qed
    qed
  qed
qed

subsection \<open>\<open>connector::mutex_n\<close>\<close>

text \<open>
  The connector's version has a single count \<open>n\<close>, read and written without protection (a data
  race; the model is generous and makes each access atomic). \<open>depth\<close> is not a variable of the
  program: it counts, per thread, the \<open>lock\<close> calls that returned less the \<open>unlock\<close> calls.
\<close>

datatype kpc = KOut | KL_test | KL_mt | KL_inc | KU_test | KU_mt | KU_dec

record kmutex =
  kn :: int
  kmt :: "nat option"
  kpcs :: "nat \<Rightarrow> kpc"
  depth :: "nat \<Rightarrow> nat"

inductive kstep :: "kmutex \<Rightarrow> nat \<Rightarrow> kmutex \<Rightarrow> bool" where
  k_call_lock: "kpcs s t = KOut \<Longrightarrow> kstep s t (s\<lparr>kpcs := (kpcs s)(t := KL_test)\<rparr>)"
| k_test_lock: "kpcs s t = KL_test \<Longrightarrow>
     kstep s t (s\<lparr>kpcs := (kpcs s)(t := if kn s = 0 then KL_mt else KL_inc)\<rparr>)"
| k_mt_lock: "kpcs s t = KL_mt \<Longrightarrow> kmt s = None \<Longrightarrow>
     kstep s t (s\<lparr>kmt := Some t, kpcs := (kpcs s)(t := KL_inc)\<rparr>)"
| k_inc: "kpcs s t = KL_inc \<Longrightarrow>
     kstep s t (s\<lparr>kn := kn s + 1, kpcs := (kpcs s)(t := KOut),
                 depth := (depth s)(t := Suc (depth s t))\<rparr>)"
| k_call_unlock: "kpcs s t = KOut \<Longrightarrow> kstep s t (s\<lparr>kpcs := (kpcs s)(t := KU_test)\<rparr>)"
| k_test_unlock: "kpcs s t = KU_test \<Longrightarrow>
     kstep s t (s\<lparr>kpcs := (kpcs s)(t := if kn s = 1 then KU_mt else KU_dec)\<rparr>)"
| k_mt_unlock: "kpcs s t = KU_mt \<Longrightarrow>
     kstep s t (s\<lparr>kmt := None, kpcs := (kpcs s)(t := KU_dec)\<rparr>)"
| k_dec: "kpcs s t = KU_dec \<Longrightarrow>
     kstep s t (s\<lparr>kn := (if kn s \<noteq> 0 then kn s - 1 else kn s), kpcs := (kpcs s)(t := KOut),
                 depth := (depth s)(t := depth s t - 1)\<rparr>)"

definition init_kmutex :: kmutex where
  "init_kmutex = \<lparr>kn = 0, kmt = None, kpcs = (\<lambda>_. KOut), depth = (\<lambda>_. 0)\<rparr>"

text \<open>Reachable by steps of the threads in \<open>T\<close>.\<close>

inductive kreach :: "nat set \<Rightarrow> kmutex \<Rightarrow> bool" for T where
  kstart: "kreach T init_kmutex"
| kmove: "kreach T s \<Longrightarrow> t \<in> T \<Longrightarrow> kstep s t s' \<Longrightarrow> kreach T s'"

text \<open>
  Used by one thread alone, the connector's mutex is a recursive lock: between calls its
  count is the nesting depth, and the inner mutex is owned exactly when the depth is positive.
\<close>

lemma connector_mutex_one_thread:
  assumes "kreach {t} s" "kpcs s t = KOut"
  shows "kn s = int (depth s t) \<and> kmt s = (if 0 < depth s t then Some t else None)"
proof -
  have "(case kpcs s t of
      KL_mt \<Rightarrow> kn s = 0 \<and> depth s t = 0 \<and> kmt s = None
    | KL_inc \<Rightarrow> kn s = int (depth s t) \<and> kmt s = Some t
    | KU_mt \<Rightarrow> kn s = 1 \<and> depth s t = 1 \<and> kmt s = Some t
    | KU_dec \<Rightarrow> kn s = int (depth s t) \<and> kmt s = (if 1 < depth s t then Some t else None)
    | _ \<Rightarrow> kn s = int (depth s t) \<and> kmt s = (if 0 < depth s t then Some t else None))"
    using assms(1)
  proof (induction rule: kreach.induct)
    case kstart
    then show ?case by (simp add: init_kmutex_def)
  next
    case (kmove s u s')
    from kmove(3,2,4) show ?case by (cases rule: kstep.cases) (auto split: if_splits)
  qed
  with assms(2) show ?thesis by simp
qed

text \<open>One whole call, as a sequence of steps of one thread.\<close>

lemma k_lock_free:
  assumes "kreach T s" "t \<in> T" "kpcs s t = KOut" "kn s = 0" "kmt s = None"
  shows "kreach T (s\<lparr>kmt := Some t, kn := 1, depth := (depth s)(t := Suc (depth s t))\<rparr>)"
proof -
  have 1: "kreach T (s\<lparr>kpcs := (kpcs s)(t := KL_test)\<rparr>)"
    using assms by (blast intro: kmove k_call_lock)
  have 2: "kreach T (s\<lparr>kpcs := (kpcs s)(t := KL_mt)\<rparr>)"
    using kmove [OF 1 assms(2) k_test_lock] assms(4) by simp
  have 3: "kreach T (s\<lparr>kmt := Some t, kpcs := (kpcs s)(t := KL_inc)\<rparr>)"
    using kmove [OF 2 assms(2) k_mt_lock] assms(5) by simp
  have "(kpcs s)(t := KOut) = kpcs s" using assms(3) by (simp add: fun_upd_idem)
  then show ?thesis using kmove [OF 3 assms(2) k_inc] assms(4) by simp
qed

lemma k_lock_taken:
  assumes "kreach T s" "t \<in> T" "kpcs s t = KOut" "kn s \<noteq> 0"
  shows "kreach T (s\<lparr>kn := kn s + 1, depth := (depth s)(t := Suc (depth s t))\<rparr>)"
proof -
  have 1: "kreach T (s\<lparr>kpcs := (kpcs s)(t := KL_test)\<rparr>)"
    using assms by (blast intro: kmove k_call_lock)
  have 2: "kreach T (s\<lparr>kpcs := (kpcs s)(t := KL_inc)\<rparr>)"
    using kmove [OF 1 assms(2) k_test_lock] assms(4) by simp
  have "(kpcs s)(t := KOut) = kpcs s" using assms(3) by (simp add: fun_upd_idem)
  then show ?thesis using kmove [OF 2 assms(2) k_inc] by simp
qed

lemma k_both_locked:
  "kreach {0, 1} (init_kmutex\<lparr>kn := 2, kmt := Some 0, depth := (\<lambda>_. 0)(0 := 1, 1 := 1)\<rparr>)"
proof -
  have 1: "kreach {0, 1} (init_kmutex\<lparr>kn := 1, kmt := Some 0, depth := (\<lambda>_. 0)(0 := 1)\<rparr>)"
    using k_lock_free [OF kstart, of 0 "{0, 1}"] by (simp add: init_kmutex_def)
  show ?thesis
    using k_lock_taken [OF 1, of 1] by (simp add: init_kmutex_def)
qed

text \<open>
  Used by two threads it does not exclude: both can be inside the region at once, because
  the second \<open>lock\<close> sees a count that is not zero and returns without waiting.
\<close>

lemma connector_mutex_no_exclusion:
  "\<exists>s t u. kreach {t, u} s \<and> t \<noteq> u \<and> kpcs s t = KOut \<and> kpcs s u = KOut \<and>
     0 < depth s t \<and> 0 < depth s u"
proof -
  let ?s = "init_kmutex\<lparr>kn := 2, kmt := Some 0, depth := (\<lambda>_. 0)(0 := 1, 1 := 1)\<rparr>"
  have "kpcs ?s 0 = KOut \<and> kpcs ?s 1 = KOut \<and> 0 < depth ?s 0 \<and> 0 < depth ?s (1 :: nat)"
    by (simp add: init_kmutex_def)
  with k_both_locked show ?thesis by (metis zero_neq_one)
qed

subsection \<open>\<open>scope_lock_mutex\<close>\<close>

text \<open>
  The guard: a flag \<open>b\<close> and the mutex, of which only this thread's nesting depth matters here.
\<close>

definition guard_lock :: "bool \<times> nat \<Rightarrow> bool \<times> nat" where
  "guard_lock g = (True, if fst g then snd g else Suc (snd g))"

definition guard_unlock :: "bool \<times> nat \<Rightarrow> bool \<times> nat" where
  "guard_unlock g = (False, if fst g then snd g - 1 else snd g)"

definition guard_construct :: "nat \<Rightarrow> bool \<times> nat" where
  "guard_construct n = guard_lock (False, n)"

definition guard_destruct :: "bool \<times> nat \<Rightarrow> nat" where
  "guard_destruct g = snd (guard_unlock g)"

text \<open>
  A guard is balanced: whatever sequence of explicit \<open>lock\<close> and \<open>unlock\<close> calls is made on
  it between construction and destruction, the mutex's nesting depth afterwards is what it was.
\<close>

lemma guard_balanced:
  "guard_destruct (fold (\<lambda>l. if l then guard_lock else guard_unlock) calls (guard_construct n)) = n"
proof -
  define balanced where "balanced g \<longleftrightarrow> (fst g \<longrightarrow> 0 < snd g) \<and> guard_destruct g = n" for g
  have step: "balanced ((if l then guard_lock else guard_unlock) g)" if "balanced g" for l g
    using that
    by (cases g) (auto simp: balanced_def guard_destruct_def guard_lock_def guard_unlock_def)
  have "balanced (guard_construct n)"
    by (simp add: balanced_def guard_construct_def guard_destruct_def guard_lock_def
        guard_unlock_def)
  then have "balanced (fold (\<lambda>l. if l then guard_lock else guard_unlock) calls (guard_construct n))"
    by (induction calls rule: rev_induct) (simp_all add: step del: if_split)
  then show ?thesis by (simp add: balanced_def)
qed

subsection \<open>The properties at sample runs\<close>

lemma sample_lock_path:
  "\<exists>s. mutex_reach s \<and> pcs s 0 = Out \<and> holding s 0"
proof -
  let ?s1 = "init_mutex\<lparr>pcs := (\<lambda>_. Out)(0 := L_my)\<rparr>"
  let ?s2 = "init_mutex\<lparr>my := Some 0, pcs := (\<lambda>_. Out)(0 := L_check)\<rparr>"
  let ?s3 = "init_mutex\<lparr>ids := [(0, 0)], pcs := (\<lambda>_. Out)(0 := L_mt 0)\<rparr>"
  let ?s4 = "init_mutex\<lparr>ids := [(0, 0)], mt := Some 0, pcs := (\<lambda>_. Out)(0 := L_my2 0)\<rparr>"
  let ?s5 = "init_mutex\<lparr>ids := [(0, 0)], mt := Some 0, my := Some 0, pcs := (\<lambda>_. Out)(0 := L_inc 0)\<rparr>"
  let ?s6 = "init_mutex\<lparr>ids := [(0, 1)], mt := Some 0, pcs := (\<lambda>_. Out)\<rparr>"
  have "lock_step init_mutex 0 ?s1" using call_lock [of init_mutex 0] by (simp add: init_mutex_def)
  moreover have "lock_step ?s1 0 ?s2" using lock_my [of ?s1 0] by (simp add: init_mutex_def)
  moreover have "lock_step ?s2 0 ?s3"
    using lock_first [of ?s2 0 0 "[(0, 0)]"] by (simp add: init_mutex_def check_thread_def)
  moreover have "lock_step ?s3 0 ?s4" using lock_mt [of ?s3 0 0] by (simp add: init_mutex_def)
  moreover have "lock_step ?s4 0 ?s5" using lock_my2 [of ?s4 0 0] by (simp add: init_mutex_def)
  moreover have "lock_step ?s5 0 ?s6"
    using lock_inc [of ?s5 0 0] by (simp add: init_mutex_def bump_def fun_upd_idem)
  ultimately have "mutex_reach ?s6" using mutex_start by (meson mutex_lock)
  moreover have "pcs ?s6 0 = Out \<and> holding ?s6 0"
    by (simp add: init_mutex_def holding_def locks_def)
  ultimately show ?thesis by blast
qed

lemma mutex_exclusion_witness: "\<exists>s. mutex_reach s \<and> holding s 0 \<and> (\<forall>u. holding s u = (u = 0))"
  using sample_lock_path mutex_exclusion by metis

lemma mutex_inner_usage_witness: "\<exists>s :: mutex_n. pcs s 0 = L_my \<and> my s \<noteq> Some 0"
proof -
  let ?s = "init_mutex\<lparr>pcs := (\<lambda>_. Out)(0 := L_my)\<rparr>"
  have "mutex_reach ?s"
    using mutex_lock [OF mutex_start call_lock [of init_mutex 0]] by (simp add: init_mutex_def)
  from mutex_inner_usage [OF this, of 0 0] have "my ?s \<noteq> Some 0" by simp
  moreover have "pcs ?s 0 = L_my" by simp
  ultimately show ?thesis by blast
qed

lemma mutex_progress_witness:
  "\<exists>s :: mutex_n. pcs s 0 = L_my \<and> ((\<exists>u s'. pcs s u \<noteq> Out \<and> (lock_step s u s' \<or> unlock_step s u s')) \<or>
     (\<exists>u. pcs s u = Out \<and> holding s u))"
proof -
  let ?s = "init_mutex\<lparr>pcs := (\<lambda>_. Out)(0 := L_my)\<rparr>"
  have r: "mutex_reach ?s"
    using mutex_lock [OF mutex_start call_lock [of init_mutex 0]] by (simp add: init_mutex_def)
  have "pcs ?s 0 = L_my" by simp
  with mutex_progress [OF r, of 0] show ?thesis by (intro exI [of _ ?s]) simp
qed

lemma connector_mutex_one_thread_witness: "\<exists>s. kreach {0} s \<and> kn s = 1 \<and> kmt s = Some 0"
proof -
  let ?s = "init_kmutex\<lparr>kn := 1, kmt := Some 0, depth := (\<lambda>_. 0)(0 := 1)\<rparr>"
  have r: "kreach {0} ?s"
    using k_lock_free [OF kstart, of 0 "{0}"] by (simp add: init_kmutex_def)
  have "kpcs ?s 0 = KOut" by (simp add: init_kmutex_def)
  from connector_mutex_one_thread [OF r this] r show ?thesis by (intro exI [of _ ?s]) simp
qed

end
