(* ===== verification/Json_Api.thy ===== *)
theory Json_Api
  imports Prelude
begin

section \<open>The interface of \<open>nlohmann::json\<close>\<close>

text \<open>
  The program keeps every payload as a \<open>t_json\<close>, which is \<open>nlohmann::json\<close>, a package that is
  not part of the repository. It is a parameter of the model: a record of the member functions
  the program calls, over an arbitrary type \<open>'j\<close> of JSON values. A call that can throw returns
  an option. \<open>operator[]\<close> of a mutable value inserts \<open>null\<close> where the element is missing, so
  it returns the container after the call together with the element.
\<close>

datatype jkey = K string | N nat

record 'j json_lib =
  j_null     :: 'j                                     \<comment> \<open>\<open>t_json()\<close>\<close>
  j_str      :: "string \<Rightarrow> 'j"                         \<comment> \<open>conversion from \<open>std::string\<close>\<close>
  j_int      :: "int \<Rightarrow> 'j"                            \<comment> \<open>conversion from \<open>int\<close>\<close>
  j_index    :: "'j \<Rightarrow> jkey \<Rightarrow> ('j \<times> 'j) option"       \<comment> \<open>\<open>c[k]\<close>: container after the call, element\<close>
  j_store    :: "'j \<Rightarrow> jkey \<Rightarrow> 'j \<Rightarrow> 'j"               \<comment> \<open>assignment through the reference \<open>c[k]\<close> returned\<close>
  j_contains :: "'j \<Rightarrow> string \<Rightarrow> bool"
  j_size     :: "'j \<Rightarrow> nat"
  j_empty    :: "'j \<Rightarrow> bool"
  j_clear    :: "'j \<Rightarrow> 'j"
  j_reverse  :: "'j \<Rightarrow> 'j"                             \<comment> \<open>\<open>std::reverse(c.begin(), c.end())\<close>\<close>
  j_eq_str   :: "'j \<Rightarrow> string \<Rightarrow> bool"                 \<comment> \<open>\<open>c == s\<close>\<close>
  j_get_str  :: "'j \<Rightarrow> string option"                  \<comment> \<open>conversion to \<open>std::string\<close>\<close>
  j_get_int  :: "'j \<Rightarrow> int option"                     \<comment> \<open>conversion to \<open>int\<close>\<close>
  j_dump     :: "'j \<Rightarrow> string option"                  \<comment> \<open>\<open>dump()\<close>, throws on invalid UTF-8\<close>
  j_parse    :: "string \<Rightarrow> 'j option"                  \<comment> \<open>\<open>t_json::parse\<close>\<close>

text \<open>
  \<open>c[k1][k2]...[kn]\<close> on a mutable value: the container after the insertions, and the element.
\<close>

fun j_path :: "'j json_lib \<Rightarrow> 'j \<Rightarrow> jkey list \<Rightarrow> ('j \<times> 'j) result" where
  "j_path J c [] = Inr (c, c)"
| "j_path J c (k # ks) =
     (case j_index J c k of
        None \<Rightarrow> Inl Json_type_error
      | Some (c', e) \<Rightarrow>
          (case j_path J e ks of
             Inl x \<Rightarrow> Inl x
           | Inr (e', v) \<Rightarrow> Inr (j_store J c' k e', v)))"

text \<open>\<open>c[k1]...[kn] = v\<close>.\<close>

fun j_assign :: "'j json_lib \<Rightarrow> 'j \<Rightarrow> jkey list \<Rightarrow> 'j \<Rightarrow> 'j result" where
  "j_assign J c [] v = Inr v"
| "j_assign J c (k # ks) v =
     (case j_index J c k of
        None \<Rightarrow> Inl Json_type_error
      | Some (c', e) \<Rightarrow>
          (case j_assign J e ks v of Inl x \<Rightarrow> Inl x | Inr e' \<Rightarrow> Inr (j_store J c' k e')))"

declare j_path.simps [simp del] j_assign.simps [simp del]

text \<open>The conversions and \<open>dump\<close>, with the exception they throw.\<close>

definition get_string :: "'j json_lib \<Rightarrow> 'j \<Rightarrow> string result" where
  "get_string J v = (case j_get_str J v of None \<Rightarrow> Inl Json_type_error | Some s \<Rightarrow> Inr s)"

definition get_int :: "'j json_lib \<Rightarrow> 'j \<Rightarrow> int result" where
  "get_int J v = (case j_get_int J v of None \<Rightarrow> Inl Json_type_error | Some i \<Rightarrow> Inr i)"

definition dump :: "'j json_lib \<Rightarrow> 'j \<Rightarrow> string result" where
  "dump J v = (case j_dump J v of None \<Rightarrow> Inl Json_type_error | Some s \<Rightarrow> Inr s)"

definition parse :: "'j json_lib \<Rightarrow> string \<Rightarrow> 'j result" where
  "parse J s = (case j_parse J s of None \<Rightarrow> Inl Json_parse_error | Some v \<Rightarrow> Inr v)"

text \<open>
  What the library documents about element access and the program relies on: the reference
  \<open>operator[]\<close> returns is stable (asking again inserts nothing), an assignment through it is
  what the next access sees, and an access to one element does not change another.
\<close>

definition json_access_laws :: "'j json_lib \<Rightarrow> bool" where
  "json_access_laws J \<longleftrightarrow>
     (\<forall>c k c' e. j_index J c k = Some (c', e) \<longrightarrow>
        j_index J c' k = Some (c', e) \<and> j_store J c' k e = c') \<and>
     (\<forall>c k c' e v. j_index J c k = Some (c', e) \<longrightarrow>
        j_index J (j_store J c' k v) k = Some (j_store J c' k v, v)) \<and>
     (\<forall>k. j_index J (j_null J) (K k) \<noteq> None) \<and>
     (\<forall>c k. j_contains J c k \<longrightarrow> (\<exists>e. j_index J c (K k) = Some (c, e))) \<and>
     (\<forall>c k c' e v. j_index J c (K k) = Some (c', e) \<longrightarrow> j_contains J (j_store J c' (K k) v) k) \<and>
     (\<forall>c k c' e v m. j_index J c k = Some (c', e) \<longrightarrow> j_contains J c m \<longrightarrow>
        j_contains J (j_store J c' k v) m)"

text \<open>
  What it documents about texts: \<open>parse(dump(v))\<close> is \<open>v\<close>, control characters are escaped (so
  a text holds no NUL), and the text of an object starts with a brace. A value for which this
  holds is fit for the wire format of the task list.
\<close>

definition json_object_text :: "'j json_lib \<Rightarrow> 'j \<Rightarrow> string \<Rightarrow> bool" where
  "json_object_text J v s \<longleftrightarrow>
     j_dump J v = Some s \<and> j_parse J s = Some v \<and> s \<noteq> [] \<and> hd s = CHR ''{'' \<and>
     NUL \<notin> set s \<and> length s < 10 ^ 9"

lemma access_stable:
  "json_access_laws J \<Longrightarrow> j_index J c k = Some (c', e) \<Longrightarrow>
   j_index J c' k = Some (c', e) \<and> j_store J c' k e = c'"
  unfolding json_access_laws_def by metis

lemma access_store:
  "json_access_laws J \<Longrightarrow> j_index J c k = Some (c', e) \<Longrightarrow>
   j_index J (j_store J c' k v) k = Some (j_store J c' k v, v)"
  unfolding json_access_laws_def by blast

lemma access_null: "json_access_laws J \<Longrightarrow> \<exists>c e. j_index J (j_null J) (K k) = Some (c, e)"
  unfolding json_access_laws_def by (metis not_None_eq surj_pair)

lemma access_contains:
  "json_access_laws J \<Longrightarrow> j_contains J c k \<Longrightarrow> \<exists>e. j_index J c (K k) = Some (c, e)"
  unfolding json_access_laws_def by blast

lemma access_assign_null:
  assumes "json_access_laws J"
  shows "\<exists>res. j_assign J (j_null J) [K k] v = Inr res"
proof -
  obtain c e where "j_index J (j_null J) (K k) = Some (c, e)"
    using access_null [OF assms] by blast
  then show ?thesis by (simp add: j_assign.simps)
qed

end
