(* ===== verification/Slots.thy ===== *)
theory Slots
  imports Prelude
begin

section \<open>Tables of reusable slots and tables searched by key\<close>

text \<open>
  The program keeps its clients, its tasks, the connector's buffered tasks and the connector's
  pending replies all in the same way: a vector of slots created at a fixed size, a field that
  says whether a slot is in use, and an insertion that takes the first free slot and grows the
  vector when there is none. This theory holds that contract once: the interface \<open>slot_table\<close>
  with what its clients may conclude, and the reference insertion \<open>put_slot\<close>.
\<close>

definition put_slot :: "('a \<Rightarrow> bool) \<Rightarrow> (nat \<Rightarrow> 'a) \<Rightarrow> (nat \<Rightarrow> 'a) \<Rightarrow> 'a list \<Rightarrow> 'a list" where
  "put_slot free reuse grow xs =
     (case first_index free xs of
        Some i \<Rightarrow> xs[i := reuse i]
      | None \<Rightarrow> xs @ [grow (length xs)])"

definition put_index :: "('a \<Rightarrow> bool) \<Rightarrow> 'a list \<Rightarrow> nat" where
  "put_index free xs = (case first_index free xs of Some i \<Rightarrow> i | None \<Rightarrow> length xs)"

lemma put_slot_live:
  assumes "\<And>i. \<not> free (reuse i)" "\<And>i. \<not> free (grow i)"
  shows "mset (filter (\<lambda>x. \<not> free x) (put_slot free reuse grow xs)) =
         add_mset (case first_index free xs of Some i \<Rightarrow> reuse i | None \<Rightarrow> grow (length xs))
                  (mset (filter (\<lambda>x. \<not> free x) xs))"
proof (cases "first_index free xs")
  case None
  with assms show ?thesis by (simp add: put_slot_def)
next
  case (Some i)
  then have "i < length xs" "free (xs ! i)" by (auto dest: first_index_SomeD)
  with Some assms mset_filter_update [of i xs "\<lambda>x. \<not> free x" "reuse i"]
  show ?thesis by (simp add: put_slot_def)
qed

lemma put_slot_live_same:
  assumes "live x"
  shows "mset (filter live (put_slot (\<lambda>s. \<not> live s) (\<lambda>_. x) (\<lambda>_. x) xs)) =
         add_mset x (mset (filter live xs))"
  using put_slot_live [of "\<lambda>s. \<not> live s" "\<lambda>_. x" "\<lambda>_. x" xs] assms
  by (simp split: option.splits)

lemma put_slot_length: "length xs \<le> length (put_slot free reuse grow xs)"
  by (simp add: put_slot_def split: option.split)

lemma put_slot_nth:
  "put_index free xs < length (put_slot free reuse grow xs)"
  "put_slot free reuse grow xs ! put_index free xs =
     (case first_index free xs of Some i \<Rightarrow> reuse i | None \<Rightarrow> grow (length xs))"
  by (auto simp: put_slot_def put_index_def split: option.split)

lemma put_slot_other:
  "i < length xs \<Longrightarrow> i \<noteq> put_index free xs \<Longrightarrow> put_slot free reuse grow xs ! i = xs ! i"
  by (auto simp: put_slot_def put_index_def nth_append split: option.splits)

lemma set_put_slot:
  "set (put_slot free reuse grow xs) \<subseteq>
     insert (case first_index free xs of Some i \<Rightarrow> reuse i | None \<Rightarrow> grow (length xs)) (set xs)"
  by (auto simp: put_slot_def split: option.split dest: set_update_subsetD)

subsection \<open>The interface\<close>

text \<open>
  \<open>tab s\<close> is the table of the state \<open>s\<close>, \<open>ins x s\<close> the state after \<open>x\<close> was inserted, \<open>stored x s\<close>
  the record that then stands for \<open>x\<close>; \<open>live\<close> tells the slots in use. The laws: an insertion
  the table accepts adds exactly that record to the records in use, and slots are never given
  back.
\<close>

locale slot_table =
  fixes tab :: "'s \<Rightarrow> 'a list"
    and ins :: "'x \<Rightarrow> 's \<Rightarrow> 's"
    and stored :: "'x \<Rightarrow> 's \<Rightarrow> 'a"
    and live :: "'a \<Rightarrow> bool"
    and accepts :: "'x \<Rightarrow> 's \<Rightarrow> bool"
  assumes ins_live: "accepts x s \<Longrightarrow>
      mset (filter live (tab (ins x s))) = add_mset (stored x s) (mset (filter live (tab s)))"
    and ins_grows: "length (tab s) \<le> length (tab (ins x s))"
begin

lemma live_set:
  "accepts x s \<Longrightarrow>
   {e \<in> set (tab (ins x s)). live e} = insert (stored x s) {e \<in> set (tab s). live e}"
  using arg_cong [OF ins_live, of x s set_mset] by simp

lemma stored_live: "accepts x s \<Longrightarrow> live (stored x s)"
  using live_set [of x s] by blast

lemma stored_in: "accepts x s \<Longrightarrow> stored x s \<in> set (tab (ins x s))"
  using live_set [of x s] by blast

lemma live_kept: "accepts x s \<Longrightarrow> e \<in> set (tab s) \<Longrightarrow> live e \<Longrightarrow> e \<in> set (tab (ins x s))"
  using live_set [of x s] by blast

lemma live_only:
  "accepts x s \<Longrightarrow> e \<in> set (tab (ins x s)) \<Longrightarrow> live e \<Longrightarrow> e = stored x s \<or> e \<in> set (tab s)"
  using live_set [of x s] by blast

lemma live_count:
  "accepts x s \<Longrightarrow> length (filter live (tab (ins x s))) = Suc (length (filter live (tab s)))"
  using arg_cong [OF ins_live, of x s size] by (simp flip: mset_filter)

text \<open>A whole batch of insertions, one after the other.\<close>

lemma batch_grows: "length (tab s) \<le> length (tab (fold ins xs s))"
  by (induction xs arbitrary: s) (auto intro: order.trans [OF ins_grows])

lemma batch_count:
  "(\<And>x s. accepts x s) \<Longrightarrow>
   length (filter live (tab (fold ins xs s))) = length xs + length (filter live (tab s))"
  by (induction xs arbitrary: s) (simp_all add: live_count)

end

subsection \<open>Tables searched by a key\<close>

text \<open>
  The groups of a tasker, the connections of a connector and the files of a logger are vectors
  whose records carry a name; an operation looks for the first record of that name and either
  writes it back or appends a new one. What the clients see is a map from names to records.
\<close>

locale keyed_table =
  fixes tab :: "'s \<Rightarrow> 'a list"
    and key :: "'a \<Rightarrow> 'k"
    and look :: "'k \<Rightarrow> 's \<Rightarrow> nat option"
    and put :: "nat \<Rightarrow> 'a \<Rightarrow> 's \<Rightarrow> 's"
    and push :: "'a \<Rightarrow> 's \<Rightarrow> 's"
  assumes look_first: "look k s = first_index (\<lambda>x. key x = k) (tab s)"
    and tab_put: "tab (put i x s) = (tab s)[i := x]"
    and tab_push: "tab (push x s) = tab s @ [x]"
begin

definition view :: "'s \<Rightarrow> 'k \<Rightarrow> 'a option" where
  "view s k = map_option (\<lambda>i. tab s ! i) (look k s)"

lemma look_lt: "look k s = Some i \<Longrightarrow> i < length (tab s)"
  by (auto simp: look_first)

lemma look_key: "look k s = Some i \<Longrightarrow> key (tab s ! i) = k"
  using first_index_holds by (fastforce simp: look_first)

lemma view_None: "view s k = None \<longleftrightarrow> k \<notin> key ` set (tab s)"
  by (auto simp: view_def look_first search_simps)

lemma view_key: "view s k = Some x \<Longrightarrow> key x = k"
  by (auto simp: view_def dest: look_key)

lemma look_put:
  assumes "look k s = Some i" "key x = k"
  shows "look k' (put i x s) = look k' s"
proof -
  have "first_index (\<lambda>x. key x = k') ((tab s)[i := x]) = first_index (\<lambda>x. key x = k') (tab s)"
  proof (cases "k' = k")
    case True
    with assms show ?thesis by (auto simp: look_first first_index_update_same)
  next
    case False
    with assms look_key [OF assms(1)] show ?thesis by (simp add: first_index_update_other)
  qed
  then show ?thesis by (simp add: look_first tab_put)
qed

lemma view_put:
  assumes "look k s = Some i" "key x = k"
  shows "view (put i x s) = (view s)(k \<mapsto> x)"
proof
  fix k'
  show "view (put i x s) k' = ((view s)(k \<mapsto> x)) k'"
  proof (cases "k' = k")
    case True
    then show ?thesis
      using look_put [OF assms] assms look_lt by (simp add: view_def tab_put)
  next
    case False
    then have "j \<noteq> i" if "look k' s = Some j" for j
      using that look_key [OF assms(1)] look_key by blast
    with False show ?thesis
      using look_put [OF assms] by (cases "look k' s") (simp_all add: view_def tab_put)
  qed
qed

lemma look_push:
  assumes "look (key x) s = None"
  shows "look k (push x s) = (if k = key x then Some (length (tab s)) else look k s)"
proof -
  have fi: "first_index P (xs @ [y]) =
      (case first_index P xs of Some i \<Rightarrow> Some i | None \<Rightarrow> if P y then Some (length xs) else None)"
    for P and xs :: "'a list" and y
    by (induction xs) (auto split: option.split)
  show ?thesis using assms by (auto simp: look_first tab_push fi split: option.split)
qed

lemma view_push:
  assumes "look (key x) s = None"
  shows "view (push x s) = (view s)(key x \<mapsto> x)"
proof
  fix k
  show "view (push x s) k = ((view s)(key x \<mapsto> x)) k"
    using look_push [OF assms, of k] look_lt [of k s]
    by (cases "look k s") (auto simp: view_def tab_push nth_append split: if_splits)
qed

lemma keys_put:
  assumes "look k s = Some i" "key x = k"
  shows "map key (tab (put i x s)) = map key (tab s)"
  using look_key [OF assms(1)] look_lt [OF assms(1)] assms(2)
  by (simp add: tab_put map_update list_update_same_conv)

lemma distinct_push:
  "look (key x) s = None \<Longrightarrow> distinct (map key (tab s)) \<Longrightarrow> distinct (map key (tab (push x s)))"
  using view_None [of s "key x"] by (auto simp: tab_push view_def)

end

end
