(* ===== verification/Json_Sample.thy ===== *)
theory Json_Sample
  imports Json_Api "HOL-Library.AList"
begin

section \<open>An instance of the JSON interface\<close>

text \<open>
  A concrete \<open>json_lib\<close> at which the properties that take the JSON library as a parameter are
  evaluated, and a proof that the access laws assumed of the library are satisfiable. It is no
  model of \<open>nlohmann::json\<close>: numbers are integers, texts are printed without escapes, and the
  parser recognises the texts of a given list of values.
\<close>

datatype sj = SNull | SInt int | SStr string | SArr "sj list" | SObj "(string \<times> sj) list"

fun sj_index :: "sj \<Rightarrow> jkey \<Rightarrow> (sj \<times> sj) option" where
  "sj_index (SObj kvs) (K k) =
     (case map_of kvs k of
        Some v \<Rightarrow> Some (SObj kvs, v)
      | None \<Rightarrow> Some (SObj (AList.update k SNull kvs), SNull))"
| "sj_index SNull (K k) = Some (SObj [(k, SNull)], SNull)"
| "sj_index (SArr xs) (N i) =
     (if i < length xs then Some (SArr xs, xs ! i)
      else Some (SArr (xs @ replicate (Suc i - length xs) SNull), SNull))"
| "sj_index SNull (N i) = Some (SArr (replicate (Suc i) SNull), SNull)"
| "sj_index _ _ = None"

fun sj_store :: "sj \<Rightarrow> jkey \<Rightarrow> sj \<Rightarrow> sj" where
  "sj_store (SObj kvs) (K k) v = SObj (AList.update k v kvs)"
| "sj_store (SArr xs) (N i) v = SArr (xs[i := v])"
| "sj_store c _ _ = c"

fun sj_contains :: "sj \<Rightarrow> string \<Rightarrow> bool" where
  "sj_contains (SObj kvs) k = (map_of kvs k \<noteq> None)"
| "sj_contains _ _ = False"

fun sj_size :: "sj \<Rightarrow> nat" where
  "sj_size SNull = 0"
| "sj_size (SArr xs) = length xs"
| "sj_size (SObj kvs) = length kvs"
| "sj_size _ = 1"

fun sj_clear :: "sj \<Rightarrow> sj" where
  "sj_clear SNull = SNull"
| "sj_clear (SInt i) = SInt 0"
| "sj_clear (SStr s) = SStr ''''"
| "sj_clear (SArr xs) = SArr []"
| "sj_clear (SObj kvs) = SObj []"

fun sj_reverse :: "sj \<Rightarrow> sj" where
  "sj_reverse (SArr xs) = SArr (rev xs)"
| "sj_reverse v = v"

fun sj_get_str :: "sj \<Rightarrow> string option" where
  "sj_get_str (SStr s) = Some s"
| "sj_get_str _ = None"

fun sj_get_int :: "sj \<Rightarrow> int option" where
  "sj_get_int (SInt i) = Some i"
| "sj_get_int _ = None"

definition quoted :: "string \<Rightarrow> string" where
  "quoted s = CHR 0x22 # s @ [CHR 0x22]"

fun commas :: "string list \<Rightarrow> string" where
  "commas [] = ''''"
| "commas [s] = s"
| "commas (s # t # ss) = s @ '','' @ commas (t # ss)"

fun sj_dump :: "sj \<Rightarrow> string" where
  "sj_dump SNull = ''null''"
| "sj_dump (SInt i) = to_string i"
| "sj_dump (SStr s) = quoted s"
| "sj_dump (SArr xs) = ''['' @ commas (map sj_dump xs) @ '']''"
| "sj_dump (SObj kvs) = ''{'' @ commas (map (\<lambda>(k, v). quoted k @ '':'' @ sj_dump v) kvs) @ ''}''"

definition sample_json :: "sj list \<Rightarrow> sj json_lib" where
  "sample_json known =
     \<lparr>j_null = SNull, j_str = SStr, j_int = SInt, j_index = sj_index, j_store = sj_store,
      j_contains = sj_contains, j_size = sj_size, j_empty = (\<lambda>v. sj_size v = 0),
      j_clear = sj_clear, j_reverse = sj_reverse, j_eq_str = (\<lambda>v s. v = SStr s),
      j_get_str = sj_get_str, j_get_int = sj_get_int, j_dump = (\<lambda>v. Some (sj_dump v)),
      j_parse = (\<lambda>s. find (\<lambda>v. sj_dump v = s) known)\<rparr>"

lemma sample_json_simps [simp]:
  "j_null (sample_json known) = SNull" "j_str (sample_json known) = SStr"
  "j_int (sample_json known) = SInt" "j_index (sample_json known) = sj_index"
  "j_store (sample_json known) = sj_store" "j_contains (sample_json known) = sj_contains"
  "j_size (sample_json known) = sj_size" "j_empty (sample_json known) v = (sj_size v = 0)"
  "j_clear (sample_json known) = sj_clear" "j_reverse (sample_json known) = sj_reverse"
  "j_eq_str (sample_json known) v s = (v = SStr s)"
  "j_get_str (sample_json known) = sj_get_str" "j_get_int (sample_json known) = sj_get_int"
  "j_dump (sample_json known) v = Some (sj_dump v)"
  "j_parse (sample_json known) t = find (\<lambda>v. sj_dump v = t) known"
  by (simp_all add: sample_json_def)

lemma update_same: "map_of kvs k = Some v \<Longrightarrow> AList.update k v kvs = kvs"
  by (induction kvs) (auto split: if_splits)

lemma update_again: "AList.update k v (AList.update k w kvs) = AList.update k v kvs"
  by (induction kvs) auto

lemma replicate_update [simp]: "(replicate n x)[i := x] = replicate n x"
proof -
  have "list_update (replicate n x) i (replicate n x ! i) = replicate n x" if "i < n"
    by (rule list_update_id)
  then show ?thesis
    by (cases "i < n") (simp_all add: list_update_beyond)
qed

lemma sj_index_stable:
  "sj_index c k = Some (c', e) \<Longrightarrow> sj_index c' k = Some (c', e) \<and> sj_store c' k e = c'"
  by (induction c k rule: sj_index.induct)
    (auto split: option.splits if_splits simp: update_same update_again update_conv' nth_append
      list_update_append simp del: replicate_Suc)

lemma sj_index_store:
  "sj_index c k = Some (c', e) \<Longrightarrow>
   sj_index (sj_store c' k v) k = Some (sj_store c' k v, v)"
  by (induction c k rule: sj_index.induct)
    (auto split: option.splits if_splits simp: update_conv' nth_append list_update_append
      simp del: replicate_Suc)

lemma sj_contains_store:
  "sj_index c (K k) = Some (c', e) \<Longrightarrow> sj_contains (sj_store c' (K k) v) k"
  by (cases c) (auto split: option.splits simp: update_conv')

lemma sj_contains_keeps:
  "sj_index c k = Some (c', e) \<Longrightarrow> sj_contains c m \<Longrightarrow> sj_contains (sj_store c' k v) m"
  by (cases c; cases k) (auto split: option.splits if_splits simp: update_conv')

lemma sample_access_laws: "json_access_laws (sample_json known)"
proof -
  have "\<exists>e. sj_index c (K k) = Some (c, e)" if "sj_contains c k" for c k
    using that by (cases c) auto
  then show ?thesis
    unfolding json_access_laws_def
    by (simp add: sample_json_def sj_index_store sj_contains_store sj_contains_keeps)
       (metis sj_index_stable)
qed

end
