(* ===== verification/Connector_Queues.thy ===== *)
theory Connector_Queues
  imports Json_Api Slots Json_Sample
begin

section \<open>The connector's queues: \<open>manager_task\<close> and \<open>manager_returns\<close>\<close>

text \<open>
  The model of the two queue classes of \<open>connector_manager.h\<close>. \<open>manager_task\<close> buffers the tasks
  the last polls returned until the worker takes them; every task has a mark (\<open>note\<close>) that says
  whether the current poll has listed it. \<open>manager_returns\<close> keeps the callbacks of requests
  whose replies are outstanding. Callbacks are C function pointers, values of a type \<open>'cb\<close>; the
  calls an operation makes are returned as a list, with \<open>None\<close> for a call through a null pointer.
\<close>

subsection \<open>\<open>manager_task\<close>\<close>

record 'j task =
  tk_json :: 'j
  tk_note :: bool
  tk_empty :: bool

type_synonym 'j task_buffer = "'j task list"

definition default_task :: "'j json_lib \<Rightarrow> 'j task" where
  "default_task J = \<lparr>tk_json = j_null J, tk_note = False, tk_empty = True\<rparr>"

definition init_task :: "'j json_lib \<Rightarrow> 'j task \<Rightarrow> 'j task" where
  "init_task J t = t\<lparr>tk_json := j_clear J (tk_json t), tk_note := False, tk_empty := True\<rparr>"

definition new_manager_task :: "'j json_lib \<Rightarrow> 'j task_buffer" where
  "new_manager_task J = replicate 25 (default_task J)"

text \<open>
  \<open>add\<close> sets \<open>empty = false\<close> only when it has found a slot: what it pushes to the end of a full
  buffer is still marked empty.
\<close>

definition mt_add :: "'j \<Rightarrow> 'j task_buffer \<Rightarrow> 'j task_buffer" where
  "mt_add json buffer =
     (let ev = \<lparr>tk_json = json, tk_note = True, tk_empty = True\<rparr> in
      case first_index tk_empty buffer of
        Some i \<Rightarrow> buffer[i := ev\<lparr>tk_empty := False\<rparr>]
      | None \<Rightarrow> buffer @ [ev])"

fun mt_check_id :: "'j json_lib \<Rightarrow> string \<Rightarrow> 'j task_buffer \<Rightarrow> bool result \<times> 'j task_buffer" where
  "mt_check_id J i [] = (Inr False, [])"
| "mt_check_id J i (t # ts) =
     (if \<not> tk_empty t then
        (case j_index J (tk_json t) (K ''id'') of
           None \<Rightarrow> (Inl Json_type_error, t # ts)
         | Some (js, v) \<Rightarrow>
             if j_eq_str J v i then (Inr True, t\<lparr>tk_json := js, tk_note := True\<rparr> # ts)
             else (case mt_check_id J i ts of (r, ts') \<Rightarrow> (r, t\<lparr>tk_json := js\<rparr> # ts')))
      else (case mt_check_id J i ts of (r, ts') \<Rightarrow> (r, t # ts')))"

definition mt_get_task :: "'j json_lib \<Rightarrow> 'j task_buffer \<Rightarrow> 'j" where
  "mt_get_task J buffer =
     (case first_index (\<lambda>t. \<not> tk_empty t) buffer of
        Some i \<Rightarrow> tk_json (buffer ! i) | None \<Rightarrow> j_null J)"

definition mt_delete_notnote :: "'j json_lib \<Rightarrow> 'j task_buffer \<Rightarrow> 'j task_buffer" where
  "mt_delete_notnote J buffer =
     map (\<lambda>t. if \<not> tk_empty t \<and> tk_note t = False then init_task J t else t) buffer"

definition mt_note_all :: "'j task_buffer \<Rightarrow> 'j task_buffer" where
  "mt_note_all buffer = map (\<lambda>t. if \<not> tk_empty t then t\<lparr>tk_note := False\<rparr> else t) buffer"

fun mt_delete_object :: "'j json_lib \<Rightarrow> string \<Rightarrow> 'j task_buffer \<Rightarrow> unit result \<times> 'j task_buffer" where
  "mt_delete_object J i [] = (Inr (), [])"
| "mt_delete_object J i (t # ts) =
     (if \<not> tk_empty t then
        (case j_index J (tk_json t) (K ''id'') of
           None \<Rightarrow> (Inl Json_type_error, t # ts)
         | Some (js, v) \<Rightarrow>
             if j_eq_str J v i then (Inr (), init_task J (t\<lparr>tk_json := js\<rparr>) # ts)
             else (case mt_delete_object J i ts of (r, ts') \<Rightarrow> (r, t\<lparr>tk_json := js\<rparr> # ts')))
      else (case mt_delete_object J i ts of (r, ts') \<Rightarrow> (r, t # ts')))"

subsection \<open>\<open>manager_returns\<close>\<close>

record ('j, 'cb) return_data =
  rd_json_send :: 'j
  rd_server_hash :: string
  rd_respon_id :: int
  rd_callback :: "'cb option"

definition default_return_data :: "'j json_lib \<Rightarrow> ('j, 'cb) return_data" where
  "default_return_data J =
     \<lparr>rd_json_send = j_null J, rd_server_hash = '''', rd_respon_id = -1, rd_callback = None\<rparr>"

definition init_return_data :: "'j json_lib \<Rightarrow> ('j, 'cb) return_data \<Rightarrow> ('j, 'cb) return_data" where
  "init_return_data J d =
     d\<lparr>rd_callback := None, rd_json_send := j_clear J (rd_json_send d), rd_respon_id := -1,
       rd_server_hash := ''''\<rparr>"

definition new_manager_returns :: "'j json_lib \<Rightarrow> ('j, 'cb) return_data list" where
  "new_manager_returns J = replicate 25 (default_return_data J)"

definition mr_add ::
    "('j, 'cb) return_data \<Rightarrow> ('j, 'cb) return_data list \<Rightarrow> ('j, 'cb) return_data list" where
  "mr_add d returns =
     (case first_index (\<lambda>r. rd_respon_id r = -1) returns of
        Some i \<Rightarrow> returns[i := d]
      | None \<Rightarrow> returns @ [d])"

definition mr_matches :: "int \<Rightarrow> string \<Rightarrow> ('j, 'cb) return_data \<Rightarrow> bool" where
  "mr_matches respon_id server_hash r \<longleftrightarrow>
     rd_respon_id r = respon_id \<and> rd_server_hash r = server_hash"

fun mr_call ::
    "'j json_lib \<Rightarrow> int \<Rightarrow> string \<Rightarrow> 'j \<Rightarrow> ('j, 'cb) return_data list \<Rightarrow>
     ('cb option \<times> 'j \<times> 'j) list \<times> ('j, 'cb) return_data list" where
  "mr_call J respon_id server_hash answer [] = ([], [])"
| "mr_call J respon_id server_hash answer (r # rs) =
     (case mr_call J respon_id server_hash answer rs of
        (calls, rs') \<Rightarrow>
          if mr_matches respon_id server_hash r
          then ((rd_callback r, rd_json_send r, answer) # calls, init_return_data J r # rs')
          else (calls, r # rs'))"

definition mr_check :: "int \<Rightarrow> string \<Rightarrow> ('j, 'cb) return_data list \<Rightarrow> bool" where
  "mr_check respon_id server_hash returns \<longleftrightarrow> list_ex (mr_matches respon_id server_hash) returns"

definition mr_delete_object ::
    "('j, 'cb) return_data \<Rightarrow> ('j, 'cb) return_data list \<Rightarrow> ('j, 'cb) return_data list" where
  "mr_delete_object d returns =
     (case first_index (\<lambda>r. rd_respon_id r = rd_respon_id d) returns of
        Some i \<Rightarrow> returns[i := (returns ! i)\<lparr>rd_respon_id := -1\<rparr>]
      | None \<Rightarrow> returns)"

subsection \<open>Both are slot tables\<close>

lemma mt_add_slot:
  "mt_add json b = put_slot tk_empty
     (\<lambda>_. \<lparr>tk_json = json, tk_note = True, tk_empty = False\<rparr>)
     (\<lambda>_. \<lparr>tk_json = json, tk_note = True, tk_empty = True\<rparr>) b"
  by (simp add: mt_add_def put_slot_def Let_def split: option.split)

text \<open>The task buffer accepts a task only while it has an empty slot.\<close>

interpretation tt: slot_table "\<lambda>b. b" mt_add
    "\<lambda>json b. \<lparr>tk_json = json, tk_note = True, tk_empty = False\<rparr>" "\<lambda>t. \<not> tk_empty t"
    "\<lambda>json b. list_ex tk_empty b"
proof (unfold_locales, goal_cases)
  case (1 json b)
  then obtain i where i: "first_index tk_empty b = Some i"
    by (cases "first_index tk_empty b") (auto simp: search_simps list_ex_iff)
  from first_index_SomeD [OF i] i
    mset_filter_update [of i b "\<lambda>t. \<not> tk_empty t" "\<lparr>tk_json = json, tk_note = True, tk_empty = False\<rparr>"]
  show ?case by (simp add: mt_add_def)
next
  case (2 b json)
  then show ?case by (simp add: mt_add_slot put_slot_length)
qed

interpretation rt: slot_table "\<lambda>r. r" mr_add "\<lambda>d r. d" "\<lambda>d. rd_respon_id d \<noteq> -1"
    "\<lambda>d r. rd_respon_id d \<noteq> -1"
proof (unfold_locales, goal_cases)
  case (1 d r)
  have "mr_add d r = put_slot (\<lambda>s. \<not> rd_respon_id s \<noteq> -1) (\<lambda>_. d) (\<lambda>_. d) r"
    by (simp add: mr_add_def put_slot_def split: option.split)
  with 1 show ?case using put_slot_live_same [of "\<lambda>s. rd_respon_id s \<noteq> -1" d r] by simp
next
  case (2 r d)
  then show ?case by (simp add: mr_add_def split: option.split)
qed

subsection \<open>A poll cycle\<close>

text \<open>
  What \<open>getevent\<close> does to the buffer with the tasks of one answer: each task already buffered is
  marked, each new one added, then what is not marked is deleted and the marks are cleared.
\<close>

fun mt_receive ::
    "'j json_lib \<Rightarrow> (string \<times> 'j) list \<Rightarrow> 'j task_buffer \<Rightarrow> unit result \<times> 'j task_buffer" where
  "mt_receive J [] b = (Inr (), b)"
| "mt_receive J ((i, json) # items) b =
     (case mt_check_id J i b of
        (Inl x, b') \<Rightarrow> (Inl x, b')
      | (Inr known, b') \<Rightarrow> mt_receive J items (if known then b' else mt_add json b'))"

definition mt_cycle ::
    "'j json_lib \<Rightarrow> (string \<times> 'j) list \<Rightarrow> 'j task_buffer \<Rightarrow> unit result \<times> 'j task_buffer" where
  "mt_cycle J items b =
     (case mt_receive J items b of
        (Inl x, b') \<Rightarrow> (Inl x, b')
      | (Inr u, b') \<Rightarrow> (Inr u, mt_note_all (mt_delete_notnote J b')))"

text \<open>A value whose \<open>id\<close> is the string \<open>i\<close>.\<close>

definition has_id :: "'j json_lib \<Rightarrow> 'j \<Rightarrow> string \<Rightarrow> bool" where
  "has_id J json i \<longleftrightarrow>
     (\<exists>v. j_index J json (K ''id'') = Some (json, v) \<and> (\<forall>s. j_eq_str J v s = (s = i)))"

definition ident :: "'j json_lib \<Rightarrow> 'j \<Rightarrow> string" where
  "ident J json = (case j_index J json (K ''id'') of
     Some (c, v) \<Rightarrow> (case j_get_str J v of Some s \<Rightarrow> s | None \<Rightarrow> '''') | None \<Rightarrow> '''')"

definition ids_ok :: "'j json_lib \<Rightarrow> 'j task_buffer \<Rightarrow> bool" where
  "ids_ok J b \<longleftrightarrow> (\<forall>t \<in> set b. \<not> tk_empty t \<longrightarrow> (\<exists>i. has_id J (tk_json t) i))"

definition live_ids :: "'j json_lib \<Rightarrow> 'j task_buffer \<Rightarrow> string set" where
  "live_ids J b = {i. \<exists>t \<in> set b. \<not> tk_empty t \<and> has_id J (tk_json t) i}"

definition marked_ids :: "'j json_lib \<Rightarrow> 'j task_buffer \<Rightarrow> string set" where
  "marked_ids J b = {i. \<exists>t \<in> set b. \<not> tk_empty t \<and> tk_note t \<and> has_id J (tk_json t) i}"

lemma has_id_unique: "has_id J json i \<Longrightarrow> has_id J json k \<Longrightarrow> i = k"
  by (auto simp: has_id_def)

lemma ids_Nil [simp]: "live_ids J [] = {}" "marked_ids J [] = {}"
  by (simp_all add: live_ids_def marked_ids_def)

lemma ids_Cons_empty [simp]:
  "tk_empty t \<Longrightarrow> live_ids J (t # ts) = live_ids J ts"
  "tk_empty t \<Longrightarrow> marked_ids J (t # ts) = marked_ids J ts"
  by (auto simp: live_ids_def marked_ids_def)

lemma ids_Cons_live:
  assumes "\<not> tk_empty t" "has_id J (tk_json t) k"
  shows "live_ids J (t # ts) = insert k (live_ids J ts)"
    and "marked_ids J (t # ts) = (if tk_note t then insert k (marked_ids J ts) else marked_ids J ts)"
proof -
  have u: "has_id J (tk_json t) i \<longleftrightarrow> i = k" for i
    using has_id_unique [OF assms(2), of i] assms(2) by auto
  show "live_ids J (t # ts) = insert k (live_ids J ts)"
    "marked_ids J (t # ts) = (if tk_note t then insert k (marked_ids J ts) else marked_ids J ts)"
    using assms(1) by (auto simp: live_ids_def marked_ids_def u)
qed

text \<open>On a buffer with proper ids, \<open>check_id\<close> finds an id exactly when it is buffered.\<close>

lemma check_id_found:
  assumes "ids_ok J b"
  shows "fst (mt_check_id J i b) = Inr (i \<in> live_ids J b)"
  using assms
proof (induction b)
  case (Cons t ts)
  then have ih: "fst (mt_check_id J i ts) = Inr (i \<in> live_ids J ts)"
    by (simp add: ids_ok_def)
  show ?case
  proof (cases "tk_empty t")
    case True
    with ih show ?thesis by (simp add: case_prod_beta)
  next
    case False
    with Cons.prems obtain k where k: "has_id J (tk_json t) k" by (auto simp: ids_ok_def)
    then obtain v where "j_index J (tk_json t) (K ''id'') = Some (tk_json t, v)"
        "\<And>s. j_eq_str J v s = (s = k)" by (auto simp: has_id_def)
    with False ih ids_Cons_live(1) [OF False k] show ?thesis by (simp add: case_prod_beta)
  qed
qed simp

text \<open>It changes nothing but the mark of one task of that id.\<close>

lemma check_id_frame:
  assumes "ids_ok J b"
  shows "map (\<lambda>t. (tk_json t, tk_empty t)) (snd (mt_check_id J i b)) =
      map (\<lambda>t. (tk_json t, tk_empty t)) b"
    and "marked_ids J (snd (mt_check_id J i b)) =
      (if i \<in> live_ids J b then insert i (marked_ids J b) else marked_ids J b)"
proof -
  have "map (\<lambda>t. (tk_json t, tk_empty t)) (snd (mt_check_id J i b)) =
      map (\<lambda>t. (tk_json t, tk_empty t)) b \<and>
    marked_ids J (snd (mt_check_id J i b)) =
      (if i \<in> live_ids J b then insert i (marked_ids J b) else marked_ids J b)"
    using assms
  proof (induction b)
    case (Cons t ts)
    then have ih: "map (\<lambda>t. (tk_json t, tk_empty t)) (snd (mt_check_id J i ts)) =
        map (\<lambda>t. (tk_json t, tk_empty t)) ts"
      "marked_ids J (snd (mt_check_id J i ts)) =
        (if i \<in> live_ids J ts then insert i (marked_ids J ts) else marked_ids J ts)"
      by (simp_all add: ids_ok_def)
    show ?case
    proof (cases "tk_empty t")
      case True
      with ih show ?thesis by (simp add: case_prod_beta)
    next
      case False
      with Cons.prems obtain k where k: "has_id J (tk_json t) k" by (auto simp: ids_ok_def)
      then obtain v where v: "j_index J (tk_json t) (K ''id'') = Some (tk_json t, v)"
          "\<And>s. j_eq_str J v s = (s = k)" by (auto simp: has_id_def)
      have "has_id J (tk_json (t\<lparr>tk_note := True\<rparr>)) k" using k by simp
      note marked = ids_Cons_live(2) [OF _ this]
      show ?thesis
        using False v ih k ids_Cons_live [OF False k] marked
        by (auto simp: case_prod_beta)
    qed
  qed simp
  then show "map (\<lambda>t. (tk_json t, tk_empty t)) (snd (mt_check_id J i b)) =
      map (\<lambda>t. (tk_json t, tk_empty t)) b"
    and "marked_ids J (snd (mt_check_id J i b)) =
      (if i \<in> live_ids J b then insert i (marked_ids J b) else marked_ids J b)"
    by blast+
qed

text \<open>Adding a new task, deleting the unmarked ones, clearing the marks.\<close>

lemma ids_as_sets:
  assumes "map (\<lambda>t. (tk_json t, tk_empty t)) b' = map (\<lambda>t. (tk_json t, tk_empty t)) b"
  shows "ids_ok J b' = ids_ok J b" "live_ids J b' = live_ids J b"
    "list_ex tk_empty b' = list_ex tk_empty b"
    "length (filter tk_empty b') = length (filter tk_empty b)"
proof -
  let ?f = "\<lambda>t. (tk_json t, tk_empty t)"
  have "ids_ok J c \<longleftrightarrow> (\<forall>p \<in> set (map ?f c). \<not> snd p \<longrightarrow> (\<exists>i. has_id J (fst p) i))"
    "live_ids J c = {i. \<exists>p \<in> set (map ?f c). \<not> snd p \<and> has_id J (fst p) i}"
    "list_ex tk_empty c \<longleftrightarrow> list_ex snd (map ?f c)"
    "length (filter tk_empty c) = length (filter snd (map ?f c))" for c :: "'a task_buffer"
    by (simp_all add: ids_ok_def live_ids_def list_ex_iff filter_map comp_def)
  then show "ids_ok J b' = ids_ok J b" "live_ids J b' = live_ids J b"
    "list_ex tk_empty b' = list_ex tk_empty b"
    "length (filter tk_empty b') = length (filter tk_empty b)"
    by (simp_all only: assms)
qed

lemma add_ids:
  assumes "list_ex tk_empty b" "has_id J json i"
  shows "live_ids J (mt_add json b) = insert i (live_ids J b)"
    and "marked_ids J (mt_add json b) = insert i (marked_ids J b)"
proof -
  let ?t = "\<lparr>tk_json = json, tk_note = True, tk_empty = False\<rparr>"
  have s: "{t \<in> set (mt_add json b). \<not> tk_empty t} = insert ?t {t \<in> set b. \<not> tk_empty t}"
    using tt.live_set [where x = json and s = b] assms(1) by simp
  have "has_id J json k \<longleftrightarrow> k = i" for k
    using has_id_unique [OF assms(2), of k] assms(2) by auto
  then have u: "Collect (has_id J json) = {i}" by blast
  have "live_ids J c = (\<Union>t \<in> {t \<in> set c. \<not> tk_empty t}. {k. has_id J (tk_json t) k})" 
       "marked_ids J c = (\<Union>t \<in> {t \<in> set c. \<not> tk_empty t}. {k. tk_note t \<and> has_id J (tk_json t) k})"
    for c by (auto simp: live_ids_def marked_ids_def)
  then show "live_ids J (mt_add json b) = insert i (live_ids J b)"
    "marked_ids J (mt_add json b) = insert i (marked_ids J b)"
    by (simp_all only: s) (simp_all add: u)
qed

lemma add_ids_ok: "ids_ok J b \<Longrightarrow> has_id J json i \<Longrightarrow> ids_ok J (mt_add json b)"
  by (auto simp: ids_ok_def mt_add_def Let_def split: option.split dest!: set_update_subsetD)

lemma add_room:
  assumes "list_ex tk_empty b"
  shows "Suc (length (filter tk_empty (mt_add json b))) = length (filter tk_empty b)"
proof -
  obtain i where i: "first_index tk_empty b = Some i"
    using assms by (cases "first_index tk_empty b") (auto simp: search_simps list_ex_iff)
  then have "mset (filter tk_empty (mt_add json b)) + {#b ! i#} = mset (filter tk_empty b)"
    using mset_filter_update [of i b tk_empty "\<lparr>tk_json = json, tk_note = True, tk_empty = False\<rparr>"]
      first_index_SomeD [OF i]
    by (simp add: mt_add_def)
  from arg_cong [OF this, of size] show ?thesis by (simp flip: mset_filter)
qed

lemma cleanup_ids:
  "live_ids J (mt_note_all (mt_delete_notnote J b)) = marked_ids J b"
  "marked_ids J (mt_note_all (mt_delete_notnote J b)) = {}"
proof -
  have "live_ids J (mt_note_all (mt_delete_notnote J b)) = marked_ids J b \<and>
    marked_ids J (mt_note_all (mt_delete_notnote J b)) = {}"
  proof (induction b)
    case (Cons t ts)
    have l: "live_ids J (t # ts) = (if tk_empty t then {} else {i. has_id J (tk_json t) i}) \<union> live_ids J ts"
      and m: "marked_ids J (t # ts) =
        (if tk_empty t \<or> \<not> tk_note t then {} else {i. has_id J (tk_json t) i}) \<union> marked_ids J ts"
      for t and ts :: "'a task_buffer"
      by (auto simp: live_ids_def marked_ids_def)
    from Cons show ?case
      by (simp add: mt_note_all_def mt_delete_notnote_def init_task_def l m)
  qed (simp add: mt_note_all_def mt_delete_notnote_def)
  then show "live_ids J (mt_note_all (mt_delete_notnote J b)) = marked_ids J b"
    "marked_ids J (mt_note_all (mt_delete_notnote J b)) = {}" by blast+
qed

lemma receive_marks:
  assumes "ids_ok J b" "\<forall>(i, json) \<in> set items. has_id J json i"
    and "length items \<le> length (filter tk_empty b)"
  shows "fst (mt_receive J items b) = Inr () \<and>
    marked_ids J (snd (mt_receive J items b)) = marked_ids J b \<union> fst ` set items \<and>
    ids_ok J (snd (mt_receive J items b))"
  using assms
proof (induction items arbitrary: b)
  case (Cons item items)
  obtain i json where item: "item = (i, json)" by fastforce
  obtain r b' where c: "mt_check_id J i b = (r, b')" by fastforce
  have r: "r = Inr (i \<in> live_ids J b)" using check_id_found [OF Cons.prems(1), of i] c by simp
  note fr = check_id_frame [OF Cons.prems(1), of i, unfolded c snd_conv]
  note same = ids_as_sets [OF fr(1)]
  show ?case
  proof (cases "i \<in> live_ids J b")
    case True
    have "fst (mt_receive J items b') = Inr () \<and>
        marked_ids J (snd (mt_receive J items b')) = marked_ids J b' \<union> fst ` set items \<and>
        ids_ok J (snd (mt_receive J items b'))"
      using Cons.prems same by (intro Cons.IH) auto
    with True fr(2) item c r show ?thesis by auto
  next
    case False
    have "filter tk_empty b' \<noteq> []" using Cons.prems(3) same(4) item by (auto simp flip: length_0_conv)
    then have room: "list_ex tk_empty b'" by (auto simp: list_ex_iff filter_empty_conv)
    have hi: "has_id J json i" using Cons.prems(2) item by simp
    have "ids_ok J (mt_add json b')" using add_ids_ok [OF _ hi] same(1) Cons.prems(1) by simp
    moreover have "length items \<le> length (filter tk_empty (mt_add json b'))"
      using Cons.prems(3) add_room [OF room, of json] same(4) item by simp
    ultimately have "fst (mt_receive J items (mt_add json b')) = Inr () \<and>
        marked_ids J (snd (mt_receive J items (mt_add json b'))) =
          marked_ids J (mt_add json b') \<union> fst ` set items \<and>
        ids_ok J (snd (mt_receive J items (mt_add json b')))"
      using Cons.prems(2) by (intro Cons.IH) auto
    with False add_ids(2) [OF room hi] fr(2) item c r show ?thesis by auto
  qed
qed simp

text \<open>
  C16. A poll makes the buffer agree with the server: if every task listed carries its id and
  the buffer has an empty slot for each, then after the poll the ids in the buffer are exactly
  the ids listed, whatever was buffered before, and all marks are cleared for the next poll.
\<close>

theorem poll_cycle_agrees:
  assumes "ids_ok J b" "\<forall>t \<in> set b. tk_note t \<longrightarrow> tk_empty t"
    and "\<forall>(i, json) \<in> set items. has_id J json i"
    and "length items \<le> length (filter tk_empty b)"
  shows "fst (mt_cycle J items b) = Inr () \<and>
    live_ids J (snd (mt_cycle J items b)) = fst ` set items \<and>
    marked_ids J (snd (mt_cycle J items b)) = {}"
proof -
  have "marked_ids J b = {}" using assms(2) by (auto simp: marked_ids_def)
  with receive_marks [OF assms(1,3,4)] cleanup_ids [of J "snd (mt_receive J items b)"]
  show ?thesis by (simp add: mt_cycle_def case_prod_beta split: sum.split)
qed

text \<open>
  A task that arrives at a full buffer is lost: \<open>add\<close> appends it with its \<open>empty\<close> flag still
  set, so the tasks in use are the same as before.
\<close>

lemma full_buffer_loses_task:
  assumes "\<not> list_ex tk_empty b"
  shows "filter (\<lambda>t. \<not> tk_empty t) (mt_add json b) = filter (\<lambda>t. \<not> tk_empty t) b \<and>
    mt_get_task J (mt_add json b) = mt_get_task J b"
proof -
  have none: "first_index tk_empty b = None" using assms by (auto simp: search_simps list_ex_iff)
  have "first_index (\<lambda>t. \<not> tk_empty t) (b @ [u]) = first_index (\<lambda>t. \<not> tk_empty t) b"
    if "tk_empty u" for u using that by (induction b) auto
  with none show ?thesis
    by (auto simp: mt_add_def mt_get_task_def Let_def nth_append split: option.split)
qed

subsection \<open>Replies\<close>

text \<open>
  C17. A reply is delivered once: \<open>call\<close> invokes the callback of every pending request with that
  number and server hash, each with the JSON it was registered with and the answer, removes
  them, and keeps all others; a second reply with the same number invokes nothing.
\<close>

theorem reply_delivered_once:
  assumes "respon_id \<noteq> -1" "mr_call J respon_id server_hash answer returns = (calls, returns')"
  shows "calls = map (\<lambda>r. (rd_callback r, rd_json_send r, answer))
           (filter (mr_matches respon_id server_hash) returns) \<and>
    filter (\<lambda>r. rd_respon_id r \<noteq> -1) returns' =
      filter (\<lambda>r. rd_respon_id r \<noteq> -1 \<and> \<not> mr_matches respon_id server_hash r) returns \<and>
    \<not> mr_check respon_id server_hash returns' \<and>
    mr_call J respon_id server_hash answer' returns' = ([], returns')"
  using assms
proof (induction returns arbitrary: calls returns')
  case (Cons r rs)
  obtain c rs' where rs: "mr_call J respon_id server_hash answer rs = (c, rs')" by fastforce
  have ih: "c = map (\<lambda>r. (rd_callback r, rd_json_send r, answer))
         (filter (mr_matches respon_id server_hash) rs)"
    "filter (\<lambda>r. rd_respon_id r \<noteq> -1) rs' =
      filter (\<lambda>r. rd_respon_id r \<noteq> -1 \<and> \<not> mr_matches respon_id server_hash r) rs"
    "\<not> mr_check respon_id server_hash rs'"
    "mr_call J respon_id server_hash answer' rs' = ([], rs')"
    using Cons.IH [OF Cons.prems(1) rs] by auto
  have no: "\<not> mr_matches respon_id server_hash (init_return_data J r)"
    using Cons.prems(1) by (simp add: mr_matches_def init_return_data_def)
  show ?case
  proof (cases "mr_matches respon_id server_hash r")
    case True
    with Cons.prems rs have "calls = (rd_callback r, rd_json_send r, answer) # c"
      "returns' = init_return_data J r # rs'" by auto
    with True ih no show ?thesis by (simp add: mr_check_def init_return_data_def)
  next
    case False
    with Cons.prems rs have "calls = c" "returns' = r # rs'" by auto
    with False ih show ?thesis by (simp add: mr_check_def)
  qed
qed (simp add: mr_check_def)

subsection \<open>At concrete buffers\<close>

definition sample_id_task :: "string \<Rightarrow> sj" where
  "sample_id_task i = SObj [(''id'', SStr i), (''meta'', SObj [])]"

definition sample_buffer :: "sj task_buffer" where
  "sample_buffer =
     mt_note_all (mt_add (sample_id_task ''1'') (mt_add (sample_id_task ''0'')
       (replicate 3 (default_task (sample_json [])))))"

lemma sample_has_id: "has_id (sample_json []) (sample_id_task i) i"
  by (auto simp: has_id_def sample_id_task_def)

lemma sample_buffer_ok:
  "ids_ok (sample_json []) sample_buffer" "\<forall>t \<in> set sample_buffer. tk_note t \<longrightarrow> tk_empty t"
  "length (filter tk_empty sample_buffer) = 1"
  by (auto simp: ids_ok_def sample_buffer_def mt_add_def mt_note_all_def default_task_def
    numeral_3_eq_3 intro: sample_has_id)

lemma poll_cycle_agrees_witness:
  "live_ids (sample_json []) (snd (mt_cycle (sample_json [])
     [(''1'', sample_id_task ''1'')] sample_buffer)) = {''1''}"
  using poll_cycle_agrees [OF sample_buffer_ok(1,2), of "[(''1'', sample_id_task ''1'')]"]
    sample_has_id [of "''1''"] sample_buffer_ok(3)
  by simp

definition sample_full_buffer :: "sj task_buffer" where
  "sample_full_buffer = mt_add (sample_id_task ''2'') sample_buffer"

lemma full_buffer_loses_task_witness:
  "mt_get_task (sample_json []) (mt_add (sample_id_task ''3'') sample_full_buffer)
     = sample_id_task ''0''"
proof -
  have "\<not> list_ex tk_empty sample_full_buffer"
    "mt_get_task (sample_json []) sample_full_buffer = sample_id_task ''0''"
    by (simp_all add: sample_full_buffer_def sample_buffer_def mt_add_def mt_note_all_def
      mt_get_task_def default_task_def numeral_3_eq_3)
  then show ?thesis using full_buffer_loses_task by metis
qed

lemma reply_delivered_once_witness:
  "\<exists>d r. mr_call (sample_json []) 0 ''h'' (SInt 1) [d, d\<lparr>rd_respon_id := 3\<rparr>]
      = ([(Some (7 :: nat), SNull, SInt 1)], r)
    \<and> \<not> mr_check 0 ''h'' r"
proof -
  let ?d = "\<lparr>rd_json_send = SNull, rd_server_hash = ''h'', rd_respon_id = 0, rd_callback = Some (7 :: nat)\<rparr>"
  have "mr_call (sample_json []) 0 ''h'' (SInt 1) [?d, ?d\<lparr>rd_respon_id := 3\<rparr>] =
      ([(Some 7, SNull, SInt 1)], [init_return_data (sample_json []) ?d, ?d\<lparr>rd_respon_id := 3\<rparr>])"
    by (simp add: mr_matches_def)
  moreover have "\<not> mr_check 0 ''h'' [init_return_data (sample_json []) ?d, ?d\<lparr>rd_respon_id := 3\<rparr>]"
    using reply_delivered_once [OF _ calculation] by simp
  ultimately show ?thesis by blast
qed

end
