(* ===== verification/Curl.thy ===== *)
theory Curl
  imports Json_Api
begin

section \<open>The HTTP client: \<open>curl_wrapper\<close>\<close>

text \<open>
  The model of \<open>curl_wrapper.h\<close>. libcurl, the hosts it talks to and the clocks are outside the
  program; their state is a value of a type \<open>'w\<close>, and the calls that reach them are the fields
  of a record. What \<open>curl_easy_perform\<close> does is summed up by whether it returned \<open>CURLE_OK\<close>, the
  response code, and the chunks it handed to the write callback.
\<close>

record perform_result =
  pf_ok :: bool
  pf_code :: int
  pf_chunks :: "string list"

record 'w net =
  net_init :: "'w \<Rightarrow> nat option \<times> 'w"       \<comment> \<open>\<open>curl_easy_init\<close>: a handle, or NULL\<close>
  net_perform :: "string \<Rightarrow> string option \<Rightarrow> 'w \<Rightarrow> perform_result \<times> 'w"
                                              \<comment> \<open>GET or POST with a body\<close>
  net_now :: "'w \<Rightarrow> int \<times> 'w"               \<comment> \<open>\<open>high_resolution_clock::now\<close>, milliseconds\<close>
  net_sleep :: "nat \<Rightarrow> 'w \<Rightarrow> 'w"             \<comment> \<open>\<open>std::this_thread::sleep_for\<close>\<close>

text \<open>
  The thread's handle (a thread-local static of \<open>get_curl\<close>) and the handles to clean up.
\<close>

record curl_wrapper =
  cw_curl :: "nat option"
  curl_handels :: "nat option list"

definition new_curl_wrapper :: curl_wrapper where
  "new_curl_wrapper = \<lparr>cw_curl = None, curl_handels = []\<rparr>"

definition get_curl :: "'w net \<Rightarrow> curl_wrapper \<times> 'w \<Rightarrow> nat option \<times> curl_wrapper \<times> 'w" where
  "get_curl E s =
     (case s of (cw, w) \<Rightarrow>
        case cw_curl cw of
          Some h \<Rightarrow> (Some h, cw, w)
        | None \<Rightarrow>
            (case net_init E w of (h, w') \<Rightarrow>
               (h, cw\<lparr>cw_curl := h, curl_handels := curl_handels cw @ [h]\<rparr>, w')))"

text \<open>The handles the destructor passes to \<open>curl_easy_cleanup\<close>.\<close>

definition destroy_curl_wrapper :: "curl_wrapper \<Rightarrow> nat list" where
  "destroy_curl_wrapper cw = List.map_filter (\<lambda>h. h) (curl_handels cw)"

text \<open>\<open>c_str\<close>: what a C function sees of a \<open>std::string\<close>.\<close>

definition c_str :: "string \<Rightarrow> string" where
  "c_str s = takeWhile (\<lambda>c. c \<noteq> NUL) s"

definition write_callback :: "string \<Rightarrow> string \<Rightarrow> string" where
  "write_callback chunk str = str @ chunk"

text \<open>
  The two \<open>get_page\<close> functions: the downloaded data and the value of \<open>res_code\<close> after the call.
  Without a handle nothing is done and \<open>res_code\<close> is left as it is.
\<close>

definition perform_page ::
    "'w net \<Rightarrow> string \<Rightarrow> string option \<Rightarrow> int \<Rightarrow> curl_wrapper \<times> 'w \<Rightarrow>
     (string \<times> int) \<times> curl_wrapper \<times> 'w" where
  "perform_page E path post res_code s =
     (case get_curl E s of
        (None, s') \<Rightarrow> (('''', res_code), s')
      | (Some h, (cw, w)) \<Rightarrow>
          (case net_perform E (c_str path) post w of (r, w') \<Rightarrow>
             ((fold write_callback (pf_chunks r) '''', if pf_ok r then pf_code r else -1),
              cw, w')))"

definition get_page ::
    "'w net \<Rightarrow> string \<Rightarrow> string \<Rightarrow> int \<Rightarrow> curl_wrapper \<times> 'w \<Rightarrow>
     (string \<times> int) \<times> curl_wrapper \<times> 'w" where
  "get_page E ip url res_code s = perform_page E (ip @ url) None res_code s"

definition get_page_post ::
    "'w net \<Rightarrow> string \<Rightarrow> string \<Rightarrow> string \<Rightarrow> int \<Rightarrow> curl_wrapper \<times> 'w \<Rightarrow>
     (string \<times> int) \<times> curl_wrapper \<times> 'w" where
  "get_page_post E ip url json res_code s =
     perform_page E (ip @ url) (Some (c_str json)) res_code s"

text \<open>
  \<open>get_page_json\<close>: a text that does not parse, an empty answer included, is the null value.
\<close>

definition parse_or_null :: "'j json_lib \<Rightarrow> string \<Rightarrow> 'j" where
  "parse_or_null J t = (case j_parse J t of None \<Rightarrow> j_null J | Some v \<Rightarrow> v)"

definition get_page_json ::
    "'j json_lib \<Rightarrow> 'w net \<Rightarrow> string \<Rightarrow> string \<Rightarrow> int \<Rightarrow> curl_wrapper \<times> 'w \<Rightarrow>
     ('j \<times> int) \<times> curl_wrapper \<times> 'w" where
  "get_page_json J E ip url res_code s =
     (case get_page E ip url res_code s of ((t, rc), s') \<Rightarrow> ((parse_or_null J t, rc), s'))"

definition get_page_json_post ::
    "'j json_lib \<Rightarrow> 'w net \<Rightarrow> string \<Rightarrow> string \<Rightarrow> string \<Rightarrow> int \<Rightarrow> curl_wrapper \<times> 'w \<Rightarrow>
     ('j \<times> int) \<times> curl_wrapper \<times> 'w" where
  "get_page_json_post J E ip url json res_code s =
     (case get_page_post E ip url json res_code s of
        ((t, rc), s') \<Rightarrow> ((parse_or_null J t, rc), s'))"

text \<open>The chunks are put together in the order they came.\<close>

lemma fold_write_callback: "fold write_callback chunks str = str @ concat chunks"
  by (induction chunks arbitrary: str) (simp_all add: write_callback_def)

text \<open>A wrapper asks for a handle once, unless libcurl refuses it.\<close>

lemma get_curl_once:
  assumes "get_curl E (cw, w) = (Some h, cw', w')"
  shows "get_curl E (cw', v) = (Some h, cw', v)"
  using assms by (auto simp: get_curl_def split: option.splits prod.splits)

lemma c_str_id: "NUL \<notin> set s \<Longrightarrow> c_str s = s"
  unfolding c_str_def takeWhile_eq_all_conv by blast

lemma c_str_append: "NUL \<notin> set s \<Longrightarrow> c_str (s @ NUL # t) = s"
  unfolding c_str_def by (subst takeWhile_append2) auto

end
