(* ===== verification/Prog.thy ===== *)
theory Prog
  imports Prelude
begin

section \<open>Programs with state, exceptions and loops that may not end\<close>

text \<open>
  The client side runs against a network: it retries until an answer comes, so its operations
  may never return. A program maps a state to an exception or a value, with the state after it;
  \<open>None\<close> says that it does not return. The operations are the usual ones, and one loop,
  \<open>repeat_until\<close>, whose body says whether to go on; termination of a loop and its failure to
  terminate each have a rule.
\<close>

type_synonym ('s, 'a) prog = "'s \<Rightarrow> ((exn + 'a) \<times> 's) option"

named_theorems prog_simps \<open>evaluation of programs\<close>

definition pret :: "'a \<Rightarrow> ('s, 'a) prog" where
  "pret x s = Some (Inr x, s)"

definition pthrow :: "exn \<Rightarrow> ('s, 'a) prog" where
  "pthrow e s = Some (Inl e, s)"

definition plift :: "'a result \<Rightarrow> ('s, 'a) prog" where
  "plift r s = Some (r, s)"

definition pget :: "('s \<Rightarrow> 'a) \<Rightarrow> ('s, 'a) prog" where
  "pget f s = Some (Inr (f s), s)"

definition pmod :: "('s \<Rightarrow> 's) \<Rightarrow> ('s, unit) prog" where
  "pmod f s = Some (Inr (), f s)"

text \<open>An operation on a component of the state that reports through a result.\<close>

definition papply :: "('s \<Rightarrow> 'a result \<times> 's) \<Rightarrow> ('s, 'a) prog" where
  "papply f s = Some (f s)"

definition pbind :: "('s, 'a) prog \<Rightarrow> ('a \<Rightarrow> ('s, 'b) prog) \<Rightarrow> ('s, 'b) prog" where
  "pbind m f s =
     (case m s of
        None \<Rightarrow> None
      | Some (Inl e, s') \<Rightarrow> Some (Inl e, s')
      | Some (Inr x, s') \<Rightarrow> f x s')"

definition pthen :: "('s, 'a) prog \<Rightarrow> ('s, 'b) prog \<Rightarrow> ('s, 'b) prog" where
  "pthen m k = pbind m (\<lambda>_. k)"

text \<open>\<open>catch (const t_json::exception &)\<close>: only the exceptions of the JSON library.\<close>

definition json_exn :: "exn \<Rightarrow> bool" where
  "json_exn e \<longleftrightarrow> e = Json_parse_error \<or> e = Json_type_error"

definition pcatch_json :: "('s, 'a) prog \<Rightarrow> ('s, 'a) prog \<Rightarrow> ('s, 'a) prog" where
  "pcatch_json m h s =
     (case m s of
        Some (Inl e, s') \<Rightarrow> if json_exn e then h s' else Some (Inl e, s')
      | r \<Rightarrow> r)"

lemma prog_eval [prog_simps]:
  "pret x s = Some (Inr x, s)" "pthrow e s = Some (Inl e, s)" "plift r s = Some (r, s)"
  "pget f s = Some (Inr (f s), s)" "pmod g s = Some (Inr (), g s)" "papply h s = Some (h s)"
  by (simp_all add: pret_def pthrow_def plift_def pget_def pmod_def papply_def)

lemma if_apply [prog_simps]: "(if b then f else g) s = (if b then f s else g s)"
  by simp

lemma pbind_eval [prog_simps]:
  "m s = Some (Inr x, s') \<Longrightarrow> pbind m f s = f x s'"
  "m s = Some (Inl e, s') \<Longrightarrow> pbind m f s = Some (Inl e, s')"
  "m s = None \<Longrightarrow> pbind m f s = None"
  by (simp_all add: pbind_def)

lemma pthen_eval [prog_simps]:
  "m s = Some (Inr x, s') \<Longrightarrow> pthen m k s = k s'"
  "m s = Some (Inl e, s') \<Longrightarrow> pthen m k s = Some (Inl e, s')"
  "m s = None \<Longrightarrow> pthen m k s = None"
  by (simp_all add: pthen_def pbind_def)

lemma pcatch_eval [prog_simps]:
  "m s = Some (Inr x, s') \<Longrightarrow> pcatch_json m h s = Some (Inr x, s')"
  "m s = Some (Inl e, s') \<Longrightarrow> pcatch_json m h s = (if json_exn e then h s' else Some (Inl e, s'))"
  "m s = None \<Longrightarrow> pcatch_json m h s = None"
  by (simp_all add: pcatch_json_def)

lemma json_exn_simps [simp]:
  "json_exn Json_parse_error" "json_exn Json_type_error" "\<not> json_exn Undefined_behaviour"
  "\<not> json_exn (Std_exception t)"
  by (simp_all add: json_exn_def)

subsection \<open>Loops\<close>

text \<open>
  The body returns \<open>Inr y\<close> to leave the loop with \<open>y\<close>, and \<open>Inl x\<close> to go round again with \<open>x\<close>.
\<close>

partial_function (option) repeat_until ::
    "('x \<Rightarrow> ('s, 'x + 'y) prog) \<Rightarrow> 'x \<Rightarrow> ('s, 'y) prog" where
  "repeat_until body x s =
     Option.bind (body x s) (\<lambda>(r, s').
       case r of
         Inl e \<Rightarrow> Some (Inl e, s')
       | Inr (Inr y) \<Rightarrow> Some (Inr y, s')
       | Inr (Inl x') \<Rightarrow> repeat_until body x' s')"

lemma repeat_step [prog_simps]:
  "body x s = Some (Inr (Inl x'), s') \<Longrightarrow> repeat_until body x s = repeat_until body x' s'"
  "body x s = Some (Inr (Inr y), s') \<Longrightarrow> repeat_until body x s = Some (Inr y, s')"
  "body x s = Some (Inl e, s') \<Longrightarrow> repeat_until body x s = Some (Inl e, s')"
  "body x s = None \<Longrightarrow> repeat_until body x s = None"
  by (subst repeat_until.simps, simp)+

text \<open>Induction on the rounds of a loop that returned.\<close>

lemma repeat_rounds:
  assumes "repeat_until body x s = Some p"
    and exc: "\<And>x s e s'. body x s = Some (Inl e, s') \<Longrightarrow> P x s (Inl e, s')"
    and stop: "\<And>x s y s'. body x s = Some (Inr (Inr y), s') \<Longrightarrow> P x s (Inr y, s')"
    and again: "\<And>x s x' s' p. body x s = Some (Inr (Inl x'), s') \<Longrightarrow> P x' s' p \<Longrightarrow> P x s p"
  shows "P x s p"
proof -
  have "(case ((body, x), s) of (a, b) \<Rightarrow> (case a of (c, d) \<Rightarrow> (\<lambda>s p. c = body \<longrightarrow> P d s p)) b) p"
  proof (rule repeat_until.raw_induct [where P = "\<lambda>c d s p. c = body \<longrightarrow> P d s p"])
    show "(case ((body, x), s) of (a, b) \<Rightarrow> (case a of (c, d) \<Rightarrow> repeat_until c d) b) = Some p"
      using assms(1) by simp
  next
    fix f b x s p
    assume ih: "\<And>c x s p. f c x s = Some p \<Longrightarrow> c = body \<longrightarrow> (P x s p :: bool)"
      and eq: "Option.bind (b x s) (\<lambda>(r, s').
        case r of Inl e \<Rightarrow> Some (Inl e, s') | Inr (Inl x') \<Rightarrow> f b x' s' | Inr (Inr y) \<Rightarrow> Some (Inr y, s'))
        = Some p"
    show "b = body \<longrightarrow> P x s p"
    proof
      assume b: "b = body"
      obtain r s' where bs: "body x s = Some (r, s')" using eq b by (cases "body x s") auto
      show "P x s p"
      proof (cases r)
        case (Inl e)
        with eq b bs exc [of x s e s'] show ?thesis by simp
      next
        case (Inr v)
        show ?thesis
        proof (cases v)
          case (Inl x')
          with eq b bs Inr have "f body x' s' = Some p" by simp
          with ih bs Inr Inl again [of x s x' s' p] show ?thesis by blast
        next
          case r2: (Inr y)
          with eq b bs Inr stop [of x s y s'] show ?thesis by simp
        qed
      qed
    qed
  qed
  then show ?thesis by simp
qed

text \<open>A loop whose body always goes round again never returns.\<close>

lemma repeat_diverges:
  assumes "\<And>x s. I x s \<Longrightarrow> \<exists>x' s'. body x s = Some (Inr (Inl x'), s') \<and> I x' s'"
    and "I x s"
  shows "repeat_until body x s = None"
proof (rule ccontr)
  assume "repeat_until body x s \<noteq> None"
  then obtain p where "repeat_until body x s = Some p" by blast
  then have "\<not> I x s"
  proof (rule repeat_rounds)
    fix x s e s' assume "body x s = Some (Inl e, s')"
    with assms(1) [of x s] show "\<not> I x s" by auto
  next
    fix x s y s' assume "body x s = Some (Inr (Inr y), s')"
    with assms(1) [of x s] show "\<not> I x s" by auto
  next
    fix x s x' s' assume "body x s = Some (Inr (Inl x'), s')" "\<not> I x' s'"
    with assms(1) [of x s] show "\<not> I x s" by auto
  qed
  with assms(2) show False by simp
qed

text \<open>A loop whose body returns, and decreases a measure whenever it goes round, returns.\<close>

lemma repeat_returns:
  assumes "\<And>x s. I x s \<Longrightarrow> \<exists>r s'. body x s = Some (r, s') \<and>
      (\<forall>x'. r = Inr (Inl x') \<longrightarrow> I x' s' \<and> (f x' s' :: nat) < f x s)"
    and "I x s"
  shows "\<exists>r. repeat_until body x s = Some r"
  using assms(2)
proof (induction "f x s" arbitrary: x s rule: less_induct)
  case less
  obtain r s' where b: "body x s = Some (r, s')"
    and dec: "\<forall>x'. r = Inr (Inl x') \<longrightarrow> I x' s' \<and> f x' s' < f x s"
    using assms(1) [OF less.prems] by metis
  show ?case
  proof (cases r)
    case (Inl e)
    with b repeat_step(3) [of body x s e s'] show ?thesis by simp
  next
    case (Inr v)
    show ?thesis
    proof (cases v)
      case (Inl x')
      with dec Inr have "I x' s'" "f x' s' < f x s" by simp_all
      then have "\<exists>r. repeat_until body x' s' = Some r" by (intro less.hyps)
      with repeat_step(1) [of body x s x' s'] b Inr Inl show ?thesis by simp
    next
      case r2: (Inr y)
      with repeat_step(2) [of body x s y s'] b Inr show ?thesis by simp
    qed
  qed
qed

text \<open>What holds when a loop ends, from an invariant.\<close>

lemma repeat_invariant:
  assumes "\<And>x s x' s'. I x s \<Longrightarrow> body x s = Some (Inr (Inl x'), s') \<Longrightarrow> I x' s'"
    and "\<And>x s y s'. I x s \<Longrightarrow> body x s = Some (Inr (Inr y), s') \<Longrightarrow> Q (Inr y) s'"
    and "\<And>x s e s'. I x s \<Longrightarrow> body x s = Some (Inl e, s') \<Longrightarrow> Q (Inl e) s'"
    and run: "repeat_until body x s = Some p" and init: "I x s"
  shows "Q (fst p) (snd p)"
proof -
  from run have "I x s \<longrightarrow> Q (fst p) (snd p)"
  proof (rule repeat_rounds)
    fix x s x' s' p assume "body x s = Some (Inr (Inl x'), s')" "I x' s' \<longrightarrow> Q (fst p) (snd p)"
    with assms(1) [of x s x' s'] show "I x s \<longrightarrow> Q (fst p) (snd p)" by blast
  qed (use assms(2,3) in simp_all)
  with init show ?thesis by blast
qed

subsection \<open>Frames\<close>

text \<open>
  \<open>stays kept k X m\<close>: whenever \<open>m\<close> returns from a state whose part \<open>kept\<close> is \<open>k\<close>, that part is still
  \<open>k\<close>, and an exception it throws is one of \<open>X\<close>.
\<close>

named_theorems stays_intros \<open>frames of the program constructs\<close>

definition stays :: "('s \<Rightarrow> 'k) \<Rightarrow> 'k \<Rightarrow> exn set \<Rightarrow> ('s, 'a) prog \<Rightarrow> bool" where
  "stays kept k X m \<longleftrightarrow>
     (\<forall>s r s'. kept s = k \<longrightarrow> m s = Some (r, s') \<longrightarrow> kept s' = k \<and> (\<forall>e. r = Inl e \<longrightarrow> e \<in> X))"

lemma staysI:
  "(\<And>s r s'. kept s = k \<Longrightarrow> m s = Some (r, s') \<Longrightarrow> kept s' = k \<and> (\<forall>e. r = Inl e \<longrightarrow> e \<in> X)) \<Longrightarrow>
   stays kept k X m"
  by (simp add: stays_def)

lemma staysD:
  "stays kept k X m \<Longrightarrow> kept s = k \<Longrightarrow> m s = Some (r, s') \<Longrightarrow>
   kept s' = k \<and> (\<forall>e. r = Inl e \<longrightarrow> e \<in> X)"
  by (simp add: stays_def)

lemma stays_pret [stays_intros]: "stays kept k X (pret x)"
  by (simp add: stays_def pret_def)

lemma stays_pget [stays_intros]: "stays kept k X (pget f)"
  by (simp add: stays_def pget_def)

lemma stays_pthrow [stays_intros]: "e \<in> X \<Longrightarrow> stays kept k X (pthrow e)"
  by (simp add: stays_def pthrow_def)

lemma stays_plift [stays_intros]: "(\<And>e. r = Inl e \<Longrightarrow> e \<in> X) \<Longrightarrow> stays kept k X (plift r)"
  by (simp add: stays_def plift_def)

lemma stays_pmod [stays_intros]: "(\<And>s. kept s = k \<Longrightarrow> kept (f s) = k) \<Longrightarrow> stays kept k X (pmod f)"
  by (simp add: stays_def pmod_def)

lemma stays_pbind [stays_intros]:
  assumes "stays kept k X m" "\<And>x. stays kept k X (f x)"
  shows "stays kept k X (pbind m f)"
proof (rule staysI)
  fix s r s' assume s: "kept s = k" and r: "pbind m f s = Some (r, s')"
  then obtain r1 s1 where m: "m s = Some (r1, s1)" by (cases "m s") (auto simp: pbind_def)
  note k = staysD [OF assms(1) s m]
  show "kept s' = k \<and> (\<forall>e. r = Inl e \<longrightarrow> e \<in> X)"
  proof (cases r1)
    case (Inl e)
    with m r have "r = Inl e" "s' = s1" by (simp_all add: pbind_def)
    with k Inl show ?thesis by simp
  next
    case (Inr x)
    with m r have "f x s1 = Some (r, s')" by (simp add: pbind_def)
    with staysD [OF assms(2)] k show ?thesis by blast
  qed
qed

lemma stays_pthen [stays_intros]:
  "stays kept k X m \<Longrightarrow> stays kept k X m' \<Longrightarrow> stays kept k X (pthen m m')"
  unfolding pthen_def by (rule stays_pbind)

lemma stays_if [stays_intros]:
  "(b \<Longrightarrow> stays kept k X m) \<Longrightarrow> (\<not> b \<Longrightarrow> stays kept k X m') \<Longrightarrow> stays kept k X (if b then m else m')"
  by simp

lemma stays_case_prod [stays_intros]:
  "(\<And>x y. stays kept k X (f x y)) \<Longrightarrow> stays kept k X (case p of (x, y) \<Rightarrow> f x y)"
  by (cases p) simp

lemma stays_case_sum [stays_intros]:
  "(\<And>x. r = Inl x \<Longrightarrow> stays kept k X (f x)) \<Longrightarrow> (\<And>y. r = Inr y \<Longrightarrow> stays kept k X (g y)) \<Longrightarrow>
   stays kept k X (case r of Inl x \<Rightarrow> f x | Inr y \<Rightarrow> g y)"
  by (cases r) simp_all

lemma stays_case_option [stays_intros]:
  "stays kept k X m \<Longrightarrow> (\<And>y. stays kept k X (g y)) \<Longrightarrow>
   stays kept k X (case r of None \<Rightarrow> m | Some y \<Rightarrow> g y)"
  by (cases r) simp_all

lemma stays_pcatch [stays_intros]:
  assumes "stays kept k (X \<union> {Json_parse_error, Json_type_error}) m" "stays kept k X h"
  shows "stays kept k X (pcatch_json m h)"
proof (rule staysI)
  fix s r s' assume s: "kept s = k" and r: "pcatch_json m h s = Some (r, s')"
  then obtain r1 s1 where m: "m s = Some (r1, s1)" by (cases "m s") (auto simp: pcatch_json_def)
  note k = staysD [OF assms(1) s m]
  show "kept s' = k \<and> (\<forall>e. r = Inl e \<longrightarrow> e \<in> X)"
  proof (cases r1)
    case (Inl e)
    show ?thesis
    proof (cases "json_exn e")
      case True
      with m r Inl have "h s1 = Some (r, s')" by (simp add: pcatch_json_def)
      with staysD [OF assms(2)] k show ?thesis by blast
    next
      case False
      with m r Inl k show ?thesis by (auto simp: pcatch_json_def json_exn_def)
    qed
  next
    case (Inr x)
    with m r have "r = Inr x" "s' = s1" by (simp_all add: pcatch_json_def)
    with k show ?thesis by simp
  qed
qed

lemma stays_repeat [stays_intros]:
  assumes "\<And>x. stays kept k X (body x)"
  shows "stays kept k X (repeat_until body x)"
proof (rule staysI)
  fix s r s' assume s: "kept s = k" and r: "repeat_until body x s = Some (r, s')"
  let ?Q = "\<lambda>r s'. kept s' = k \<and> (\<forall>e. r = Inl e \<longrightarrow> e \<in> X)"
  have "?Q (fst (r, s')) (snd (r, s'))"
  proof (rule repeat_invariant [where I = "\<lambda>x s. kept s = k" and Q = ?Q, OF _ _ _ r s])
    fix x s x' s' assume "kept s = k" "body x s = Some (Inr (Inl x'), s')"
    from staysD [OF assms this] show "kept s' = k" by blast
  next
    fix x s y s' assume "kept s = k" "body x s = Some (Inr (Inr y), s')"
    from staysD [OF assms this] show "?Q (Inr y) s'" by simp
  next
    fix x s e s' assume "kept s = k" "body x s = Some (Inl e, s')"
    from staysD [OF assms this] show "?Q (Inl e) s'" by blast
  qed
  then show "kept s' = k \<and> (\<forall>e. r = Inl e \<longrightarrow> e \<in> X)" by simp
qed

end
