(* ===== verification/Connector.thy ===== *)
theory Connector
  imports Connector_Queues Curl Prog
begin

section \<open>The client: \<open>connector_manager\<close>\<close>

text \<open>
  The model of the class \<open>connector_manager\<close> of \<open>connector_manager.h\<close>: registration with the
  servers, sending requests and answers, polling the task lists and the worker that runs the
  tasks. An operation is a program over the state of the class together with the state of the
  outside world (\<open>cm_world\<close>). Every public operation holds \<open>mt_n\<close> throughout (see \<open>Mutex\<close> for
  what that lock does and does not give). User code enters as the fields of \<open>env\<close>: the
  callbacks of replies, of requests and of transfers, and what other threads do while the
  worker waits. Console and log output is left out; the conversions it makes, which can throw,
  are kept.
\<close>

subsection \<open>State\<close>

record connection =
  co_address :: string
  co_last_try :: int
  co_count_try :: int
  co_respon_str :: string
  co_server_hash :: string
  co_hash_worker :: string

record 'cb handler =
  hd_nameobj :: string
  hd_callback :: "'cb option"

record ('j, 'cb, 'w) connector =
  cm_start_time :: int
  cm_local_ip :: string
  m_task :: "'j task_buffer"
  m_returns :: "('j, 'cb) return_data list"
  cm_handlers :: "'cb handler list"
  last_events :: 'j
  empty_thread :: bool
  cm_curl :: curl_wrapper
  work_loop :: bool
  connections :: "connection list"
  cm_transfer :: "'cb option"
  name_client :: string
  cm_world :: 'w

record ('j, 'cb, 'w) env =
  en_json :: "'j json_lib"
  en_net :: "'w net"
  en_reply :: "'cb \<Rightarrow> 'j \<Rightarrow> 'j \<Rightarrow> 'w \<Rightarrow> 'w"                       \<comment> \<open>callback of a reply\<close>
  en_request :: "'cb \<Rightarrow> 'j \<Rightarrow> (('j, 'cb, 'w) connector, unit) prog"  \<comment> \<open>a handler's callback\<close>
  en_transfer :: "'cb \<Rightarrow> 'j \<Rightarrow> (('j, 'cb, 'w) connector, unit) prog"
  en_wait :: "(('j, 'cb, 'w) connector, unit) prog"             \<comment> \<open>until \<open>cv\<close> is notified\<close>

type_synonym ('j, 'cb, 'w, 'a) conn_prog = "(('j, 'cb, 'w) connector, 'a) prog"

text \<open>
  \<open>GetLocalIP\<close>, on the list of interfaces the system reports: name, address if there is one,
  whether it is an IPv4 address, and its text. An interface without an address is dereferenced.
\<close>

fun GetLocalIP :: "(string \<times> (bool \<times> string) option) list \<Rightarrow> string \<Rightarrow> string result" where
  "GetLocalIP [] ipAddress = Inr ipAddress"
| "GetLocalIP ((name, None) # ifs) ipAddress = Inl Undefined_behaviour"
| "GetLocalIP ((name, Some (inet, addr)) # ifs) ipAddress =
     (if inet then (if name = ''lo'' then GetLocalIP ifs addr else Inr addr)
      else GetLocalIP ifs ipAddress)"

definition new_connection :: "string \<Rightarrow> connection" where
  "new_connection conn =
     \<lparr>co_address = conn, co_last_try = 0, co_count_try = 0, co_respon_str = '''',
      co_server_hash = ''1'', co_hash_worker = ''1''\<rparr>"

definition new_connector :: "'j json_lib \<Rightarrow> int \<Rightarrow> string \<Rightarrow> 'w \<Rightarrow> ('j, 'cb, 'w) connector" where
  "new_connector J now ip w =
     \<lparr>cm_start_time = now, cm_local_ip = ip, m_task = new_manager_task J,
      m_returns = new_manager_returns J, cm_handlers = [], last_events = j_null J,
      empty_thread = False, cm_curl = new_curl_wrapper, work_loop = False, connections = [],
      cm_transfer = None, name_client = ''test'', cm_world = w\<rparr>"

subsection \<open>Calls into the network\<close>

text \<open>Lift a call of the curl wrapper to the state of the class.\<close>

definition with_curl :: "(curl_wrapper \<times> 'w \<Rightarrow> 'a \<times> curl_wrapper \<times> 'w) \<Rightarrow> ('j, 'cb, 'w, 'a) conn_prog" where
  "with_curl f s =
     (case f (cm_curl s, cm_world s) of
        (x, cw, w) \<Rightarrow> Some (Inr x, s\<lparr>cm_curl := cw, cm_world := w\<rparr>))"

definition page_json :: "('j, 'cb, 'w) env \<Rightarrow> string \<Rightarrow> string \<Rightarrow> ('j, 'cb, 'w, 'j) conn_prog" where
  "page_json E address url =
     pbind (with_curl (get_page_json (en_json E) (en_net E) address url 0)) (\<lambda>p. pret (fst p))"

definition page_json_post ::
    "('j, 'cb, 'w) env \<Rightarrow> string \<Rightarrow> string \<Rightarrow> string \<Rightarrow> ('j, 'cb, 'w, 'j) conn_prog" where
  "page_json_post E address url body =
     pbind (with_curl (get_page_json_post (en_json E) (en_net E) address url body 0))
       (\<lambda>p. pret (fst p))"

definition now_ms :: "('j, 'cb, 'w) env \<Rightarrow> ('j, 'cb, 'w, int) conn_prog" where
  "now_ms E s = (case net_now (en_net E) (cm_world s) of (t, w) \<Rightarrow> Some (Inr t, s\<lparr>cm_world := w\<rparr>))"

definition sleep_ms :: "('j, 'cb, 'w) env \<Rightarrow> nat \<Rightarrow> ('j, 'cb, 'w, unit) conn_prog" where
  "sleep_ms E n = pmod (\<lambda>s. s\<lparr>cm_world := net_sleep (en_net E) n (cm_world s)\<rparr>)"

subsection \<open>Connections\<close>

definition find_conn :: "string \<Rightarrow> ('j, 'cb, 'w) connector \<Rightarrow> nat option" where
  "find_conn address s = first_index (\<lambda>c. co_address c = address) (connections s)"

text \<open>\<open>connections[index]\<close>; the index \<open>-1\<close> of an unknown address is out of range.\<close>

definition conn_at :: "nat option \<Rightarrow> ('j, 'cb, 'w, connection) conn_prog" where
  "conn_at index s =
     (case index of
        None \<Rightarrow> Some (Inl Undefined_behaviour, s)
      | Some i \<Rightarrow>
          if i < length (connections s) then Some (Inr (connections s ! i), s)
          else Some (Inl Undefined_behaviour, s))"

definition set_conn :: "nat option \<Rightarrow> (connection \<Rightarrow> connection) \<Rightarrow> ('j, 'cb, 'w, unit) conn_prog" where
  "set_conn index f =
     pbind (conn_at index) (\<lambda>c.
       pmod (\<lambda>s. case index of None \<Rightarrow> s | Some i \<Rightarrow> s\<lparr>connections := (connections s)[i := f c]\<rparr>))"

definition add_connection :: "string \<Rightarrow> ('j, 'cb, 'w) connector \<Rightarrow> ('j, 'cb, 'w) connector" where
  "add_connection conn s = s\<lparr>connections := connections s @ [new_connection conn]\<rparr>"

definition set_transfer :: "'cb option \<Rightarrow> ('j, 'cb, 'w) connector \<Rightarrow> ('j, 'cb, 'w) connector" where
  "set_transfer t s = s\<lparr>cm_transfer := t\<rparr>"

definition add_handler ::
    "string \<Rightarrow> 'cb option \<Rightarrow> ('j, 'cb, 'w) connector \<Rightarrow> ('j, 'cb, 'w) connector" where
  "add_handler nameobj callback s =
     s\<lparr>cm_handlers := cm_handlers s @ [\<lparr>hd_nameobj = nameobj, hd_callback = callback\<rparr>]\<rparr>"

definition get_all_events :: "('j, 'cb, 'w) connector \<Rightarrow> 'j" where
  "get_all_events s = last_events s"

subsection \<open>\<open>get_myid\<close>\<close>

text \<open>
  What one answer to \<open>getid\<close> does to the two local strings, and whether an exception ended it:
  \<open>hash_worker\<close> is assigned before \<open>$server_hash\<close> is looked at.
\<close>

definition id_answer :: "'j json_lib \<Rightarrow> 'j \<Rightarrow> string \<times> string \<Rightarrow> bool \<times> string \<times> string" where
  "id_answer J jcode l =
     (case l of (hash_worker, server_hash) \<Rightarrow>
        if j_empty J jcode then (False, hash_worker, server_hash) else
        (case j_index J jcode (K ''$hash_worker'') of
           None \<Rightarrow> (True, hash_worker, server_hash)
         | Some (jcode', v) \<Rightarrow>
        (case j_get_str J v of
           None \<Rightarrow> (True, hash_worker, server_hash)
         | Some h \<Rightarrow>
        (case j_index J jcode' (K ''$server_hash'') of
           None \<Rightarrow> (True, h, server_hash)
         | Some (jcode'', u) \<Rightarrow>
        (case j_get_str J u of
           None \<Rightarrow> (True, h, server_hash)
         | Some sh \<Rightarrow> (False, h, sh))))))"

definition ask_id ::
    "('j, 'cb, 'w) env \<Rightarrow> string \<Rightarrow> 'j \<Rightarrow> string \<times> string \<Rightarrow>
     ('j, 'cb, 'w, bool \<times> string \<times> string) conn_prog" where
  "ask_id E address json l =
     (case dump (en_json E) json of
        Inl x \<Rightarrow> pret (True, l)
      | Inr body \<Rightarrow>
          pbind (pget name_client) (\<lambda>name.
          pbind (page_json_post E address (''/api/client/'' @ name @ ''/getid'') body) (\<lambda>jcode.
          pret (id_answer (en_json E) jcode l))))"

definition id_request :: "'j json_lib \<Rightarrow> ('j, 'cb, 'w) connector \<Rightarrow> 'j result" where
  "id_request J s =
     (case j_assign J (j_null J) [K ''$time''] (j_str J (to_string (cm_start_time s))) of
        Inl x \<Rightarrow> Inl x
      | Inr json \<Rightarrow> j_assign J json [K ''$ip''] (j_str J (cm_local_ip s)))"

definition get_myid_loop ::
    "('j, 'cb, 'w) env \<Rightarrow> string \<Rightarrow> 'j \<Rightarrow> ('j, 'cb, 'w, string \<times> string) conn_prog" where
  "get_myid_loop E address json =
     repeat_until (\<lambda>l.
       pbind (ask_id E address json l) (\<lambda>(caught, hash_worker, server_hash).
         if hash_worker = '''' then
           pthen (if caught then pret () else sleep_ms E 100) (pret (Inl (hash_worker, server_hash)))
         else pret (Inr (hash_worker, server_hash)))) ('''', '''')"

definition get_myid :: "('j, 'cb, 'w) env \<Rightarrow> string \<Rightarrow> bool \<Rightarrow> ('j, 'cb, 'w, unit) conn_prog" where
  "get_myid E address lp =
     pbind (pget (find_conn address)) (\<lambda>index.
     pbind (pbind (pget (id_request (en_json E))) plift) (\<lambda>json.
     pbind (if lp then get_myid_loop E address json
            else pbind (ask_id E address json ('''', '''')) (\<lambda>a. pret (snd a))) (\<lambda>l.
     set_conn index (\<lambda>c. c\<lparr>co_hash_worker := fst l, co_server_hash := snd l\<rparr>))))"

subsection \<open>Requests and their replies\<close>

definition command_url :: "string \<Rightarrow> ('j, 'cb, 'w) connector \<Rightarrow> connection \<Rightarrow> string \<Rightarrow> string" where
  "command_url verb s c suffix =
     verb @ co_server_hash c @ ''/'' @ name_client s @ ''/command/'' @ co_hash_worker c @ suffix"

text \<open>
  The retry loop of \<open>send\<close> and \<open>send_response\<close>: one attempt posts \<open>json\<close>; an answer with
  \<open>$error\<close> registers again, any other answer gives the number of the reply, and an exception of
  the JSON library is swallowed.
\<close>

definition send_attempt ::
    "('j, 'cb, 'w) env \<Rightarrow> string result \<Rightarrow> nat option \<Rightarrow> 'j \<Rightarrow> int \<Rightarrow> ('j, 'cb, 'w, int) conn_prog" where
  "send_attempt E address index json rid =
     pcatch_json
       (pbind (plift address) (\<lambda>address.
        pbind (conn_at index) (\<lambda>c.
        pbind (pget (\<lambda>s. command_url ''/api/send/'' s c ''/event'')) (\<lambda>url.
        pbind (plift (dump (en_json E) json)) (\<lambda>body.
        pbind (page_json_post E address url body) (\<lambda>jsonres.
          if j_contains (en_json E) jsonres ''$error'' then
            pthen (get_myid E address True) (pret rid)
          else
            (case j_index (en_json E) jsonres (K ''$respon_id'') of
               None \<Rightarrow> pthrow Json_type_error
             | Some (c, v) \<Rightarrow> plift (get_int (en_json E) v))))))))
       (pret rid)"

definition send_loop ::
    "('j, 'cb, 'w) env \<Rightarrow> string result \<Rightarrow> nat option \<Rightarrow> 'j \<Rightarrow> ('j, 'cb, 'w, int) conn_prog" where
  "send_loop E address index json =
     repeat_until (\<lambda>rid.
       if rid < 0 then pbind (send_attempt E address index json rid) (\<lambda>rid'. pret (Inl rid'))
       else pret (Inr rid)) (-1)"

definition send :: "('j, 'cb, 'w) env \<Rightarrow> string \<Rightarrow> 'j \<Rightarrow> 'cb option \<Rightarrow> ('j, 'cb, 'w, unit) conn_prog" where
  "send E address json callback =
     pbind (pget (find_conn address)) (\<lambda>index.
     pbind (send_loop E (Inr address) index json) (\<lambda>rid.
     pbind (conn_at index) (\<lambda>c.
     pmod (\<lambda>s. s\<lparr>m_returns := mr_add
       \<lparr>rd_json_send = json, rd_server_hash = co_server_hash c, rd_respon_id = rid,
        rd_callback = callback\<rparr> (m_returns s)\<rparr>))))"

text \<open>\<open>exit\<close> asks the server until some text comes back; \<open>off\<close> does it for every connection.\<close>

definition conn_exit :: "('j, 'cb, 'w) env \<Rightarrow> string \<Rightarrow> ('j, 'cb, 'w, unit) conn_prog" where
  "conn_exit E address =
     pbind (pget (find_conn address)) (\<lambda>index.
     repeat_until (\<lambda>u.
       pbind (conn_at index) (\<lambda>c.
       pbind (pget (\<lambda>s. command_url ''/api/client/'' s c ''/exit'')) (\<lambda>url.
       pbind (with_curl (get_page (en_net E) address url 0)) (\<lambda>p.
       pret (if fst p = '''' then Inl () else Inr ()))))) ())"

fun for_connections ::
    "(string \<Rightarrow> ('j, 'cb, 'w, unit) conn_prog) \<Rightarrow> nat list \<Rightarrow> ('j, 'cb, 'w, unit) conn_prog" where
  "for_connections f [] = pret ()"
| "for_connections f (i # is) =
     pbind (conn_at (Some i)) (\<lambda>c. pthen (f (co_address c)) (for_connections f is))"

definition start_loop :: "('j, 'cb, 'w, unit) conn_prog" where
  "start_loop = pmod (\<lambda>s. s\<lparr>work_loop := True\<rparr>)"

definition finish_loop :: "('j, 'cb, 'w, unit) conn_prog" where
  "finish_loop = pmod (\<lambda>s. s\<lparr>work_loop := False\<rparr>)"

definition conn_on :: "('j, 'cb, 'w) env \<Rightarrow> ('j, 'cb, 'w, unit) conn_prog" where
  "conn_on E =
     pthen (pbind (pget (\<lambda>s. [0..<length (connections s)])) (for_connections (\<lambda>a. get_myid E a True)))
       start_loop"

definition conn_off :: "('j, 'cb, 'w) env \<Rightarrow> ('j, 'cb, 'w, unit) conn_prog" where
  "conn_off E =
     pthen finish_loop
       (pbind (pget (\<lambda>s. [0..<length (connections s)])) (for_connections (conn_exit E)))"

subsection \<open>Reports on a task\<close>

text \<open>\<open>json[key]\<close> converted to a string: the value after the access, and the text.\<close>

definition str_member :: "'j json_lib \<Rightarrow> 'j \<Rightarrow> string \<Rightarrow> ('j \<times> string) result" where
  "str_member J json key =
     (case j_index J json (K key) of
        None \<Rightarrow> Inl Json_type_error
      | Some (json', v) \<Rightarrow> (case get_string J v of Inl x \<Rightarrow> Inl x | Inr t \<Rightarrow> Inr (json', t)))"

text \<open>
  The statements that print an event's id and reply number: they insert what is missing and
  throw what \<open>dump\<close> throws.
\<close>

definition print_event :: "'j json_lib \<Rightarrow> 'j \<Rightarrow> 'j \<Rightarrow> 'j \<times> unit result" where
  "print_event J jsonres json =
     (case dump J jsonres of
        Inl x \<Rightarrow> (json, Inl x)
      | Inr t \<Rightarrow>
     (case j_index J json (K ''id'') of
        None \<Rightarrow> (json, Inl Json_type_error)
      | Some (json1, v) \<Rightarrow>
     (case dump J v of
        Inl x \<Rightarrow> (json1, Inl x)
      | Inr t \<Rightarrow>
     (case j_path J json1 [K ''meta'', K ''$respon_id''] of
        Inl x \<Rightarrow> (json1, Inl x)
      | Inr (json2, u) \<Rightarrow>
     (case dump J u of Inl x \<Rightarrow> (json2, Inl x) | Inr t \<Rightarrow> (json2, Inr ()))))))"

text \<open>
  The body of the \<open>try\<close> block of \<open>start_event\<close>, \<open>clear_event\<close> and \<open>end_event\<close>, which differ in
  the last part of the URL and in whether they print. The event is passed by reference: its
  value after the call is returned with the status.
\<close>

definition event_call ::
    "('j, 'cb, 'w) env \<Rightarrow> string \<Rightarrow> bool \<Rightarrow> nat option \<Rightarrow> 'j \<Rightarrow> ('j, 'cb, 'w, int \<times> 'j) conn_prog" where
  "event_call E action prints index json =
     (let J = en_json E; caught = (\<lambda>json. pret (-1, json)) in
      case str_member J json ''address'' of
        Inl x \<Rightarrow> caught json
      | Inr (json1, address) \<Rightarrow>
     (case str_member J json1 ''id'' of
        Inl x \<Rightarrow> caught json1
      | Inr (json2, event_id) \<Rightarrow>
     pbind (conn_at index) (\<lambda>c.
     pbind (pget (\<lambda>s. command_url ''/api/send/'' s c (''/event/'' @ action @ ''/'' @ event_id))) (\<lambda>url.
     pbind (page_json E address url) (\<lambda>jsonres.
       case (if prints then print_event J jsonres json2 else (json2, Inr ())) of
         (json3, Inl x) \<Rightarrow> caught json3
       | (json3, Inr u) \<Rightarrow>
           if j_empty J jsonres then caught json3
           else if j_contains J jsonres ''$error'' then
             pcatch_json (pthen (get_myid E address False) (caught json3)) (caught json3)
           else
             (case j_index J jsonres (K ''$status'') of
                None \<Rightarrow> caught json3
              | Some (c, v) \<Rightarrow>
                  (case j_get_int J v of None \<Rightarrow> caught json3 | Some i \<Rightarrow> pret (i, json3))))))))"

text \<open>What the first two evaluate before the \<open>try\<close> block can throw to the caller.\<close>

definition cm_start_event :: "('j, 'cb, 'w) env \<Rightarrow> 'j \<Rightarrow> ('j, 'cb, 'w, int \<times> 'j) conn_prog" where
  "cm_start_event E json =
     pbind (plift (str_member (en_json E) json ''id'')) (\<lambda>(json1, st).
     pbind (plift (str_member (en_json E) json1 ''address'')) (\<lambda>(json2, address).
     pbind (pget (find_conn address)) (\<lambda>index. event_call E ''start'' True index json2)))"

definition cm_clear_event :: "('j, 'cb, 'w) env \<Rightarrow> 'j \<Rightarrow> ('j, 'cb, 'w, int \<times> 'j) conn_prog" where
  "cm_clear_event E json =
     pbind (plift (str_member (en_json E) json ''id'')) (\<lambda>(json1, st).
     pbind (plift (str_member (en_json E) json1 ''address'')) (\<lambda>(json2, address).
     pbind (pget (find_conn address)) (\<lambda>index. event_call E ''clear'' False index json2)))"

definition cm_end_event :: "('j, 'cb, 'w) env \<Rightarrow> 'j \<Rightarrow> ('j, 'cb, 'w, int \<times> 'j) conn_prog" where
  "cm_end_event E json =
     pbind (plift (str_member (en_json E) json ''address'')) (\<lambda>(json1, address).
     pbind (pget (find_conn address)) (\<lambda>index. event_call E ''finish'' True index json1))"

subsection \<open>Answering a request\<close>

text \<open>
  The answer: the data of the result with the request's meta data, marked as a reply, of the
  result's type, its list of servers reversed. Returned with what the accesses made of the two
  arguments.
\<close>

definition response_json :: "'j json_lib \<Rightarrow> 'j \<Rightarrow> 'j \<Rightarrow> ('j \<times> 'j) result" where
  "response_json J json_req json_res =
     (case j_path J json_req [K ''meta''] of
        Inl x \<Rightarrow> Inl x
      | Inr (json_req, meta) \<Rightarrow>
     (case j_assign J (j_null J) [K ''meta''] meta of
        Inl x \<Rightarrow> Inl x
      | Inr jdata \<Rightarrow>
     (case j_path J json_res [K ''data''] of
        Inl x \<Rightarrow> Inl x
      | Inr (json_res, data) \<Rightarrow>
     (case j_assign J jdata [K ''data''] data of
        Inl x \<Rightarrow> Inl x
      | Inr jdata \<Rightarrow>
     (case j_assign J jdata [K ''meta'', K ''$type_event''] (j_str J ''res'') of
        Inl x \<Rightarrow> Inl x
      | Inr jdata \<Rightarrow>
     (case j_path J json_res [K ''meta'', K ''$type_obj''] of
        Inl x \<Rightarrow> Inl x
      | Inr (json_res, ty) \<Rightarrow>
     (case j_assign J jdata [K ''meta'', K ''$type_obj''] ty of
        Inl x \<Rightarrow> Inl x
      | Inr jdata \<Rightarrow>
     (case j_path J jdata [K ''meta'', K ''$list_servers''] of
        Inl x \<Rightarrow> Inl x
      | Inr (jdata, servers) \<Rightarrow>
     (case j_assign J jdata [K ''meta'', K ''$list_servers''] (j_reverse J servers) of
        Inl x \<Rightarrow> Inl x
      | Inr jdata \<Rightarrow> Inr (jdata, json_req))))))))))"

definition int_path :: "'j json_lib \<Rightarrow> 'j \<Rightarrow> jkey list \<Rightarrow> ('j \<times> int) result" where
  "int_path J json ks =
     (case j_path J json ks of
        Inl x \<Rightarrow> Inl x
      | Inr (json', v) \<Rightarrow> (case get_int J v of Inl x \<Rightarrow> Inl x | Inr i \<Rightarrow> Inr (json', i)))"

definition str_path :: "'j json_lib \<Rightarrow> 'j \<Rightarrow> jkey list \<Rightarrow> ('j \<times> string) result" where
  "str_path J json ks =
     (case j_path J json ks of
        Inl x \<Rightarrow> Inl x
      | Inr (json', v) \<Rightarrow> (case get_string J v of Inl x \<Rightarrow> Inl x | Inr t \<Rightarrow> Inr (json', t)))"

text \<open>A statement that prints \<open>json["meta"]["$respon_id"]\<close>.\<close>

definition print_respon :: "'j json_lib \<Rightarrow> 'j \<Rightarrow> 'j result" where
  "print_respon J json =
     (case j_path J json [K ''meta'', K ''$respon_id''] of
        Inl x \<Rightarrow> Inl x
      | Inr (json', v) \<Rightarrow> (case dump J v of Inl x \<Rightarrow> Inl x | Inr t \<Rightarrow> Inr json'))"

definition send_response :: "('j, 'cb, 'w) env \<Rightarrow> 'j \<Rightarrow> 'j \<Rightarrow> ('j, 'cb, 'w, unit) conn_prog" where
  "send_response E json_req json_res =
     pbind (plift (response_json (en_json E) json_req json_res)) (\<lambda>(jdata, json_req).
     pbind (plift (str_member (en_json E) json_req ''address'')) (\<lambda>(json_req, address).
     pbind (pget (find_conn address)) (\<lambda>index.
     pbind (send_loop E (map_sum (\<lambda>x. x) snd (str_member (en_json E) json_req ''address'')) index jdata) (\<lambda>rid.
     pbind (plift (print_respon (en_json E) json_req)) (\<lambda>json_req.
     pbind (plift (int_path (en_json E) json_req [K ''meta'', K ''$respon_id''])) (\<lambda>(json_req, rid).
     pbind (plift (str_path (en_json E) json_req [K ''meta'', K ''$server_hash''])) (\<lambda>(json_req, sh).
     pbind (pget (\<lambda>s. mr_check rid sh (m_returns s))) (\<lambda>known.
       if known then
         repeat_until (\<lambda>json.
           pbind (cm_end_event E json) (\<lambda>(ret, json'). pret (if ret = -1 then Inl json' else Inr ())))
           json_req
       else pret ()))))))))"

subsection \<open>The worker\<close>

fun run_replies ::
    "('j, 'cb, 'w) env \<Rightarrow> ('cb option \<times> 'j \<times> 'j) list \<Rightarrow> ('j, 'cb, 'w, unit) conn_prog" where
  "run_replies E [] = pret ()"
| "run_replies E ((None, js, answer) # calls) = pthrow Undefined_behaviour"
| "run_replies E ((Some f, js, answer) # calls) =
     pthen (pmod (\<lambda>s. s\<lparr>cm_world := en_reply E f js answer (cm_world s)\<rparr>)) (run_replies E calls)"

definition deliver_reply :: "('j, 'cb, 'w) env \<Rightarrow> int \<Rightarrow> string \<Rightarrow> 'j \<Rightarrow> ('j, 'cb, 'w, unit) conn_prog" where
  "deliver_reply E rid sh json =
     pbind (pget (\<lambda>s. mr_call (en_json E) rid sh json (m_returns s))) (\<lambda>(calls, returns).
     pthen (run_replies E calls) (pmod (\<lambda>s. s\<lparr>m_returns := returns\<rparr>)))"

fun find_handler :: "'j json_lib \<Rightarrow> 'cb handler list \<Rightarrow> 'j \<Rightarrow> ('j \<times> 'cb handler option) result" where
  "find_handler J [] json = Inr (json, None)"
| "find_handler J (h # hs) json =
     (case j_path J json [K ''meta'', K ''$type_obj''] of
        Inl x \<Rightarrow> Inl x
      | Inr (json', v) \<Rightarrow>
          if j_eq_str J v (hd_nameobj h) then Inr (json', Some h) else find_handler J hs json')"

text \<open>
  \<open>json["meta"]["$list_servers"][size - 1]["name"]\<close>: with an empty list the index wraps round to
  the largest \<open>size_t\<close>, for which \<open>operator[]\<close> on an array has no defined meaning.
\<close>

definition last_server :: "'j json_lib \<Rightarrow> 'j \<Rightarrow> ('j \<times> 'j) result" where
  "last_server J json =
     (case j_path J json [K ''meta'', K ''$list_servers''] of
        Inl x \<Rightarrow> Inl x
      | Inr (json', l) \<Rightarrow>
          if j_size J l = 0 then
            (case j_index J l (N 0) of None \<Rightarrow> Inl Json_type_error | Some p \<Rightarrow> Inl Undefined_behaviour)
          else j_path J json' [K ''meta'', K ''$list_servers'', N (j_size J l - 1), K ''name''])"

definition worker_reply :: "('j, 'cb, 'w) env \<Rightarrow> 'j \<Rightarrow> ('j, 'cb, 'w, 'j) conn_prog" where
  "worker_reply E json =
     pbind (cm_start_event E json) (\<lambda>(r, json).
       if r = 0 then
         pbind (plift (int_path (en_json E) json [K ''meta'', K ''$respon_id''])) (\<lambda>(json, rid).
         pbind (plift (str_path (en_json E) json [K ''meta'', K ''$server_hash''])) (\<lambda>(json, sh).
         pthen (deliver_reply E rid sh json)
           (pbind (cm_end_event E json) (\<lambda>p. pret (snd p)))))
       else pret json)"

definition worker_request :: "('j, 'cb, 'w) env \<Rightarrow> 'j \<Rightarrow> ('j, 'cb, 'w, 'j) conn_prog" where
  "worker_request E json =
     pbind (pget cm_handlers) (\<lambda>hs.
     pbind (plift (find_handler (en_json E) hs json)) (\<lambda>(json, found).
       case found of
         None \<Rightarrow> pret json
       | Some h \<Rightarrow>
           pbind (plift (print_respon (en_json E) json)) (\<lambda>json.
           pbind (cm_start_event E json) (\<lambda>(r, json).
             if r = 0 then
               pbind (plift (print_respon (en_json E) json)) (\<lambda>json.
               pthen (case hd_callback h of
                        None \<Rightarrow> pthrow Undefined_behaviour | Some f \<Rightarrow> en_request E f json)
                 (pbind (cm_end_event E json) (\<lambda>p. pret (snd p))))
             else pret json))))"

text \<open>
  One task: whether the worker goes on to delete it, and its value. \<open>False\<close> is the \<open>continue\<close>
  that an unknown \<open>$type_event\<close> ends in.
\<close>

definition worker_job :: "('j, 'cb, 'w) env \<Rightarrow> 'j \<Rightarrow> ('j, 'cb, 'w, bool \<times> 'j) conn_prog" where
  "worker_job E json =
     (let J = en_json E in
      pbind (plift (last_server J json)) (\<lambda>(json, name).
      pbind (pget name_client) (\<lambda>me.
        if j_eq_str J name me then
          pbind (plift (j_path J json [K ''meta'', K ''$type_event''])) (\<lambda>(json, ty).
            if j_eq_str J ty ''res'' then pbind (worker_reply E json) (\<lambda>json. pret (True, json))
            else
              pbind (plift (j_path J json [K ''meta'', K ''$type_event''])) (\<lambda>(json, ty).
                if j_eq_str J ty ''req'' then pbind (worker_request E json) (\<lambda>json. pret (True, json))
                else pret (False, json)))
        else
          pbind (pget cm_transfer) (\<lambda>t.
            pthen (case t of None \<Rightarrow> pret () | Some f \<Rightarrow> en_transfer E f json) (pret (True, json))))))"

definition worker_round :: "('j, 'cb, 'w) env \<Rightarrow> int \<Rightarrow> ('j, 'cb, 'w, int + unit) conn_prog" where
  "worker_round E start_time =
     (let J = en_json E in
      pbind (pget work_loop) (\<lambda>on.
        if \<not> on then pret (Inr ()) else
        pbind (pget (\<lambda>s. mt_get_task J (m_task s))) (\<lambda>json.
          if j_empty J json then
            pbind (now_ms E) (\<lambda>end_time.
              if end_time - start_time \<ge> 1000 then
                pthen (pmod (\<lambda>s. s\<lparr>empty_thread := False\<rparr>)) (pthen (en_wait E) (pret (Inl start_time)))
              else pret (Inl start_time))
          else
            pbind (now_ms E) (\<lambda>start_time.
            pbind (worker_job E json) (\<lambda>(finished, json).
              if \<not> finished then pret (Inl start_time) else
              pbind (plift (str_member J json ''id'')) (\<lambda>(json, i).
              pthen (papply (\<lambda>s. case mt_delete_object J i (m_task s) of
                                     (r, b) \<Rightarrow> (r, s\<lparr>m_task := b\<rparr>)))
                (pret (Inl start_time))))))))"

definition worker_task :: "('j, 'cb, 'w) env \<Rightarrow> ('j, 'cb, 'w, unit) conn_prog" where
  "worker_task E =
     pbind (now_ms E) (\<lambda>start_time. pbind (now_ms E) (\<lambda>end_time.
       repeat_until (worker_round E) start_time))"

subsection \<open>Polling: reading a task list\<close>

text \<open>
  The local variables of the parser of one connection's answer. \<open>respon_str\<close> is overwritten with
  a NUL behind the text to parse and restored after it, so only a text that fails to parse
  leaves it changed.
\<close>

record 'j wire =
  w_j :: int
  w_n :: int
  w_index_object :: int
  w_jump :: bool
  w_id :: 'j
  w_meta :: 'j
  w_temp :: 'j

definition start_wire :: "'j json_lib \<Rightarrow> 'j \<Rightarrow> 'j wire" where
  "start_wire J json_temp =
     \<lparr>w_j = 0, w_n = 0, w_index_object = 0, w_jump = False, w_id = j_null J, w_meta = j_null J,
      w_temp = json_temp\<rparr>"

text \<open>
  The size in front of a brace: the bytes from \<open>n\<close> to \<open>j\<close>, copied into a string of ten
  characters and read with \<open>atoi\<close>; more than ten are written past its end.
\<close>

definition size_field :: "string \<Rightarrow> int \<Rightarrow> int \<Rightarrow> int result" where
  "size_field resp n j =
     (if n < 0 \<or> j - n < 0 \<or> 10 < j - n then Inl Undefined_behaviour
      else Inr (atoi (c_str (take (nat (j - n)) (drop (nat n) resp)))))"

text \<open>The text from \<open>j\<close> on, ended by the NUL written at \<open>pos\<close>.\<close>

definition cut_text :: "string \<Rightarrow> int \<Rightarrow> int \<Rightarrow> string" where
  "cut_text resp j pos = c_str (drop (nat j) (resp[nat pos := NUL]))"

definition wire_parse ::
    "('j, 'cb, 'w) env \<Rightarrow> nat \<Rightarrow> int \<Rightarrow> int \<Rightarrow> ('j, 'cb, 'w, 'j) conn_prog" where
  "wire_parse E i j pos =
     pbind (conn_at (Some i)) (\<lambda>c.
       let resp = co_respon_str c in
       if pos < 0 \<or> int (length resp) < pos then pthrow Undefined_behaviour
       else
         (case parse (en_json E) (cut_text resp j pos) of
            Inl x \<Rightarrow>
              pthen (set_conn (Some i) (\<lambda>c. c\<lparr>co_respon_str := resp[nat pos := NUL]\<rparr>)) (pthrow x)
          | Inr v \<Rightarrow> pret v))"

text \<open>The task that goes into the buffer.\<close>

definition task_json :: "'j json_lib \<Rightarrow> 'j \<Rightarrow> 'j \<Rightarrow> 'j \<Rightarrow> 'j \<Rightarrow> string \<Rightarrow> ('j \<times> 'j) result" where
  "task_json J temp idj meta data address =
     (case j_index J idj (K ''id'') of
        None \<Rightarrow> Inl Json_type_error
      | Some (idj', v) \<Rightarrow>
     (case j_assign J temp [K ''id''] v of
        Inl x \<Rightarrow> Inl x
      | Inr t1 \<Rightarrow>
     (case j_assign J t1 [K ''meta''] meta of
        Inl x \<Rightarrow> Inl x
      | Inr t2 \<Rightarrow>
     (case j_assign J t2 [K ''data''] data of
        Inl x \<Rightarrow> Inl x
      | Inr t3 \<Rightarrow>
     (case j_assign J t3 [K ''address''] (j_str J address) of
        Inl x \<Rightarrow> Inl x
      | Inr t4 \<Rightarrow> Inr (idj', t4))))))"

definition check_task :: "('j, 'cb, 'w) env \<Rightarrow> string \<Rightarrow> ('j, 'cb, 'w, bool) conn_prog" where
  "check_task E i =
     papply (\<lambda>s. case mt_check_id (en_json E) i (m_task s) of (r, b) \<Rightarrow> (r, s\<lparr>m_task := b\<rparr>))"

text \<open>What the three values of a record do, by \<open>index_object\<close>.\<close>

definition wire_object ::
    "('j, 'cb, 'w) env \<Rightarrow> string \<Rightarrow> 'j wire \<Rightarrow> ('j, 'cb, 'w, 'j wire) conn_prog" where
  "wire_object E address st =
     (let J = en_json E in
      if w_index_object st = 0 then
        pbind (plift (str_member J (w_temp st) ''id'')) (\<lambda>(idj, i).
        pbind (check_task E i) (\<lambda>known.
        pret (st\<lparr>w_id := idj, w_jump := (known \<or> w_jump st)\<rparr>)))
      else if w_index_object st = 1 then pret (st\<lparr>w_meta := w_temp st\<rparr>)
      else if w_index_object st = 2 then
        (let data = w_temp st;
             temp = j_clear J (w_temp st);
             st' = st\<lparr>w_index_object := -1, w_j := w_j st + 1, w_temp := temp\<rparr> in
         if \<not> w_jump st then
           pbind (plift (task_json J temp (w_id st) (w_meta st) data address)) (\<lambda>(idj, t).
           pthen (pmod (\<lambda>s. s\<lparr>m_task := mt_add t (m_task s)\<rparr>))
             (pret (st'\<lparr>w_id := idj, w_temp := t\<rparr>)))
         else pret (st'\<lparr>w_jump := False\<rparr>))
      else pret st)"

text \<open>One round of the loop over the characters of the answer.\<close>

definition wire_round ::
    "('j, 'cb, 'w) env \<Rightarrow> nat \<Rightarrow> 'j wire \<Rightarrow> ('j, 'cb, 'w, 'j wire + 'j wire) conn_prog" where
  "wire_round E i st =
     pbind (conn_at (Some i)) (\<lambda>c.
       let resp = co_respon_str c in
       if \<not> w_j st < int (length resp) then pret (Inr st)
       else if w_j st < 0 then pthrow Undefined_behaviour
       else if resp ! nat (w_j st) \<noteq> CHR ''{'' then pret (Inl (st\<lparr>w_j := w_j st + 1\<rparr>))
       else
         pbind (plift (size_field resp (w_n st) (w_j st))) (\<lambda>size.
         pbind (if w_jump st then pret (w_temp st) else wire_parse E i (w_j st) (w_j st + size)) (\<lambda>temp.
         pbind (wire_object E (co_address c) (st\<lparr>w_j := w_j st + size, w_temp := temp\<rparr>)) (\<lambda>st.
         pret (Inl (st\<lparr>w_n := w_j st, w_index_object := w_index_object st + 1, w_j := w_j st + 1\<rparr>))))))"

definition wire_loop ::
    "('j, 'cb, 'w) env \<Rightarrow> nat \<Rightarrow> 'j wire \<Rightarrow> ('j, 'cb, 'w, 'j wire) conn_prog" where
  "wire_loop E i = repeat_until (wire_round E i)"

text \<open>
  The answer of one connection. The values of the local \<open>json_temp\<close> go from one connection to
  the next. An answer that is one JSON object ends without touching the marks.
\<close>

definition read_tasks :: "('j, 'cb, 'w) env \<Rightarrow> nat \<Rightarrow> 'j \<Rightarrow> ('j, 'cb, 'w, 'j) conn_prog" where
  "read_tasks E i json_temp =
     (let J = en_json E in
      pbind (conn_at (Some i)) (\<lambda>c.
        if co_count_try c \<noteq> 0 then pret json_temp
        else
          (let temp = j_clear J json_temp; resp = co_respon_str c in
           if resp \<noteq> [] \<and> hd resp = CHR ''{'' then
             pbind (plift (parse J (resp))) (\<lambda>v.
             pthen (if j_contains J v ''$error'' then get_myid E (co_address c) False else pret ())
               (pret v))
           else
             pbind (wire_loop E i (start_wire J temp)) (\<lambda>st.
             pthen (pmod (\<lambda>s. s\<lparr>m_task := mt_note_all (mt_delete_notnote J (m_task s)),
                                empty_thread := True\<rparr>))
               (pret (w_temp st))))))"

subsection \<open>Polling: asking the servers\<close>

text \<open>Whether a connection is skipped after failures: 100 ms after five, one second after twenty.\<close>

definition backed_off :: "connection \<Rightarrow> int \<Rightarrow> bool" where
  "backed_off c duration \<longleftrightarrow>
     (if 20 \<le> co_count_try c then duration < 1000
      else 5 < co_count_try c \<and> duration < 100)"

text \<open>One connection; the flag is \<open>all_successfull\<close>.\<close>

definition poll_conn ::
    "('j, 'cb, 'w) env \<Rightarrow> nat \<Rightarrow> bool \<Rightarrow> ('j, 'cb, 'w, bool) conn_prog" where
  "poll_conn E i all_successfull =
     pbind (now_ms E) (\<lambda>end_time.
     pbind (conn_at (Some i)) (\<lambda>c.
       if backed_off c (end_time - co_last_try c) then pret all_successfull
       else
         pbind (pget (\<lambda>s. command_url ''/api/get/'' s c ''/event'')) (\<lambda>url.
         pbind (with_curl (get_page (en_net E) (co_address c) url 0)) (\<lambda>(res_str, res_code).
         pthen (set_conn (Some i) (\<lambda>c.
             if res_code = 200 then c\<lparr>co_respon_str := res_str, co_count_try := 0\<rparr>
             else c\<lparr>co_count_try := co_count_try c + 1\<rparr>))
         (pbind (now_ms E) (\<lambda>t.
         pthen (set_conn (Some i) (\<lambda>c. c\<lparr>co_last_try := t\<rparr>))
           (pret (all_successfull \<and> res_code = 200))))))))"

fun poll_all ::
    "('j, 'cb, 'w) env \<Rightarrow> nat list \<Rightarrow> bool \<Rightarrow> ('j, 'cb, 'w, bool) conn_prog" where
  "poll_all E [] all_successfull = pret all_successfull"
| "poll_all E (i # is) all_successfull =
     pbind (poll_conn E i all_successfull) (poll_all E is)"

text \<open>
  Rounds over the connections until one succeeds for all of them or 100 ms have passed. The
  loop's state is the elapsed time and the flag of the last round.
\<close>

definition poll_rounds :: "('j, 'cb, 'w) env \<Rightarrow> int \<Rightarrow> int \<times> bool \<Rightarrow> ('j, 'cb, 'w, unit) conn_prog" where
  "poll_rounds E start =
     repeat_until (\<lambda>(dur, ok).
       if dur > 100 \<or> ok then pret (Inr ())
       else
         pbind (pget (\<lambda>s. [0..<length (connections s)])) (\<lambda>is.
         pbind (poll_all E is True) (\<lambda>ok'.
         pbind (now_ms E) (\<lambda>t. pret (Inl (t - start, ok'))))))"

fun read_all :: "('j, 'cb, 'w) env \<Rightarrow> nat list \<Rightarrow> 'j \<Rightarrow> ('j, 'cb, 'w, 'j) conn_prog" where
  "read_all E [] json_temp = pret json_temp"
| "read_all E (i # is) json_temp = pbind (read_tasks E i json_temp) (read_all E is)"

definition getevent :: "('j, 'cb, 'w) env \<Rightarrow> ('j, 'cb, 'w, unit) conn_prog" where
  "getevent E =
     pbind (now_ms E) (\<lambda>start.
     pbind (now_ms E) (\<lambda>end_event.
     pthen (poll_rounds E start (end_event - start, False))
       (pbind (pget (\<lambda>s. [0..<length (connections s)])) (\<lambda>is.
        pbind (read_all E is (j_null (en_json E))) (\<lambda>temp. pret ())))))"

definition poll_loop :: "('j, 'cb, 'w) env \<Rightarrow> ('j, 'cb, 'w, unit) conn_prog" where
  "poll_loop E =
     repeat_until (\<lambda>u.
       pbind (pget work_loop) (\<lambda>on.
         if \<not> on then pret (Inr ())
         else pthen (getevent E) (pthen (sleep_ms E 100) (pret (Inl ()))))) ()"

end
