(* ===== verification/Connector_Wire.thy ===== *)
theory Connector_Wire
  imports Connector
begin

section \<open>The task list on the wire\<close>

text \<open>
  What the connector's parser makes of the texts the task server writes: a record is three JSON
  objects, each preceded by its length in decimal, and a line feed.
\<close>

record 'j wire_item =
  it_id :: string
  it_idj :: 'j
  it_idtext :: string
  it_meta :: 'j
  it_metatext :: string
  it_data :: 'j
  it_datatext :: string
  it_task :: 'j

definition sized :: "string \<Rightarrow> string" where
  "sized t = dec_nat (length t) @ t"

definition wire_text :: "'j wire_item \<Rightarrow> string" where
  "wire_text it = sized (it_idtext it) @ sized (it_metatext it) @ sized (it_datatext it) @ [LF]"

text \<open>
  A record fit for the wire: three object texts, an id, and a task the connector can build.
\<close>

definition wire_ok :: "'j json_lib \<Rightarrow> string \<Rightarrow> 'j wire_item \<Rightarrow> bool" where
  "wire_ok J address it \<longleftrightarrow>
     json_object_text J (it_idj it) (it_idtext it) \<and>
     json_object_text J (it_meta it) (it_metatext it) \<and>
     json_object_text J (it_data it) (it_datatext it) \<and>
     str_member J (it_idj it) ''id'' = Inr (it_idj it, it_id it) \<and>
     task_json J (j_clear J (it_data it)) (it_idj it) (it_meta it) (it_data it) address =
       Inr (it_idj it, it_task it)"

lemma dec_nat_length: "n < 10 ^ Suc k \<Longrightarrow> length (dec_nat n) \<le> Suc k"
proof (induction k arbitrary: n)
  case 0
  then show ?case by (simp add: dec_nat.simps [of n])
next
  case (Suc k)
  show ?case
  proof (cases "n < 10")
    case True
    then show ?thesis by (simp add: dec_nat.simps [of n])
  next
    case False
    have "n div 10 < 10 ^ Suc k" using Suc.prems by (simp add: less_mult_imp_div_less)
    from Suc.IH [OF this] False show ?thesis by (simp add: dec_nat.simps [of n])
  qed
qed

lemma dec_nat_small:
  assumes "n < 10 ^ 9"
  shows "length (dec_nat n) \<le> 9"
proof -
  have "n < 10 ^ Suc 8" using assms by simp
  from dec_nat_length [OF this] show ?thesis by simp
qed

lemma dec_nat_no_nul: "NUL \<notin> set (dec_nat n)"
proof
  assume "NUL \<in> set (dec_nat n)"
  from dec_nat_digits [OF this] show False by (simp add: is_digit_def)
qed

lemma dec_nat_no_brace: "k < length (dec_nat n) \<Longrightarrow> dec_nat n ! k \<noteq> CHR ''{''"
  by (rule is_digit_not_sign(3), rule dec_nat_digits, rule nth_mem)

subsection \<open>One field\<close>

lemma size_field_dec:
  assumes "resp = pre @ dec_nat n @ rest" "length (dec_nat n) \<le> 9"
  shows "size_field resp (int (length pre)) (int (length pre + length (dec_nat n))) = Inr (int n)"
  using assms atoi_dec_nat [of "[]" n] by (simp add: size_field_def c_str_id dec_nat_no_nul)

lemma cut_text_field:
  assumes "resp = pre @ tx @ rest" "NUL \<notin> set tx"
  shows "cut_text resp (int (length pre)) (int (length pre) + int (length tx)) = tx"
proof -
  have n: "nat (int (length pre) + int (length tx)) = length pre + length tx" by simp
  show ?thesis
  proof (cases rest)
    case Nil
    with assms show ?thesis by (simp add: cut_text_def n c_str_id list_update_beyond)
  next
    case (Cons c cs)
    have "resp[length pre + length tx := NUL] = pre @ tx @ NUL # cs"
      using assms(1) Cons by (simp add: list_update_append)
    then show ?thesis
      using assms(2) by (simp add: cut_text_def n c_str_append)
  qed
qed

lemma wire_loop_step:
  "wire_round E i st s = Some (Inr (Inl st'), s') \<Longrightarrow> wire_loop E i st s = wire_loop E i st' s'"
  by (simp add: wire_loop_def repeat_step)

lemma conn_at_ok: "i < length (connections s) \<Longrightarrow> conn_at (Some i) s = Some (Inr (connections s ! i), s)"
  by (simp add: conn_at_def)

text \<open>The digits in front of a brace are passed over.\<close>

lemma wire_skip:
  assumes i: "i < length (connections s)"
    and "nat (w_j st) \<le> b" "0 \<le> w_j st" "b < length (co_respon_str (connections s ! i))"
    and "\<And>k. nat (w_j st) \<le> k \<Longrightarrow> k < b \<Longrightarrow> co_respon_str (connections s ! i) ! k \<noteq> CHR ''{''"
  shows "wire_loop E i st s = wire_loop E i (st\<lparr>w_j := int b\<rparr>) s"
  using assms(2-)
proof (induction "b - nat (w_j st)" arbitrary: st)
  case 0
  then have "st\<lparr>w_j := int b\<rparr> = st" by (cases st) simp
  then show ?case by simp
next
  case (Suc d)
  let ?st = "st\<lparr>w_j := w_j st + 1\<rparr>"
  have "wire_round E i st s = Some (Inr (Inl ?st), s)"
    using Suc.prems Suc.hyps(2) i
    by (simp add: wire_round_def pbind_def conn_at_ok [OF i] Let_def prog_simps)
  then have "wire_loop E i st s = wire_loop E i ?st s" by (rule wire_loop_step)
  also have "\<dots> = wire_loop E i (?st\<lparr>w_j := int b\<rparr>) s"
    using Suc.prems Suc.hyps(2) by (intro Suc.hyps(1)) auto
  finally show ?case by simp
qed

definition next_field :: "'j wire \<Rightarrow> 'j wire" where
  "next_field st =
     st\<lparr>w_n := w_j st, w_index_object := w_index_object st + 1, w_j := w_j st + 1\<rparr>"

lemma wire_field:
  assumes i: "i < length (connections s)"
    and resp: "co_respon_str (connections s ! i) = pre @ sized tx @ rest"
    and tx: "tx \<noteq> []" "hd tx = CHR ''{''" "NUL \<notin> set tx" "length tx < 10 ^ 9"
    and st: "w_n st = int (length pre)" "w_n st \<le> w_j st" "w_j st \<le> w_n st + 1"
    and v: "w_jump st \<or> j_parse (en_json E) tx = Some v"
    and obj: "wire_object E (co_address (connections s ! i))
        (st\<lparr>w_j := int (length pre + length (sized tx)),
            w_temp := (if w_jump st then w_temp st else v)\<rparr>) s = Some (Inr st', s')"
  shows "wire_loop E i st s = wire_loop E i (next_field st') s'"
proof -
  let ?resp = "co_respon_str (connections s ! i)" and ?d = "dec_nat (length tx)"
  define b where "b = length pre + length ?d"
  have d: "length ?d \<le> 9" "0 < length ?d" using dec_nat_small [OF tx(4)] by simp_all
  have b1: "length pre + 1 \<le> b" using d(2) unfolding b_def by linarith
  have r: "?resp = pre @ ?d @ tx @ rest" using resp by (simp add: sized_def)
  have brace: "?resp ! b = CHR ''{''"
    using tx(1,2) r by (simp add: b_def nth_append hd_conv_nth)
  have len: "b < length ?resp" using tx(1) r by (simp add: b_def)
  have "wire_loop E i st s = wire_loop E i (st\<lparr>w_j := int b\<rparr>) s"
  proof (rule wire_skip [OF i])
    fix k assume "nat (w_j st) \<le> k" "k < b"
    then have "length pre \<le> k" "k - length pre < length ?d" using st by (auto simp: b_def)
    then show "?resp ! k \<noteq> CHR ''{''"
      using dec_nat_no_brace [of "k - length pre" "length tx"] r by (simp add: nth_append)
  qed (use st b1 len in auto)
  moreover have "wire_round E i (st\<lparr>w_j := int b\<rparr>) s = Some (Inr (Inl (next_field st')), s')"
  proof -
    have size: "size_field ?resp (w_n st) (int b) = Inr (int (length tx))"
      using size_field_dec [OF r d(1)] st(1) by (simp add: b_def)
    have pos: "int b + int (length tx) = int (length pre + length (sized tx))"
      by (simp add: b_def sized_def)
    have cut: "cut_text ?resp (int b) (int b + int (length tx)) = tx"
      using cut_text_field [of ?resp "pre @ ?d" tx rest] r tx(3) by (simp add: b_def)
    have temp: "wire_parse E i (int b) (int b + int (length tx)) s = Some (Inr v, s)" if "\<not> w_jump st"
      using that v r cut i
      by (simp add: wire_parse_def pbind_def conn_at_ok [OF i] parse_def b_def prog_simps Let_def)
    show ?thesis
      unfolding wire_round_def
      using brace len size obj temp
      by (cases "w_jump st")
        (simp_all add: pbind_def conn_at_ok [OF i] Let_def pos next_field_def prog_simps)
  qed
  ultimately show ?thesis using wire_loop_step by metis
qed

subsection \<open>One record, then all of them\<close>

definition at_record :: "nat \<Rightarrow> 'j wire \<Rightarrow> bool" where
  "at_record p st \<longleftrightarrow>
     w_n st = int p \<and> w_n st \<le> w_j st \<and> w_j st \<le> w_n st + 1 \<and>
     w_index_object st = 0 \<and> \<not> w_jump st"

lemma json_object_textD:
  assumes "json_object_text J v t"
  shows "t \<noteq> []" "hd t = CHR ''{''" "NUL \<notin> set t" "length t < 10 ^ 9" "j_parse J t = Some v"
  using assms by (simp_all add: json_object_text_def)

lemma wire_record:
  fixes s :: "('j, 'cb, 'w) connector"
  assumes i: "i < length (connections s)"
    and resp: "co_respon_str (connections s ! i) = pre @ wire_text it @ rest"
    and ok: "wire_ok (en_json E) (co_address (connections s ! i)) it"
    and st: "at_record (length pre) st"
    and ck: "mt_check_id (en_json E) (it_id it) (m_task s) = (Inr known, b)"
  shows "\<exists>st'. at_record (length (pre @ wire_text it)) st' \<and>
    wire_loop E i st s =
      wire_loop E i st' (s\<lparr>m_task := (if known then b else mt_add (it_task it) b)\<rparr>)"
proof -
  let ?J = "en_json E" and ?a = "co_address (connections s ! i)"
  note o = ok [unfolded wire_ok_def]
  note t1 = json_object_textD [OF o [THEN conjunct1]]
  note t2 = json_object_textD [OF o [THEN conjunct2, THEN conjunct1]]
  note t3 = json_object_textD [OF o [THEN conjunct2, THEN conjunct2, THEN conjunct1]]
  define p1 where "p1 = pre @ sized (it_idtext it)"
  define p2 where "p2 = p1 @ sized (it_metatext it)"
  define p3 where "p3 = p2 @ sized (it_datatext it)"
  let ?s1 = "s\<lparr>m_task := b\<rparr>"
  let ?s2 = "s\<lparr>m_task := (if known then b else mt_add (it_task it) b)\<rparr>"
  define st1 where "st1 = st\<lparr>w_j := int (length p1), w_temp := it_idj it, w_id := it_idj it, w_jump := known\<rparr>"
  define m where "m = (if known then it_idj it else it_meta it)"
  define st2 where "st2 = (next_field st1)\<lparr>w_j := int (length p2), w_temp := m, w_meta := m\<rparr>"
  define d where "d = (if known then m else it_data it)"
  define st3 where "st3 = (next_field st2)\<lparr>w_j := int (length p3) + 1, w_index_object := -1,
    w_jump := False, w_temp := (if known then j_clear ?J d else it_task it)\<rparr>"
  have "wire_loop E i st s = wire_loop E i (next_field st1) ?s1"
  proof (rule wire_field [OF i _ t1(1-4)])
    show "co_respon_str (connections s ! i) =
        pre @ sized (it_idtext it) @ (sized (it_metatext it) @ sized (it_datatext it) @ LF # rest)"
      using resp by (simp add: wire_text_def)
    show "w_jump st \<or> j_parse ?J (it_idtext it) = Some (it_idj it)" using t1(5) by simp
    show "wire_object E ?a (st\<lparr>w_j := int (length pre + length (sized (it_idtext it))),
        w_temp := if w_jump st then w_temp st else it_idj it\<rparr>) s = Some (Inr st1, ?s1)"
      using st o ck
      by (simp add: wire_object_def at_record_def st1_def p1_def pbind_def check_task_def Let_def prog_simps)
  qed (use st in \<open>simp_all add: at_record_def\<close>)
  also have "wire_loop E i (next_field st1) ?s1 = wire_loop E i (next_field st2) ?s1"
  proof (rule wire_field [OF _ _ t2(1-4)])
    show "co_respon_str (connections ?s1 ! i) =
        p1 @ sized (it_metatext it) @ (sized (it_datatext it) @ LF # rest)"
      using resp by (simp add: wire_text_def p1_def)
    show "w_jump (next_field st1) \<or> j_parse ?J (it_metatext it) = Some (it_meta it)"
      using t2(5) by simp
    show "wire_object E (co_address (connections ?s1 ! i))
        ((next_field st1)\<lparr>w_j := int (length p1 + length (sized (it_metatext it))),
          w_temp := if w_jump (next_field st1) then w_temp (next_field st1) else it_meta it\<rparr>) ?s1 =
        Some (Inr st2, ?s1)"
      using st by (simp add: wire_object_def at_record_def next_field_def st1_def st2_def p2_def m_def prog_simps)
  qed (use i st in \<open>simp_all add: next_field_def st1_def at_record_def\<close>)
  also have "wire_loop E i (next_field st2) ?s1 = wire_loop E i (next_field st3) ?s2"
  proof (rule wire_field [OF _ _ t3(1-4)])
    show "co_respon_str (connections ?s1 ! i) =
        p2 @ sized (it_datatext it) @ (LF # rest)"
      using resp by (simp add: wire_text_def p1_def p2_def)
    show "w_jump (next_field st2) \<or> j_parse ?J (it_datatext it) = Some (it_data it)"
      using t3(5) by simp
    show "wire_object E (co_address (connections ?s1 ! i))
        ((next_field st2)\<lparr>w_j := int (length p2 + length (sized (it_datatext it))),
          w_temp := if w_jump (next_field st2) then w_temp (next_field st2) else it_data it\<rparr>) ?s1 =
        Some (Inr st3, ?s2)"
      using st o
      by (cases known)
        (simp_all add: wire_object_def at_record_def next_field_def st1_def st2_def st3_def p3_def
          m_def d_def pbind_def pthen_def Let_def prog_simps)
  qed (use i st in \<open>simp_all add: next_field_def st1_def st2_def at_record_def\<close>)
  finally have "wire_loop E i st s = wire_loop E i (next_field st3) ?s2" .
  moreover have "at_record (length (pre @ wire_text it)) (next_field st3)"
    by (simp add: at_record_def next_field_def st3_def p3_def p2_def p1_def wire_text_def)
  ultimately show ?thesis by blast
qed

lemma wire_records:
  fixes s :: "('j, 'cb, 'w) connector"
  assumes "i < length (connections s)"
    and "co_respon_str (connections s ! i) = pre @ concat (map wire_text items)"
    and "\<forall>it \<in> set items. wire_ok (en_json E) (co_address (connections s ! i)) it"
    and "at_record (length pre) st"
    and "mt_receive (en_json E) (map (\<lambda>it. (it_id it, it_task it)) items) (m_task s) = (Inr (), b)"
  shows "\<exists>st'. wire_loop E i st s = Some (Inr st', s\<lparr>m_task := b\<rparr>)"
  using assms
proof (induction items arbitrary: pre st s)
  case Nil
  from Nil.prems have "wire_round E i st s = Some (Inr (Inr st), s)"
    by (simp add: wire_round_def pbind_def conn_at_ok Let_def at_record_def prog_simps)
  then have "wire_loop E i st s = Some (Inr st, s)"
    by (simp add: wire_loop_def repeat_step(2))
  moreover have "s\<lparr>m_task := b\<rparr> = s" using Nil.prems(5) by (cases s) simp
  ultimately show ?case by metis
next
  case (Cons it items)
  obtain known b1 where ck: "mt_check_id (en_json E) (it_id it) (m_task s) = (Inr known, b1)"
    and rest: "mt_receive (en_json E) (map (\<lambda>it. (it_id it, it_task it)) items)
      (if known then b1 else mt_add (it_task it) b1) = (Inr (), b)"
    using Cons.prems(5) by (auto split: prod.splits sum.splits)
  let ?s = "s\<lparr>m_task := (if known then b1 else mt_add (it_task it) b1)\<rparr>"
  obtain st' where st': "at_record (length (pre @ wire_text it)) st'"
    "wire_loop E i st s = wire_loop E i st' ?s"
    using wire_record [OF Cons.prems(1) _ _ Cons.prems(4) ck, of "concat (map wire_text items)"]
      Cons.prems(2,3) by auto
  have "\<exists>st''. wire_loop E i st' ?s = Some (Inr st'', ?s\<lparr>m_task := b\<rparr>)"
    using Cons.prems(1-3) st'(1) rest by (intro Cons.IH [where pre = "pre @ wire_text it"]) simp_all
  with st'(2) show ?case by simp
qed

lemma read_wire:
  fixes s :: "('j, 'cb, 'w) connector"
  assumes "i < length (connections s)"
    and "co_respon_str (connections s ! i) = concat (map wire_text items)"
    and "\<forall>it \<in> set items. wire_ok (en_json E) (co_address (connections s ! i)) it"
    and "mt_receive (en_json E) (map (\<lambda>it. (it_id it, it_task it)) items) (m_task s) = (Inr (), b)"
  shows "\<exists>st. wire_loop E i (start_wire (en_json E) temp) s = Some (Inr st, s\<lparr>m_task := b\<rparr>)"
  by (rule wire_records [where pre = "[]"]) (use assms in \<open>simp_all add: at_record_def start_wire_def\<close>)

lemma read_poll:
  fixes s :: "('j, 'cb, 'w) connector"
  assumes "i < length (connections s)" "co_count_try (connections s ! i) = 0"
    and "co_respon_str (connections s ! i) = concat (map wire_text items)"
    and "\<forall>it \<in> set items. wire_ok (en_json E) (co_address (connections s ! i)) it \<and>
           has_id (en_json E) (it_task it) (it_id it)"
    and "ids_ok (en_json E) (m_task s)" "\<forall>t \<in> set (m_task s). tk_note t \<longrightarrow> tk_empty t"
    and "length items \<le> length (filter tk_empty (m_task s))"
  shows "\<exists>temp' b. read_tasks E i temp s = Some (Inr temp', s\<lparr>m_task := b, empty_thread := True\<rparr>) \<and>
    live_ids (en_json E) b = it_id ` set items \<and> marked_ids (en_json E) b = {}"
proof -
  let ?J = "en_json E"
  let ?items = "map (\<lambda>it. (it_id it, it_task it)) items"
  have has: "\<forall>(i, json) \<in> set ?items. has_id ?J json i" using assms(4) by auto
  have len: "length ?items \<le> length (filter tk_empty (m_task s))" using assms(7) by simp
  obtain b where b: "mt_receive ?J ?items (m_task s) = (Inr (), b)"
    using receive_marks [OF assms(5) has len] by (metis prod.collapse)
  obtain st where st: "wire_loop E i (start_wire ?J (j_clear ?J temp)) s = Some (Inr st, s\<lparr>m_task := b\<rparr>)"
    using read_wire [OF assms(1,3) _ b] assms(4) by blast
  have ne: "\<not> (co_respon_str (connections s ! i) \<noteq> [] \<and> hd (co_respon_str (connections s ! i)) = CHR ''{'')"
  proof (cases items)
    case (Cons it r)
    then have "hd (co_respon_str (connections s ! i)) = hd (dec_nat (length (it_idtext it)))"
      using assms(3) by (simp add: wire_text_def sized_def hd_append)
    with dec_nat_hd_digit show ?thesis using is_digit_not_sign(3) by metis
  qed (use assms(3) in simp)
  have "read_tasks E i temp s =
      Some (Inr (w_temp st), s\<lparr>m_task := mt_note_all (mt_delete_notnote ?J b), empty_thread := True\<rparr>)"
    using ne st assms(2)
    by (simp add: read_tasks_def pbind_def pthen_def conn_at_ok [OF assms(1)] Let_def prog_simps
        del: de_Morgan_conj)
  moreover have "mt_cycle ?J ?items (m_task s) = (Inr (), mt_note_all (mt_delete_notnote ?J b))"
    using b by (simp add: mt_cycle_def)
  then have "live_ids ?J (mt_note_all (mt_delete_notnote ?J b)) = fst ` set ?items \<and>
      marked_ids ?J (mt_note_all (mt_delete_notnote ?J b)) = {}"
    using receive_marks [OF assms(5) has len] b cleanup_ids [of ?J b] assms(6)
    by (auto simp: marked_ids_def)
  moreover have "fst ` set ?items = it_id ` set items" by (simp add: image_image)
  ultimately show ?thesis by auto
qed

text \<open>
  C11. The connector reads the task list the way the server wrote it: on an answer that is the
  concatenation of well-formed records, its parser ends without an exception, having treated
  each record's task, in order, as \<open>check_id\<close> and \<open>add\<close> prescribe, and nothing else of the
  state is changed.
\<close>

theorem wire_round_trip:
  fixes s :: "('j, 'cb, 'w) connector"
  assumes "i < length (connections s)"
    and "co_respon_str (connections s ! i) = concat (map wire_text items)"
    and "\<forall>it \<in> set items. wire_ok (en_json E) (co_address (connections s ! i)) it"
    and "mt_receive (en_json E) (map (\<lambda>it. (it_id it, it_task it)) items) (m_task s) = (Inr (), b)"
  shows "\<exists>st. wire_loop E i (start_wire (en_json E) temp) s = Some (Inr st, s\<lparr>m_task := b\<rparr>)"
  by (rule read_wire [OF assms])

end
