(* ===== verification/Connector_Props.thy ===== *)
theory Connector_Props
  imports Connector_Wire
begin

section \<open>What the client's operations guarantee\<close>

subsection \<open>Calls into the network leave the queues alone\<close>

text \<open>What no answer of a server changes.\<close>

definition queues :: "('j, 'cb, 'w) connector \<Rightarrow> 'j task_buffer \<times> ('j, 'cb) return_data list \<times>
    'cb handler list \<times> 'cb option \<times> string \<times> bool \<times> string list" where
  "queues s = (m_task s, m_returns s, cm_handlers s, cm_transfer s, name_client s, work_loop s,
     map co_address (connections s))"

lemma stays_pget_pbind:
  assumes "\<And>s. kept s = k \<Longrightarrow> stays kept k X (f (g s))"
  shows "stays kept k X (pbind (pget g) f)"
proof (rule staysI)
  fix s r s' assume s: "kept s = k" and "pbind (pget g) f s = Some (r, s')"
  then have "f (g s) s = Some (r, s')" by (simp add: pbind_def pget_def)
  from staysD [OF assms [OF s] s this] show "kept s' = k \<and> (\<forall>e. r = Inl e \<longrightarrow> e \<in> X)" .
qed

lemma stays_curl: "stays queues k X (with_curl f)"
  by (rule staysI) (auto simp: with_curl_def queues_def split: prod.splits)

lemma stays_page [stays_intros]:
  "stays queues k X (page_json E a u)" "stays queues k X (page_json_post E a u b)"
  unfolding page_json_def page_json_post_def by (intro stays_intros stays_curl)+

lemma stays_sleep [stays_intros]: "stays queues k X (sleep_ms E n)"
  unfolding sleep_ms_def by (intro stays_intros) (simp add: queues_def)

lemma stays_conn_at:
  assumes "\<And>s :: ('j, 'cb, 'w) connector. queues s = k \<Longrightarrow>
      (case index of None \<Rightarrow> False | Some i \<Rightarrow> i < length (connections s))"
  shows "stays queues k X (conn_at index :: ('j, 'cb, 'w, connection) conn_prog)"
proof (rule staysI)
  fix s r and s' :: "('j, 'cb, 'w) connector" assume "queues s = k" "conn_at index s = Some (r, s')"
  with assms [of s] show "queues s' = k \<and> (\<forall>e. r = Inl e \<longrightarrow> e \<in> X)"
    by (auto simp: conn_at_def split: option.splits)
qed

lemma stays_set_conn:
  assumes "\<And>s :: ('j, 'cb, 'w) connector. queues s = k \<Longrightarrow>
      (case index of None \<Rightarrow> False | Some i \<Rightarrow> i < length (connections s))"
    and "\<And>c. co_address (f c) = co_address c"
  shows "stays queues k X (set_conn index f :: ('j, 'cb, 'w, unit) conn_prog)"
proof (rule staysI)
  fix s r and s' :: "('j, 'cb, 'w) connector" assume s: "queues s = k" and r: "set_conn index f s = Some (r, s')"
  from assms(1) [OF s] obtain i where i: "index = Some i" "i < length (connections s)"
    by (cases index) auto
  with r have "r = Inr ()" "s' = s\<lparr>connections := (connections s)[i := f (connections s ! i)]\<rparr>"
    by (auto simp: set_conn_def pbind_def conn_at_def pmod_def)
  moreover have "map co_address ((connections s)[i := f (connections s ! i)]) = map co_address (connections s)"
    using i assms(2) by (simp add: map_update list_update_same_conv)
  ultimately show "queues s' = k \<and> (\<forall>e. r = Inl e \<longrightarrow> e \<in> X)"
    using s by (auto simp: queues_def)
qed

lemma find_conn_queues: "queues s = queues t \<Longrightarrow> find_conn a s = find_conn a t"
proof -
  have "find_conn a s = first_index (\<lambda>b. b = a) (map co_address (connections s))" for s :: "('x, 'y, 'z) connector"
    unfolding find_conn_def by (rule first_index_cong) simp_all
  note f = this
  assume "queues s = queues t"
  then have "map co_address (connections s) = map co_address (connections t)"
    by (simp add: queues_def)
  then show "find_conn a s = find_conn a t" by (simp only: f)
qed

lemma find_conn_lt: "find_conn a s = Some i \<Longrightarrow> i < length (connections s) \<and> co_address (connections s ! i) = a"
  using first_index_SomeD by (fastforce simp: find_conn_def)

lemma j_assign_err: "j_assign J c ks v = Inl e \<Longrightarrow> e = Json_type_error"
  by (induction J c ks v rule: j_assign.induct)
    (auto simp: j_assign.simps split: option.splits sum.splits prod.splits)

lemma json_errs:
  "dump J v = Inl e \<Longrightarrow> e = Json_type_error"
  "get_int J v = Inl e \<Longrightarrow> e = Json_type_error"
  "get_string J v = Inl e \<Longrightarrow> e = Json_type_error"
  "id_request J s = Inl e \<Longrightarrow> e = Json_type_error"
  "str_member J v key = Inl e \<Longrightarrow> e = Json_type_error"
  by (auto simp: dump_def get_int_def get_string_def id_request_def str_member_def
    split: option.splits sum.splits prod.splits dest: j_assign_err)

text \<open>Registration with a known server: the only exception is one of the JSON library.\<close>

lemma stays_ask_id [stays_intros]: "stays queues k X (ask_id E a json l)"
  unfolding ask_id_def by (intro stays_intros)

lemma stays_get_myid:
  fixes E :: "('j, 'cb, 'w) env"
  assumes "\<And>s :: ('j, 'cb, 'w) connector. queues s = k \<Longrightarrow> find_conn a s \<noteq> None"
  shows "stays queues k {Json_type_error} (get_myid E a lp)"
proof -
  have ok: "case find_conn a s of None \<Rightarrow> False | Some i \<Rightarrow> i < length (connections t)"
    if "queues s = k" "queues t = k" for s t :: "('j, 'cb, 'w) connector"
  proof -
    have "find_conn a s = find_conn a t" using that by (intro find_conn_queues) simp
    with assms [OF that(2)] find_conn_lt [of a t] show ?thesis by (cases "find_conn a t") auto
  qed
  have "stays queues k {Json_type_error}
      (pbind (pbind (pget (id_request (en_json E))) plift) (\<lambda>json.
       pbind (if lp then get_myid_loop E a json
              else pbind (ask_id E a json ('''', '''')) (\<lambda>a. pret (snd a))) (\<lambda>l.
       set_conn index (\<lambda>c. c\<lparr>co_hash_worker := fst l, co_server_hash := snd l\<rparr>))))"
    if "index = find_conn a s" "queues s = k" for index and s :: "('j, 'cb, 'w) connector"
    unfolding get_myid_loop_def that(1)
    by (intro stays_intros stays_set_conn stays_pget_pbind)
      (use ok that(2) json_errs(4) in auto)
  then show ?thesis
    unfolding get_myid_def by (intro stays_pget_pbind) auto
qed

subsection \<open>Sending\<close>

lemma stays_send_attempt:
  fixes E :: "('j, 'cb, 'w) env"
  assumes "\<And>s :: ('j, 'cb, 'w) connector. queues s = k \<Longrightarrow> find_conn a s = Some i"
  shows "stays queues k {} (send_attempt E (Inr a) (Some i) json rid)"
proof -
  have lt: "case Some i of None \<Rightarrow> False | Some i \<Rightarrow> i < length (connections s)"
    if "queues s = k" for s :: "('j, 'cb, 'w) connector"
    using find_conn_lt [OF assms [OF that]] by simp
  have "stays queues k ({} \<union> {Json_parse_error, Json_type_error}) (get_myid E a True)"
  proof (rule staysI)
    fix s r and s' :: "('j, 'cb, 'w) connector" assume h: "queues s = k" "get_myid E a True s = Some (r, s')"
    from staysD [OF stays_get_myid h] assms
    show "queues s' = k \<and> (\<forall>e. r = Inl e \<longrightarrow> e \<in> {} \<union> {Json_parse_error, Json_type_error})" by auto
  qed
  note g = this
  have p: "pbind (plift (Inr x)) f = f x" for x and f :: "string \<Rightarrow> ('j, 'cb, 'w, int) conn_prog"
    by (rule ext) (simp add: pbind_def plift_def)
  show ?thesis
    unfolding send_attempt_def p
    by (intro stays_intros stays_conn_at g) (use lt in \<open>auto dest: json_errs\<close>)
qed

lemma send_loop_result:
  assumes "send_loop E a index json s = Some (Inr rid, s')"
  shows "0 \<le> rid"
proof -
  have "case fst (Inr rid :: exn + int, s') of Inr rid \<Rightarrow> 0 \<le> rid | Inl e \<Rightarrow> True"
    by (rule repeat_invariant [where I = "\<lambda>_ _. True" and Q = "\<lambda>r _. case r of Inr rid \<Rightarrow> 0 \<le> rid | Inl e \<Rightarrow> True",
        OF _ _ _ assms [unfolded send_loop_def]])
      (auto simp: pbind_def pret_def split: if_splits option.splits sum.splits prod.splits)
  then show ?thesis by simp
qed

text \<open>
  C18. Whatever the server answers, if \<open>send\<close> to a registered address returns, it returns without
  an exception, with exactly one pending reply added: the request's JSON and callback under a
  number that is not negative and the server hash the connection then has. The task buffer, the
  handlers and the addresses are untouched.
\<close>

theorem send_registers:
  fixes s :: "('j, 'cb, 'w) connector"
  assumes "find_conn a s = Some i" "send E a json callback s = Some (r, s')"
  shows "r = Inr () \<and>
    (\<exists>rid \<ge> 0. m_returns s' = mr_add \<lparr>rd_json_send = json,
        rd_server_hash = co_server_hash (connections s' ! i), rd_respon_id = rid,
        rd_callback = callback\<rparr> (m_returns s)) \<and>
    m_task s' = m_task s \<and> cm_handlers s' = cm_handlers s \<and>
    map co_address (connections s') = map co_address (connections s)"
proof -
  let ?k = "queues s"
  have f: "find_conn a t = Some i" if "queues t = ?k" for t :: "('j, 'cb, 'w) connector"
    using find_conn_queues [OF that] assms(1) by metis
  obtain r1 s1 where l: "send_loop E (Inr a) (Some i) json s = Some (r1, s1)"
    using assms by (cases "send_loop E (Inr a) (Some i) json s") (auto simp: send_def pbind_def prog_simps)
  have "stays queues ?k {} (send_loop E (Inr a) (Some i) json)"
    unfolding send_loop_def by (intro stays_intros stays_send_attempt f)
  from staysD [OF this refl l] obtain rid where rid: "r1 = Inr rid" and q: "queues s1 = ?k"
    by (cases r1) auto
  have i: "i < length (connections s1)" using find_conn_lt [OF f [OF q]] by simp
  from assms l rid i have "r = Inr ()" "s' = s1\<lparr>m_returns := mr_add \<lparr>rd_json_send = json,
        rd_server_hash = co_server_hash (connections s1 ! i), rd_respon_id = rid,
        rd_callback = callback\<rparr> (m_returns s1)\<rparr>"
    by (auto simp: send_def pbind_def prog_simps conn_at_def)
  moreover have "0 \<le> rid" using send_loop_result l rid by metis
  ultimately show ?thesis using q by (auto simp: queues_def)
qed

text \<open>A value that is the answer \<open>n\<close> to a request: no \<open>$error\<close>, and \<open>$respon_id\<close> is \<open>n\<close>.\<close>

definition respon_answer :: "'j json_lib \<Rightarrow> 'j \<Rightarrow> int \<Rightarrow> bool" where
  "respon_answer J v n \<longleftrightarrow>
     \<not> j_contains J v ''$error'' \<and>
     (case j_index J v (K ''$respon_id'') of None \<Rightarrow> False | Some (c, u) \<Rightarrow> j_get_int J u = Some n)"

lemma send_attempt_answer:
  assumes "i < length (connections s)" "dump (en_json E) json = Inr body"
    and "page_json_post E a (command_url ''/api/send/'' s (connections s ! i) ''/event'') body s =
      Some (Inr v, s')"
    and "respon_answer (en_json E) v n"
  shows "send_attempt E (Inr a) (Some i) json rid s = Some (Inr n, s')"
  using assms
  by (auto simp: send_attempt_def pcatch_json_def pbind_def conn_at_ok respon_answer_def get_int_def
      prog_simps split: option.splits)

lemma page_post_answers:
  "\<exists>v s'. page_json_post E a url body s = Some (Inr v, s') \<and> queues s' = queues s \<and>
     (\<exists>t. v = fst (fst (get_page_json_post (en_json E) (en_net E) a url body 0 t)))"
proof -
  obtain p cw w where p: "get_page_json_post (en_json E) (en_net E) a url body 0 (cm_curl s, cm_world s) =
      (p, cw, w)" by (metis prod.collapse)
  then have "page_json_post E a url body s = Some (Inr (fst p), s\<lparr>cm_curl := cw, cm_world := w\<rparr>)"
    by (simp add: page_json_post_def pbind_def with_curl_def prog_simps)
  moreover have "fst p = fst (fst (get_page_json_post (en_json E) (en_net E) a url body 0 (cm_curl s, cm_world s)))"
    using p by simp
  ultimately show ?thesis by (fastforce simp: queues_def)
qed

lemma send_one_answer:
  assumes "find_conn a s = Some i" "dump (en_json E) json = Inr body"
    and "page_json_post E a (command_url ''/api/send/'' s (connections s ! i) ''/event'') body s =
      Some (Inr v, s')"
    and "respon_answer (en_json E) v n" "0 \<le> n"
  shows "send E a json callback s =
    Some (Inr (), s'\<lparr>m_returns := mr_add \<lparr>rd_json_send = json,
      rd_server_hash = co_server_hash (connections s' ! i), rd_respon_id = n,
      rd_callback = callback\<rparr> (m_returns s')\<rparr>)"
proof -
  have i: "i < length (connections s)" using find_conn_lt [OF assms(1)] by simp
  note at = send_attempt_answer [OF i assms(2-4), of "-1"]
  have "queues s' = queues s" using staysD [OF stays_page(2) refl assms(3)] by blast
  then have "map co_address (connections s') = map co_address (connections s)"
    by (simp add: queues_def)
  then have "length (connections s') = length (connections s)" by (rule map_eq_imp_length_eq)
  with i have i': "i < length (connections s')" by simp
  let ?body = "\<lambda>id. if id < 0 then pbind (send_attempt E (Inr a) (Some i) json id) (\<lambda>id'. pret (Inl id'))
       else pret (Inr id)"
  have b1: "?body (-1) s = Some (Inr (Inl n), s')" using at by (simp add: pbind_def prog_simps)
  have b2: "?body n s' = Some (Inr (Inr n), s')" using assms(5) by (simp add: prog_simps)
  have "send_loop E (Inr a) (Some i) json s = Some (Inr n, s')"
    unfolding send_loop_def using trans [OF repeat_step(1) [of ?body, OF b1] repeat_step(2) [of ?body, OF b2]] .
  with assms(1) i' show ?thesis by (simp add: send_def pbind_def conn_at_ok prog_simps)
qed

text \<open>
  C19. If the first answer of the server is a number that is not negative, \<open>send\<close> returns after
  that one request, and the reply is pending under the number.
\<close>

theorem send_first_answer:
  assumes "find_conn a s = Some i" "dump (en_json E) json = Inr body"
    and "page_json_post E a (command_url ''/api/send/'' s (connections s ! i) ''/event'') body s =
      Some (Inr v, s')"
    and "respon_answer (en_json E) v n" "0 \<le> n"
  shows "send E a json callback s =
    Some (Inr (), s'\<lparr>m_returns := mr_add \<lparr>rd_json_send = json,
      rd_server_hash = co_server_hash (connections s' ! i), rd_respon_id = n,
      rd_callback = callback\<rparr> (m_returns s')\<rparr>)"
  by (rule send_one_answer [OF assms])

text \<open>
  C20. If every answer is a negative number, as the server gives for a request whose meta data
  lacks \<open>$respon_id\<close>, then \<open>send\<close> never returns.
\<close>

theorem send_never_returns:
  fixes s :: "('j, 'cb, 'w) connector"
  assumes "find_conn a s = Some i" "dump (en_json E) json = Inr body"
    and "\<And>url t. \<exists>n < 0. respon_answer (en_json E)
           (fst (fst (get_page_json_post (en_json E) (en_net E) a url body 0 t))) n"
  shows "send E a json callback s = None"
proof -
  have "send_loop E (Inr a) (Some i) json s = None"
    unfolding send_loop_def
  proof (rule repeat_diverges [where I = "\<lambda>id t. id < 0 \<and> queues t = queues s"])
    fix x :: int and t :: "('j, 'cb, 'w) connector"
    assume I: "x < 0 \<and> queues t = queues s"
    let ?url = "command_url ''/api/send/'' t (connections t ! i) ''/event''"
    obtain v t' u where v: "page_json_post E a ?url body t = Some (Inr v, t')" "queues t' = queues t"
      "v = fst (fst (get_page_json_post (en_json E) (en_net E) a ?url body 0 u))"
      using page_post_answers [of E a ?url body t] by blast
    obtain n where n: "n < 0" "respon_answer (en_json E) v n" using assms(3) v(3) by blast
    have "find_conn a t = Some i" using find_conn_queues [of t s a] assms(1) I by simp
    then have "i < length (connections t)" by (simp add: find_conn_lt)
    from send_attempt_answer [OF this assms(2) v(1) n(2)] I v(2) n(1)
    show "\<exists>x' s'. (if x < 0 then pbind (send_attempt E (Inr a) (Some i) json x) (\<lambda>id'. pret (Inl id'))
        else pret (Inr x)) t = Some (Inr (Inl x'), s') \<and> x' < 0 \<and> queues s' = queues s"
      by (simp add: pbind_def prog_simps)
  qed simp
  with assms(1) show ?thesis by (simp add: send_def pbind_def prog_simps)
qed

subsection \<open>The worker\<close>

lemma stays_now [stays_intros]: "stays queues k X (now_ms E)"
  by (rule staysI) (auto simp: now_ms_def queues_def split: prod.splits)

text \<open>
  A task whose \<open>$type_event\<close> is neither \<open>res\<close> nor \<open>req\<close> blocks the worker for ever: once
  it is the first task of the buffer and this client is its last server, the worker goes round
  without removing it.
\<close>

lemma worker_stuck_on_unknown_type:
  fixes s :: "('j, 'cb, 'w) connector"
  assumes "work_loop s" "mt_get_task (en_json E) (m_task s) = json" "\<not> j_empty (en_json E) json"
    and "last_server (en_json E) json = Inr (json1, nm)" "j_eq_str (en_json E) nm (name_client s)"
    and "j_path (en_json E) json1 [K ''meta'', K ''$type_event''] = Inr (json2, ty)"
    and "\<not> j_eq_str (en_json E) ty ''res''"
    and "j_path (en_json E) json2 [K ''meta'', K ''$type_event''] = Inr (json3, ty')"
    and "\<not> j_eq_str (en_json E) ty' ''req''"
  shows "worker_task E s = None"
proof -
  have round: "\<exists>x' t'. worker_round E x t = Some (Inr (Inl x'), t') \<and> queues t' = queues s"
    if "queues t = queues s" for x and t :: "('j, 'cb, 'w) connector"
  proof -
    have t: "work_loop t" "m_task t = m_task s" "name_client t = name_client s"
      using that assms(1) by (simp_all add: queues_def)
    obtain t1 n where n: "now_ms E t = Some (Inr n, t1)" "queues t1 = queues t" "name_client t1 = name_client t"
      by (cases "net_now (en_net E) (cm_world t)") (auto simp: now_ms_def queues_def)
    have "worker_job E json t1 = Some (Inr (False, json3), t1)"
      using assms(3-) n t by (simp add: worker_job_def pbind_def Let_def prog_simps)
    then have "worker_round E x t = Some (Inr (Inl n), t1)"
      using t n assms(2,3) by (simp add: worker_round_def pbind_def Let_def prog_simps)
    with n(2) that show ?thesis by simp
  qed
  have "repeat_until (worker_round E) x t = None" if "queues t = queues s" for x and t :: "('j, 'cb, 'w) connector"
    using that round by (rule repeat_diverges [where I = "\<lambda>_ t. queues t = queues s", rotated])
  note diverges = this
  obtain t1 n where n: "now_ms E s = Some (Inr n, t1)" "queues t1 = queues s"
    by (cases "net_now (en_net E) (cm_world s)") (auto simp: now_ms_def queues_def)
  obtain t2 n' where n': "now_ms E t1 = Some (Inr n', t2)" "queues t2 = queues t1"
    by (cases "net_now (en_net E) (cm_world t1)") (auto simp: now_ms_def queues_def)
  from n n' diverges [of t2] show ?thesis by (simp add: worker_task_def pbind_def)
qed

text \<open>A report on a task of a known server changes no queue.\<close>

lemma stays_event_call:
  fixes E :: "('j, 'cb, 'w) env"
  assumes "\<And>s :: ('j, 'cb, 'w) connector. queues s = k \<Longrightarrow>
      (case index of None \<Rightarrow> False | Some i \<Rightarrow> i < length (connections s))"
    and "\<And>(s :: ('j, 'cb, 'w) connector) j a. queues s = k \<Longrightarrow>
      str_member (en_json E) json ''address'' = Inr (j, a) \<Longrightarrow> find_conn a s \<noteq> None"
  shows "stays queues k {} (event_call E action prints index json)"
proof (cases "str_member (en_json E) json ''address''")
  case (Inl x)
  then show ?thesis by (simp add: event_call_def Let_def stays_intros)
next
  case (Inr ja)
  obtain j1 a where ja: "ja = (j1, a)" by fastforce
  have "stays queues k {Json_type_error} (get_myid E a False)"
    using assms(2) Inr ja by (intro stays_get_myid) simp
  then have g: "stays queues k ({} \<union> {Json_parse_error, Json_type_error}) (get_myid E a False)"
    by (auto simp: stays_def)
  show ?thesis
    unfolding event_call_def Let_def Inr ja sum.case prod.case
    by (intro stays_intros stays_conn_at assms(1) g)
qed

lemma stays_start_event:
  fixes s :: "('j, 'cb, 'w) connector"
  assumes "str_member (en_json E) json ''id'' = Inr (json1, i)"
    and "str_member (en_json E) json1 ''address'' = Inr (json2, a)"
    and "str_member (en_json E) json2 ''address'' = Inr (json3, a)"
    and "find_conn a s \<noteq> None"
    and "cm_start_event E json s = Some (r, s')"
  shows "queues s' = queues s \<and> (\<exists>n j. r = Inr (n, j))"
proof -
  have f: "find_conn a t = find_conn a s" if "queues t = queues s" for t :: "('j, 'cb, 'w) connector"
    using that by (rule find_conn_queues)
  have "stays queues (queues s) {} (event_call E ''start'' True (find_conn a s) json2)"
  proof (rule stays_event_call)
    fix t :: "('j, 'cb, 'w) connector" assume "queues t = queues s"
    with f [of t] assms(4) find_conn_lt [of a t]
    show "case find_conn a s of None \<Rightarrow> False | Some i \<Rightarrow> i < length (connections t)"
      by (auto split: option.splits)
  next
    fix t :: "('j, 'cb, 'w) connector" and j b
    assume "queues t = queues s" "str_member (en_json E) json2 ''address'' = Inr (j, b)"
    with f [of t] assms(3,4) show "find_conn b t \<noteq> None" by simp
  qed
  moreover have "event_call E ''start'' True (find_conn a s) json2 s = Some (r, s')"
    using assms by (simp add: cm_start_event_def pbind_def prog_simps)
  ultimately show ?thesis using staysD [where s = s and r = r] by (cases r) fastforce+
qed

text \<open>
  C21. No callback without a granted start: when the server answers a task's start with anything
  but \<open>0\<close>, the worker calls neither the pending callback of a reply nor the handler of a request,
  and every queue is as it was.
\<close>

theorem no_callback_without_start:
  fixes s :: "('j, 'cb, 'w) connector"
  assumes "str_member (en_json E) json ''id'' = Inr (json1, i)"
    and "str_member (en_json E) json1 ''address'' = Inr (json2, a)"
    and "str_member (en_json E) json2 ''address'' = Inr (json3, a)"
    and "find_conn a s \<noteq> None"
    and "cm_start_event E json s = Some (Inr (n, json4), s')" "n \<noteq> 0"
    and "find_handler (en_json E) (cm_handlers s) json0 = Inr (json', Some h)"
    and "print_respon (en_json E) json' = Inr json"
  shows "worker_reply E json s = Some (Inr json4, s') \<and>
    worker_request E json0 s = Some (Inr json4, s') \<and> queues s' = queues s"
  using stays_start_event [OF assms(1-5)] assms(5-)
  by (simp add: worker_reply_def worker_request_def pbind_def prog_simps)

lemma mr_call_calls:
  "fst (mr_call J rid sh ans rs) =
     map (\<lambda>r. (rd_callback r, rd_json_send r, ans)) (filter (mr_matches rid sh) rs)"
  by (induction rs) (auto split: prod.splits)

lemma run_replies_some:
  "\<forall>c \<in> set calls. fst c \<noteq> None \<Longrightarrow>
   run_replies E calls s =
     Some (Inr (), s\<lparr>cm_world := fold (\<lambda>(f, js, ans) w. en_reply E (the f) js ans w) calls (cm_world s)\<rparr>)"
  by (induction E calls arbitrary: s rule: run_replies.induct)
    (auto simp: pthen_def pbind_def prog_simps)

lemma mr_call_returns:
  "snd (mr_call J rid sh ans rs) = map (\<lambda>r. if mr_matches rid sh r then init_return_data J r else r) rs"
  by (induction rs) (auto split: prod.splits)

lemma reset_unmatched: "rid \<noteq> -1 \<Longrightarrow> \<not> mr_check rid sh (map (\<lambda>r. if mr_matches rid sh r then init_return_data J r else r) rs)"
  by (induction rs) (auto simp: mr_check_def mr_matches_def init_return_data_def)

text \<open>
  C22. A granted reply is handled: the callbacks that were registered for its number and server hash when it
  came run in their order, each once, on the JSON they were registered with and the reply; their entries are
  reset, so that none is pending for this number any more, all other entries stay as they were; and then
  the end of the task is reported, whose outcome is the outcome of the whole.
\<close>

theorem reply_handled:
  fixes s :: "('j, 'cb, 'w) connector"
  assumes "str_member (en_json E) json ''id'' = Inr (json1, i)"
    and "str_member (en_json E) json1 ''address'' = Inr (json2, a)"
    and "str_member (en_json E) json2 ''address'' = Inr (json3, a)"
    and "find_conn a s \<noteq> None"
    and "cm_start_event E json s = Some (Inr (0, json4), s1)"
    and "int_path (en_json E) json4 [K ''meta'', K ''$respon_id''] = Inr (json5, rid)" "rid \<noteq> -1"
    and "str_path (en_json E) json5 [K ''meta'', K ''$server_hash''] = Inr (json6, sh)"
    and "\<forall>r \<in> set (m_returns s). mr_matches rid sh r \<longrightarrow> rd_callback r \<noteq> None"
  shows "\<exists>s2. s2 = s1\<lparr>cm_world := fold (\<lambda>r. en_reply E (the (rd_callback r)) (rd_json_send r) json6)
          (filter (mr_matches rid sh) (m_returns s)) (cm_world s1), m_returns := m_returns s2\<rparr> \<and>
    m_returns s2 = map (\<lambda>r. if mr_matches rid sh r then init_return_data (en_json E) r else r) (m_returns s) \<and>
    \<not> mr_check rid sh (m_returns s2) \<and>
    worker_reply E json s = map_option (apfst (map_sum id snd)) (cm_end_event E json6 s2)"
proof -
  have q: "m_returns s1 = m_returns s" using stays_start_event [OF assms(1-5)] by (simp add: queues_def)
  obtain calls returns where cr: "mr_call (en_json E) rid sh json6 (m_returns s) = (calls, returns)" by fastforce
  have c: "calls = map (\<lambda>r. (rd_callback r, rd_json_send r, json6)) (filter (mr_matches rid sh) (m_returns s))"
    using mr_call_calls [of "en_json E" rid sh json6 "m_returns s"] cr by simp
  have ret: "returns = map (\<lambda>r. if mr_matches rid sh r then init_return_data (en_json E) r else r) (m_returns s)"
    using mr_call_returns [of "en_json E" rid sh json6 "m_returns s"] cr by simp
  let ?s2 = "s1\<lparr>cm_world := fold (\<lambda>r. en_reply E (the (rd_callback r)) (rd_json_send r) json6)
          (filter (mr_matches rid sh) (m_returns s)) (cm_world s1), m_returns := returns\<rparr>"
  have "\<forall>c \<in> set calls. fst c \<noteq> None" using c assms(9) by auto
  from run_replies_some [OF this, of E s1] cr q have "deliver_reply E rid sh json6 s1 = Some (Inr (), ?s2)"
    by (simp add: deliver_reply_def pbind_def pthen_def prog_simps c fold_map o_def)
  with assms(5,6,8) have "worker_reply E json s = map_option (apfst (map_sum id snd)) (cm_end_event E json6 ?s2)"
    by (cases "cm_end_event E json6 ?s2") (auto simp: worker_reply_def pbind_def pthen_def prog_simps split: sum.splits)
  with ret reset_unmatched [OF assms(7)] show ?thesis by (intro exI [of _ ?s2]) simp
qed

text \<open>The local address is that of the first IPv4 interface other than the loopback.\<close>

lemma GetLocalIP_first:
  assumes "\<forall>i \<in> set ifs. snd i \<noteq> None \<and> (fst i = ''lo'' \<or> \<not> fst (the (snd i)))"
  shows "GetLocalIP (ifs @ (name, Some (True, addr)) # rest) ip =
    (if name = ''lo'' then GetLocalIP rest addr else Inr addr)"
  using assms by (induction ifs arbitrary: ip) auto

end
