(* ===== verification/Connector_Sample.thy ===== *)
theory Connector_Sample
  imports Connector_Props Json_Sample
begin

section \<open>The client's properties at concrete states\<close>

text \<open>
  A network that answers every request with the text of one value, a clock that ticks at every
  reading, and a client connected to one server.
\<close>

definition sample_net :: "sj \<Rightarrow> nat net" where
  "sample_net answer =
     \<lparr>net_init = (\<lambda>w. (Some 0, w)),
      net_perform = (\<lambda>url post w. (\<lparr>pf_ok = True, pf_code = 200, pf_chunks = [sj_dump answer]\<rparr>, w)),
      net_now = (\<lambda>w. (int w, Suc w)), net_sleep = (\<lambda>n w. w + n)\<rparr>"

definition sample_env :: "sj \<Rightarrow> sj list \<Rightarrow> (sj, nat, nat) env" where
  "sample_env answer known =
     \<lparr>en_json = sample_json (answer # known), en_net = sample_net answer,
      en_reply = (\<lambda>f js ans w. w + f), en_request = (\<lambda>f json. pret ()),
      en_transfer = (\<lambda>f json. pret ()), en_wait = pret ()\<rparr>"

lemma sample_env_simps [simp]:
  "en_json (sample_env answer known) = sample_json (answer # known)"
  "en_net (sample_env answer known) = sample_net answer"
  "en_reply (sample_env answer known) f js ans w = w + f"
  "en_request (sample_env answer known) f json = pret ()"
  "net_init (sample_net answer) w = (Some 0, w)"
  "net_perform (sample_net answer) url post w =
     (\<lparr>pf_ok = True, pf_code = 200, pf_chunks = [sj_dump answer]\<rparr>, w)"
  "net_now (sample_net answer) w = (int w, Suc w)"
  by (simp_all add: sample_env_def sample_net_def)

definition sample_conn :: "(sj, nat, nat) connector" where
  "sample_conn =
     (add_handler ''sum'' (Some 5) (add_connection ''http://s'' (new_connector (sample_json []) 0 ''ip'' 0)))
       \<lparr>m_task := replicate 2 (default_task (sample_json [])), m_returns := [], work_loop := True\<rparr>"

lemma sample_conn_simps [simp]:
  "connections sample_conn = [new_connection ''http://s'']" "name_client sample_conn = ''test''"
  "m_task sample_conn = replicate 2 (default_task (sample_json []))" "m_returns sample_conn = []"
  "cm_handlers sample_conn = [\<lparr>hd_nameobj = ''sum'', hd_callback = Some 5\<rparr>]"
  "work_loop sample_conn" "find_conn ''http://s'' sample_conn = Some 0"
  by (simp_all add: sample_conn_def new_connector_def add_connection_def add_handler_def
    find_conn_def new_connection_def)

lemma sample_post [simp]:
  "get_page_json_post (sample_json (answer # known)) (sample_net answer) ip url body rc t =
     ((answer, 200), fst (snd (get_curl (sample_net answer) t)), snd (snd (get_curl (sample_net answer) t)))"
  by (cases t)
    (auto simp: get_page_json_post_def get_page_post_def perform_page_def get_curl_def
      parse_or_null_def write_callback_def split: option.split)

lemma sample_get [simp]:
  "get_page_json (sample_json (answer # known)) (sample_net answer) ip url rc t =
     ((answer, 200), fst (snd (get_curl (sample_net answer) t)), snd (snd (get_curl (sample_net answer) t)))"
  by (cases t)
    (auto simp: get_page_json_def get_page_def perform_page_def get_curl_def
      parse_or_null_def write_callback_def split: option.split)

lemma sample_page [simp]:
  "page_json_post (sample_env answer known) ip url body s =
     Some (Inr answer, s\<lparr>cm_curl := fst (snd (get_curl (sample_net answer) (cm_curl s, cm_world s))),
       cm_world := snd (snd (get_curl (sample_net answer) (cm_curl s, cm_world s)))\<rparr>)"
  "page_json (sample_env answer known) ip url s =
     Some (Inr answer, s\<lparr>cm_curl := fst (snd (get_curl (sample_net answer) (cm_curl s, cm_world s))),
       cm_world := snd (snd (get_curl (sample_net answer) (cm_curl s, cm_world s)))\<rparr>)"
  by (simp_all add: page_json_post_def page_json_def pbind_def with_curl_def prog_simps case_prod_beta)

text \<open>Sending: an answer with a number, and the answer the server gives without one.\<close>

definition sample_number :: "int \<Rightarrow> sj" where
  "sample_number n = SObj [(''$respon_id'', SInt n)]"

lemma sample_number_answer [simp]: "respon_answer (sample_json known) (sample_number n) n"
  by (simp add: respon_answer_def sample_number_def)

lemma send_first_answer_witness:
  "\<exists>s'. send (sample_env (sample_number 4) []) ''http://s'' (SInt 1) (Some 9) sample_conn =
      Some (Inr (), s') \<and> mr_check 4 ''1'' (m_returns s')"
  using send_first_answer [of "''http://s''" sample_conn 0 "sample_env (sample_number 4) []" "SInt 1"
      "sj_dump (SInt 1)" "sample_number 4" _ 4 "Some 9"]
  by (fastforce simp: dump_def mr_add_def mr_check_def mr_matches_def new_connection_def)

lemma send_registers_witness:
  "\<exists>s' rid. send (sample_env (sample_number 4) []) ''http://s'' (SInt 1) (Some 9) sample_conn =
      Some (Inr (), s') \<and> 0 \<le> rid \<and> mr_check rid (co_server_hash (connections s' ! 0)) (m_returns s')"
proof -
  obtain s' where s': "send (sample_env (sample_number 4) []) ''http://s'' (SInt 1) (Some 9) sample_conn =
      Some (Inr (), s')"
    using send_one_answer [of "''http://s''" sample_conn 0 "sample_env (sample_number 4) []" "SInt 1"
      "sj_dump (SInt 1)" "sample_number 4" _ 4 "Some 9"]
    by (fastforce simp: dump_def)
  obtain rid where "0 \<le> rid" "m_returns s' = mr_add \<lparr>rd_json_send = SInt 1,
        rd_server_hash = co_server_hash (connections s' ! 0), rd_respon_id = rid,
        rd_callback = Some 9\<rparr> (m_returns sample_conn)"
    using send_registers [OF _ s'] by auto
  with s' show ?thesis by (auto simp: mr_add_def mr_check_def mr_matches_def)
qed

lemma send_never_returns_witness:
  "send (sample_env (sample_number (-1)) []) ''http://s'' (SInt 1) (Some 9) sample_conn = None"
  by (rule send_never_returns [where i = 0 and body = "sj_dump (SInt 1)"])
    (auto simp: dump_def intro!: exI [of _ "-1"])

text \<open>Polling: a list of two tasks.\<close>

definition sample_wire_item :: "string \<Rightarrow> int \<Rightarrow> sj wire_item" where
  "sample_wire_item i n =
     (let idj = SObj [(''id'', SStr i)]; meta = SObj [(''$type_event'', SStr ''req'')];
          data = SObj [(''n'', SInt n)] in
      \<lparr>it_id = i, it_idj = idj, it_idtext = sj_dump idj, it_meta = meta, it_metatext = sj_dump meta,
       it_data = data, it_datatext = sj_dump data,
       it_task = SObj [(''id'', SStr i), (''meta'', meta), (''data'', data), (''address'', SStr ''http://s'')]\<rparr>)"

definition sample_items :: "sj wire_item list" where
  "sample_items = [sample_wire_item ''7'' 1, sample_wire_item ''8'' 2]"

definition sample_known :: "sj list" where
  "sample_known = [SObj [(''id'', SStr ''7'')], SObj [(''id'', SStr ''8'')],
     SObj [(''$type_event'', SStr ''req'')], SObj [(''n'', SInt 1)], SObj [(''n'', SInt 2)]]"

definition sample_poll_conn :: "(sj, nat, nat) connector" where
  "sample_poll_conn = sample_conn
     \<lparr>connections := [(new_connection ''http://s'')
        \<lparr>co_respon_str := concat (map wire_text sample_items)\<rparr>]\<rparr>"

lemma sample_item_simps [simp]:
  "it_id (sample_wire_item i n) = i" "it_idj (sample_wire_item i n) = SObj [(''id'', SStr i)]"
  "it_meta (sample_wire_item i n) = SObj [(''$type_event'', SStr ''req'')]"
  "it_data (sample_wire_item i n) = SObj [(''n'', SInt n)]"
  "it_idtext (sample_wire_item i n) = sj_dump (SObj [(''id'', SStr i)])"
  "it_metatext (sample_wire_item i n) = sj_dump (SObj [(''$type_event'', SStr ''req'')])"
  "it_datatext (sample_wire_item i n) = sj_dump (SObj [(''n'', SInt n)])"
  "it_task (sample_wire_item i n) = SObj [(''id'', SStr i),
     (''meta'', SObj [(''$type_event'', SStr ''req'')]), (''data'', SObj [(''n'', SInt n)]),
     (''address'', SStr ''http://s'')]"
  by (simp_all add: sample_wire_item_def Let_def)

lemma find_injective: "inj_on f (set xs) \<Longrightarrow> v \<in> set xs \<Longrightarrow> find (\<lambda>u. f u = f v) xs = Some v"
  by (induction xs) (auto simp: inj_on_def)

lemma sample_digits: "to_string 1 = ''1''" "to_string 2 = ''2''"
  by code_simp+

lemma sample_texts_distinct: "distinct (map sj_dump (SNull # sample_known))"
  by (simp add: sample_known_def quoted_def sample_digits)

lemma sample_text:
  assumes "v \<in> set sample_known"
  shows "json_object_text (sample_json (SNull # sample_known)) v (sj_dump v)"
proof -
  have "inj_on sj_dump (set (SNull # sample_known))"
    using sample_texts_distinct unfolding distinct_map by blast
  then have "find (\<lambda>u. sj_dump u = sj_dump v) (SNull # sample_known) = Some v"
    using assms by (intro find_injective) auto
  moreover have "length (sj_dump v) < 10 ^ 9 \<and> hd (sj_dump v) = CHR ''{'' \<and> NUL \<notin> set (sj_dump v) \<and> sj_dump v \<noteq> []"
    using assms by (auto simp: sample_known_def quoted_def sample_digits)
  ultimately show ?thesis by (simp add: json_object_text_def)
qed

lemma sample_wire_ok:
  "\<forall>it \<in> set sample_items. wire_ok (sample_json (SNull # sample_known)) ''http://s'' it \<and>
     has_id (sample_json (SNull # sample_known)) (it_task it) (it_id it)"
proof
  fix it assume it: "it \<in> set sample_items"
  have "it_idj it \<in> set sample_known" "it_meta it \<in> set sample_known"
    "it_data it \<in> set sample_known" using it by (auto simp: sample_known_def sample_items_def)
  note t = this [THEN sample_text]
  show "wire_ok (sample_json (SNull # sample_known)) ''http://s'' it \<and>
      has_id (sample_json (SNull # sample_known)) (it_task it) (it_id it)"
    using t it
    by (auto simp: sample_items_def wire_ok_def str_member_def get_string_def task_json_def
      j_assign.simps has_id_def)
qed

lemma wire_round_trip_witness:
  "\<exists>st. wire_loop (sample_env SNull sample_known) 0 (start_wire (sample_json (SNull # sample_known)) SNull)
      sample_poll_conn =
    Some (Inr st, sample_poll_conn\<lparr>m_task :=
      map (\<lambda>it. \<lparr>tk_json = it_task it, tk_note = True, tk_empty = False\<rparr>) sample_items\<rparr>)"
proof -
  have "mt_receive (sample_json (SNull # sample_known)) (map (\<lambda>it. (it_id it, it_task it)) sample_items)
      (m_task sample_poll_conn) = (Inr (), map (\<lambda>it. \<lparr>tk_json = it_task it, tk_note = True, tk_empty = False\<rparr>) sample_items)"
    by (simp add: sample_poll_conn_def sample_items_def mt_add_def default_task_def
      numeral_2_eq_2)
  then show ?thesis
    using wire_round_trip [of 0 sample_poll_conn sample_items "sample_env SNull sample_known" _ SNull]
      sample_wire_ok
    by (simp add: sample_poll_conn_def new_connection_def)
qed

text \<open>The worker: a task of a given type for the client \<open>test\<close>.\<close>

definition sample_task :: "string \<Rightarrow> sj" where
  "sample_task ty =
     SObj [(''id'', SStr ''7''), (''address'', SStr ''http://s''),
       (''meta'', SObj [(''$list_servers'', SArr [SObj [(''name'', SStr ''test'')]]),
          (''$type_event'', SStr ty), (''$type_obj'', SStr ''sum''), (''$respon_id'', SInt 4),
          (''$server_hash'', SStr ''1'')])]"

definition sample_work_conn :: "string \<Rightarrow> (sj, nat, nat) connector" where
  "sample_work_conn ty = sample_conn
     \<lparr>m_task := mt_add (sample_task ty) (m_task sample_conn),
      m_returns := [\<lparr>rd_json_send = SInt 3, rd_server_hash = ''1'', rd_respon_id = 4, rd_callback = Some 6\<rparr>]\<rparr>"

lemma sample_work_simps [simp]:
  "connections (sample_work_conn ty) = [new_connection ''http://s'']"
  "name_client (sample_work_conn ty) = ''test''" "work_loop (sample_work_conn ty)"
  "cm_handlers (sample_work_conn ty) = [\<lparr>hd_nameobj = ''sum'', hd_callback = Some 5\<rparr>]"
  "mt_get_task J (m_task (sample_work_conn ty)) = sample_task ty"
  "m_returns (sample_work_conn ty) =
     [\<lparr>rd_json_send = SInt 3, rd_server_hash = ''1'', rd_respon_id = 4, rd_callback = Some 6\<rparr>]"
  "find_conn ''http://s'' (sample_work_conn ty) = Some 0"
  by (simp_all add: sample_work_conn_def mt_add_def default_task_def numeral_2_eq_2 mt_get_task_def)
    (simp add: find_conn_def new_connection_def)

lemma sample_task_access [simp]:
  "j_path (sample_json known) (sample_task ty) [K ''meta'', K ''$type_event''] = Inr (sample_task ty, SStr ty)"
  "j_path (sample_json known) (sample_task ty) [K ''meta'', K ''$type_obj''] = Inr (sample_task ty, SStr ''sum'')"
  "j_path (sample_json known) (sample_task ty) [K ''meta'', K ''$respon_id''] = Inr (sample_task ty, SInt 4)"
  "j_path (sample_json known) (sample_task ty) [K ''meta'', K ''$server_hash''] = Inr (sample_task ty, SStr ''1'')"
  "str_member (sample_json known) (sample_task ty) ''id'' = Inr (sample_task ty, ''7'')"
  "str_member (sample_json known) (sample_task ty) ''address'' = Inr (sample_task ty, ''http://s'')"
  "last_server (sample_json known) (sample_task ty) = Inr (sample_task ty, SStr ''test'')"
  "sj_index (sample_task ty) (K ''id'') = Some (sample_task ty, SStr ''7'')"
  "sj_size (sample_task ty) = 3"
  by (simp_all add: sample_task_def j_path.simps str_member_def get_string_def last_server_def)

lemma worker_stuck_on_unknown_type_witness:
  "worker_task (sample_env SNull []) (sample_work_conn ''ping'') = None"
  by (rule worker_stuck_on_unknown_type [where json = "sample_task ''ping''" and
      ?json1.0 = "sample_task ''ping''" and ?json2.0 = "sample_task ''ping''" and
      ?json3.0 = "sample_task ''ping''" and nm = "SStr ''test''" and ty = "SStr ''ping''" and
      ty' = "SStr ''ping''"])
    simp_all

text \<open>The answers to a start and an end.\<close>

definition sample_status :: "int \<Rightarrow> sj" where
  "sample_status n = SObj [(''$status'', SInt n)]"

lemma sample_event_call:
  assumes "find_conn ''http://s'' s = Some 0" "0 < length (connections s)"
  shows "\<exists>cw w. event_call (sample_env (sample_status n) []) action True (Some 0) (sample_task ty) s =
    Some (Inr (n, sample_task ty), s\<lparr>cm_curl := cw, cm_world := w\<rparr>)"
proof -
  have p: "print_event (sample_json known) (sample_status n) (sample_task ty) = (sample_task ty, Inr ())" for known
    by (simp add: print_event_def dump_def)
  have st: "sj_size (sample_status n) \<noteq> 0" "\<not> sj_contains (sample_status n) ''$error''"
    "sj_index (sample_status n) (K ''$status'') = Some (sample_status n, SInt n)"
    by (simp_all add: sample_status_def)
  show ?thesis
    using assms p st by (simp add: event_call_def pbind_def conn_at_def prog_simps Let_def) blast
qed

lemma sample_start_event:
  "\<exists>cw w. cm_start_event (sample_env (sample_status n) []) (sample_task ty) (sample_work_conn ty) =
    Some (Inr (n, sample_task ty), (sample_work_conn ty)\<lparr>cm_curl := cw, cm_world := w\<rparr>)"
  using sample_event_call [of "sample_work_conn ty" n "''start''" ty]
  by (simp add: cm_start_event_def pbind_def prog_simps)

lemma no_callback_without_start_witness:
  "\<exists>s' j. worker_request (sample_env (sample_status (-2)) []) (sample_task ''req'') (sample_work_conn ''req'') =
      Some (Inr j, s') \<and> queues s' = queues (sample_work_conn ''req'')"
proof -
  obtain cw w where st: "cm_start_event (sample_env (sample_status (-2)) []) (sample_task ''req'')
      (sample_work_conn ''req'') =
      Some (Inr (-2, sample_task ''req''), (sample_work_conn ''req'')\<lparr>cm_curl := cw, cm_world := w\<rparr>)"
    using sample_start_event by blast
  have p: "print_respon (sample_json known) (sample_task ''req'') = Inr (sample_task ''req'')" for known
    by (simp add: print_respon_def dump_def)
  show ?thesis
    using no_callback_without_start [OF _ _ _ _ st, of "sample_task ''req''" "''7''" "sample_task ''req''"
        "''http://s''" "sample_task ''req''" "sample_task ''req''" "sample_task ''req''"
        "\<lparr>hd_nameobj = ''sum'', hd_callback = Some 5\<rparr>"] p
    by fastforce
qed

lemma reply_handled_witness:
  "\<exists>s' j. worker_reply (sample_env (sample_status 0) []) (sample_task ''res'') (sample_work_conn ''res'') =
      Some (Inr j, s') \<and> \<not> mr_check 4 ''1'' (m_returns s')"
proof -
  let ?E = "sample_env (sample_status 0) []" and ?t = "sample_task ''res''" and ?s = "sample_work_conn ''res''"
  obtain cw w where st: "cm_start_event ?E ?t ?s = Some (Inr (0, ?t), ?s\<lparr>cm_curl := cw, cm_world := w\<rparr>)"
    using sample_start_event by blast
  have ip: "int_path (en_json ?E) ?t [K ''meta'', K ''$respon_id''] = Inr (?t, 4)"
    "str_path (en_json ?E) ?t [K ''meta'', K ''$server_hash''] = Inr (?t, ''1'')"
    by (simp_all add: int_path_def str_path_def get_int_def get_string_def)
  note handled = reply_handled [OF _ _ _ _ st ip(1) _ ip(2), of ?t "''7''" ?t "''http://s''" ?t]
  have "\<exists>s2. connections s2 = connections ?s \<and> \<not> mr_check 4 ''1'' (m_returns s2) \<and>
      worker_reply ?E ?t ?s = map_option (apfst (map_sum id snd)) (cm_end_event ?E ?t s2)"
  proof (rule exE [OF handled])
    fix s2 assume h: "s2 = (?s\<lparr>cm_curl := cw, cm_world := w\<rparr>)\<lparr>cm_world := fold (\<lambda>r. en_reply ?E (the (rd_callback r))
          (rd_json_send r) ?t) (filter (mr_matches 4 ''1'') (m_returns ?s)) (cm_world (?s\<lparr>cm_curl := cw, cm_world := w\<rparr>)),
          m_returns := m_returns s2\<rparr> \<and>
      m_returns s2 = map (\<lambda>r. if mr_matches 4 ''1'' r then init_return_data (en_json ?E) r else r) (m_returns ?s) \<and>
      \<not> mr_check 4 ''1'' (m_returns s2) \<and>
      worker_reply ?E ?t ?s = map_option (apfst (map_sum id snd)) (cm_end_event ?E ?t s2)"
    then have "connections s2 = connections ?s" using arg_cong [OF conjunct1 [OF h], of connections] by simp
    with h show ?thesis by blast
  qed simp_all
  then obtain s2 where s2: "connections s2 = connections ?s" "\<not> mr_check 4 ''1'' (m_returns s2)"
      "worker_reply ?E ?t ?s = map_option (apfst (map_sum id snd)) (cm_end_event ?E ?t s2)" by blast
  then have conn: "connections s2 = connections ?s" "find_conn ''http://s'' s2 = Some 0"
    by (simp_all add: find_conn_def new_connection_def)
  obtain cw' w' where "event_call ?E ''finish'' True (Some 0) ?t s2 = Some (Inr (0, ?t), s2\<lparr>cm_curl := cw', cm_world := w'\<rparr>)"
    using sample_event_call [of s2 0 "''finish''" "''res''"] conn by auto
  then have "cm_end_event ?E ?t s2 = Some (Inr (0, ?t), s2\<lparr>cm_curl := cw', cm_world := w'\<rparr>)"
    using conn by (simp add: cm_end_event_def pbind_def prog_simps)
  then show ?thesis using s2(2,3) by simp
qed

end

