(* ===== verification/Crow_Routing.thy ===== *)
theory Crow_Routing
  imports Prelude "HOL-Library.Word"
begin

section \<open>Crow: the search tree of routes\<close>

text \<open>
  The class \<open>Trie\<close> of \<open>routing.h\<close>: adding a rule, merging chains of nodes, and finding the rule
  and the parameters for a URL. A position in the URL is represented by the rest of the URL from
  there. \<open>strtod\<close> is the parameter \<open>D\<close>: the value it reads at the front of a text and the number
  of characters it used, unless it used none or set \<open>ERANGE\<close>.
\<close>

subsection \<open>Parameters\<close>

datatype param_type = PInt | PUint | PDouble | PString | PPath

record 'd routing_params =
  int_params :: "int list"
  uint_params :: "nat list"
  double_params :: "'d list"
  string_params :: "string list"

definition empty_params :: "'d routing_params" where
  "empty_params = \<lparr>int_params = [], uint_params = [], double_params = [], string_params = []\<rparr>"

definition strtoll :: "string \<Rightarrow> (int \<times> string) option" where
  "strtoll s =
     (let neg = (s \<noteq> [] \<and> hd s = CHR ''-'');
          ds = (if s \<noteq> [] \<and> (hd s = CHR ''-'' \<or> hd s = CHR ''+'') then tl s else s);
          d = takeWhile is_digit ds;
          v = (if neg then - int (digits_val 0 d) else int (digits_val 0 d)) in
      if d = [] \<or> v < - (2 ^ 63) \<or> 2 ^ 63 \<le> v then None else Some (v, drop (length d) ds))"

definition strtoull :: "string \<Rightarrow> (nat \<times> string) option" where
  "strtoull s =
     (let ds = (if s \<noteq> [] \<and> hd s = CHR ''+'' then tl s else s);
          d = takeWhile is_digit ds; v = digits_val 0 d in
      if d = [] \<or> 2 ^ 64 \<le> v then None else Some (v, drop (length d) ds))"

text \<open>What a parameter of each type reads at a position that is not the end of the URL.\<close>

fun consume_param ::
    "(string \<Rightarrow> ('d \<times> nat) option) \<Rightarrow> param_type \<Rightarrow> string \<Rightarrow> 'd routing_params \<Rightarrow>
     ('d routing_params \<times> string) option" where
  "consume_param D t [] q = None"
| "consume_param D PInt (c # s) q =
     (if is_digit c \<or> c = CHR ''+'' \<or> c = CHR ''-'' then
        (case strtoll (c # s) of
           None \<Rightarrow> None | Some (v, r) \<Rightarrow> Some (q\<lparr>int_params := int_params q @ [v]\<rparr>, r))
      else None)"
| "consume_param D PUint (c # s) q =
     (if is_digit c \<or> c = CHR ''+'' then
        (case strtoull (c # s) of
           None \<Rightarrow> None | Some (v, r) \<Rightarrow> Some (q\<lparr>uint_params := uint_params q @ [v]\<rparr>, r))
      else None)"
| "consume_param D PDouble (c # s) q =
     (if is_digit c \<or> c = CHR ''+'' \<or> c = CHR ''-'' \<or> c = CHR ''.'' then
        (case D (c # s) of
           None \<Rightarrow> None
         | Some (v, n) \<Rightarrow> Some (q\<lparr>double_params := double_params q @ [v]\<rparr>, drop n (c # s)))
      else None)"
| "consume_param D PString (c # s) q =
     (let v = takeWhile (\<lambda>x. x \<noteq> CHR ''/'') (c # s) in
      if v \<noteq> [] then Some (q\<lparr>string_params := string_params q @ [v]\<rparr>, drop (length v) (c # s))
      else None)"
| "consume_param D PPath (c # s) q = Some (q\<lparr>string_params := string_params q @ [c # s]\<rparr>, [])"

subsection \<open>Nodes\<close>

datatype trie_node =
  Node (nd_rule: "16 word") (nd_bp: "16 word") (nd_key: string) (nd_param: "param_type option")
    (nd_children: "trie_node list")

definition INVALID_BP_ID :: "16 word" where
  "INVALID_BP_ID = -1"

definition empty_node :: trie_node where
  "empty_node = Node 0 INVALID_BP_ID '''' None []"

definition IsSimpleNode :: "trie_node \<Rightarrow> bool" where
  "IsSimpleNode n \<longleftrightarrow>
     nd_rule n = 0 \<and> nd_bp n = INVALID_BP_ID \<and> length (nd_children n) < 2 \<and> nd_param n = None \<and>
     list_all (\<lambda>c. nd_param c = None) (nd_children n)"

definition trie_is_empty :: "trie_node \<Rightarrow> bool" where
  "trie_is_empty head \<longleftrightarrow> nd_children head = []"

subsection \<open>Adding a rule\<close>

definition paramTraits :: "(param_type \<times> string) list" where
  "paramTraits =
     [(PInt, ''<int>''), (PUint, ''<uint>''), (PDouble, ''<float>''), (PDouble, ''<double>''),
      (PString, ''<str>''), (PString, ''<string>''), (PPath, ''<path>'')]"

definition read_trait :: "string \<Rightarrow> (param_type \<times> string) option" where
  "read_trait s = find (\<lambda>x. take (length (snd x)) s = snd x) paramTraits"

definition key_starts :: "char \<Rightarrow> trie_node \<Rightarrow> bool" where
  "key_starts c n \<longleftrightarrow> (case nd_key n of [] \<Rightarrow> c = NUL | k # ks \<Rightarrow> k = c)"

text \<open>
  \<open>trie_add\<close> walks down from a node with the rest of the rule; \<open>i\<close> is the index in the rule.
  \<open>None\<close> says that the loop does not end: a tag that is none of the known ones is looked at again
  and again. A rule that is there already is an exception.
\<close>

lemma find_SomeD: "find P xs = Some x \<Longrightarrow> P x \<and> x \<in> set xs"
  by (induction xs) (auto split: if_splits)

lemma read_trait_ne:
  assumes "read_trait s = Some (t, name)"
  shows "0 < length name \<and> take (length name) s = name"
proof -
  have "x \<in> set paramTraits \<Longrightarrow> 0 < length (snd x)" for x by (auto simp: paramTraits_def)
  then have "0 < length (snd (t, name))"
    using find_SomeD [OF assms [unfolded read_trait_def]] by blast
  with find_SomeD [OF assms [unfolded read_trait_def]] show ?thesis by simp
qed

function trie_add ::
    "bool \<Rightarrow> nat \<Rightarrow> 16 word \<Rightarrow> 16 word \<Rightarrow> nat \<Rightarrow> string \<Rightarrow> trie_node \<Rightarrow> trie_node result option" where
  "trie_add has_bp bp_len bp rule i s n =
     (case s of
        [] \<Rightarrow>
          if nd_rule n \<noteq> 0 then Some (Inl (Std_exception ''handler already exists for ''))
          else Some (Inr (Node rule (nd_bp n) (nd_key n) (nd_param n) (nd_children n)))
      | c # r \<Rightarrow>
          if c = CHR ''<'' then
            (case read_trait s of
               None \<Rightarrow> None
             | Some (t, name) \<Rightarrow>
                 let cs = nd_children n;
                     j = first_index (\<lambda>x. nd_param x = Some t) cs;
                     child = (case j of Some k \<Rightarrow> cs ! k | None \<Rightarrow> Node 0 INVALID_BP_ID '''' (Some t) []) in
                 (case trie_add has_bp bp_len bp rule (i + length name) (drop (length name) s) child of
                    None \<Rightarrow> None
                  | Some (Inl x) \<Rightarrow> Some (Inl x)
                  | Some (Inr child') \<Rightarrow>
                      Some (Inr (Node (nd_rule n) (nd_bp n) (nd_key n) (nd_param n)
                        (case j of Some k \<Rightarrow> cs[k := child'] | None \<Rightarrow> cs @ [child'])))))
          else
            (let cs = nd_children n;
                 j = first_index (key_starts c) cs;
                 child = (case j of Some k \<Rightarrow> cs ! k
                    | None \<Rightarrow> Node 0 (if has_bp \<and> i = bp_len then bp else INVALID_BP_ID) [c] None []) in
             (case trie_add has_bp bp_len bp rule (i + 1) r child of
                None \<Rightarrow> None
              | Some (Inl x) \<Rightarrow> Some (Inl x)
              | Some (Inr child') \<Rightarrow>
                  Some (Inr (Node (nd_rule n) (nd_bp n) (nd_key n) (nd_param n)
                    (case j of Some k \<Rightarrow> cs[k := child'] | None \<Rightarrow> cs @ [child']))))))"
  by pat_completeness auto
termination
  by (relation "measure (\<lambda>(hb, bl, b, ru, i, s, n). length s)")
    (auto dest: read_trait_ne simp: diff_less)

declare trie_add.simps [simp del]

definition Trie_add :: "string \<Rightarrow> 16 word \<Rightarrow> nat \<Rightarrow> 16 word \<Rightarrow> trie_node \<Rightarrow> trie_node result option" where
  "Trie_add url rule_index bp_prefix_length blueprint_index head =
     trie_add (bp_prefix_length \<noteq> 0 \<and> blueprint_index \<noteq> INVALID_BP_ID) bp_prefix_length
       blueprint_index rule_index 0 url head"

subsection \<open>Merging chains of nodes\<close>

fun chain_size :: "trie_node \<Rightarrow> nat" where
  "chain_size (Node r b k p cs) = Suc (sum_list (map chain_size cs))"

lemma chain_size_child: "c \<in> set cs \<Longrightarrow> chain_size c \<le> sum_list (map chain_size cs)"
  by (simp add: member_le_sum_list)

function optimizeNode :: "trie_node \<Rightarrow> trie_node" where
  "optimizeNode (Node r b k p cs) =
     (if cs = [] then Node r b k p cs
      else if IsSimpleNode (Node r b k p cs) then
        (case hd cs of Node r2 b2 k2 p2 cs2 \<Rightarrow> optimizeNode (Node r2 b2 (k @ k2) p cs2))
      else Node r b k p (map optimizeNode cs))"
  by pat_completeness auto
termination
proof (relation "measure chain_size", goal_cases)
  case (2 r b k p cs r2 b2 k2 p2 cs2)
  then show ?case by (cases cs) auto
next
  case (3 r b k p cs c)
  then show ?case using chain_size_child [of c cs] by simp
qed simp

declare optimizeNode.simps [simp del]

definition Trie_validate :: "trie_node \<Rightarrow> trie_node result" where
  "Trie_validate head =
     (if \<not> IsSimpleNode head then Inl (Std_exception ''Internal error: Trie header should be simple!'')
      else Inr (Node (nd_rule head) (nd_bp head) (nd_key head) (nd_param head)
        (map optimizeNode (nd_children head))))"

subsection \<open>Finding a rule\<close>

record 'd routing_result =
  rr_rule_index :: "16 word"
  rr_blueprints :: "16 word list"
  rr_params :: "'d routing_params"

definition consume_node ::
    "(string \<Rightarrow> ('d \<times> nat) option) \<Rightarrow> trie_node \<Rightarrow> string \<Rightarrow> 'd routing_params \<Rightarrow>
     ('d routing_params \<times> string) option" where
  "consume_node D child s q =
     (case nd_param child of
        Some t \<Rightarrow> consume_param D t s q
      | None \<Rightarrow>
          if take (length (nd_key child)) s = nd_key child then Some (q, drop (length (nd_key child)) s)
          else None)"

text \<open>
  \<open>find\<close> on a node: the result, and the vector of blueprint indices after the call. The search of
  the children carries \<open>found\<close>, \<open>found_BP\<close> and \<open>match_params\<close> in a result, and \<open>found_fragment\<close>.
  Moving the vector leaves it empty.
\<close>

definition update_found :: "'d routing_result \<Rightarrow> 'd routing_result \<Rightarrow> 'd routing_result" where
  "update_found ret found =
     (if rr_rule_index ret \<noteq> 0 \<and> (rr_rule_index found = 0 \<or> rr_rule_index ret < rr_rule_index found)
      then ret else found\<lparr>rr_blueprints := rr_blueprints ret\<rparr>)"

fun find_node ::
    "(string \<Rightarrow> ('d \<times> nat) option) \<Rightarrow> trie_node \<Rightarrow> string \<Rightarrow> 'd routing_params \<Rightarrow> 16 word list \<Rightarrow>
     'd routing_result \<times> 16 word list"
  and find_children ::
    "(string \<Rightarrow> ('d \<times> nat) option) \<Rightarrow> trie_node list \<Rightarrow> string \<Rightarrow> 'd routing_params \<Rightarrow> 16 word list \<Rightarrow>
     'd routing_result \<Rightarrow> bool \<Rightarrow> 'd routing_result \<times> bool \<times> 16 word list" where
  "find_node D (Node r b k p cs) s q bps =
     (if s = [] then (\<lparr>rr_rule_index = r, rr_blueprints = [], rr_params = q\<rparr>, [])
      else
        (case find_children D cs s q bps
            \<lparr>rr_rule_index = 0, rr_blueprints = [], rr_params = empty_params\<rparr> False of
           (found, fragment, bps') \<Rightarrow>
             if \<not> fragment then (found\<lparr>rr_blueprints := bps'\<rparr>, []) else (found, bps')))"
| "find_children D [] s q bps found fragment = (found, fragment, bps)"
| "find_children D (c # cs) s q bps found fragment =
     (case consume_node D c s q of
        None \<Rightarrow> find_children D cs s q bps found fragment
      | Some (q', s') \<Rightarrow>
          let bps1 = (if nd_bp c \<noteq> INVALID_BP_ID then bps @ [nd_bp c] else bps) in
          (case find_node D c s' q' bps1 of
             (ret, bps2) \<Rightarrow>
               find_children D cs s q (if bps2 \<noteq> [] then butlast bps2 else bps2)
                 (update_found ret found) True))"

definition Trie_find :: "(string \<Rightarrow> ('d \<times> nat) option) \<Rightarrow> trie_node \<Rightarrow> string \<Rightarrow> 'd routing_result" where
  "Trie_find D head url = fst (find_node D head url empty_params [])"

end
