(* ===== verification/Crow_Routing_Facts.thy ===== *)
theory Crow_Routing_Facts
  imports Crow_Routing
begin

section \<open>The search tree finds the first matching rule\<close>

subsection \<open>Rules as patterns\<close>

text \<open>
  The specification: a rule is a sequence of literal characters and parameters, matched against
  the URL from left to right, each parameter reading what \<open>consume_param\<close> says.
\<close>

datatype piece = Lit char | Par param_type

fun match_rule ::
    "(string \<Rightarrow> ('d \<times> nat) option) \<Rightarrow> piece list \<Rightarrow> string \<Rightarrow> 'd routing_params \<Rightarrow> 'd routing_params option" where
  "match_rule D [] s q = (if s = [] then Some q else None)"
| "match_rule D (Lit c # ps) s q =
     (case s of [] \<Rightarrow> None | x # r \<Rightarrow> if x = c then match_rule D ps r q else None)"
| "match_rule D (Par t # ps) s q =
     (case consume_param D t s q of None \<Rightarrow> None | Some (q', s') \<Rightarrow> match_rule D ps s' q')"

function rule_pieces :: "string \<Rightarrow> piece list option" where
  "rule_pieces s =
     (case s of
        [] \<Rightarrow> Some []
      | c # r \<Rightarrow>
          if c = CHR ''<'' then
            (case read_trait s of
               None \<Rightarrow> None
             | Some (t, name) \<Rightarrow> map_option (\<lambda>ps. Par t # ps) (rule_pieces (drop (length name) s)))
          else map_option (\<lambda>ps. Lit c # ps) (rule_pieces r))"
  by pat_completeness auto
termination
  by (relation "measure length") (auto dest: read_trait_ne simp: diff_less)

declare rule_pieces.simps [simp del]

text \<open>The rules a tree holds below a node.\<close>

definition entry :: "trie_node \<Rightarrow> piece list" where
  "entry c = (case nd_param c of Some t \<Rightarrow> [Par t] | None \<Rightarrow> map Lit (nd_key c))"

inductive has_rule :: "trie_node \<Rightarrow> piece list \<Rightarrow> 16 word \<Rightarrow> bool" where
  own_rule: "nd_rule n \<noteq> 0 \<Longrightarrow> has_rule n [] (nd_rule n)"
| child_rule: "c \<in> set (nd_children n) \<Longrightarrow> has_rule c ps i \<Longrightarrow> has_rule n (entry c @ ps) i"

inductive_cases has_ruleE: "has_rule n ps i"

fun trie_wf :: "trie_node \<Rightarrow> bool" where
  "trie_wf (Node r b k p cs) \<longleftrightarrow> (\<forall>c \<in> set cs. entry c \<noteq> [] \<and> trie_wf c)"

lemma has_rule_nonzero: "has_rule n ps i \<Longrightarrow> i \<noteq> 0"
  by (induction rule: has_rule.induct) auto

lemma has_rule_iff:
  "has_rule n ps i \<longleftrightarrow>
     (nd_rule n \<noteq> 0 \<and> ps = [] \<and> i = nd_rule n) \<or>
     (\<exists>c \<in> set (nd_children n). \<exists>qs. ps = entry c @ qs \<and> has_rule c qs i)"
  by (auto elim: has_ruleE intro: own_rule child_rule)

lemma match_lits:
  "match_rule D (map Lit k @ ps) s q =
     (if take (length k) s = k then match_rule D ps (drop (length k) s) q else None)"
proof (induction k arbitrary: s)
  case (Cons c k)
  then show ?case by (cases s) auto
qed simp

lemma match_entry:
  "match_rule D (entry c @ ps) s q =
     (case consume_node D c s q of None \<Rightarrow> None | Some (q', s') \<Rightarrow> match_rule D ps s' q')"
  by (simp add: entry_def consume_node_def match_lits split: option.split)

lemma consume_end: "entry c \<noteq> [] \<Longrightarrow> consume_node D c [] q = None"
  by (auto simp: entry_def consume_node_def split: option.splits)

subsection \<open>The best match\<close>

definition matches :: "(string \<Rightarrow> ('d \<times> nat) option) \<Rightarrow> trie_node \<Rightarrow> string \<Rightarrow> 'd routing_params \<Rightarrow>
    16 word \<Rightarrow> 'd routing_params \<Rightarrow> bool" where
  "matches D n s q i q' \<longleftrightarrow> (\<exists>ps. has_rule n ps i \<and> match_rule D ps s q = Some q')"

definition best_of :: "(16 word \<Rightarrow> 'd routing_params \<Rightarrow> bool) \<Rightarrow> 'd routing_result \<Rightarrow> bool" where
  "best_of M res \<longleftrightarrow>
     (if rr_rule_index res = 0 then \<forall>i q. \<not> M i q
      else M (rr_rule_index res) (rr_params res) \<and> (\<forall>i q. M i q \<longrightarrow> rr_rule_index res \<le> i))"

definition child_matches :: "(string \<Rightarrow> ('d \<times> nat) option) \<Rightarrow> trie_node list \<Rightarrow> string \<Rightarrow>
    'd routing_params \<Rightarrow> 16 word \<Rightarrow> 'd routing_params \<Rightarrow> bool" where
  "child_matches D cs s q i q' \<longleftrightarrow>
     (\<exists>c \<in> set cs. \<exists>q1 s1. consume_node D c s q = Some (q1, s1) \<and> matches D c s1 q1 i q')"

lemma matches_children:
  "matches D (Node r b k p cs) s q i q' \<longleftrightarrow>
     (s = [] \<and> r \<noteq> 0 \<and> i = r \<and> q' = q) \<or> child_matches D cs s q i q'"
proof
  assume "matches D (Node r b k p cs) s q i q'"
  then obtain ps where ps: "has_rule (Node r b k p cs) ps i" "match_rule D ps s q = Some q'"
    by (auto simp: matches_def)
  then consider "r \<noteq> 0" "ps = []" "i = r" | c qs where "c \<in> set cs" "ps = entry c @ qs" "has_rule c qs i"
    by (subst (asm) has_rule_iff) auto
  then show "(s = [] \<and> r \<noteq> 0 \<and> i = r \<and> q' = q) \<or> child_matches D cs s q i q'"
  proof cases
    case 1
    with ps(2) show ?thesis by (auto split: if_splits)
  next
    case (2 c qs)
    with ps(2) show ?thesis
      by (fastforce simp: match_entry child_matches_def matches_def split: option.splits prod.splits)
  qed
next
  assume "(s = [] \<and> r \<noteq> 0 \<and> i = r \<and> q' = q) \<or> child_matches D cs s q i q'"
  then show "matches D (Node r b k p cs) s q i q'"
  proof
    assume "s = [] \<and> r \<noteq> 0 \<and> i = r \<and> q' = q"
    then show ?thesis using own_rule [of "Node r b k p cs"] by (auto simp: matches_def)
  next
    assume "child_matches D cs s q i q'"
    then obtain c q1 s1 qs where c: "c \<in> set cs" "consume_node D c s q = Some (q1, s1)"
      "has_rule c qs i" "match_rule D qs s1 q1 = Some q'"
      by (auto simp: child_matches_def matches_def)
    then have "has_rule (Node r b k p cs) (entry c @ qs) i" by (intro child_rule) simp_all
    moreover have "match_rule D (entry c @ qs) s q = Some q'" using c by (simp add: match_entry)
    ultimately show ?thesis by (auto simp: matches_def)
  qed
qed

lemma best_update:
  assumes "best_of M1 ret" "best_of M2 found" "\<And>i q. M1 i q \<Longrightarrow> i \<noteq> 0" "\<And>i q. M2 i q \<Longrightarrow> i \<noteq> 0"
  shows "best_of (\<lambda>i q. M2 i q \<or> M1 i q) (update_found ret found)"
proof (cases "rr_rule_index ret = 0")
  case True
  with assms(1) have "\<not> M1 i q" for i q by (simp add: best_of_def)
  with True assms(2) show ?thesis by (simp add: best_of_def update_found_def)
next
  case ret: False
  with assms(1) have m1: "M1 (rr_rule_index ret) (rr_params ret)" "\<And>i q. M1 i q \<Longrightarrow> rr_rule_index ret \<le> i"
    unfolding best_of_def by auto
  show ?thesis
  proof (cases "rr_rule_index found = 0")
    case True
    with assms(2) have "\<not> M2 i q" for i q by (simp add: best_of_def)
    with True ret m1 show ?thesis by (simp add: best_of_def update_found_def)
  next
    case False
    with assms(2) have m2: "M2 (rr_rule_index found) (rr_params found)"
        "\<And>i q. M2 i q \<Longrightarrow> rr_rule_index found \<le> i"
      unfolding best_of_def by auto
    show ?thesis
    proof (cases "rr_rule_index ret < rr_rule_index found")
      case True
      then have "\<And>i q. M2 i q \<Longrightarrow> rr_rule_index ret \<le> i" using m2(2) by force
      with True ret m1 show ?thesis by (auto simp: best_of_def update_found_def)
    next
      case le: False
      then have "\<And>i q. M1 i q \<Longrightarrow> rr_rule_index found \<le> i" using m1(2) by force
      with le False ret m2 show ?thesis by (auto simp: best_of_def update_found_def)
    qed
  qed
qed

lemma matches_nonzero: "matches D n s q i q' \<Longrightarrow> i \<noteq> 0"
  by (auto simp: matches_def dest: has_rule_nonzero)

lemma find_best:
  "trie_wf n \<Longrightarrow> best_of (matches D n s q) (fst (find_node D n s q bps))"
  "(\<forall>c \<in> set cs. entry c \<noteq> [] \<and> trie_wf c) \<Longrightarrow> best_of M found \<Longrightarrow> (\<And>i q. M i q \<Longrightarrow> i \<noteq> 0) \<Longrightarrow>
   best_of (\<lambda>i q'. M i q' \<or> child_matches D cs s q i q')
     (fst (find_children D cs s q bps found fragment))"
proof (induction D n s q bps and D cs s q bps found fragment arbitrary: and M
    rule: find_node_find_children.induct)
  case (1 D r b k p cs s q bps)
  show ?case
  proof (cases "s = []")
    case True
    have "\<not> child_matches D cs [] q i q'" for i q'
      using 1(2) by (auto simp: child_matches_def consume_end)
    with True show ?thesis by (auto simp: best_of_def matches_children)
  next
    case False
    let ?f = "find_children D cs s q bps \<lparr>rr_rule_index = 0, rr_blueprints = [], rr_params = empty_params\<rparr> False"
    have "best_of (\<lambda>i q'. False \<or> child_matches D cs s q i q') (fst ?f)"
      using 1(2) by (intro 1(1) [OF False]) (auto simp: best_of_def)
    moreover have "rr_rule_index (fst (find_node D (Node r b k p cs) s q bps)) = rr_rule_index (fst ?f)"
      "rr_params (fst (find_node D (Node r b k p cs) s q bps)) = rr_params (fst ?f)"
      using False by (auto split: prod.split)
    ultimately show ?thesis using False by (simp add: best_of_def matches_children)
  qed
next
  case (2 D s q bps found fragment)
  then show ?case by (simp add: child_matches_def)
next
  case (3 D c cs s q bps found fragment)
  have split: "child_matches D (c # cs) s q i q' \<longleftrightarrow>
      (case consume_node D c s q of None \<Rightarrow> False | Some (q1, s1) \<Rightarrow> matches D c s1 q1 i q') \<or>
      child_matches D cs s q i q'" for i q'
    by (auto simp: child_matches_def split: option.splits)
  show ?case
  proof (cases "consume_node D c s q")
    case None
    with 3(1) [OF None, of M] 3(4-6) split show ?thesis by simp
  next
    case (Some p)
    obtain q1 s1 where p: "p = (q1, s1)" by fastforce
    let ?bps1 = "if nd_bp c \<noteq> INVALID_BP_ID then bps @ [nd_bp c] else bps"
    obtain ret bps2 where f: "find_node D c s1 q1 ?bps1 = (ret, bps2)" by fastforce
    have b: "best_of (matches D c s1 q1) ret"
      using 3(2) [OF Some p [symmetric] refl] 3(4) f by simp
    have u: "best_of (\<lambda>i q'. M i q' \<or> matches D c s1 q1 i q') (update_found ret found)"
      using b 3(5,6) by (intro best_update) (auto dest: matches_nonzero)
    then have "best_of (\<lambda>i q'. (M i q' \<or> matches D c s1 q1 i q') \<or> child_matches D cs s q i q')
        (fst (find_children D cs s q (if bps2 \<noteq> [] then butlast bps2 else bps2) (update_found ret found) True))"
      using u 3(4,6)
      by (intro 3(3) [OF Some p [symmetric] refl f [symmetric]]) (auto dest: matches_nonzero)
    with Some p f split show ?thesis by (simp add: Let_def disj_assoc)
  qed
qed

end
