(* ===== verification/Crow_Routing_Build.thy ===== *)
theory Crow_Routing_Build
  imports Crow_Routing_Facts
begin

section \<open>Building the search tree: rules in, the first matching rule out\<close>

text \<open>
  \<open>Trie::add\<close> inserts exactly one rule and \<open>Trie::validate\<close> keeps the rules, so that
  \<open>Trie::find\<close> on a built tree answers for the list of rules. While rules are added every node
  has one character or one parameter, and no two children of a node have the same.
\<close>

subsection \<open>Trees under construction\<close>

definition single :: "trie_node \<Rightarrow> bool" where
  "single c \<longleftrightarrow> (case nd_param c of None \<Rightarrow> length (nd_key c) = 1 | Some t \<Rightarrow> nd_key c = [])"

definition plain_children :: "(trie_node \<Rightarrow> bool) \<Rightarrow> trie_node list \<Rightarrow> bool" where
  "plain_children P cs \<longleftrightarrow> distinct (map entry cs) \<and> (\<forall>c \<in> set cs. single c \<and> P c)"

lemma plain_children_cong [fundef_cong]:
  "cs = cs' \<Longrightarrow> (\<And>c. c \<in> set cs' \<Longrightarrow> P c = Q c) \<Longrightarrow> plain_children P cs = plain_children Q cs'"
  by (auto simp: plain_children_def)

fun plain :: "trie_node \<Rightarrow> bool" where
  "plain (Node r b k p cs) = plain_children plain cs"

lemma plain_iff: "plain n \<longleftrightarrow> plain_children plain (nd_children n)"
  by (cases n) simp

lemma single_param: "single c \<Longrightarrow> nd_param c = Some t \<longleftrightarrow> entry c = [Par t]"
  by (cases "nd_key c") (auto simp: single_def entry_def split: option.splits)

lemma single_key: "single c \<Longrightarrow> x \<noteq> NUL \<Longrightarrow> key_starts x c \<longleftrightarrow> entry c = [Lit x]"
  by (cases "nd_key c") (auto simp: single_def entry_def key_starts_def split: option.splits)

lemma single_entry: "single c \<Longrightarrow> \<exists>pc. entry c = [pc]"
  by (cases "nd_key c") (auto simp: single_def entry_def split: option.splits)

text \<open>The rules below a list of nodes, and replacing the node the search of \<open>add\<close> found.\<close>

definition below :: "trie_node list \<Rightarrow> piece list \<Rightarrow> 16 word \<Rightarrow> bool" where
  "below cs ps i \<longleftrightarrow> (\<exists>c \<in> set cs. \<exists>qs. ps = entry c @ qs \<and> has_rule c qs i)"

lemma has_rule_below:
  "has_rule n ps i \<longleftrightarrow> (nd_rule n \<noteq> 0 \<and> ps = [] \<and> i = nd_rule n) \<or> below (nd_children n) ps i"
  by (subst has_rule_iff) (simp add: below_def)

definition put_node :: "nat option \<Rightarrow> trie_node \<Rightarrow> trie_node list \<Rightarrow> trie_node list" where
  "put_node j c cs = (case j of Some k \<Rightarrow> cs[k := c] | None \<Rightarrow> cs @ [c])"

lemma below_split:
  assumes "k < length cs" "distinct (map entry cs)" "\<forall>c \<in> set cs. single c" "entry (cs ! k) = [pc]"
  shows "below cs ps i \<longleftrightarrow>
    below (take k cs @ drop (Suc k) cs) ps i \<or> (\<exists>qs. ps = pc # qs \<and> has_rule (cs ! k) qs i)"
    "\<not> below (take k cs @ drop (Suc k) cs) (pc # qs) i"
proof -
  have cs: "cs = take k cs @ cs ! k # drop (Suc k) cs" using assms(1) by (rule id_take_nth_drop)
  show "below cs ps i \<longleftrightarrow>
    below (take k cs @ drop (Suc k) cs) ps i \<or> (\<exists>qs. ps = pc # qs \<and> has_rule (cs ! k) qs i)"
    by (subst (1) cs) (auto simp: below_def assms(4))
  show "\<not> below (take k cs @ drop (Suc k) cs) (pc # qs) i"
  proof
    assume "below (take k cs @ drop (Suc k) cs) (pc # qs) i"
    then obtain c rs where c: "c \<in> set (take k cs @ drop (Suc k) cs)" "pc # qs = entry c @ rs"
      by (auto simp: below_def)
    then have "c \<in> set cs" by (auto dest: in_set_takeD in_set_dropD)
    with assms(3) c(2) have "entry c = [pc]" using single_entry [of c] by auto
    with c(1) have "[pc] \<in> entry ` set (take k cs @ drop (Suc k) cs)" by (metis imageI)
    moreover have "distinct (map entry (take k cs @ cs ! k # drop (Suc k) cs))" using assms(2) cs by metis
    ultimately show False using assms(4) by auto
  qed
qed

lemma put_node_facts:
  assumes cs: "plain_children plain cs" and P: "\<forall>c. single c \<longrightarrow> P c \<longleftrightarrow> entry c = [pc]"
    and fresh: "entry fresh = [pc]" "single fresh" "nd_rule fresh = 0" "nd_children fresh = []"
    and child: "child = (case first_index P cs of Some k \<Rightarrow> cs ! k | None \<Rightarrow> fresh)"
  shows "entry child = [pc]" "single child" "plain child"
    "\<And>qs i. below cs (pc # qs) i \<longleftrightarrow> has_rule child qs i"
    "\<And>c' R. entry c' = [pc] \<Longrightarrow> single c' \<Longrightarrow> plain c' \<Longrightarrow>
      (\<And>qs i. has_rule c' qs i \<longleftrightarrow> has_rule child qs i \<or> R qs i) \<Longrightarrow>
      plain_children plain (put_node (first_index P cs) c' cs) \<and>
      (\<forall>ps i. below (put_node (first_index P cs) c' cs) ps i \<longleftrightarrow>
        below cs ps i \<or> (\<exists>qs. ps = pc # qs \<and> R qs i))"
proof -
  have d: "distinct (map entry cs)" and s: "\<forall>c \<in> set cs. single c" and p: "\<forall>c \<in> set cs. plain c"
    using cs by (auto simp: plain_children_def)
  have nofresh: "\<not> has_rule fresh qs i" for qs i
    using fresh(3,4) by (subst has_rule_below) (simp add: below_def)
  have plain_fresh: "plain fresh" using fresh(4) by (subst plain_iff) (simp add: plain_children_def)
  have goal: "entry child = [pc] \<and> single child \<and> plain child \<and>
      (\<forall>qs i. below cs (pc # qs) i \<longleftrightarrow> has_rule child qs i) \<and>
      (\<forall>c' R. entry c' = [pc] \<longrightarrow> single c' \<longrightarrow> plain c' \<longrightarrow>
        (\<forall>qs i. has_rule c' qs i \<longleftrightarrow> has_rule child qs i \<or> R qs i) \<longrightarrow>
        plain_children plain (put_node (first_index P cs) c' cs) \<and>
        (\<forall>ps i. below (put_node (first_index P cs) c' cs) ps i \<longleftrightarrow>
          below cs ps i \<or> (\<exists>qs. ps = pc # qs \<and> R qs i)))"
  proof (cases "first_index P cs")
    case None
    then have no: "\<forall>c \<in> set cs. entry c \<noteq> [pc]" using P s by (auto simp: search_simps)
    have nob: "\<not> below cs (pc # qs) i" for qs i
    proof
      assume "below cs (pc # qs) i"
      then obtain c rs where "c \<in> set cs" "pc # qs = entry c @ rs" by (auto simp: below_def)
      with s no single_entry [of c] show False by auto
    qed
    from None have ch: "child = fresh" using child by simp
    have "below (cs @ [c']) ps i \<longleftrightarrow> below cs ps i \<or> (\<exists>qs. ps = entry c' @ qs \<and> has_rule c' qs i)" for c' ps i
      by (auto simp: below_def)
    with None ch nob nofresh plain_fresh fresh(1,2) d s p no show ?thesis
      by (auto simp: put_node_def plain_children_def)
  next
    case (Some k)
    then have k: "k < length cs" "entry (cs ! k) = [pc]" "cs ! k \<in> set cs"
      using P s first_index_SomeD [OF Some] by auto
    from Some have ch: "child = cs ! k" using child by simp
    note b = below_split [OF k(1) d s k(2)]
    have upd: "plain_children plain (cs[k := c']) \<and>
        (\<forall>ps i. below (cs[k := c']) ps i \<longleftrightarrow> below cs ps i \<or> (\<exists>qs. ps = pc # qs \<and> R qs i))"
      if c': "entry c' = [pc]" "single c'" "plain c'"
        "\<forall>qs i. has_rule c' qs i \<longleftrightarrow> has_rule child qs i \<or> R qs i" for c' R
    proof -
      have m: "map entry (cs[k := c']) = map entry cs"
        using k c'(1) by (simp add: map_update list_update_same_conv)
      have sp: "\<forall>c \<in> set (cs[k := c']). single c \<and> plain c"
        using s p c'(2,3) by (auto dest: set_update_subsetD)
      have "below (cs[k := c']) ps i \<longleftrightarrow>
          below (take k cs @ drop (Suc k) cs) ps i \<or> (\<exists>qs. ps = pc # qs \<and> has_rule c' qs i)" for ps i
        using below_split(1) [of k "cs[k := c']" pc ps i] k(1) d m sp c'(1) by simp
      with b c'(4) ch m d sp show ?thesis by (auto simp: plain_children_def)
    qed
    from b(1) [of "pc # _"] b(2) have "below cs (pc # qs) i \<longleftrightarrow> has_rule (cs ! k) qs i" for qs i by auto
    with Some ch k s p upd show ?thesis by (auto simp: put_node_def)
  qed
  then show "entry child = [pc]" "single child" "plain child"
    "\<And>qs i. below cs (pc # qs) i \<longleftrightarrow> has_rule child qs i"
    "\<And>c' R. entry c' = [pc] \<Longrightarrow> single c' \<Longrightarrow> plain c' \<Longrightarrow>
      (\<And>qs i. has_rule c' qs i \<longleftrightarrow> has_rule child qs i \<or> R qs i) \<Longrightarrow>
      plain_children plain (put_node (first_index P cs) c' cs) \<and>
      (\<forall>ps i. below (put_node (first_index P cs) c' cs) ps i \<longleftrightarrow>
        below cs ps i \<or> (\<exists>qs. ps = pc # qs \<and> R qs i))"
    by blast+
qed


subsection \<open>Adding a rule\<close>

text \<open>
  What \<open>add\<close> does on a node, for a rule of pieces \<open>po\<close> (\<open>None\<close>: an unknown tag): it never returns,
  or the pieces are there already, or exactly this rule is new.
\<close>

definition added :: "16 word \<Rightarrow> piece list option \<Rightarrow> trie_node \<Rightarrow> trie_node result option \<Rightarrow> bool" where
  "added ru po n res \<longleftrightarrow>
     (case res of
        None \<Rightarrow> po = None
      | Some (Inl x) \<Rightarrow> (\<exists>ps j. po = Some ps \<and> has_rule n ps j)
      | Some (Inr n') \<Rightarrow>
          (\<exists>ps. po = Some ps \<and> (\<forall>j. \<not> has_rule n ps j) \<and> plain n' \<and>
            nd_bp n' = nd_bp n \<and> nd_key n' = nd_key n \<and> nd_param n' = nd_param n \<and>
            (ps \<noteq> [] \<longrightarrow> nd_rule n' = nd_rule n) \<and>
            entry ` set (nd_children n') \<subseteq> insert (take 1 ps) (entry ` set (nd_children n)) \<and>
            (\<forall>qs j. has_rule n' qs j \<longleftrightarrow> has_rule n qs j \<or> (ru \<noteq> 0 \<and> qs = ps \<and> j = ru))))"

lemma added_child:
  assumes cs: "plain_children plain (nd_children n)"
    and P: "\<forall>c. single c \<longrightarrow> P c \<longleftrightarrow> entry c = [pc]"
    and fresh: "entry fresh = [pc]" "single fresh" "nd_rule fresh = 0" "nd_children fresh = []"
    and child: "child = (case first_index P (nd_children n) of Some k \<Rightarrow> nd_children n ! k | None \<Rightarrow> fresh)"
    and sub: "added ru po child res"
  shows "added ru (map_option (\<lambda>ps. pc # ps) po) n
    (case res of None \<Rightarrow> None | Some (Inl x) \<Rightarrow> Some (Inl x)
     | Some (Inr c') \<Rightarrow> Some (Inr (Node (nd_rule n) (nd_bp n) (nd_key n) (nd_param n)
         (put_node (first_index P (nd_children n)) c' (nd_children n)))))"
proof -
  note f = put_node_facts [OF cs P fresh child]
  have here: "has_rule n (pc # qs) j \<longleftrightarrow> has_rule child qs j" for qs j
    using f(4) by (subst has_rule_below) simp
  consider "res = None" | x where "res = Some (Inl x)" | c' where "res = Some (Inr c')"
    by (cases res) (auto split: sum.splits intro: sum.exhaust [of "the res"])
  then show ?thesis
  proof cases
    case 1
    with sub show ?thesis by (simp add: added_def)
  next
    case (2 x)
    with sub here show ?thesis by (auto simp: added_def)
  next
    case (3 c')
    with sub obtain ps where ps: "po = Some ps" "\<forall>j. \<not> has_rule child ps j" "plain c'"
      "nd_key c' = nd_key child" "nd_param c' = nd_param child"
      "\<And>qs j. has_rule c' qs j \<longleftrightarrow> has_rule child qs j \<or> (ru \<noteq> 0 \<and> qs = ps \<and> j = ru)"
      by (auto simp: added_def)
    have c': "entry c' = [pc]" "single c'"
      using f(1,2) ps(4,5) by (simp_all add: entry_def single_def split: option.splits)
    note upd = f(5) [OF c' ps(3), of "\<lambda>qs j. ru \<noteq> 0 \<and> qs = ps \<and> j = ru", OF ps(6)]
    let ?n = "Node (nd_rule n) (nd_bp n) (nd_key n) (nd_param n)
      (put_node (first_index P (nd_children n)) c' (nd_children n))"
    have "has_rule ?n qs j \<longleftrightarrow> has_rule n qs j \<or> (ru \<noteq> 0 \<and> qs = pc # ps \<and> j = ru)" for qs j
      using upd has_rule_below [of ?n] has_rule_below [of n] by auto
    moreover have "plain ?n" using upd by simp
    moreover have "entry ` set (put_node (first_index P (nd_children n)) c' (nd_children n)) \<subseteq>
        insert [pc] (entry ` set (nd_children n))"
      using c'(1) by (auto simp: put_node_def split: option.splits dest: set_update_subsetD)
    ultimately show ?thesis using 3 ps(1,2) here by (simp add: added_def)
  qed
qed

lemma trie_add_added:
  "plain n \<Longrightarrow> NUL \<notin> set s \<Longrightarrow> added ru (rule_pieces s) n (trie_add hb bl b ru i s n)"
proof (induction hb bl b ru i s n rule: trie_add.induct)
  case (1 hb bl b ru i s n)
  have cs: "plain_children plain (nd_children n)" using 1(3) by (subst (asm) plain_iff)
  show ?case
  proof (cases s)
    case Nil
    have e: "has_rule (Node ru bb k p (nd_children n)) qs j \<longleftrightarrow>
        (ru \<noteq> 0 \<and> qs = [] \<and> j = ru) \<or> below (nd_children n) qs j" for bb k p qs j
      by (subst has_rule_below) auto
    have nb: "\<not> below (nd_children n) [] j" for j
      using cs single_entry by (fastforce simp: below_def plain_children_def)
    show ?thesis
      using Nil cs e nb has_rule_below [of n]
      by (auto simp: added_def trie_add.simps [of _ _ _ _ _ "[]"] rule_pieces.simps [of "[]"])
  next
    case (Cons c r)
    show ?thesis
    proof (cases "c = CHR ''<''")
      case True
      show ?thesis
      proof (cases "read_trait s")
        case None
        with Cons True show ?thesis
          by (simp add: added_def trie_add.simps [of _ _ _ _ _ "CHR ''<'' # r"] rule_pieces.simps [of "CHR ''<'' # r"])
      next
        case (Some tn)
        obtain t name where tn: "tn = (t, name)" by fastforce
        let ?P = "\<lambda>x. nd_param x = Some t"
        let ?fresh = "Node 0 INVALID_BP_ID '''' (Some t) []"
        let ?child = "case first_index ?P (nd_children n) of Some k \<Rightarrow> nd_children n ! k | None \<Rightarrow> ?fresh"
        have P: "\<forall>c. single c \<longrightarrow> ?P c \<longleftrightarrow> entry c = [Par t]" by (simp add: single_param)
        have fresh: "entry ?fresh = [Par t]" "single ?fresh" "nd_rule ?fresh = 0" "nd_children ?fresh = []"
          by (simp_all add: entry_def single_def)
        have "plain ?child" by (rule put_node_facts(3) [OF cs P fresh refl])
        moreover have "NUL \<notin> set (drop (length name) s)" using 1(4) in_set_dropD by fast
        ultimately have sub: "added ru (rule_pieces (drop (length name) s)) ?child
            (trie_add hb bl b ru (i + length name) (drop (length name) s) ?child)"
          using 1(1) [OF Cons True Some tn [symmetric] refl refl refl] by simp
        show ?thesis
          using added_child [OF cs P fresh refl sub, unfolded put_node_def] Cons True Some tn
          by (simp add: trie_add.simps [of _ _ _ _ _ "CHR ''<'' # r"] rule_pieces.simps [of "CHR ''<'' # r"] Let_def)
      qed
    next
      case False
      let ?P = "key_starts c"
      let ?fresh = "Node 0 (if hb \<and> i = bl then b else INVALID_BP_ID) [c] None []"
      let ?child = "case first_index ?P (nd_children n) of Some k \<Rightarrow> nd_children n ! k | None \<Rightarrow> ?fresh"
      have c: "c \<noteq> NUL" using 1(4) Cons by auto
      have P: "\<forall>x. single x \<longrightarrow> ?P x \<longleftrightarrow> entry x = [Lit c]" using c by (simp add: single_key)
      have fresh: "entry ?fresh = [Lit c]" "single ?fresh" "nd_rule ?fresh = 0" "nd_children ?fresh = []"
        by (simp_all add: entry_def single_def)
      have "plain ?child" by (rule put_node_facts(3) [OF cs P fresh refl])
      moreover have "NUL \<notin> set r" using 1(4) Cons by simp
      ultimately have sub: "added ru (rule_pieces r) ?child (trie_add hb bl b ru (i + 1) r ?child)"
        using 1(2) [OF Cons False refl refl refl] by simp
      show ?thesis
        using added_child [OF cs P fresh refl sub, unfolded put_node_def] Cons False
        by (simp add: trie_add.simps [of _ _ _ _ _ "c # r"] rule_pieces.simps [of "c # r"] Let_def)
    qed
  qed
qed


subsection \<open>Merging nodes keeps the rules\<close>

lemma plain_wf: "plain n \<Longrightarrow> trie_wf n"
proof (induction n rule: plain.induct)
  case (1 r b k p cs)
  then show ?case by (fastforce simp: plain_children_def dest: single_entry)
qed

lemma below_single: "below [c] ps i \<longleftrightarrow> (\<exists>qs. ps = entry c @ qs \<and> has_rule c qs i)"
  by (simp add: below_def)

lemma below_all: "below cs ps i \<longleftrightarrow> (\<exists>c \<in> set cs. below [c] ps i)"
  by (simp add: below_def)

lemma has_rule_node: "has_rule (Node r b k p cs) ps i \<longleftrightarrow> (r \<noteq> 0 \<and> ps = [] \<and> i = r) \<or> below cs ps i"
  by (subst has_rule_below) simp

lemma merge_below:
  "below [Node 0 b k None [Node r2 b2 k2 None cs2]] ps i \<longleftrightarrow> below [Node r2 b2' (k @ k2) None cs2] ps i"
proof -
  have "below [Node 0 b k None [Node r2 b2 k2 None cs2]] ps i \<longleftrightarrow>
      (\<exists>qs. ps = map Lit k @ map Lit k2 @ qs \<and> has_rule (Node r2 b2 k2 None cs2) qs i)"
    by (subst below_single, subst has_rule_node, subst below_single) (auto simp: entry_def)
  moreover have "below [Node r2 b2' (k @ k2) None cs2] ps i \<longleftrightarrow>
      (\<exists>qs. ps = map Lit k @ map Lit k2 @ qs \<and> has_rule (Node r2 b2 k2 None cs2) qs i)"
    by (subst below_single, subst (1 2) has_rule_node) (auto simp: entry_def)
  ultimately show ?thesis by simp
qed

lemma simple_merge:
  assumes "IsSimpleNode (Node r b k p cs)" "cs \<noteq> []" "hd cs = Node r2 b2 k2 p2 cs2"
  shows "r = 0" "p = None" "p2 = None" "cs = [Node r2 b2 k2 None cs2]"
  using assms by (cases cs; simp add: IsSimpleNode_def)+

lemma optimizeNode_keeps:
  "(\<forall>ps i. below [optimizeNode n] ps i \<longleftrightarrow> below [n] ps i) \<and>
   (trie_wf n \<longrightarrow> trie_wf (optimizeNode n) \<and> (entry n \<noteq> [] \<longrightarrow> entry (optimizeNode n) \<noteq> []))"
proof (induction n rule: optimizeNode.induct)
  case (1 r b k p cs)
  consider "cs = []" | r2 b2 k2 p2 cs2 where "cs \<noteq> []" "IsSimpleNode (Node r b k p cs)" "hd cs = Node r2 b2 k2 p2 cs2"
    | "cs \<noteq> []" "\<not> IsSimpleNode (Node r b k p cs)" by (cases "hd cs") blast
  then show ?case
  proof cases
    case 1
    then show ?thesis by (simp add: optimizeNode.simps)
  next
    case (2 r2 b2 k2 p2 cs2)
    note s = simple_merge [OF 2(2,1,3)]
    have opt: "optimizeNode (Node r b k p cs) = optimizeNode (Node r2 b2 (k @ k2) p cs2)"
      using 2 by (subst optimizeNode.simps) simp
    have "entry (Node r b k p cs) \<noteq> [] \<longrightarrow> entry (Node r2 b2 (k @ k2) p cs2) \<noteq> []"
      using s by (simp add: entry_def)
    moreover have "below [Node r2 b2 (k @ k2) p cs2] ps i \<longleftrightarrow> below [Node r b k p cs] ps i" for ps i
      using merge_below [of b k r2 b2 k2 cs2 ps i b2] s by simp
    moreover have "trie_wf (Node r b k p cs) \<longrightarrow> trie_wf (Node r2 b2 (k @ k2) p cs2)" using s(4) by simp
    ultimately show ?thesis using 1(1) [OF 2(1,2,3)] opt by metis
  next
    case 3
    then have opt: "optimizeNode (Node r b k p cs) = Node r b k p (map optimizeNode cs)"
      by (simp add: optimizeNode.simps)
    have ih: "c \<in> set cs \<Longrightarrow> (\<forall>ps i. below [optimizeNode c] ps i \<longleftrightarrow> below [c] ps i) \<and>
        (trie_wf c \<longrightarrow> trie_wf (optimizeNode c) \<and> (entry c \<noteq> [] \<longrightarrow> entry (optimizeNode c) \<noteq> []))" for c
      using 1(2) [OF 3] by simp
    have "below (map optimizeNode cs) ps i \<longleftrightarrow> below cs ps i" for ps i
      using ih by (subst (1 2) below_all) simp
    then have "has_rule (Node r b k p (map optimizeNode cs)) ps i \<longleftrightarrow> has_rule (Node r b k p cs) ps i" for ps i
      by (subst (1 2) has_rule_node) simp
    moreover have "entry (Node r b k p (map optimizeNode cs)) = entry (Node r b k p cs)"
      by (simp add: entry_def split: option.split)
    ultimately show ?thesis using opt ih by (simp add: below_single)
  qed
qed

lemma Trie_validate_keeps:
  assumes "Trie_validate head = Inr t" "trie_wf head"
  shows "trie_wf t" "has_rule t ps i \<longleftrightarrow> has_rule head ps i"
proof -
  have t: "t = Node (nd_rule head) (nd_bp head) (nd_key head) (nd_param head) (map optimizeNode (nd_children head))"
    using assms(1) by (simp add: Trie_validate_def split: if_splits)
  show "trie_wf t" using assms(2) optimizeNode_keeps by (cases head) (auto simp: t)
  have "below (map optimizeNode (nd_children head)) ps i \<longleftrightarrow> below (nd_children head) ps i"
    using optimizeNode_keeps by (subst (1 2) below_all) simp
  then show "has_rule t ps i \<longleftrightarrow> has_rule head ps i"
    by (subst (1 2) has_rule_below) (simp add: t)
qed

subsection \<open>A list of rules\<close>

fun add_rules :: "(string \<times> 16 word) list \<Rightarrow> trie_node \<Rightarrow> trie_node result option" where
  "add_rules [] t = Some (Inr t)"
| "add_rules ((url, i) # rs) t =
     (case Trie_add url i 0 INVALID_BP_ID t of Some (Inr t') \<Rightarrow> add_rules rs t' | res \<Rightarrow> res)"

definition rule_ok :: "string \<Rightarrow> bool" where
  "rule_ok url \<longleftrightarrow> url \<noteq> [] \<and> hd url = CHR ''/'' \<and> NUL \<notin> set url \<and> rule_pieces url \<noteq> None"

definition rooted :: "trie_node \<Rightarrow> bool" where
  "rooted t \<longleftrightarrow> nd_rule t = 0 \<and> nd_bp t = INVALID_BP_ID \<and> nd_param t = None \<and>
     (\<forall>c \<in> set (nd_children t). entry c = [Lit CHR ''/''])"

lemma rule_ok_pieces:
  assumes "rule_ok url"
  obtains ps where "rule_pieces url = Some (Lit CHR ''/'' # ps)"
proof -
  from assms obtain r where "url = CHR ''/'' # r" by (cases url) (auto simp: rule_ok_def)
  with assms that show thesis by (auto simp: rule_ok_def rule_pieces.simps [of "CHR ''/'' # r"])
qed

lemma rooted_simple:
  assumes "rooted t" "plain t"
  shows "IsSimpleNode t"
proof -
  have one: "\<forall>c \<in> set (nd_children t). nd_param c = None" using assms(1)
    by (auto simp: rooted_def entry_def split: option.splits)
  have "distinct (map entry (nd_children t))" using assms(2) by (subst (asm) plain_iff) (simp add: plain_children_def)
  moreover have "map entry (nd_children t) = replicate (length (nd_children t)) [Lit CHR ''/'']"
    using assms(1) by (intro replicate_eqI) (auto simp: rooted_def)
  ultimately have "length (nd_children t) < 2"
    by (cases "length (nd_children t)"; cases "length (nd_children t) - 1") auto
  with assms(1) one show ?thesis by (simp add: IsSimpleNode_def rooted_def list_all_iff)
qed


lemma add_rule_rooted:
  assumes "rooted t" "plain t" "rule_ok url" "i \<noteq> 0" "\<And>ps j. rule_pieces url = Some ps \<Longrightarrow> \<not> has_rule t ps j"
  obtains t' where "Trie_add url i 0 INVALID_BP_ID t = Some (Inr t')" "rooted t'" "plain t'"
    "\<And>qs j. has_rule t' qs j \<longleftrightarrow> has_rule t qs j \<or> (rule_pieces url = Some qs \<and> j = i)"
proof -
  obtain ps where ps: "rule_pieces url = Some (Lit CHR ''/'' # ps)" using assms(3) rule_ok_pieces by blast
  have "added i (rule_pieces url) t (Trie_add url i 0 INVALID_BP_ID t)"
    using assms(2,3) unfolding Trie_add_def by (intro trie_add_added) (auto simp: rule_ok_def)
  with ps assms(4) assms(5) obtain t' where t': "Trie_add url i 0 INVALID_BP_ID t = Some (Inr t')" "plain t'"
    "nd_bp t' = nd_bp t" "nd_param t' = nd_param t" "nd_rule t' = nd_rule t"
    "entry ` set (nd_children t') \<subseteq> insert [Lit CHR ''/''] (entry ` set (nd_children t))"
    "\<And>qs j. has_rule t' qs j \<longleftrightarrow> has_rule t qs j \<or> (rule_pieces url = Some qs \<and> j = i)"
    by (auto simp: added_def split: option.splits sum.splits)
  then have "rooted t'" using assms(1) by (fastforce simp: rooted_def)
  with t' that show thesis by blast
qed

lemma add_rules_rooted:
  assumes "rooted t" "plain t" "\<forall>(url, i) \<in> set rs. rule_ok url \<and> i \<noteq> 0"
    "distinct (map (rule_pieces \<circ> fst) rs)"
    "\<forall>(url, i) \<in> set rs. \<forall>ps j. rule_pieces url = Some ps \<longrightarrow> \<not> has_rule t ps j"
  shows "\<exists>t'. add_rules rs t = Some (Inr t') \<and> rooted t' \<and> plain t' \<and>
    (\<forall>qs j. has_rule t' qs j \<longleftrightarrow> has_rule t qs j \<or> (\<exists>(url, i) \<in> set rs. rule_pieces url = Some qs \<and> j = i))"
  using assms
proof (induction rs arbitrary: t)
  case (Cons r rs)
  obtain url i where r: "r = (url, i)" by fastforce
  obtain t1 where t1: "Trie_add url i 0 INVALID_BP_ID t = Some (Inr t1)" "rooted t1" "plain t1"
    "\<And>qs j. has_rule t1 qs j \<longleftrightarrow> has_rule t qs j \<or> (rule_pieces url = Some qs \<and> j = i)"
    using Cons.prems r by (auto intro: add_rule_rooted [of t url i])
  have "\<exists>t'. add_rules rs t1 = Some (Inr t') \<and> rooted t' \<and> plain t' \<and>
    (\<forall>qs j. has_rule t' qs j \<longleftrightarrow> has_rule t1 qs j \<or> (\<exists>(url, i) \<in> set rs. rule_pieces url = Some qs \<and> j = i))"
  proof (rule Cons.IH [OF t1(2,3)])
    show "\<forall>(url, i) \<in> set rs. \<forall>ps j. rule_pieces url = Some ps \<longrightarrow> \<not> has_rule t1 ps j"
    proof clarify
      fix u k ps j
      assume u: "(u, k) \<in> set rs" "rule_pieces u = Some ps" "has_rule t1 ps j"
      have "(rule_pieces \<circ> fst) (u, k) \<in> set (map (rule_pieces \<circ> fst) rs)" using u(1) by (metis image_eqI set_map)
      moreover have "rule_pieces url \<notin> set (map (rule_pieces \<circ> fst) rs)" using Cons.prems(4) r by simp
      ultimately have "rule_pieces url \<noteq> Some ps" using u(2) by (metis comp_apply fst_conv)
      then have "has_rule t ps j" using t1(4) u(3) by simp
      with Cons.prems(5) u(1,2) show False by fastforce
    qed
  qed (use Cons.prems in auto)
  with t1 r show ?case by auto
qed simp


lemma rooted_empty: "rooted empty_node" "plain empty_node" "\<not> has_rule empty_node ps j"
  by (simp_all add: rooted_def empty_node_def plain_children_def has_rule_node below_def)

lemma add_rules_find:
  assumes "\<forall>(url, i) \<in> set rs. rule_ok url \<and> i \<noteq> 0" "distinct (map (rule_pieces \<circ> fst) rs)"
  shows "\<exists>t t'. add_rules rs empty_node = Some (Inr t) \<and> Trie_validate t = Inr t' \<and>
    (trie_is_empty t' \<longleftrightarrow> rs = []) \<and>
    (\<forall>s. best_of (\<lambda>i q. \<exists>(url, j) \<in> set rs. \<exists>ps. rule_pieces url = Some ps \<and> j = i \<and>
            match_rule D ps s empty_params = Some q)
          (Trie_find D t' s))"
proof -
  obtain t where t: "add_rules rs empty_node = Some (Inr t)" "rooted t" "plain t"
    "\<And>qs j. has_rule t qs j \<longleftrightarrow> (\<exists>(url, i) \<in> set rs. rule_pieces url = Some qs \<and> j = i)"
    using add_rules_rooted [OF rooted_empty(1,2) assms] rooted_empty(3) by auto
  obtain t' where t': "Trie_validate t = Inr t'"
    using rooted_simple [OF t(2,3)] by (simp add: Trie_validate_def)
  note v = Trie_validate_keeps [OF t' plain_wf [OF t(3)]]
  have "matches D t' s empty_params = (\<lambda>i q. \<exists>(url, j) \<in> set rs. \<exists>ps. rule_pieces url = Some ps \<and> j = i \<and>
      match_rule D ps s empty_params = Some q)" for s
    using v(2) t(4) by (intro ext) (fastforce simp: matches_def)
  moreover have "trie_is_empty t' \<longleftrightarrow> rs = []"
  proof -
    have children: "nd_children t' = map optimizeNode (nd_children t)"
      using t' by (auto simp: Trie_validate_def split: if_splits)
    show ?thesis
    proof (cases rs)
      case Nil
      with t(1) have "t = empty_node" by simp
      with Nil children show ?thesis by (simp add: trie_is_empty_def empty_node_def)
    next
      case (Cons r rs')
      obtain url i where r: "r = (url, i)" by fastforce
      with Cons assms(1) obtain ps where "rule_pieces url = Some (Lit CHR ''/'' # ps)"
        by (auto elim: rule_ok_pieces)
      with Cons r t(4) have "has_rule t (Lit CHR ''/'' # ps) i" by auto
      then have "below (nd_children t) (Lit CHR ''/'' # ps) i" by (subst (asm) has_rule_below) simp
      with Cons children show ?thesis by (auto simp: trie_is_empty_def below_def)
    qed
  qed
  ultimately show ?thesis
    using t(1) t' find_best(1) [OF v(1), of D _ empty_params "[]"] by (auto simp: Trie_find_def)
qed

text \<open>
  C24. Routing: for rules that begin with a slash and have known tags, all different as patterns,
  the tree is built and validated without an error, and finding a URL in it answers 0 when no
  rule matches the URL, and otherwise the least index of a matching rule, with the parameters
  that this rule reads.
\<close>

theorem routing_finds_first_match:
  assumes "\<forall>(url, i) \<in> set rs. rule_ok url \<and> i \<noteq> 0" "distinct (map (rule_pieces \<circ> fst) rs)"
  shows "\<exists>t t'. add_rules rs empty_node = Some (Inr t) \<and> Trie_validate t = Inr t' \<and>
    (\<forall>s. best_of (\<lambda>i q. \<exists>(url, j) \<in> set rs. \<exists>ps. rule_pieces url = Some ps \<and> j = i \<and>
            match_rule D ps s empty_params = Some q)
          (Trie_find D t' s))"
  using add_rules_find [OF assms] by blast

lemma routing_finds_first_match_witness:
  "\<exists>t t'. add_rules [(''/'', 2), (''/a/<int>/b'', 3), (''/a/<path>'', 4)] empty_node = Some (Inr t) \<and>
    Trie_validate t = Inr t' \<and>
    (\<forall>s. best_of (\<lambda>i q. \<exists>(url, j) \<in> set [(''/'', 2), (''/a/<int>/b'', 3), (''/a/<path>'', 4)].
            \<exists>ps. rule_pieces url = Some ps \<and> j = i \<and> match_rule (\<lambda>s. None :: (nat \<times> nat) option) ps s empty_params = Some q)
          (Trie_find (\<lambda>s. None :: (nat \<times> nat) option) t' s))"
proof (rule routing_finds_first_match)
  have "rule_pieces ''/'' = Some [Lit CHR ''/'']"
    "rule_pieces ''/a/<int>/b'' = Some [Lit CHR ''/'', Lit CHR ''a'', Lit CHR ''/'', Par PInt, Lit CHR ''/'', Lit CHR ''b'']"
    "rule_pieces ''/a/<path>'' = Some [Lit CHR ''/'', Lit CHR ''a'', Lit CHR ''/'', Par PPath]"
    by code_simp+
  then show "\<forall>(url, i) \<in> set [(''/'', 2), (''/a/<int>/b'', 3), (''/a/<path>'', 4 :: 16 word)]. rule_ok url \<and> i \<noteq> 0"
    "distinct (map (rule_pieces \<circ> fst) [(''/'', 2), (''/a/<int>/b'', 3), (''/a/<path>'', 4 :: 16 word)])"
    by (auto simp: rule_ok_def)
qed

text \<open>A run: the number is read by the second rule, anything else by the third.\<close>

lemma routing_runs:
  "(case add_rules [(''/'', 2), (''/a/<int>/b'', 3), (''/a/<path>'', 4)] empty_node of
      Some (Inr t) \<Rightarrow>
        (case Trie_validate t of
           Inr t' \<Rightarrow> map (\<lambda>s. let r = Trie_find (\<lambda>s. None :: (nat \<times> nat) option) t' s in
                        (uint (rr_rule_index r), int_params (rr_params r), string_params (rr_params r)))
               [''/'', ''/a/-7/b'', ''/a/x/b'', ''/b''] | _ \<Rightarrow> [])
    | _ \<Rightarrow> []) = [(2, [], []), (3, [-7], []), (4, [], [''x/b'']), (0, [], [])]"
  by code_simp

end
