(* ===== verification/Crow_Util.thy ===== *)
theory Crow_Util
  imports Prelude "HOL-Library.Word"
begin

section \<open>Crow: \<open>utility.h\<close>\<close>

text \<open>
  The functions of \<open>utility.h\<close> that compute: the tags of route parameters, base 64, the
  sanitizer of file names and the string helpers. A \<open>char\<close> of the source is a byte; where the
  source compares signed characters, the two readings give the same results.
\<close>

unbundle bit_operations_syntax

subsection \<open>Route strings and their parameter tags\<close>

text \<open>\<open>is_valid\<close>: the tags of a route string are closed and not nested. \<open>f\<close> is the depth.\<close>

fun is_valid :: "string \<Rightarrow> int \<Rightarrow> bool" where
  "is_valid [] f = (f = 0)"
| "is_valid (c # s) f =
     (if f < 0 \<or> f \<ge> 2 then False
      else if c = CHR ''<'' then is_valid s (f + 1)
      else if c = CHR ''>'' then is_valid s (f - 1)
      else is_valid s f)"

text \<open>
  \<open>is_equ_p\<close> on two C strings, given without their terminating NUL, and \<open>is_equ_n\<close> on two
  constant strings from given offsets.
\<close>

fun is_equ_p :: "string \<Rightarrow> string \<Rightarrow> nat \<Rightarrow> bool" where
  "is_equ_p [] [] 0 = True"
| "is_equ_p [] b n = False"
| "is_equ_p a [] n = False"
| "is_equ_p (x # a) (y # b) 0 = True"
| "is_equ_p (x # a) (y # b) (Suc n) = (x = y \<and> is_equ_p a b n)"

fun is_equ_n :: "string \<Rightarrow> nat \<Rightarrow> string \<Rightarrow> nat \<Rightarrow> nat \<Rightarrow> bool" where
  "is_equ_n a ai b bi 0 = (ai \<le> length a \<and> bi \<le> length b)"
| "is_equ_n a ai b bi (Suc n) =
     (if ai + Suc n > length a \<or> bi + Suc n > length b then False
      else a ! ai = b ! bi \<and> is_equ_n a (ai + 1) b (bi + 1) n)"

definition is_int :: "string \<Rightarrow> nat \<Rightarrow> bool" where
  "is_int s i = is_equ_n s i ''<int>'' 0 5"

definition is_uint :: "string \<Rightarrow> nat \<Rightarrow> bool" where
  "is_uint s i = is_equ_n s i ''<uint>'' 0 6"

definition is_float :: "string \<Rightarrow> nat \<Rightarrow> bool" where
  "is_float s i = (is_equ_n s i ''<float>'' 0 7 \<or> is_equ_n s i ''<double>'' 0 8)"

definition is_str :: "string \<Rightarrow> nat \<Rightarrow> bool" where
  "is_str s i = (is_equ_n s i ''<str>'' 0 5 \<or> is_equ_n s i ''<string>'' 0 8)"

definition is_path :: "string \<Rightarrow> nat \<Rightarrow> bool" where
  "is_path s i = is_equ_n s i ''<path>'' 0 6"

text \<open>
  \<open>find_closing_tag\<close> and \<open>find_closing_tag_runtime\<close>: past the end the first throws
  \<open>OutOfRange\<close>, the second \<open>runtime_error\<close>.
\<close>

fun find_closing_tag :: "string \<Rightarrow> nat \<Rightarrow> nat result" where
  "find_closing_tag [] p = Inl (Std_exception ''unmatched tag <'')"
| "find_closing_tag (c # s) p = (if c = CHR ''>'' then Inr p else find_closing_tag s (p + 1))"

text \<open>
  The tag of a parameter list: one digit to the base 6 per parameter, the first parameter the
  least significant. The compile-time version works on an index into the string, the run-time
  version on the text with \<open>strncmp\<close>.
\<close>

definition tag_digit :: "string \<Rightarrow> nat \<Rightarrow> nat option" where
  "tag_digit s p =
     (if is_int s p then Some 1 else if is_uint s p then Some 2 else if is_float s p then Some 3
      else if is_str s p then Some 4 else if is_path s p then Some 5 else None)"

function get_parameter_tag :: "string \<Rightarrow> nat \<Rightarrow> 64 word result" where
  "get_parameter_tag s p =
     (if p \<ge> length s then Inr 0
      else if s ! p = CHR ''<'' then
        (case tag_digit s p of
           None \<Rightarrow> Inl (Std_exception ''invalid parameter type'')
         | Some d \<Rightarrow>
             (case find_closing_tag (drop p s) p of
                Inl x \<Rightarrow> Inl x
              | Inr q \<Rightarrow> if q \<le> p then Inl Undefined_behaviour else
                  (case get_parameter_tag s q of Inl x \<Rightarrow> Inl x | Inr t \<Rightarrow> Inr (t * 6 + of_nat d))))
      else get_parameter_tag s (p + 1))"
  by pat_completeness auto
termination by (relation "measure (\<lambda>(s, p). length s - p)") auto

definition strncmp_eq :: "string \<Rightarrow> string \<Rightarrow> bool" where
  "strncmp_eq s t \<longleftrightarrow> take (length t) s = t"

definition tag_digit_runtime :: "string \<Rightarrow> nat option" where
  "tag_digit_runtime s =
     (if strncmp_eq s ''<int>'' then Some 1 else if strncmp_eq s ''<uint>'' then Some 2
      else if strncmp_eq s ''<float>'' \<or> strncmp_eq s ''<double>'' then Some 3
      else if strncmp_eq s ''<str>'' \<or> strncmp_eq s ''<string>'' then Some 4
      else if strncmp_eq s ''<path>'' then Some 5 else None)"

fun get_parameter_tag_runtime :: "string \<Rightarrow> 64 word result" where
  "get_parameter_tag_runtime [] = Inr 0"
| "get_parameter_tag_runtime (c # s) =
     (if c = CHR ''<'' then
        (case tag_digit_runtime (c # s) of
           None \<Rightarrow> Inl (Std_exception ''invalid parameter type'')
         | Some d \<Rightarrow>
             (case find_closing_tag s 0 of
                Inl x \<Rightarrow> Inl x
              | Inr q \<Rightarrow>
                  (case get_parameter_tag_runtime (drop q s) of
                     Inl x \<Rightarrow> Inl x | Inr t \<Rightarrow> Inr (t * 6 + of_nat d))))
      else get_parameter_tag_runtime s)"

text \<open>\<open>is_parameter_tag_compatible\<close>, with the second digit taken from \<open>a\<close> as the source has it.\<close>

function is_parameter_tag_compatible :: "nat \<Rightarrow> nat \<Rightarrow> bool" where
  "is_parameter_tag_compatible a b =
     (if a = 0 then b = 0
      else if b = 0 then a = 0
      else
        (let sa = a mod 6; sb = a mod 6;
             sa = (if sa = 5 then 4 else sa); sb = (if sb = 5 then 4 else sb) in
         if sa \<noteq> sb then False else is_parameter_tag_compatible (a div 6) (b div 6)))"
  by pat_completeness auto
termination by (relation "measure fst") auto

declare get_parameter_tag.simps [simp del] is_parameter_tag_compatible.simps [simp del]

text \<open>The digits of a tag, least significant first.\<close>

fun digits6 :: "nat \<Rightarrow> nat list" where
  "digits6 n = (if n = 0 then [] else n mod 6 # digits6 (n div 6))"

declare digits6.simps [simp del]

text \<open>
  The compatibility check between a handler's parameters and a route's compares only how
  many there are, never their types: it holds exactly when the two tags have the same number of
  digits.
\<close>

lemma tag_compatible_counts_only:
  "is_parameter_tag_compatible a b \<longleftrightarrow> length (digits6 a) = length (digits6 b)"
proof (induction a b rule: is_parameter_tag_compatible.induct)
  case (1 a b)
  show ?case
  proof (cases "a = 0 \<or> b = 0")
    case True
    then show ?thesis
      by (auto simp: is_parameter_tag_compatible.simps [of a b] digits6.simps [of a] digits6.simps [of b])
  next
    case False
    with 1 show ?thesis
      by (simp add: is_parameter_tag_compatible.simps [of a b] digits6.simps [of a] digits6.simps [of b] Let_def)
  qed
qed

text \<open>The two ways to compute a tag agree.\<close>

lemma is_equ_n_take:
  "ai \<le> length a \<Longrightarrow> bi \<le> length b \<Longrightarrow>
   is_equ_n a ai b bi n \<longleftrightarrow> n \<le> length a - ai \<and> n \<le> length b - bi \<and> take n (drop ai a) = take n (drop bi b)"
proof (induction n arbitrary: ai bi)
  case (Suc n)
  show ?case
  proof (cases "ai + Suc n > length a \<or> bi + Suc n > length b")
    case False
    then have "drop ai a = a ! ai # drop (Suc ai) a" "drop bi b = b ! bi # drop (Suc bi) b"
      by (simp_all add: Cons_nth_drop_Suc)
    with False Suc.IH [of "ai + 1" "bi + 1"] show ?thesis by auto
  qed auto
qed simp

lemma is_equ_n_strncmp:
  assumes "p \<le> length s" "length t = n"
  shows "is_equ_n s p t 0 n = strncmp_eq (drop p s) t"
proof -
  from assms have "is_equ_n s p t 0 n \<longleftrightarrow> length t \<le> length (drop p s) \<and> take (length t) (drop p s) = t"
    by (simp add: is_equ_n_take)
  moreover have "take (length t) u = t \<Longrightarrow> length t \<le> length u" for u :: string
    by (metis length_take min.cobounded1)
  ultimately show ?thesis using assms(2) by (auto simp: strncmp_eq_def)
qed

lemma tag_digit_eq: "p \<le> length s \<Longrightarrow> tag_digit s p = tag_digit_runtime (drop p s)"
  by (simp add: tag_digit_def tag_digit_runtime_def is_int_def is_uint_def is_float_def is_str_def
    is_path_def is_equ_n_strncmp)

lemma find_closing_tag_shift:
  "find_closing_tag s (p + k) = map_sum (\<lambda>x. x) (\<lambda>q. q + k) (find_closing_tag s p)"
  by (induction s arbitrary: p) (auto, metis add_Suc)

lemma find_closing_tag_ge: "find_closing_tag s p = Inr q \<Longrightarrow> p \<le> q"
  by (induction s arbitrary: p) (auto split: if_splits dest: Suc_leD)

text \<open>
  The tag of a route is the same whether it is computed at compile time, by index, or at run
  time, from the text; both refuse the same strings.
\<close>

lemma parameter_tag_agrees:
  assumes "p \<le> length s"
  shows "get_parameter_tag s p = get_parameter_tag_runtime (drop p s)"
  using assms
proof (induction s p rule: get_parameter_tag.induct)
  case (1 s p)
  show ?case
  proof (cases "p \<ge> length s")
    case True
    then have "get_parameter_tag s p = Inr 0" by (subst get_parameter_tag.simps) simp
    with True show ?thesis by simp
  next
    case False
    then have d: "drop p s = s ! p # drop (Suc p) s" by (simp add: Cons_nth_drop_Suc)
    show ?thesis
    proof (cases "s ! p = CHR ''<''")
      case lt: True
      have f: "find_closing_tag (drop p s) p =
          map_sum (\<lambda>x. x) (\<lambda>q. q + Suc p) (find_closing_tag (drop (Suc p) s) 0)"
        using lt d find_closing_tag_shift [of "drop (Suc p) s" 0 "Suc p"] by simp
      show ?thesis
      proof (cases "tag_digit s p")
        case None
        with False lt 1(3) tag_digit_eq [of p s] show ?thesis
          by (simp add: get_parameter_tag.simps [of s p] d)
      next
        case (Some n)
        show ?thesis
        proof (cases "find_closing_tag (drop (Suc p) s) 0")
          case (Inl x)
          with Some False lt f 1(3) tag_digit_eq [of p s] show ?thesis
            by (simp add: get_parameter_tag.simps [of s p] d)
        next
          case (Inr q)
          have "q + Suc p \<le> length s"
          proof -
            have "find_closing_tag u k = Inr m \<Longrightarrow> m < k + length u" for u k m
              by (induction u arbitrary: k) (fastforce split: if_splits)+
            from this [OF Inr] show ?thesis by simp
          qed
          with 1(1) [OF _ lt Some] False f Inr
          have "get_parameter_tag s (q + Suc p) = get_parameter_tag_runtime (drop (q + Suc p) s)"
            by simp
          with Some False lt f Inr 1(3) tag_digit_eq [of p s] show ?thesis
            by (simp add: get_parameter_tag.simps [of s p] d)
        qed
      qed
    next
      case nlt: False
      with 1(2) [OF False nlt] False show ?thesis
        by (simp add: get_parameter_tag.simps [of s p] d)
    qed
  qed
qed

subsection \<open>Base 64\<close>

definition b64_key :: string where
  "b64_key = ''ABCDEFGHIJKLMNOPQRSTUVWXYZabcdefghijklmnopqrstuvwxyz0123456789+/''"

definition b64_key_urlsafe :: string where
  "b64_key_urlsafe = ''ABCDEFGHIJKLMNOPQRSTUVWXYZabcdefghijklmnopqrstuvwxyz0123456789-_''"

definition key_at :: "string \<Rightarrow> 8 word \<Rightarrow> char" where
  "key_at key w = key ! unat w"

text \<open>
  The data is a list of the bytes that \<open>data\<close> and \<open>size\<close> delimit. The first byte's upper six
  bits, its lower two with the next one's upper four, and so on; the last group is padded.
\<close>

fun base64encode :: "string \<Rightarrow> 8 word list \<Rightarrow> string" where
  "base64encode key (a # b # c # r) =
     [key_at key (drop_bit 2 (a AND 0xFC)),
      key_at key (push_bit 4 (a AND 0x03) OR drop_bit 4 (b AND 0xF0)),
      key_at key (push_bit 2 (b AND 0x0F) OR drop_bit 6 (c AND 0xC0)),
      key_at key (c AND 0x3F)] @ base64encode key r"
| "base64encode key [a] =
     [key_at key (drop_bit 2 (a AND 0xFC)), key_at key (push_bit 4 (a AND 0x03)), CHR ''='', CHR ''='']"
| "base64encode key [a, b] =
     [key_at key (drop_bit 2 (a AND 0xFC)),
      key_at key (push_bit 4 (a AND 0x03) OR drop_bit 4 (b AND 0xF0)),
      key_at key (push_bit 2 (b AND 0x0F)), CHR ''='']"
| "base64encode key [] = []"

definition bytes_of :: "string \<Rightarrow> 8 word list" where
  "bytes_of s = map (\<lambda>c. word_of_nat (code c)) s"

definition base64encode_str :: "string \<Rightarrow> nat \<Rightarrow> string" where
  "base64encode_str data len = base64encode b64_key (bytes_of (take len data))"

definition base64encode_urlsafe :: "8 word list \<Rightarrow> string" where
  "base64encode_urlsafe data = base64encode b64_key_urlsafe data"

text \<open>The value of a digit of either alphabet; every other character counts as zero.\<close>

definition b64_digit :: "char \<Rightarrow> nat" where
  "b64_digit c =
     (if 65 \<le> code c \<and> code c \<le> 90 then code c - 65
      else if 97 \<le> code c \<and> code c \<le> 122 then code c - 97 + 26
      else if 48 \<le> code c \<and> code c \<le> 57 then code c - 48 + 52
      else if c = CHR ''+'' \<or> c = CHR ''-'' then 62
      else if c = CHR ''/'' \<or> c = CHR ''_'' then 63
      else 0)"

definition b64_val :: "char \<Rightarrow> 8 word" where
  "b64_val c = word_of_nat (b64_digit c)"

text \<open>
  The length of the result. An empty text, or one character alone, makes the source read in
  front of the data.
\<close>

definition b64_size :: "string \<Rightarrow> nat option" where
  "b64_size data =
     (let len = length data in
      if len mod 4 = 2 then Some (len div 4 * 3 + 1)
      else if len mod 4 = 3 then Some (len div 4 * 3 + 2)
      else if len < 2 then None
      else if data ! (len - 2) = CHR ''='' then Some (len div 4 * 3 - 2)
      else if data ! (len - 1) = CHR ''='' then Some (len div 4 * 3 - 1)
      else Some (len div 4 * 3))"

fun b64_blocks :: "nat \<Rightarrow> string \<Rightarrow> 8 word list" where
  "b64_blocks len (a # b # c # d # r) =
     (let odd = b64_val a; even = b64_val b; odd2 = b64_val c; even2 = b64_val d;
          x = push_bit 2 odd OR drop_bit 4 (even AND 0x30);
          y = push_bit 4 (even AND 0x0F) OR drop_bit 2 (odd2 AND 0x3C);
          z = push_bit 6 (odd2 AND 0x03) OR even2 in
      if len \<ge> 3 then x # y # z # b64_blocks (len - 3) r
      else if len = 2 then [x, y] else if len = 1 then [x] else [])"
| "b64_blocks len [a, b, c] =
     (let odd = b64_val a; even = b64_val b; odd2 = b64_val c;
          x = push_bit 2 odd OR drop_bit 4 (even AND 0x30);
          y = push_bit 4 (even AND 0x0F) OR drop_bit 2 (odd2 AND 0x3C) in
      if len = 2 then [x, y] else if len = 1 then [x] else [])"
| "b64_blocks len [a, b] =
     (if len = 1 then [push_bit 2 (b64_val a) OR drop_bit 4 (b64_val b AND 0x30)] else [])"
| "b64_blocks len _ = []"

definition base64decode :: "string \<Rightarrow> 8 word list option" where
  "base64decode data = map_option (\<lambda>len. b64_blocks len data) (b64_size data)"

text \<open>Either alphabet is read back.\<close>

lemma b64_digit_keys:
  "map b64_digit b64_key = [0..<64]" "map b64_digit b64_key_urlsafe = [0..<64]"
  "CHR ''='' \<notin> set b64_key" "CHR ''='' \<notin> set b64_key_urlsafe"
  by (simp_all add: b64_key_def b64_key_urlsafe_def b64_digit_def upt_rec)

lemma b64_keys_nth:
  assumes "n < 64" "key = b64_key \<or> key = b64_key_urlsafe"
  shows "b64_val (key ! n) = word_of_nat n" "key ! n \<noteq> CHR ''=''"
proof -
  have m: "map b64_digit key = [0..<64]" "CHR ''='' \<notin> set key" using assms(2) b64_digit_keys by auto
  from arg_cong [OF m(1), of length] have l: "length key = 64" by simp
  have "b64_digit (key ! n) = [0..<64] ! n" using assms(1) l by (simp flip: m(1))
  with assms(1) show "b64_val (key ! n) = word_of_nat n" by (simp add: b64_val_def)
  show "key ! n \<noteq> CHR ''=''" using m(2) assms(1) l nth_mem by metis
qed

definition b64_alphabet :: "string \<Rightarrow> bool" where
  "b64_alphabet key \<longleftrightarrow> key = b64_key \<or> key = b64_key_urlsafe"

lemma key_at_small:
  assumes "b64_alphabet key" "w AND 0x3F = w"
  shows "b64_val (key_at key w) = w" "key_at key w \<noteq> CHR ''=''"
proof -
  have "w = w AND mask 6" using assms(2) by (simp add: mask_eq_decr_exp)
  then have "unat w < 64" using and_mask_less' [of 6 w] by (simp add: word_less_nat_alt)
  note n = b64_keys_nth [OF this, of key]
  show "b64_val (key_at key w) = w" "key_at key w \<noteq> CHR ''=''"
    using assms(1) n by (simp_all add: b64_alphabet_def key_at_def)
qed

lemma byte_eqI: "(\<And>n. n < 8 \<Longrightarrow> bit a n = bit b n) \<Longrightarrow> a = (b :: 8 word)"
  by (rule bit_word_eqI) simp

lemma less_8: "n < 8 \<longleftrightarrow> n = 0 \<or> n = 1 \<or> n = 2 \<or> n = 3 \<or> n = 4 \<or> n = 5 \<or> n = 6 \<or> n = (7 :: nat)"
  by auto

lemma sextets:
  fixes a b c :: "8 word"
  shows "drop_bit 2 (a AND 0xFC) AND 0x3F = drop_bit 2 (a AND 0xFC)"
    "(push_bit 4 (a AND 0x03) OR drop_bit 4 (b AND 0xF0)) AND 0x3F = push_bit 4 (a AND 0x03) OR drop_bit 4 (b AND 0xF0)"
    "(push_bit 2 (b AND 0x0F) OR drop_bit 6 (c AND 0xC0)) AND 0x3F = push_bit 2 (b AND 0x0F) OR drop_bit 6 (c AND 0xC0)"
    "(c AND 0x3F) AND 0x3F = c AND 0x3F"
    "push_bit 4 (a AND 0x03) AND 0x3F = push_bit 4 (a AND 0x03)"
    "push_bit 2 (b AND 0x0F) AND 0x3F = push_bit 2 (b AND 0x0F)"
  by (rule byte_eqI, auto simp: less_8 bit_simps)+

lemma octet1:
  fixes a b c :: "8 word"
  shows "push_bit 2 (drop_bit 2 (a AND 0xFC)) OR
    drop_bit 4 ((push_bit 4 (a AND 0x03) OR drop_bit 4 (b AND 0xF0)) AND 0x30) = a"
  by (rule byte_eqI; (auto simp: less_8 bit_simps; simp add: numeral_2_eq_2 numeral_3_eq_3))

lemma octet2:
  fixes a b c :: "8 word"
  shows "push_bit 2 (drop_bit 2 (a AND 0xFC)) OR drop_bit 4 (push_bit 4 (a AND 0x03) AND 0x30) = a"
  by (rule byte_eqI; (auto simp: less_8 bit_simps; simp add: numeral_2_eq_2 numeral_3_eq_3))

lemma octet3:
  fixes a b c :: "8 word"
  shows "push_bit 4 ((push_bit 4 (a AND 0x03) OR drop_bit 4 (b AND 0xF0)) AND 0x0F) OR
    drop_bit 2 ((push_bit 2 (b AND 0x0F) OR drop_bit 6 (c AND 0xC0)) AND 0x3C) = b"
  by (rule byte_eqI; (auto simp: less_8 bit_simps; simp add: numeral_2_eq_2 numeral_3_eq_3))

lemma octet4:
  fixes a b c :: "8 word"
  shows "push_bit 4 ((push_bit 4 (a AND 0x03) OR drop_bit 4 (b AND 0xF0)) AND 0x0F) OR
    drop_bit 2 (push_bit 2 (b AND 0x0F) AND 0x3C) = b"
  by (rule byte_eqI; (auto simp: less_8 bit_simps; simp add: numeral_2_eq_2 numeral_3_eq_3))

lemma octet5:
  fixes a b c :: "8 word"
  shows "push_bit 6 ((push_bit 2 (b AND 0x0F) OR drop_bit 6 (c AND 0xC0)) AND 0x03) OR (c AND 0x3F) = c"
  by (rule byte_eqI; (auto simp: less_8 bit_simps; simp add: numeral_2_eq_2 numeral_3_eq_3))

lemmas octets = octet1 octet2 octet3 octet4 octet5

lemma b64_vals:
  assumes "b64_alphabet key"
  shows "b64_val (key_at key (drop_bit 2 (a AND 0xFC))) = drop_bit 2 (a AND 0xFC)"
    "b64_val (key_at key (push_bit 4 (a AND 0x03) OR drop_bit 4 (b AND 0xF0))) =
       push_bit 4 (a AND 0x03) OR drop_bit 4 (b AND 0xF0)"
    "b64_val (key_at key (push_bit 2 (b AND 0x0F) OR drop_bit 6 (c AND 0xC0))) =
       push_bit 2 (b AND 0x0F) OR drop_bit 6 (c AND 0xC0)"
    "b64_val (key_at key (c AND 0x3F)) = c AND 0x3F"
    "b64_val (key_at key (push_bit 4 (a AND 0x03))) = push_bit 4 (a AND 0x03)"
    "b64_val (key_at key (push_bit 2 (b AND 0x0F))) = push_bit 2 (b AND 0x0F)"
  using sextets by (intro key_at_small(1) [OF assms]; blast)+

lemma b64_blocks_encode:
  assumes "b64_alphabet key"
  shows "b64_blocks (length data) (base64encode key data) = data"
  using assms
proof (induction key data rule: base64encode.induct)
  case (1 key a b c r)
  then show ?case
    by (simp only: base64encode.simps b64_blocks.simps append.simps b64_vals octets Let_def list.size) simp
next
  case (2 key a)
  then show ?case
    by (simp only: base64encode.simps b64_blocks.simps append.simps b64_vals octets Let_def list.size) simp
next
  case (3 key a b)
  then show ?case
    by (simp only: base64encode.simps b64_blocks.simps append.simps b64_vals octets Let_def list.size) simp
qed simp

lemma base64encode_length: "length (base64encode key data) = (length data + 2) div 3 * 4"
proof (induction key data rule: base64encode.induct)
  case (1 key a b c r)
  have "(length (a # b # c # r) + 2) div 3 = Suc ((length r + 2) div 3)" by simp
  then show ?case using 1 by (simp only: base64encode.simps length_append list.size) simp
qed simp_all

lemma base64encode_tail:
  assumes "b64_alphabet key" "data \<noteq> []"
  shows "(base64encode key data ! (length (base64encode key data) - 2) = CHR ''='') = (length data mod 3 = 1) \<and>
    (base64encode key data ! (length (base64encode key data) - 1) = CHR ''='') = (length data mod 3 \<noteq> 0)"
  using assms
proof (induction key data rule: base64encode.induct)
  case (1 key a b c r)
  show ?case
  proof (cases r)
    case Nil
    have "key_at key (push_bit 2 (b AND 0x0F) OR drop_bit 6 (c AND 0xC0)) \<noteq> CHR ''=''"
      "key_at key (c AND 0x3F) \<noteq> CHR ''=''"
      using sextets by (intro key_at_small(2) [OF 1(2)]; blast)+
    with Nil show ?thesis by (simp only: base64encode.simps) simp
  next
    case (Cons x xs)
    let ?e = "base64encode key r"
    have "3 \<le> length r + 2" using Cons by simp
    then have "1 \<le> (length r + 2) div 3" by (simp add: Suc_le_eq div_greater_zero_iff)
    then have "4 \<le> length ?e" unfolding base64encode_length by simp
    then obtain m where m: "length ?e = m + 4" using le_Suc_ex by (metis add.commute)
    have "(length (a # b # c # r)) mod 3 = length r mod 3" by simp
    with 1(1) [OF 1(2)] Cons m show ?thesis
      by (simp only: base64encode.simps) (simp add: nth_append numeral_2_eq_2 nth_Cons')
  qed
next
  case (3 key a b)
  have "key_at key (push_bit 2 (b AND 0x0F)) \<noteq> CHR ''=''"
    using sextets(6) by (intro key_at_small(2) [OF 3(1)])
  then show ?case by (simp only: base64encode.simps) simp
qed simp_all

lemma b64_size_encode:
  assumes "b64_alphabet key" "data \<noteq> []"
  shows "b64_size (base64encode key data) = Some (length data)"
proof -
  let ?n = "length data"
  have l: "length (base64encode key data) = (?n + 2) div 3 * 4" by (rule base64encode_length)
  have n: "0 < ?n" using assms(2) by simp
  then have pos: "2 \<le> (?n + 2) div 3 * 4" by linarith
  have q: "(?n + 2) div 3 * 4 mod 4 = 0" "(?n + 2) div 3 * 4 div 4 = (?n + 2) div 3" by simp_all
  have s1: "(?n + 2) div 3 * 3 - 2 = ?n" if "?n mod 3 = 1" using that n by presburger
  have s2: "(?n + 2) div 3 * 3 - 1 = ?n" if "?n mod 3 = 2" using that n by presburger
  have s0: "(?n + 2) div 3 * 3 = ?n" if "?n mod 3 = 0" using that n by presburger
  define e where "e = base64encode key data"
  note t = base64encode_tail [OF assms, folded e_def]
  have e: "length e mod 4 = 0" "length e div 4 = (?n + 2) div 3" "\<not> length e < 2"
    using l pos q unfolding e_def by simp_all
  have size: "b64_size e = (if ?n mod 3 = 1 then Some (length e div 4 * 3 - 2)
      else if ?n mod 3 \<noteq> 0 then Some (length e div 4 * 3 - 1) else Some (length e div 4 * 3))"
    using t e(1,3) by (simp add: b64_size_def Let_def)
  have "?n mod 3 = 0 \<or> ?n mod 3 = 1 \<or> ?n mod 3 = 2" by linarith
  then show ?thesis using s0 s1 s2 size unfolding e(2) e_def [symmetric] by presburger
qed

text \<open>
  C37. Base 64 round trip: decoding what either encoder wrote gives the data back, for all data
  but the empty one.
\<close>

theorem base64_roundtrip:
  assumes "key = b64_key \<or> key = b64_key_urlsafe" "data \<noteq> []"
  shows "base64decode (base64encode key data) = Some data"
  using assms b64_size_encode [of key data] b64_blocks_encode [of key data]
  by (simp add: base64decode_def b64_alphabet_def)

lemma base64_roundtrip_witness:
  "base64decode (base64encode b64_key [104, 105]) = Some [104, 105]"
  by (rule base64_roundtrip) simp_all

lemma parameter_tag_agrees_witness:
  "get_parameter_tag ''/a/<int>'' 0 = get_parameter_tag_runtime ''/a/<int>''"
  using parameter_tag_agrees [of 0 "''/a/<int>''"] by simp

end
