(* ===== verification/Crow_Methods.thy ===== *)
theory Crow_Methods
  imports Crow_Util
begin

section \<open>Crow: HTTP methods and sets of methods\<close>

text \<open>
  The methods of \<open>common.h\<close> with their names, and the set of methods a rule of \<open>routing.h\<close> keeps
  as a 32 bit mask. Shifting a 32 bit one by 32 or more is undefined in C++; it is \<open>None\<close> here.
\<close>

unbundle bit_operations_syntax

datatype HTTPMethod =
    Delete | Get | Head | Post | Put | Connect | Options | Trace | Patch | Purge
  | Copy | Lock | MkCol | Move | Propfind | Proppatch | Search | Unlock | Bind | Rebind | Unbind | Acl
  | Report | MkActivity | Checkout | Merge | MSearch | Notify | Subscribe | Unsubscribe
  | MkCalendar | Link | Unlink | Source | InternalMethodCount

definition all_methods :: "HTTPMethod list" where
  "all_methods =
     [Delete, Get, Head, Post, Put, Connect, Options, Trace, Patch, Purge, Copy, Lock, MkCol, Move,
      Propfind, Proppatch, Search, Unlock, Bind, Rebind, Unbind, Acl, Report, MkActivity, Checkout,
      Merge, MSearch, Notify, Subscribe, Unsubscribe, MkCalendar, Link, Unlink, Source,
      InternalMethodCount]"

text \<open>The number of a method.\<close>

definition method_index :: "HTTPMethod \<Rightarrow> nat" where
  "method_index m = (case first_index (\<lambda>x. x = m) all_methods of Some i \<Rightarrow> i | None \<Rightarrow> 0)"

definition method_strings :: "string list" where
  "method_strings =
     [''DELETE'', ''GET'', ''HEAD'', ''POST'', ''PUT'', ''CONNECT'', ''OPTIONS'', ''TRACE'', ''PATCH'',
      ''PURGE'', ''COPY'', ''LOCK'', ''MKCOL'', ''MOVE'', ''PROPFIND'', ''PROPPATCH'', ''SEARCH'',
      ''UNLOCK'', ''BIND'', ''REBIND'', ''UNBIND'', ''ACL'', ''REPORT'', ''MKACTIVITY'', ''CHECKOUT'',
      ''MERGE'', ''M-SEARCH'', ''NOTIFY'', ''SUBSCRIBE'', ''UNSUBSCRIBE'', ''MKCALENDAR'', ''LINK'',
      ''UNLINK'', ''SOURCE'']"

definition method_name :: "HTTPMethod \<Rightarrow> string" where
  "method_name m =
     (if method_index m < method_index InternalMethodCount then method_strings ! method_index m
      else ''invalid'')"

definition method_table :: "(string \<times> nat \<times> HTTPMethod) list" where
  "method_table =
     [(''GET'', 3, Get), (''DELETE'', 6, Delete), (''HEAD'', 4, Head), (''POST'', 4, Post),
      (''PUT'', 3, Put), (''OPTIONS'', 7, Options), (''CONNECT'', 7, Connect), (''TRACE'', 5, Trace),
      (''PATCH'', 5, Patch), (''PURGE'', 5, Purge), (''COPY'', 4, Copy), (''LOCK'', 4, Lock),
      (''MKCOL'', 5, MkCol), (''MOVE'', 4, Move), (''PROPFIND'', 8, Propfind),
      (''PROPPATCH'', 9, Proppatch), (''SEARCH'', 6, Search), (''UNLOCK'', 6, Unlock),
      (''BIND'', 4, Bind), (''REBIND'', 6, Rebind), (''UNBIND'', 6, Unbind), (''ACL'', 3, Acl),
      (''REPORT'', 6, Report), (''MKACTIVITY'', 10, MkActivity), (''CHECKOUT'', 8, Checkout),
      (''MERGE'', 5, Merge), (''MSEARCH'', 7, MSearch), (''NOTIFY'', 6, Notify),
      (''SUBSCRIBE'', 9, Subscribe), (''UNSUBSCRIBE'', 11, Unsubscribe),
      (''MKCALENDAR'', 10, MkCalendar), (''LINK'', 4, Link), (''UNLINK'', 6, Unlink),
      (''SOURCE'', 6, Source)]"

text \<open>The chain of tests of \<open>method_from_string\<close>: the first name that is equal decides.\<close>

definition method_from_string :: "string \<Rightarrow> HTTPMethod result" where
  "method_from_string s =
     (case find (\<lambda>(name, n, m). is_equ_p s name n) method_table of
        Some (name, n, m) \<Rightarrow> Inr m
      | None \<Rightarrow> Inl (Std_exception ''invalid http method''))"

lemma method_index_nth: "all_methods ! method_index m = m"
  by (cases m) (simp_all add: method_index_def all_methods_def)

lemma method_index_inj: "method_index a = method_index b \<longleftrightarrow> a = b"
  by (metis method_index_nth)

lemma method_index_le: "method_index m \<le> 34"
  by (cases m) (simp_all add: method_index_def all_methods_def)

lemma method_index_count: "method_index InternalMethodCount = 34"
  by (simp add: method_index_def all_methods_def)

lemma is_equ_p_whole: "length b = n \<Longrightarrow> is_equ_p a b n \<longleftrightarrow> a = b"
  by (induction a b n rule: is_equ_p.induct) auto

lemma method_from_string_eq:
  "method_from_string s =
     (case find (\<lambda>(name, n, m). s = name) method_table of
        Some (name, n, m) \<Rightarrow> Inr m | None \<Rightarrow> Inl (Std_exception ''invalid http method''))"
proof -
  have "\<forall>x \<in> set method_table. length (fst x) = fst (snd x)" by (simp add: method_table_def)
  then have "find (\<lambda>(name, n, m). is_equ_p s name n) method_table = find (\<lambda>(name, n, m). s = name) method_table"
    by (intro find_cong) (auto simp: is_equ_p_whole)
  then show ?thesis by (simp add: method_from_string_def)
qed

text \<open>
  The name of a method is read back as this method, for every method but two: \<open>MSearch\<close>,
  whose name is written with a hyphen and read without one, and \<open>InternalMethodCount\<close>, which
  has no name.
\<close>

lemma method_name_roundtrip:
  "method_from_string (method_name m) = Inr m \<longleftrightarrow> m \<notin> {MSearch, InternalMethodCount}"
  unfolding method_from_string_eq by (induction m; code_simp)

subsection \<open>The methods of a rule\<close>

definition method_bit :: "HTTPMethod \<Rightarrow> 32 word option" where
  "method_bit m = (if method_index m < 32 then Some (push_bit (method_index m) 1) else None)"

text \<open>The default of \<open>methods_\<close>, and \<open>methods(...)\<close> with one or more arguments.\<close>

definition default_methods :: "32 word" where
  "default_methods = push_bit (method_index Get) 1"

fun rule_methods :: "HTTPMethod \<Rightarrow> HTTPMethod list \<Rightarrow> 32 word option" where
  "rule_methods m [] = method_bit m"
| "rule_methods m (x # xs) =
     (case rule_methods x xs of None \<Rightarrow> None
      | Some w \<Rightarrow> (case method_bit m of None \<Rightarrow> None | Some b \<Rightarrow> Some (w OR b)))"

text \<open>\<open>foreach_method\<close>: the numbers of the methods it visits, in order.\<close>

function foreach_loop :: "32 word \<Rightarrow> nat \<Rightarrow> 32 word \<Rightarrow> nat list" where
  "foreach_loop w i b =
     (if i < method_index InternalMethodCount
      then (if w AND b \<noteq> 0 then i # foreach_loop w (Suc i) (push_bit 1 b)
            else foreach_loop w (Suc i) (push_bit 1 b))
      else [])"
  by pat_completeness auto
termination
  by (relation "measure (\<lambda>(w, i, b). method_index InternalMethodCount - i)") auto

declare foreach_loop.simps [simp del]

definition foreach_method :: "32 word \<Rightarrow> nat list" where
  "foreach_method w = foreach_loop w 0 1"

lemma and_bit_nonzero:
  "w AND push_bit i 1 \<noteq> 0 \<longleftrightarrow> i < 32 \<and> bit w i" for w :: "32 word"
proof
  assume "w AND push_bit i 1 \<noteq> 0"
  then obtain n where "bit (w AND push_bit i 1) n" using bit_eq_iff [of "w AND push_bit i 1" 0] by auto
  then show "i < 32 \<and> bit w i" by (auto simp: bit_simps bit_push_bit_iff bit_1_iff)
next
  assume i: "i < 32 \<and> bit w i"
  then have "bit (w AND push_bit i 1) i" by (auto simp: bit_simps bit_push_bit_iff)
  then show "w AND push_bit i 1 \<noteq> 0" by auto
qed

lemmas and_power_nonzero = and_bit_nonzero [simplified]

lemma foreach_loop_bits:
  "foreach_loop w i (push_bit i 1) = filter (\<lambda>k. k < 32 \<and> bit w k) [i..<34]"
proof (induction "34 - i" arbitrary: i)
  case 0
  then show ?case by (subst foreach_loop.simps) (simp add: method_index_count)
next
  case (Suc d)
  then have i: "i < 34" by simp
  have "foreach_loop w (Suc i) (push_bit 1 (push_bit i 1)) = filter (\<lambda>k. k < 32 \<and> bit w k) [Suc i..<34]"
    using Suc(1) [of "Suc i"] Suc(2) by (simp add: mult.commute)
  with i show ?case
    by (subst foreach_loop.simps) (simp add: method_index_count and_power_nonzero upt_conv_Cons)
qed

lemma foreach_method_bits: "foreach_method w = filter (\<lambda>k. k < 32 \<and> bit w k) [0..<34]"
  using foreach_loop_bits [of w 0] by (simp add: foreach_method_def)

lemma rule_methods_bits:
  "rule_methods m ms = Some w \<Longrightarrow> bit w k \<longleftrightarrow> k < 32 \<and> k \<in> method_index ` set (m # ms)"
proof (induction m ms arbitrary: w rule: rule_methods.induct)
  case (1 m)
  then show ?case by (auto simp: method_bit_def bit_simps bit_push_bit_iff bit_1_iff split: if_splits)
next
  case (2 m x xs)
  from 2(2) obtain v b where v: "rule_methods x xs = Some v" "method_bit m = Some b" "w = v OR b"
    by (auto split: option.splits)
  then have "bit b k \<longleftrightarrow> k < 32 \<and> k = method_index m"
    by (auto simp: method_bit_def bit_simps bit_push_bit_iff bit_1_iff split: if_splits)
  with v(3) 2(1) [OF v(1)] show ?case by (auto simp: bit_or_iff)
qed

lemma rule_methods_None: "rule_methods m ms = None \<longleftrightarrow> (\<exists>x \<in> set (m # ms). 32 \<le> method_index x)"
  by (induction m ms rule: rule_methods.induct) (auto simp: method_bit_def split: option.splits)

text \<open>
  C39. Setting the methods of a rule is defined exactly when none of the three last methods is
  among them, and the rule is then registered for exactly the methods that were set.
\<close>

theorem rule_methods_visited:
  "(case rule_methods m ms of
      None \<Rightarrow> \<exists>x \<in> set (m # ms). x \<in> {Unlink, Source, InternalMethodCount}
    | Some w \<Rightarrow> set (foreach_method w) = method_index ` set (m # ms) \<and> sorted (foreach_method w))"
proof (cases "rule_methods m ms")
  case None
  have "32 \<le> method_index x \<Longrightarrow> x \<in> {Unlink, Source, InternalMethodCount}" for x
    by (cases x) (simp_all add: method_index_def all_methods_def)
  with None rule_methods_None [of m ms] show ?thesis by (auto split: option.splits)
next
  case (Some w)
  then have lt: "\<forall>x \<in> set (m # ms). method_index x < 32"
    using rule_methods_None [of m ms] by (metis not_le option.distinct(1))
  have "set (foreach_method w) = method_index ` set (m # ms)"
    using rule_methods_bits [OF Some] lt by (fastforce simp: foreach_method_bits)
  moreover have "sorted (foreach_method w)"
    unfolding foreach_method_bits using sorted_filter [of "\<lambda>x. x" "[0..<34]"] by simp
  ultimately show ?thesis using Some by simp
qed

end
