(* ===== verification/Crow_Files.thy ===== *)
theory Crow_Files
  imports Prelude
begin

section \<open>Crow: file names and string helpers of \<open>utility.h\<close>\<close>

text \<open>
  \<open>sanitize_filename\<close>, the guard between a URL and the file system, and the string helpers
  \<open>join_path\<close>, \<open>string_equals\<close> and \<open>trim\<close>.
\<close>

subsection \<open>\<open>sanitize_filename\<close>\<close>

definition toUpper :: "char \<Rightarrow> char" where
  "toUpper c = (if 97 \<le> code c \<and> code c \<le> 122 then char_of (code c - 32) else c)"

definition separator :: "char \<Rightarrow> bool" where
  "separator c \<longleftrightarrow> c = CHR ''/'' \<or> c = CHR 0x5C"

text \<open>
  \<open>sanitizeSpecialFile\<close> on the text from its offset on: if it starts with the pattern (ignoring
  case), followed by a digit from 1 to 9 if asked for, and then ends or goes on with one of
  \<open>.\<close> \<open>:\<close> or a separator, that part becomes the single replacement character.
\<close>

definition special_end :: "string \<Rightarrow> bool" where
  "special_end s \<longleftrightarrow>
     (case s of [] \<Rightarrow> True | c # r \<Rightarrow> c = CHR ''.'' \<or> c = CHR '':'' \<or> separator c)"

definition sanitizeSpecialFile :: "string \<Rightarrow> bool \<Rightarrow> char \<Rightarrow> string \<Rightarrow> string" where
  "sanitizeSpecialFile pattern includeNumber replacement source =
     (let n = length pattern in
      if length source < n \<or> map toUpper (take n source) \<noteq> pattern then source
      else if includeNumber then
        (if length source \<le> n \<or> code (source ! n) < 49 \<or> 57 < code (source ! n) then source
         else if special_end (drop (n + 1) source) then replacement # drop (n + 1) source
         else source)
      else if special_end (drop n source) then replacement # drop n source
      else source)"

definition special_entries :: "char \<Rightarrow> string \<Rightarrow> string" where
  "special_entries replacement s =
     (let c = toUpper (hd s) in
      if c = CHR ''A'' then sanitizeSpecialFile ''AUX'' False replacement s
      else if c = CHR ''C'' then
        sanitizeSpecialFile ''COM'' True replacement (sanitizeSpecialFile ''CON'' False replacement s)
      else if c = CHR ''L'' then sanitizeSpecialFile ''LPT'' True replacement s
      else if c = CHR ''N'' then sanitizeSpecialFile ''NUL'' False replacement s
      else if c = CHR ''P'' then sanitizeSpecialFile ''PRN'' False replacement s
      else if c = CHR ''.'' then sanitizeSpecialFile ''..'' False replacement s
      else s)"

definition bad_char :: "char \<Rightarrow> bool" where
  "bad_char c \<longleftrightarrow>
     code c < 32 \<or> (128 \<le> code c \<and> code c \<le> 159) \<or> c = CHR ''?'' \<or> c = CHR ''<'' \<or>
     c = CHR ''>'' \<or> c = CHR '':'' \<or> c = CHR ''*'' \<or> c = CHR ''|'' \<or> c = CHR 0x22"

text \<open>It changes nothing, or cuts a non-empty prefix down to the replacement.\<close>

lemma special_cases:
  assumes "p \<noteq> []"
  obtains "sanitizeSpecialFile p n r s = s"
  | k where "0 < k" "k \<le> length s" "sanitizeSpecialFile p n r s = r # drop k s" "special_end (drop k s)"
proof (cases "length s < length p \<or> map toUpper (take (length p) s) \<noteq> p")
  case True
  with that(1) show ?thesis by (simp add: sanitizeSpecialFile_def)
next
  case False
  have p: "0 < length p" using assms by simp
  show ?thesis
  proof (cases n)
    case True
    show ?thesis
    proof (cases "length s \<le> length p \<or> code (s ! length p) < 49 \<or> 57 < code (s ! length p) \<or>
        \<not> special_end (drop (length p + 1) s)")
      case bad: True
      with True False that(1) show ?thesis by (auto simp: sanitizeSpecialFile_def Let_def)
    next
      case good: False
      with True False that(2) [of "length p + 1"] show ?thesis
        by (simp add: sanitizeSpecialFile_def Let_def)
    qed
  next
    case no: False
    show ?thesis
    proof (cases "special_end (drop (length p) s)")
      case True
      with no False p that(2) [of "length p"] show ?thesis by (simp add: sanitizeSpecialFile_def Let_def)
    next
      case bad: False
      with no False that(1) show ?thesis by (simp add: sanitizeSpecialFile_def Let_def)
    qed
  qed
qed

lemma special_length:
  assumes "p \<noteq> []"
  shows "length (sanitizeSpecialFile p n r s) \<le> length s"
  using assms by (cases rule: special_cases [of p n r s]) auto

lemma special_entries_length: "length (special_entries r s) \<le> length s"
proof -
  have "length (sanitizeSpecialFile ''COM'' True r (sanitizeSpecialFile ''CON'' False r s)) \<le> length s"
    using special_length [of "''COM''" True r "sanitizeSpecialFile ''CON'' False r s"]
      special_length [of "''CON''" False r s] by simp
  then show ?thesis by (simp add: special_entries_def Let_def special_length)
qed

text \<open>
  The loop over the characters, on the text from the current index on. \<open>first\<close> says that the
  index is 0, \<open>check\<close> is \<open>checkForSpecialEntries\<close>.
\<close>

function sanitize_loop :: "char \<Rightarrow> bool \<Rightarrow> bool \<Rightarrow> string \<Rightarrow> string" where
  "sanitize_loop replacement first check s =
     (if s = [] then []
      else
        (let s' = (if check then special_entries replacement s else s) in
         case s' of
           [] \<Rightarrow> []
         | c # r \<Rightarrow>
             if bad_char c then replacement # sanitize_loop replacement False False r
             else if separator c then
               (if first then replacement # sanitize_loop replacement False False r
                else c # sanitize_loop replacement False True r)
             else c # sanitize_loop replacement False False r))"
  by pat_completeness auto
termination
proof (relation "measure (\<lambda>(rep, f, ch, s). length s)", goal_cases)
  case 1
  then show ?case by simp
next
  case (2 rep f ch s s' c r)
  then have "length s' \<le> length s" using special_entries_length [of rep s] by simp
  with 2(3) show ?case by simp
next
  case (3 rep f ch s s' c r)
  then have "length s' \<le> length s" using special_entries_length [of rep s] by simp
  with 3(3) show ?case by simp
next
  case (4 rep f ch s s' c r)
  then have "length s' \<le> length s" using special_entries_length [of rep s] by simp
  with 4(3) show ?case by simp
next
  case (5 rep f ch s s' c r)
  then have "length s' \<le> length s" using special_entries_length [of rep s] by simp
  with 5(3) show ?case by simp
qed

declare sanitize_loop.simps [simp del]

definition sanitize_filename :: "char \<Rightarrow> string \<Rightarrow> string" where
  "sanitize_filename replacement data = sanitize_loop replacement True True (take 255 data)"

subsection \<open>What a sanitized name cannot contain\<close>

text \<open>The components of a path.\<close>

fun components :: "string \<Rightarrow> string list" where
  "components [] = [[]]"
| "components (c # s) =
     (if separator c then [] # components s
      else (c # hd (components s)) # tl (components s))"

lemma components_ne [simp]: "components s \<noteq> []"
  by (cases s) auto

text \<open>A replacement character that is itself harmless.\<close>

definition alnum :: "char \<Rightarrow> bool" where
  "alnum c \<longleftrightarrow> 48 \<le> code c \<and> code c \<le> 57 \<or> 65 \<le> code c \<and> code c \<le> 90 \<or> 97 \<le> code c \<and> code c \<le> 122"

definition harmless :: "char \<Rightarrow> bool" where
  "harmless c \<longleftrightarrow> \<not> bad_char c \<and> \<not> separator c \<and> c \<noteq> CHR ''.'' \<and> \<not> alnum c"

text \<open>
  The device names of Windows, which are reserved with any extension and in any case: a component is one when
  what precedes its first dot is.
\<close>

definition reserved_names :: "string set" where
  "reserved_names =
     {''AUX'', ''CON'', ''NUL'', ''PRN''} \<union> (\<lambda>d. ''COM'' @ [d]) ` set ''123456789'' \<union> (\<lambda>d. ''LPT'' @ [d]) ` set ''123456789''"

definition reserved_name :: "string \<Rightarrow> bool" where
  "reserved_name w \<longleftrightarrow> map toUpper (takeWhile (\<lambda>c. c \<noteq> CHR ''.'') w) \<in> reserved_names"

lemma sanitize_step:
  "sanitize_loop rep f False (x # r) =
     (if bad_char x then rep # sanitize_loop rep False False r
      else if separator x then
        (if f then rep # sanitize_loop rep False False r else x # sanitize_loop rep False True r)
      else x # sanitize_loop rep False False r)"
  "sanitize_loop rep f ch [] = []"
  by (simp_all add: sanitize_loop.simps [of rep f False "x # r"] sanitize_loop.simps [of rep f ch "[]"])

lemma sanitize_check:
  assumes "s \<noteq> []" "special_entries rep s = c # r"
  shows "sanitize_loop rep f True s =
     (if bad_char c then rep # sanitize_loop rep False False r
      else if separator c then
        (if f then rep # sanitize_loop rep False False r else c # sanitize_loop rep False True r)
      else c # sanitize_loop rep False False r)"
  using assms by (simp add: sanitize_loop.simps [of rep f True s])

lemma special_entries_ne:
  assumes "s \<noteq> []"
  obtains c r where "special_entries rep s = c # r"
proof -
  have ne: "sanitizeSpecialFile p n rep t \<noteq> []" if "t \<noteq> []" "p \<noteq> []" for p n t
    by (cases rule: special_cases [OF that(2), of n rep t]) (use that in auto)
  have "special_entries rep s \<noteq> []"
    using assms by (simp add: special_entries_def Let_def ne)
  then show ?thesis using that by (cases "special_entries rep s") auto
qed

text \<open>A dot in front after the check: the text was left alone and does not start with \<open>..\<close>.\<close>

lemma special_dot:
  assumes "harmless rep" "special_entries rep s = CHR ''.'' # r" "s \<noteq> []"
  shows "r = [] \<or> hd r \<noteq> CHR ''.'' \<or> \<not> special_end (tl r)"
proof -
  have rep: "rep \<noteq> CHR ''.''" using assms(1) by (simp add: harmless_def)
  have same: "t = CHR ''.'' # u"
    if "sanitizeSpecialFile p n rep t = CHR ''.'' # u" "p \<noteq> []" for p n t u
    by (cases rule: special_cases [OF that(2), of n rep t]) (use that rep in auto)
  have "s = CHR ''.'' # r"
    using assms(2) by (auto simp: special_entries_def Let_def split: if_splits dest!: same)
  with assms(2) have dots: "sanitizeSpecialFile ''..'' False rep (CHR ''.'' # r) = CHR ''.'' # r"
    by (simp add: special_entries_def toUpper_def Let_def)
  show ?thesis
  proof (rule ccontr)
    assume "\<not> ?thesis"
    then obtain t where t: "r = CHR ''.'' # t" "special_end t" by (cases r) auto
    then have "sanitizeSpecialFile ''..'' False rep (CHR ''.'' # r) = rep # t"
      by (simp add: sanitizeSpecialFile_def toUpper_def)
    with dots rep show False by simp
  qed
qed

lemma dot_component:
  assumes "harmless rep" "r = [] \<or> hd r \<noteq> CHR ''.'' \<or> \<not> special_end (tl r)"
  shows "hd (components (sanitize_loop rep False False r)) \<noteq> ''.''"
proof (cases r)
  case Nil
  then show ?thesis by (simp add: sanitize_step)
next
  case (Cons x t)
  have rep: "\<not> separator rep" "rep \<noteq> CHR ''.''" using assms(1) by (auto simp: harmless_def)
  show ?thesis
  proof (cases "x = CHR ''.''")
    case False
    with Cons rep show ?thesis by (simp add: sanitize_step)
  next
    case True
    with Cons assms(2) obtain z u where t: "t = z # u" "\<not> separator z"
      by (cases t) (auto simp: special_end_def)
    have "\<not> bad_char (CHR ''.'')" "\<not> separator (CHR ''.'')" by (simp_all add: bad_char_def separator_def)
    with True Cons t rep show ?thesis by (simp add: sanitize_step)
  qed
qed

lemma sanitize_loop_safe:
  assumes "harmless rep"
  shows "(\<forall>c \<in> set (sanitize_loop rep f ch s). \<not> bad_char c) \<and>
    ''..'' \<notin> set (tl (components (sanitize_loop rep f ch s))) \<and>
    (ch \<longrightarrow> hd (components (sanitize_loop rep f ch s)) \<noteq> ''..'') \<and>
    length (sanitize_loop rep f ch s) \<le> length s"
  using assms
proof (induction "length s" arbitrary: f ch s rule: less_induct)
  case less
  have rep: "\<not> bad_char rep" "\<not> separator rep" "rep \<noteq> CHR ''.''"
    using assms by (auto simp: harmless_def)
  show ?case
  proof (cases "s = []")
    case True
    then show ?thesis by (simp add: sanitize_step)
  next
    case False
    obtain c r where cr: "(if ch then special_entries rep s else s) = c # r"
    proof (cases ch)
      case True
      with special_entries_ne [OF False, of rep] that show ?thesis by auto
    next
      case ch: False
      with False that show ?thesis by (cases s) auto
    qed
    have len: "length r < length s"
      using cr special_entries_length [of rep s] by (auto split: if_splits)
    note ih = less(1) [OF len assms]
    have step: "sanitize_loop rep f ch s =
       (if bad_char c then rep # sanitize_loop rep False False r
        else if separator c then
          (if f then rep # sanitize_loop rep False False r else c # sanitize_loop rep False True r)
        else c # sanitize_loop rep False False r)"
      using cr False sanitize_check [of s rep c r f] sanitize_step(1) [of rep f c r]
      by (cases ch) simp_all
    have dots: "hd (components (sanitize_loop rep False False r)) \<noteq> ''.''" if "ch" "c = CHR ''.''"
      using dot_component [OF assms special_dot [OF assms]] cr that False by simp
    show ?thesis
    proof (cases "\<not> bad_char c \<and> separator c \<and> \<not> f")
      case True
      then have "sanitize_loop rep f ch s = c # sanitize_loop rep False True r" using step by simp
      moreover have "set (components t) = insert (hd (components t)) (set (tl (components t)))" for t
        by (cases "components t") (use components_ne [of t] in auto)
      ultimately show ?thesis using ih [of False True] True len by auto
    next
      case no: False
      define y where "y = (if bad_char c \<or> separator c then rep else c)"
      have "sanitize_loop rep f ch s = y # sanitize_loop rep False False r"
        using step no by (auto simp: y_def)
      moreover have "\<not> separator y" "\<not> bad_char y" using rep by (auto simp: y_def)
      moreover have "y = CHR ''.'' \<Longrightarrow> c = CHR ''.''" using rep by (auto simp: y_def split: if_splits)
      ultimately show ?thesis using ih [of False False] len dots by auto
    qed
  qed
qed

subsection \<open>No component is a device\<close>

lemma toUpper_alnum: "alnum (toUpper c) \<Longrightarrow> alnum c"
  by (auto simp: alnum_def toUpper_def split: if_splits)

lemma toUpper_digit: "toUpper d = x \<Longrightarrow> x \<in> set ''123456789'' \<Longrightarrow> d = x"
proof -
  assume d: "toUpper d = x" "x \<in> set ''123456789''"
  then have "code x \<le> 57" by auto
  show "d = x"
  proof (cases "97 \<le> code d \<and> code d \<le> 122")
    case True
    then have "code x = code d - 32" using d(1) by (auto simp: toUpper_def)
    with True \<open>code x \<le> 57\<close> show ?thesis by arith
  next
    case False
    with d(1) show ?thesis by (auto simp: toUpper_def)
  qed
qed

lemma reserved_alnum: "n \<in> reserved_names \<Longrightarrow> c \<in> set n \<Longrightarrow> alnum c"
  by (auto simp: reserved_names_def alnum_def)

lemma special_other:
  "\<not> alnum rep \<Longrightarrow> sanitizeSpecialFile ''COM'' n r (rep # t) = rep # t"
  by (auto simp: sanitizeSpecialFile_def Let_def toUpper_def alnum_def split: if_splits)

lemma special_hit:
  assumes "map toUpper b = p" "special_end t"
  shows "sanitizeSpecialFile p False rep (b @ t) = rep # t"
    "49 \<le> code d \<Longrightarrow> code d \<le> 57 \<Longrightarrow> sanitizeSpecialFile p True rep (b @ d # t) = rep # t"
  using assms by (auto simp: sanitizeSpecialFile_def Let_def nth_append)

lemma special_miss:
  "map toUpper b \<noteq> p \<Longrightarrow> length b = length p \<Longrightarrow> sanitizeSpecialFile p n rep (b @ t) = b @ t"
  by (simp add: sanitizeSpecialFile_def Let_def)

lemma special_removes:
  assumes "map toUpper b \<in> reserved_names" "special_end t" "\<not> alnum rep"
  shows "special_entries rep (b @ t) = rep # t"
proof -
  have hd: "toUpper (hd (b' @ u)) = hd (map toUpper b')" if "b' \<noteq> []" for b' u :: string
    using that by (cases b') simp_all
  consider "map toUpper b = ''AUX''" | "map toUpper b = ''CON''" | "map toUpper b = ''NUL''" | "map toUpper b = ''PRN''"
    | d where "map toUpper b = ''COM'' @ [d]" "d \<in> set ''123456789''"
    | d where "map toUpper b = ''LPT'' @ [d]" "d \<in> set ''123456789''"
    using assms(1) unfolding reserved_names_def by blast
  then show ?thesis
  proof cases
    case 1
    then have "toUpper (hd (b @ t)) = CHR ''A''" by (subst hd) auto
    then show ?thesis using special_hit(1) [OF 1 assms(2)] by (simp add: special_entries_def)
  next
    case 2
    then have "toUpper (hd (b @ t)) = CHR ''C''" by (subst hd) auto
    then show ?thesis using special_hit(1) [OF 2 assms(2)] special_other [OF assms(3)] by (simp add: special_entries_def)
  next
    case 3
    then have "toUpper (hd (b @ t)) = CHR ''N''" by (subst hd) auto
    then show ?thesis using special_hit(1) [OF 3 assms(2)] by (simp add: special_entries_def)
  next
    case 4
    then have "toUpper (hd (b @ t)) = CHR ''P''" by (subst hd) auto
    then show ?thesis using special_hit(1) [OF 4 assms(2)] by (simp add: special_entries_def)
  next
    case 5
    then obtain b' u where b: "b = b' @ [u]" "map toUpper b' = ''COM''" "toUpper u = d"
      by (cases b rule: rev_cases) auto
    have u: "49 \<le> code u" "code u \<le> 57" using toUpper_digit [OF b(3) 5(2)] 5(2) by auto
    have "toUpper (hd (b @ t)) = CHR ''C''" using 5(1) by (subst hd) auto
    moreover have "length b' = length ''CON''" using map_eq_imp_length_eq [of toUpper b' id "''COM''"] b(2) by simp
    ultimately show ?thesis using special_hit(2) [OF b(2) assms(2) u] special_miss [of b' "''CON''" False rep "u # t"] b(1,2)
      by (simp add: special_entries_def)
  next
    case 6
    then obtain b' u where b: "b = b' @ [u]" "map toUpper b' = ''LPT''" "toUpper u = d"
      by (cases b rule: rev_cases) auto
    have u: "49 \<le> code u" "code u \<le> 57" using toUpper_digit [OF b(3) 6(2)] 6(2) by auto
    have "toUpper (hd (b @ t)) = CHR ''L''" using 6(1) by (subst hd) auto
    then show ?thesis using special_hit(2) [OF b(2) assms(2) u] b(1) by (simp add: special_entries_def)
  qed
qed

lemma special_keeps:
  assumes "special_entries rep s = c # r" "c \<noteq> rep"
  shows "s = c # r"
proof -
  have same: "t = c # r" if "sanitizeSpecialFile p n rep t = c # r" "p \<noteq> []" for p n t
    by (cases rule: special_cases [OF that(2), of n rep t]) (use that assms(2) in auto)
  show ?thesis using assms(1) by (auto simp: special_entries_def Let_def split: if_splits dest!: same)
qed

text \<open>The component that goes on without a check, and what it was made of.\<close>

lemma separator_fine: "separator c \<Longrightarrow> \<not> bad_char c"
  by (auto simp: separator_def bad_char_def)

lemma first_component:
  assumes "\<not> separator rep"
  shows "hd (components (sanitize_loop rep False False r)) =
    map (\<lambda>c. if bad_char c then rep else c) (takeWhile (\<lambda>c. \<not> separator c) r)"
  using assms by (induction r) (auto simp: sanitize_step separator_fine)

lemma component_source:
  assumes "b = takeWhile (\<lambda>c. c \<noteq> CHR ''.'') (map (\<lambda>c. if bad_char c then rep else c) (takeWhile (\<lambda>c. \<not> separator c) r))"
    "rep \<notin> set b" "rep \<noteq> CHR ''.''"
  shows "\<exists>t. r = b @ t \<and> special_end t"
  using assms
proof (induction r arbitrary: b)
  case Nil
  then show ?case by (simp add: special_end_def)
next
  case (Cons x r)
  show ?case
  proof (cases "separator x \<or> x = CHR ''.''")
    case True
    then have "b = []" using Cons.prems by (auto simp: bad_char_def)
    then show ?thesis using True by (auto simp: special_end_def)
  next
    case False
    then have "\<not> bad_char x" using Cons.prems by (auto split: if_splits)
    then obtain b' where b: "b = x # b'"
      "b' = takeWhile (\<lambda>c. c \<noteq> CHR ''.'') (map (\<lambda>c. if bad_char c then rep else c) (takeWhile (\<lambda>c. \<not> separator c) r))"
      using Cons.prems(1) False by simp
    then show ?thesis using Cons.IH [OF b(2)] Cons.prems(2,3) by auto
  qed
qed

lemma checked_component:
  assumes "harmless rep" "special_entries rep s = c # r" "y = (if bad_char c \<or> separator c then rep else c)"
  shows "\<not> reserved_name (hd (components (y # sanitize_loop rep False False r)))"
proof
  let ?w = "map (\<lambda>c. if bad_char c then rep else c) (takeWhile (\<lambda>c. \<not> separator c) r)"
  let ?b = "takeWhile (\<lambda>c. c \<noteq> CHR ''.'') ?w"
  have rep: "\<not> bad_char rep" "\<not> separator rep" "rep \<noteq> CHR ''.''" "\<not> alnum rep" using assms(1) by (auto simp: harmless_def)
  assume "reserved_name (hd (components (y # sanitize_loop rep False False r)))"
  moreover have "\<not> separator y" using assms(3) rep by auto
  ultimately have n: "map toUpper (takeWhile (\<lambda>c. c \<noteq> CHR ''.'') (y # ?w)) \<in> reserved_names"
    by (simp add: reserved_name_def first_component [OF rep(2)])
  have y: "y \<noteq> CHR ''.''"
  proof
    assume "y = CHR ''.''"
    with n show False by (auto simp: reserved_names_def)
  qed
  then have n: "map toUpper (y # ?b) \<in> reserved_names" using n by simp
  have "alnum x" if "x \<in> set (y # ?b)" for x
    using reserved_alnum [OF n, of "toUpper x"] that toUpper_alnum by auto
  then have "y \<noteq> rep" "rep \<notin> set ?b" using rep(4) by auto
  then have "c = y" "s = y # r" using assms(2,3) special_keeps [OF assms(2)] by (auto split: if_splits)
  moreover obtain t where t: "r = ?b @ t" "special_end t"
    using component_source [OF refl \<open>rep \<notin> set ?b\<close> rep(3)] by blast
  ultimately have "special_entries rep s = rep # t" using special_removes [OF n t(2) rep(4)] by (metis append_Cons)
  with assms(2) \<open>c = y\<close> \<open>y \<noteq> rep\<close> show False by simp
qed

lemma sanitize_loop_reserved:
  assumes "harmless rep"
  shows "(\<forall>w \<in> set (tl (components (sanitize_loop rep f ch s))). \<not> reserved_name w) \<and>
    (ch \<longrightarrow> \<not> reserved_name (hd (components (sanitize_loop rep f ch s))))"
  using assms
proof (induction "length s" arbitrary: f ch s rule: less_induct)
  case less
  have none: "\<not> reserved_name []" by (simp add: reserved_name_def reserved_names_def)
  have rep: "\<not> separator rep" using assms by (simp add: harmless_def)
  show ?case
  proof (cases "s = []")
    case True
    then show ?thesis by (simp add: sanitize_step none)
  next
    case False
    obtain c r where cr: "(if ch then special_entries rep s else s) = c # r"
      by (cases ch) (use special_entries_ne [OF False, of rep] list.exhaust [of s] False in \<open>(metis (full_types))+\<close>)
    have len: "length r < length s"
      using cr special_entries_length [of rep s] by (auto split: if_splits)
    note ih = less(1) [OF len assms]
    have step: "sanitize_loop rep f ch s =
       (if bad_char c then rep # sanitize_loop rep False False r
        else if separator c then
          (if f then rep # sanitize_loop rep False False r else c # sanitize_loop rep False True r)
        else c # sanitize_loop rep False False r)"
      using cr False sanitize_check [of s rep c r f] sanitize_step(1) [of rep f c r]
      by (cases ch) simp_all
    show ?thesis
    proof (cases "\<not> bad_char c \<and> separator c \<and> \<not> f")
      case True
      then have "sanitize_loop rep f ch s = c # sanitize_loop rep False True r" using step by simp
      moreover have "set (components t) = insert (hd (components t)) (set (tl (components t)))" for t
        by (cases "components t") (use components_ne [of t] in auto)
      ultimately show ?thesis using ih [of False True] True none by auto
    next
      case no: False
      define y where "y = (if bad_char c \<or> separator c then rep else c)"
      have "sanitize_loop rep f ch s = y # sanitize_loop rep False False r" "\<not> separator y"
        using step no rep by (auto simp: y_def)
      then show ?thesis using ih [of False False] checked_component [OF assms _ y_def, of s r] cr by auto
    qed
  qed
qed

text \<open>
  C38. A sanitized file name cannot leave its directory nor reach a device: with a harmless replacement, one
  that is neither replaced itself nor a dot, a letter or a digit (the default \<open>_\<close> is one), the result has at
  most 255 characters, none of them a control character or one of \<open>? < > : * | "\<close>, no component of it is
  \<open>..\<close>, none is the name of a device (\<open>AUX\<close>, \<open>CON\<close>, \<open>NUL\<close>, \<open>PRN\<close>, \<open>COM1\<close> to \<open>COM9\<close>, \<open>LPT1\<close> to \<open>LPT9\<close>, in
  any case and with any extension), and it does not start with a separator.
\<close>

theorem sanitize_filename_safe:
  assumes "harmless rep"
  shows "length (sanitize_filename rep data) \<le> 255 \<and>
    (\<forall>c \<in> set (sanitize_filename rep data). \<not> bad_char c) \<and>
    (\<forall>w \<in> set (components (sanitize_filename rep data)). w \<noteq> ''..'' \<and> \<not> reserved_name w) \<and>
    (sanitize_filename rep data = [] \<or> \<not> separator (hd (sanitize_filename rep data)))"
proof -
  note safe = sanitize_loop_safe [OF assms, of True True "take 255 data", folded sanitize_filename_def]
    and reserved = sanitize_loop_reserved [OF assms, of True True "take 255 data", folded sanitize_filename_def]
  have "set (components t) = insert (hd (components t)) (set (tl (components t)))" for t
    by (cases "components t") (use components_ne [of t] in auto)
  then have "\<forall>w \<in> set (components (sanitize_filename rep data)). w \<noteq> ''..'' \<and> \<not> reserved_name w"
    using safe reserved by auto
  moreover have "sanitize_filename rep data = [] \<or> \<not> separator (hd (sanitize_filename rep data))"
  proof (cases "take 255 data = []")
    case True
    then show ?thesis by (simp add: sanitize_filename_def sanitize_step)
  next
    case False
    obtain c r where "special_entries rep (take 255 data) = c # r" by (rule special_entries_ne [OF False])
    from sanitize_check [OF False this] assms show ?thesis
      by (auto simp: sanitize_filename_def harmless_def)
  qed
  ultimately show ?thesis using safe by auto
qed

lemma sanitize_filename_safe_witness:
  "list_all (\<lambda>w. w \<noteq> ''..'' \<and> \<not> reserved_name w) (components (sanitize_filename (CHR ''_'') ''a/../../con.txt''))"
  using sanitize_filename_safe [of "CHR ''_''" "''a/../../con.txt''"]
  by (simp add: harmless_def bad_char_def separator_def alnum_def list_all_iff)

subsection \<open>String helpers\<close>

text \<open>\<open>join_path\<close> without the file-system library; \<open>back\<close> of an empty path is undefined.\<close>

definition join_path :: "string \<Rightarrow> string \<Rightarrow> string result" where
  "join_path path fname =
     (if path = [] then Inl Undefined_behaviour
      else if \<not> separator (last path) then Inr (path @ ''/'' @ fname)
      else Inr (path @ fname))"

definition string_equals :: "string \<Rightarrow> string \<Rightarrow> bool \<Rightarrow> bool" where
  "string_equals l r case_sensitive \<longleftrightarrow>
     length l = length r \<and>
     list_all2 (\<lambda>x y. if case_sensitive then x = y else toUpper x = toUpper y) l r"

text \<open>\<open>trim\<close>: the index of the first and behind the last character that is not white space.\<close>

definition trim :: "string \<Rightarrow> string" where
  "trim v =
     (case first_index (\<lambda>c. \<not> is_cspace c) v of
        None \<Rightarrow> ''''
      | Some b \<Rightarrow>
          (case first_index (\<lambda>c. \<not> is_cspace c) (rev v) of
             None \<Rightarrow> ''''
           | Some e \<Rightarrow> take (length v - e - b) (drop b v)))"

lemma first_index_drop: "first_index P xs = Some i \<Longrightarrow> drop i xs = dropWhile (\<lambda>x. \<not> P x) xs"
proof (induction xs arbitrary: i)
  case (Cons x xs)
  then show ?case by (auto split: if_splits)
qed simp

text \<open>\<open>trim\<close> removes exactly the white space at the two ends.\<close>

lemma trim_strips: "trim v = rev (dropWhile is_cspace (rev (dropWhile is_cspace v)))"
proof (cases "first_index (\<lambda>c. \<not> is_cspace c) v")
  case None
  then have "\<forall>c \<in> set v. is_cspace c" by (simp add: search_simps)
  then have "dropWhile is_cspace v = []" by (simp add: dropWhile_eq_Nil_conv)
  then show ?thesis unfolding trim_def None by (simp only: option.case dropWhile.simps rev.simps)
next
  case (Some b)
  have b: "drop b v = dropWhile is_cspace v" using first_index_drop [OF Some] by simp
  from first_index_SomeD [OF Some] have ex: "\<exists>c \<in> set v. \<not> is_cspace c" "b < length v" by auto
  then obtain e where e: "first_index (\<lambda>c. \<not> is_cspace c) (rev v) = Some e"
    by (cases "first_index (\<lambda>c. \<not> is_cspace c) (rev v)") (auto simp: search_simps)
  have re: "drop e (rev v) = dropWhile is_cspace (rev v)" using first_index_drop [OF e] by simp
  have v: "v = takeWhile is_cspace v @ drop b v" using b by simp
  have "dropWhile is_cspace (rev (drop b v) @ rev (takeWhile is_cspace v)) =
      dropWhile is_cspace (rev (drop b v)) @ rev (takeWhile is_cspace v)"
  proof (rule dropWhile_append1)
    show "v ! b \<in> set (rev (drop b v))" using ex(2) hd_drop_conv_nth [of b v] hd_in_set [of "drop b v"] by simp
    show "\<not> is_cspace (v ! b)" using first_index_SomeD [OF Some] by simp
  qed
  moreover have "rev v = rev (drop b v) @ rev (takeWhile is_cspace v)"
    by (subst v) simp
  ultimately have "drop e (rev v) = dropWhile is_cspace (rev (drop b v)) @ rev (takeWhile is_cspace v)"
    using re by simp
  from arg_cong [OF this, of rev]
  have "take (length v - e) v = takeWhile is_cspace v @ rev (dropWhile is_cspace (rev (drop b v)))"
    by (simp add: rev_drop)
  moreover have "length (takeWhile is_cspace v) = b"
  proof -
    have "length v = length (takeWhile is_cspace v) + length (drop b v)"
      using arg_cong [OF v, of length] by (simp only: length_append)
    with ex(2) show ?thesis unfolding length_drop by linarith
  qed
  ultimately have "drop b (take (length v - e) v) = rev (dropWhile is_cspace (rev (drop b v)))"
    by (metis append_eq_conv_conj)
  then show ?thesis using Some e b by (simp add: trim_def drop_take)
qed

lemma string_equals_upper: "string_equals l r False \<longleftrightarrow> map toUpper l = map toUpper r"
proof
  assume "map toUpper l = map toUpper r"
  then have "length l = length r" by (rule map_eq_imp_length_eq)
  with \<open>map toUpper l = map toUpper r\<close> show "string_equals l r False"
    by (simp add: string_equals_def list_all2_conv_all_nth list_eq_iff_nth_eq)
qed (auto simp: string_equals_def list_all2_conv_all_nth list_eq_iff_nth_eq)

end
