(* ===== verification/Crow_Response.thy ===== *)
theory Crow_Response
  imports Crow_Methods Crow_Files
begin

section \<open>Crow: headers, requests and responses\<close>

text \<open>
  \<open>ci_map.h\<close>, \<open>http_request.h\<close>, \<open>http_response.h\<close> and \<open>mime_types.h\<close>. A \<open>ci_map\<close> is the list of its
  entries; its keys are compared without regard to case. Which of several entries with one key
  \<open>find\<close> returns is left open by the standard; libstdc++ puts a new entry in front of the equal
  ones, and so does the model. The completion handler is user code: the model counts its calls.
  \<open>stat\<close> is a parameter: the size of the regular file at a path.
\<close>

subsection \<open>Headers\<close>

type_synonym ci_map = "(string \<times> string) list"

definition ci_key_eq :: "string \<Rightarrow> string \<Rightarrow> bool" where
  "ci_key_eq l r = string_equals l r False"

definition ci_count :: "ci_map \<Rightarrow> string \<Rightarrow> nat" where
  "ci_count h key = length (filter (\<lambda>e. ci_key_eq key (fst e)) h)"

definition ci_erase :: "ci_map \<Rightarrow> string \<Rightarrow> ci_map" where
  "ci_erase h key = filter (\<lambda>e. \<not> ci_key_eq key (fst e)) h"

definition ci_emplace :: "ci_map \<Rightarrow> string \<Rightarrow> string \<Rightarrow> ci_map" where
  "ci_emplace h key val = (key, val) # h"

definition get_header_value :: "ci_map \<Rightarrow> string \<Rightarrow> string" where
  "get_header_value h key =
     (if ci_count h key \<noteq> 0
      then (case find (\<lambda>e. ci_key_eq key (fst e)) h of Some e \<Rightarrow> snd e | None \<Rightarrow> '''')
      else '''')"

text \<open>Keys that differ in case only are the same key.\<close>

lemma ci_key_eq_iff: "ci_key_eq l r \<longleftrightarrow> map toUpper l = map toUpper r"
  by (simp add: ci_key_eq_def string_equals_upper)

lemma get_emplace: "get_header_value (ci_emplace h k v) key = (if ci_key_eq key k then v else get_header_value h key)"
  by (simp add: get_header_value_def ci_emplace_def ci_count_def)

lemma get_erase: "get_header_value (ci_erase h k) key = (if ci_key_eq key k then '''' else get_header_value h key)"
proof -
  have "ci_key_eq key k \<Longrightarrow> ci_key_eq k x \<longleftrightarrow> ci_key_eq key x" for x by (simp add: ci_key_eq_iff)
  moreover have "\<not> ci_key_eq key k \<Longrightarrow> ci_key_eq key x \<Longrightarrow> \<not> ci_key_eq k x" for x by (auto simp: ci_key_eq_iff)
  ultimately show ?thesis
    by (induction h) (auto simp: get_header_value_def ci_erase_def ci_count_def)
qed

subsection \<open>Requests\<close>

record crow_request =
  rq_method :: HTTPMethod
  rq_raw_url :: string
  rq_url :: string
  rq_headers :: ci_map
  rq_body :: string
  rq_remote_ip :: string
  rq_ver_major :: "8 word"
  rq_ver_minor :: "8 word"
  rq_keep_alive :: bool
  rq_close_connection :: bool
  rq_upgrade :: bool

definition rq_add_header :: "string \<Rightarrow> string \<Rightarrow> crow_request \<Rightarrow> crow_request" where
  "rq_add_header key val q = q\<lparr>rq_headers := ci_emplace (rq_headers q) key val\<rparr>"

definition rq_get_header_value :: "crow_request \<Rightarrow> string \<Rightarrow> string" where
  "rq_get_header_value q key = get_header_value (rq_headers q) key"

definition check_version :: "crow_request \<Rightarrow> 8 word \<Rightarrow> 8 word \<Rightarrow> bool" where
  "check_version q major minor \<longleftrightarrow> rq_ver_major q = major \<and> rq_ver_minor q = minor"

subsection \<open>MIME types\<close>

definition mime_types :: "(string \<times> string) list" where
  "mime_types =
     [(''shtml'', ''text/html''), (''htm'', ''text/html''), (''html'', ''text/html''),
      (''css'', ''text/css''), (''xml'', ''text/xml''), (''gif'', ''image/gif''),
      (''jpg'', ''image/jpeg''), (''jpeg'', ''image/jpeg''), (''js'', ''application/javascript''),
      (''atom'', ''application/atom+xml''), (''rss'', ''application/rss+xml''),
      (''mml'', ''text/mathml''), (''txt'', ''text/plain''),
      (''jad'', ''text/vnd.sun.j2me.app-descriptor''), (''wml'', ''text/vnd.wap.wml''),
      (''htc'', ''text/x-component''), (''avif'', ''image/avif''), (''png'', ''image/png''),
      (''svgz'', ''image/svg+xml''), (''svg'', ''image/svg+xml''), (''tiff'', ''image/tiff''),
      (''tif'', ''image/tiff''), (''wbmp'', ''image/vnd.wap.wbmp''), (''webp'', ''image/webp''),
      (''ico'', ''image/x-icon''), (''jng'', ''image/x-jng''), (''bmp'', ''image/x-ms-bmp''),
      (''woff'', ''font/woff''), (''woff2'', ''font/woff2''),
      (''ear'', ''application/java-archive''), (''war'', ''application/java-archive''),
      (''jar'', ''application/java-archive''), (''json'', ''application/json''),
      (''hqx'', ''application/mac-binhex40''), (''doc'', ''application/msword''),
      (''pdf'', ''application/pdf''), (''ai'', ''application/postscript''),
      (''eps'', ''application/postscript''), (''ps'', ''application/postscript''),
      (''rtf'', ''application/rtf''), (''m3u8'', ''application/vnd.apple.mpegurl''),
      (''kml'', ''application/vnd.google-earth.kml+xml''),
      (''kmz'', ''application/vnd.google-earth.kmz''), (''xls'', ''application/vnd.ms-excel''),
      (''eot'', ''application/vnd.ms-fontobject''), (''ppt'', ''application/vnd.ms-powerpoint''),
      (''odg'', ''application/vnd.oasis.opendocument.graphics''),
      (''odp'', ''application/vnd.oasis.opendocument.presentation''),
      (''ods'', ''application/vnd.oasis.opendocument.spreadsheet''),
      (''odt'', ''application/vnd.oasis.opendocument.text''),
      (''pptx'', ''application/vnd.openxmlformats-officedocument.presentationml.presentation''),
      (''xlsx'', ''application/vnd.openxmlformats-officedocument.spreadsheetml.sheet''),
      (''docx'', ''application/vnd.openxmlformats-officedocument.wordprocessingml.document''),
      (''wmlc'', ''application/vnd.wap.wmlc''), (''wasm'', ''application/wasm''),
      (''7z'', ''application/x-7z-compressed''), (''cco'', ''application/x-cocoa''),
      (''jardiff'', ''application/x-java-archive-diff''),
      (''jnlp'', ''application/x-java-jnlp-file''), (''run'', ''application/x-makeself''),
      (''pm'', ''application/x-perl''), (''pl'', ''application/x-perl''),
      (''pdb'', ''application/x-pilot''), (''prc'', ''application/x-pilot''),
      (''rar'', ''application/x-rar-compressed''),
      (''rpm'', ''application/x-redhat-package-manager''), (''sea'', ''application/x-sea''),
      (''swf'', ''application/x-shockwave-flash''), (''sit'', ''application/x-stuffit''),
      (''tk'', ''application/x-tcl''), (''tcl'', ''application/x-tcl''),
      (''crt'', ''application/x-x509-ca-cert''), (''pem'', ''application/x-x509-ca-cert''),
      (''der'', ''application/x-x509-ca-cert''), (''xpi'', ''application/x-xpinstall''),
      (''xhtml'', ''application/xhtml+xml''), (''xspf'', ''application/xspf+xml''),
      (''zip'', ''application/zip''), (''dll'', ''application/octet-stream''),
      (''exe'', ''application/octet-stream''), (''bin'', ''application/octet-stream''),
      (''deb'', ''application/octet-stream''), (''dmg'', ''application/octet-stream''),
      (''img'', ''application/octet-stream''), (''iso'', ''application/octet-stream''),
      (''msm'', ''application/octet-stream''), (''msp'', ''application/octet-stream''),
      (''msi'', ''application/octet-stream''), (''kar'', ''audio/midi''),
      (''midi'', ''audio/midi''), (''mid'', ''audio/midi''), (''mp3'', ''audio/mpeg''),
      (''ogg'', ''audio/ogg''), (''m4a'', ''audio/x-m4a''), (''ra'', ''audio/x-realaudio''),
      (''3gp'', ''video/3gpp''), (''3gpp'', ''video/3gpp''), (''ts'', ''video/mp2t''),
      (''mp4'', ''video/mp4''), (''mpg'', ''video/mpeg''), (''mpeg'', ''video/mpeg''),
      (''mov'', ''video/quicktime''), (''webm'', ''video/webm''), (''flv'', ''video/x-flv''),
      (''m4v'', ''video/x-m4v''), (''mng'', ''video/x-mng''), (''asf'', ''video/x-ms-asf''),
      (''asx'', ''video/x-ms-asf''), (''wmv'', ''video/x-ms-wmv''),
      (''avi'', ''video/x-msvideo'')]"

definition mime_parents :: "string list" where
  "mime_parents =
     [''application/'', ''audio/'', ''font/'', ''example/'', ''image/'', ''message/'', ''model/'',
      ''multipart/'', ''text/'', ''video/'']"

definition validate_mime_type :: "string \<Rightarrow> bool" where
  "validate_mime_type candidate \<longleftrightarrow>
     list_ex (\<lambda>p. length p < length candidate \<and> take (length p) candidate = p) mime_parents"

definition get_mime_type :: "string \<Rightarrow> string" where
  "get_mime_type contentType =
     (case map_of mime_types contentType of
        Some t \<Rightarrow> t
      | None \<Rightarrow> if validate_mime_type contentType then contentType else ''text/plain'')"

lemma mime_types_valid: "list_all (\<lambda>e. validate_mime_type (snd e)) mime_types"
  by code_simp

text \<open>The naive validation accepts a known kind of media with a subtype.\<close>

lemma validate_mime_type_iff:
  "validate_mime_type t \<longleftrightarrow> (\<exists>p \<in> set mime_parents. \<exists>sub. t = p @ sub \<and> sub \<noteq> [])"
  unfolding validate_mime_type_def list_ex_iff
  by (intro bex_cong refl) (metis append_eq_conv_conj append_take_drop_id drop_eq_Nil not_le self_append_conv
      length_append linorder_not_le less_add_same_cancel1 length_greater_0_conv)

text \<open>
  Whatever content type or file extension a response is given, the type it announces is one; it is the type of
  the extension when that is known, and what was given when that is a media type itself.
\<close>

lemma get_mime_type_media:
  "\<exists>p \<in> set mime_parents. \<exists>sub. get_mime_type ct = p @ sub \<and> sub \<noteq> []"
proof (cases "map_of mime_types ct")
  case None
  have "validate_mime_type ''text/plain''" by code_simp
  with None show ?thesis unfolding validate_mime_type_iff [symmetric] by (simp add: get_mime_type_def)
next
  case (Some t)
  with mime_types_valid have "validate_mime_type t" by (fastforce simp: list_all_iff dest: map_of_SomeD)
  with Some show ?thesis unfolding validate_mime_type_iff [symmetric] by (simp add: get_mime_type_def)
qed

subsection \<open>Responses\<close>

record crow_response =
  rs_code :: int
  rs_body :: string
  rs_headers :: ci_map
  rs_skip_body :: bool
  rs_manual_length :: bool
  rs_completed :: bool
  rs_file :: string
  rs_handler :: bool
  rs_calls :: nat

definition response :: crow_response where
  "response = \<lparr>rs_code = 200, rs_body = '''', rs_headers = [], rs_skip_body = False,
     rs_manual_length = False, rs_completed = False, rs_file = '''', rs_handler = False, rs_calls = 0\<rparr>"

definition set_header :: "string \<Rightarrow> string \<Rightarrow> crow_response \<Rightarrow> crow_response" where
  "set_header key val r = r\<lparr>rs_headers := ci_emplace (ci_erase (rs_headers r) key) key val\<rparr>"

definition add_header :: "string \<Rightarrow> string \<Rightarrow> crow_response \<Rightarrow> crow_response" where
  "add_header key val r = r\<lparr>rs_headers := ci_emplace (rs_headers r) key val\<rparr>"

definition rs_get_header_value :: "crow_response \<Rightarrow> string \<Rightarrow> string" where
  "rs_get_header_value r key = get_header_value (rs_headers r) key"

text \<open>The constructors, and the assignment of a temporary.\<close>

definition response_code :: "int \<Rightarrow> crow_response" where
  "response_code c = response\<lparr>rs_code := c\<rparr>"

definition response_body :: "string \<Rightarrow> crow_response" where
  "response_body b = response\<lparr>rs_body := b\<rparr>"

definition response_code_body :: "int \<Rightarrow> string \<Rightarrow> crow_response" where
  "response_code_body c b = response\<lparr>rs_code := c, rs_body := b\<rparr>"

definition response_returnable :: "int \<Rightarrow> string \<Rightarrow> string \<Rightarrow> crow_response" where
  "response_returnable c content_type dump =
     set_header ''Content-Type'' content_type (response\<lparr>rs_code := c, rs_body := dump\<rparr>)"

definition response_typed :: "int \<Rightarrow> string \<Rightarrow> string \<Rightarrow> crow_response" where
  "response_typed c contentType b =
     set_header ''Content-Type'' (get_mime_type contentType) (response_code_body c b)"

definition assign_response :: "crow_response \<Rightarrow> crow_response \<Rightarrow> crow_response" where
  "assign_response r this =
     this\<lparr>rs_body := rs_body r, rs_code := rs_code r, rs_headers := rs_headers r,
          rs_completed := rs_completed r, rs_file := rs_file r\<rparr>"

definition is_completed :: "crow_response \<Rightarrow> bool" where
  "is_completed r = rs_completed r"

definition clear_response :: "crow_response \<Rightarrow> crow_response" where
  "clear_response r =
     r\<lparr>rs_body := '''', rs_code := 200, rs_headers := [], rs_completed := False, rs_file := ''''\<rparr>"

definition redirect :: "string \<Rightarrow> crow_response \<Rightarrow> crow_response" where
  "redirect location r = set_header ''Location'' location (r\<lparr>rs_code := 307\<rparr>)"

definition redirect_perm :: "string \<Rightarrow> crow_response \<Rightarrow> crow_response" where
  "redirect_perm location r = set_header ''Location'' location (r\<lparr>rs_code := 308\<rparr>)"

definition moved :: "string \<Rightarrow> crow_response \<Rightarrow> crow_response" where
  "moved location r = set_header ''Location'' location (r\<lparr>rs_code := 302\<rparr>)"

definition moved_perm :: "string \<Rightarrow> crow_response \<Rightarrow> crow_response" where
  "moved_perm location r = set_header ''Location'' location (r\<lparr>rs_code := 301\<rparr>)"

definition write_body :: "string \<Rightarrow> crow_response \<Rightarrow> crow_response" where
  "write_body part r = r\<lparr>rs_body := rs_body r @ part\<rparr>"

definition end_response :: "crow_response \<Rightarrow> crow_response" where
  "end_response r =
     (if \<not> rs_completed r then
        (let r1 = r\<lparr>rs_completed := True\<rparr>;
             r2 = (if rs_skip_body r1
                   then (set_header ''Content-Length'' (dec_nat (length (rs_body r1))) r1)
                          \<lparr>rs_body := '''', rs_manual_length := True\<rparr>
                   else r1) in
         if rs_handler r2 then r2\<lparr>rs_calls := rs_calls r2 + 1\<rparr> else r2)
      else r)"

definition end_with :: "string \<Rightarrow> crow_response \<Rightarrow> crow_response" where
  "end_with part r = end_response (r\<lparr>rs_body := rs_body r @ part\<rparr>)"

definition is_static_type :: "crow_response \<Rightarrow> bool" where
  "is_static_type r \<longleftrightarrow> rs_file r \<noteq> ''''"

text \<open>The part after the last dot, or all of a path without one.\<close>

definition file_extension :: "string \<Rightarrow> string" where
  "file_extension path = rev (takeWhile (\<lambda>c. c \<noteq> CHR ''.'') (rev path))"

definition set_static_file_info_unsafe ::
    "(string \<Rightarrow> nat option) \<Rightarrow> string \<Rightarrow> crow_response \<Rightarrow> crow_response" where
  "set_static_file_info_unsafe stat path r =
     (case stat path of
        Some n \<Rightarrow>
          (let r1 = add_header ''Content-Length'' (dec_nat n) (r\<lparr>rs_file := path, rs_code := 200\<rparr>) in
           if file_extension path \<noteq> '''' then add_header ''Content-Type'' (get_mime_type (file_extension path)) r1
           else r1)
      | None \<Rightarrow> r\<lparr>rs_code := 404, rs_file := ''''\<rparr>)"

definition set_static_file_info :: "(string \<Rightarrow> nat option) \<Rightarrow> string \<Rightarrow> crow_response \<Rightarrow> crow_response" where
  "set_static_file_info stat path r = set_static_file_info_unsafe stat (sanitize_filename CHR ''_'' path) r"

named_theorems response_simps \<open>fields after the operations of a response\<close>

lemma set_header_get [response_simps]:
  "rs_get_header_value (set_header k v r) key = (if ci_key_eq key k then v else rs_get_header_value r key)"
  by (simp add: rs_get_header_value_def set_header_def get_emplace get_erase)

lemma set_header_fields [response_simps]:
  "rs_code (set_header k v r) = rs_code r" "rs_body (set_header k v r) = rs_body r"
  "rs_completed (set_header k v r) = rs_completed r" "rs_skip_body (set_header k v r) = rs_skip_body r"
  "rs_handler (set_header k v r) = rs_handler r" "rs_calls (set_header k v r) = rs_calls r"
  "rs_file (set_header k v r) = rs_file r"
  by (simp_all add: set_header_def)

lemma end_fields [response_simps]:
  "rs_completed (end_response r)" "rs_code (end_response r) = rs_code r"
  "rs_calls (end_response r) = rs_calls r + (if \<not> rs_completed r \<and> rs_handler r then 1 else 0)"
  "rs_handler (end_response r) = rs_handler r"
  by (simp_all add: end_response_def Let_def response_simps)

lemma end_idem [response_simps]: "rs_completed r \<Longrightarrow> end_response r = r"
  by (simp add: end_response_def)

lemma assign_fields [response_simps]:
  "rs_code (assign_response a r) = rs_code a" "rs_body (assign_response a r) = rs_body a"
  "rs_completed (assign_response a r) = rs_completed a" "rs_headers (assign_response a r) = rs_headers a"
  "rs_skip_body (assign_response a r) = rs_skip_body r" "rs_handler (assign_response a r) = rs_handler r"
  "rs_calls (assign_response a r) = rs_calls r"
  by (simp_all add: assign_response_def)

text \<open>The only file a response serves is the one at the sanitized path.\<close>

lemma static_file_path:
  "rs_file (set_static_file_info stat path r) \<in> {'''', sanitize_filename CHR ''_'' path}"
  by (simp add: set_static_file_info_def set_static_file_info_unsafe_def add_header_def Let_def split: option.split)

end
