(* ===== verification/Crow_Router.thy ===== *)
theory Crow_Router
  imports Crow_Routing_Build Crow_Response
begin

section \<open>Crow: rules, blueprints and the router\<close>

text \<open>
  \<open>BaseRule\<close> with its three kinds, \<open>Blueprint\<close> and \<open>Router\<close> of \<open>routing.h\<close>. A handler is user code: a
  function of the request, the parameters, the response and the application's state \<open>'w\<close>, that
  returns or throws (\<open>None\<close>: it never returns). A blueprint is registered once, so the pointers
  to it are its value. Results of building the router are \<open>None\<close> when \<open>Trie::add\<close> loops.
\<close>

type_synonym ('d, 'w) rule_handler =
  "crow_request \<Rightarrow> 'd routing_params \<Rightarrow> crow_response \<times> 'w \<Rightarrow> (exn option \<times> crow_response \<times> 'w) option"

definition bind_ro :: "'a result option \<Rightarrow> ('a \<Rightarrow> 'b result option) \<Rightarrow> 'b result option" where
  "bind_ro m f = (case m of None \<Rightarrow> None | Some (Inl e) \<Rightarrow> Some (Inl e) | Some (Inr x) \<Rightarrow> f x)"

fun fold_ro :: "('a \<Rightarrow> 's \<Rightarrow> 's result option) \<Rightarrow> 'a list \<Rightarrow> 's \<Rightarrow> 's result option" where
  "fold_ro f [] s = Some (Inr s)"
| "fold_ro f (x # xs) s = bind_ro (f x s) (fold_ro f xs)"

lemma bind_ro_simps [simp]:
  "bind_ro None f = None" "bind_ro (Some (Inl e)) f = Some (Inl e)" "bind_ro (Some (Inr x)) f = f x"
  by (simp_all add: bind_ro_def)

subsection \<open>Middleware indices\<close>

definition merge_front :: "int list \<Rightarrow> int list \<Rightarrow> int list" where
  "merge_front other xs = other @ xs"

definition merge_back :: "int list \<Rightarrow> int list \<Rightarrow> int list" where
  "merge_back other xs = xs @ other"

definition mw_pop_back :: "int list \<Rightarrow> int list \<Rightarrow> int list" where
  "mw_pop_back other xs = take (length xs - length other) xs"

definition mw_pack :: "int list \<Rightarrow> int list" where
  "mw_pack xs = remdups_adj (sort xs)"

lemma mw_pop_merge: "mw_pop_back other (merge_back other xs) = xs"
  by (simp add: mw_pop_back_def merge_back_def)

lemma mw_pack_set: "set (mw_pack xs) = set xs" "sorted (mw_pack xs)"
  by (simp_all add: mw_pack_def sorted_remdups_adj)

subsection \<open>Rules\<close>

datatype rule_kind = DynamicRule | TaggedRule | WebSocketRule

record ('d, 'w) rule =
  ru_text :: string
  ru_methods :: "32 word"
  ru_name :: string
  ru_mw :: "int list"
  ru_kind :: rule_kind
  ru_handler :: "('d, 'w) rule_handler option"
  ru_upgrade :: "string option"

definition new_rule :: "rule_kind \<Rightarrow> string \<Rightarrow> ('d, 'w) rule" where
  "new_rule k t = \<lparr>ru_text = t, ru_methods = default_methods, ru_name = '''', ru_mw = [], ru_kind = k,
     ru_handler = None, ru_upgrade = None\<rparr>"

definition rule_name :: "string \<Rightarrow> ('d, 'w) rule \<Rightarrow> ('d, 'w) rule" where
  "rule_name n r = r\<lparr>ru_name := n\<rparr>"

definition rule_websocket :: "('d, 'w) rule \<Rightarrow> ('d, 'w) rule" where
  "rule_websocket r = r\<lparr>ru_upgrade := Some (ru_text r)\<rparr>"

definition rule_set_methods :: "HTTPMethod \<Rightarrow> HTTPMethod list \<Rightarrow> ('d, 'w) rule \<Rightarrow> ('d, 'w) rule result" where
  "rule_set_methods m ms r =
     (case rule_methods m ms of None \<Rightarrow> Inl Undefined_behaviour | Some w \<Rightarrow> Inr (r\<lparr>ru_methods := w\<rparr>))"

text \<open>\<open>upgrade\<close>: the rule that takes its place, a new one with the default methods.\<close>

definition upgrade_rule :: "('d, 'w) rule \<Rightarrow> ('d, 'w) rule" where
  "upgrade_rule r = (case ru_upgrade r of None \<Rightarrow> r | Some t \<Rightarrow> new_rule WebSocketRule t)"

definition no_handler :: "('d, 'w) rule \<Rightarrow> exn" where
  "no_handler r =
     Std_exception (ru_name r @ (if ru_name r \<noteq> '''' then '': '' else '''') @ ''no handler for url '' @ ru_text r)"

definition validate_rule :: "('d, 'w) rule \<Rightarrow> unit result" where
  "validate_rule r =
     (case ru_kind r of
        WebSocketRule \<Rightarrow> Inr ()
      | DynamicRule \<Rightarrow> if ru_handler r = None then Inl (no_handler r) else Inr ()
      | TaggedRule \<Rightarrow>
          if ru_text r = '''' then Inl (Std_exception ''out_of_range'')
          else if hd (ru_text r) \<noteq> CHR ''/'' then
            Inl (Std_exception (''Internal error: Routes must start with a '/'' @ [CHR 0x27]))
          else if ru_handler r = None then Inl (no_handler r) else Inr ())"

text \<open>Calling the handler of a rule; a WebSocket rule answers 404.\<close>

definition handle_rule :: "('d, 'w) rule \<Rightarrow> ('d, 'w) rule_handler" where
  "handle_rule r req q =
     (\<lambda>(res, w). if ru_kind r = WebSocketRule then Some (None, end_response (assign_response (response_code 404) res), w)
       else (case ru_handler r of
               None \<Rightarrow> Some (Some (Std_exception ''bad_function_call''), res, w)
             | Some h \<Rightarrow> h req q (res, w)))"

subsection \<open>Blueprints\<close>

datatype ('d, 'w) blueprint =
  Blueprint (bp_prefix: string) (bp_static: string) (bp_templates: string) (bp_rules: "('d, 'w) rule list")
    (bp_catchall: "('d, 'w) rule_handler option") (bp_children: "('d, 'w) blueprint list") (bp_mw: "int list")

definition bp_new_rule :: "rule_kind \<Rightarrow> string \<Rightarrow> ('d, 'w) blueprint \<Rightarrow> ('d, 'w) blueprint" where
  "bp_new_rule k t b =
     Blueprint (bp_prefix b) (bp_static b) (bp_templates b)
       (bp_rules b @ [new_rule k (CHR ''/'' # bp_prefix b @ t)]) (bp_catchall b) (bp_children b) (bp_mw b)"

fun apply_blueprint :: "string \<Rightarrow> string \<Rightarrow> string \<Rightarrow> ('d, 'w) blueprint \<Rightarrow> ('d, 'w) blueprint" where
  "apply_blueprint pr st te (Blueprint p s t rs ca cs mw) =
     Blueprint (pr @ ''/'' @ p) (st @ ''/'' @ s) (te @ ''/'' @ t)
       (map (\<lambda>r. r\<lparr>ru_text := ''/'' @ pr @ ru_text r\<rparr>) rs) ca
       (map (apply_blueprint pr st te) cs) mw"

definition bp_register :: "('d, 'w) blueprint \<Rightarrow> ('d, 'w) blueprint \<Rightarrow> ('d, 'w) blueprint" where
  "bp_register child b =
     Blueprint (bp_prefix b) (bp_static b) (bp_templates b) (bp_rules b) (bp_catchall b)
       (bp_children b @ [apply_blueprint (bp_prefix b) (bp_static b) (bp_templates b) child]) (bp_mw b)"

subsection \<open>Building the router\<close>

record ('d, 'w) per_method =
  pm_rules :: "('d, 'w) rule option list"
  pm_trie :: trie_node

record ('d, 'w) router =
  ro_per_methods :: "('d, 'w) per_method list"
  ro_all_rules :: "('d, 'w) rule list"
  ro_blueprints :: "('d, 'w) blueprint list"
  ro_catchall :: "('d, 'w) rule_handler option"

definition init_per_method :: "('d, 'w) per_method" where
  "init_per_method = \<lparr>pm_rules = [None, None], pm_trie = empty_node\<rparr>"

definition init_router :: "('d, 'w) router" where
  "init_router = \<lparr>ro_per_methods = replicate (method_index InternalMethodCount) init_per_method,
     ro_all_rules = [], ro_blueprints = [], ro_catchall = None\<rparr>"

definition router_new_rule :: "('d, 'w) rule \<Rightarrow> ('d, 'w) router \<Rightarrow> ('d, 'w) router" where
  "router_new_rule r ro = ro\<lparr>ro_all_rules := ro_all_rules ro @ [r]\<rparr>"

definition router_register :: "('d, 'w) blueprint \<Rightarrow> ('d, 'w) router \<Rightarrow> ('d, 'w) router" where
  "router_register b ro = ro\<lparr>ro_blueprints := ro_blueprints ro @ [b]\<rparr>"

definition RULE_SPECIAL_REDIRECT_SLASH :: "16 word" where
  "RULE_SPECIAL_REDIRECT_SLASH = 1"

definition has_trailing_slash :: "string \<Rightarrow> bool" where
  "has_trailing_slash t \<longleftrightarrow> 1 < length t \<and> last t = CHR ''/''"

definition add_to_method ::
    "string \<Rightarrow> ('d, 'w) rule \<Rightarrow> nat \<Rightarrow> 16 word \<Rightarrow> ('d, 'w) per_method \<Rightarrow> ('d, 'w) per_method result option" where
  "add_to_method t r bplen bp pm =
     (let rules = pm_rules pm @ [Some r] in
      bind_ro (Trie_add t (word_of_nat (length rules - 1)) bplen bp (pm_trie pm)) (\<lambda>t1.
      bind_ro (if has_trailing_slash t then Trie_add (butlast t) RULE_SPECIAL_REDIRECT_SLASH bplen bp t1
               else Some (Inr t1)) (\<lambda>t2.
      Some (Inr \<lparr>pm_rules = rules, pm_trie = t2\<rparr>))))"

definition internal_add_rule_object ::
    "('d, 'w) rule \<Rightarrow> nat \<Rightarrow> 16 word \<Rightarrow> ('d, 'w) per_method list \<Rightarrow> ('d, 'w) per_method list result option" where
  "internal_add_rule_object r bplen bp pms =
     (let r = r\<lparr>ru_mw := mw_pack (ru_mw r)\<rparr> in
      fold_ro (\<lambda>i pms. bind_ro (add_to_method (ru_text r) r bplen bp (pms ! i)) (\<lambda>pm. Some (Inr (pms[i := pm]))))
        (foreach_method (ru_methods r)) pms)"

text \<open>\<open>get_recursive_child_methods\<close>: the vector of methods after the call.\<close>

definition add_methods :: "('d, 'w) rule list \<Rightarrow> nat list \<Rightarrow> nat list" where
  "add_methods rs ms =
     fold (\<lambda>i ms. if i \<in> set ms then ms else ms @ [i]) (concat (map (\<lambda>r. foreach_method (ru_methods r)) rs)) ms"

fun get_recursive_child_methods :: "('d, 'w) blueprint \<Rightarrow> nat list \<Rightarrow> nat list" where
  "get_recursive_child_methods (Blueprint p s t rs ca cs mw) ms =
     add_methods rs
       (if s = '''' \<and> rs = [] then fold get_recursive_child_methods cs ms
        else if s \<noteq> '''' then ms @ [method_index Get] else ms)"

text \<open>One rule of a blueprint or of the router: upgraded, validated, added.\<close>

definition validate_add ::
    "int list \<Rightarrow> nat \<Rightarrow> 16 word \<Rightarrow> ('d, 'w) rule \<Rightarrow> ('d, 'w) per_method list \<Rightarrow> ('d, 'w) per_method list result option" where
  "validate_add mw bplen bp r pms =
     (let r1 = upgrade_rule r in
      case validate_rule r1 of
        Inl e \<Rightarrow> Some (Inl e)
      | Inr _ \<Rightarrow> internal_add_rule_object (r1\<lparr>ru_mw := merge_front mw (ru_mw r1)\<rparr>) bplen bp pms)"

text \<open>
  \<open>validate_bp\<close>: \<open>i\<close> is the number of the blueprint among its siblings. An empty blueprint's prefix
  is added without a slash, and with the number of the method where the blueprint's belongs.
\<close>

fun validate_bp ::
    "nat \<Rightarrow> int list \<Rightarrow> ('d, 'w) blueprint \<Rightarrow> ('d, 'w) per_method list \<Rightarrow> ('d, 'w) per_method list result option"
  and validate_bps ::
    "nat \<Rightarrow> int list \<Rightarrow> ('d, 'w) blueprint list \<Rightarrow> ('d, 'w) per_method list \<Rightarrow> ('d, 'w) per_method list result option" where
  "validate_bp i mw (Blueprint p s t rs ca cs bmw) pms =
     bind_ro
       (if s = '''' \<and> rs = [] then
          fold_ro (\<lambda>m pms. bind_ro (Trie_add p 0 (length p) (word_of_nat m) (pm_trie (pms ! m)))
                      (\<lambda>tr. Some (Inr (pms[m := (pms ! m)\<lparr>pm_trie := tr\<rparr>]))))
            (get_recursive_child_methods (Blueprint p s t rs ca cs bmw) []) pms
        else Some (Inr pms)) (\<lambda>pms.
     bind_ro (fold_ro (validate_add (merge_back bmw mw) (length p) (word_of_nat i)) rs pms) (\<lambda>pms.
     validate_bps 0 (merge_back bmw mw) cs pms))"
| "validate_bps i mw [] pms = Some (Inr pms)"
| "validate_bps i mw (b # bs) pms = bind_ro (validate_bp i mw b pms) (validate_bps (Suc i) mw bs)"

definition validate_tries :: "('d, 'w) per_method list \<Rightarrow> ('d, 'w) per_method list result option" where
  "validate_tries pms =
     fold_ro (\<lambda>pm acc. case Trie_validate (pm_trie pm) of Inl e \<Rightarrow> Some (Inl e)
                | Inr tr \<Rightarrow> Some (Inr (acc @ [pm\<lparr>pm_trie := tr\<rparr>]))) pms []"

definition router_validate :: "('d, 'w) router \<Rightarrow> ('d, 'w) router result option" where
  "router_validate ro =
     bind_ro (validate_bps 0 [] (ro_blueprints ro) (ro_per_methods ro)) (\<lambda>pms.
     bind_ro (fold_ro (validate_add [] 0 INVALID_BP_ID) (ro_all_rules ro) pms) (\<lambda>pms.
     bind_ro (validate_tries pms) (\<lambda>pms.
     Some (Inr (ro\<lparr>ro_per_methods := pms\<rparr>)))))"

end
