(* ===== verification/Crow_Dispatch.thy ===== *)
theory Crow_Dispatch
  imports Crow_Router
begin

section \<open>Crow: from a request to its handler\<close>

text \<open>
  \<open>Router::handle_initial\<close>, \<open>handle\<close>, \<open>handle_upgrade\<close> and the search for the catch-all rule
  (\<open>routing.h\<close>), and \<open>Crow::handle_full\<close> (\<open>app.h\<close>) without middleware. What the steps share is the
  response and the application's state; a step ends with an exception or without one, or, when a
  handler never returns, not at all (\<open>None\<close>).
\<close>

type_synonym 'w outcome = "(exn option \<times> crow_response \<times> 'w) option"

subsection \<open>Errors\<close>

text \<open>\<open>get_found_bp\<close>: reading outside a vector is undefined, \<open>None\<close>.\<close>

definition verify_prefix ::
    "16 word list \<Rightarrow> ('d, 'w) blueprint list \<Rightarrow> ('d, 'w) blueprint list \<Rightarrow> nat \<Rightarrow> bool option" where
  "verify_prefix bp_i bps found index =
     (if 0 < index \<and> unat (bp_i ! index) < length bps then
        (if index - 1 < length found then
           (let pr = bp_prefix (found ! (index - 1)) in
            Some (take (length pr + 1) (bp_prefix (bps ! unat (bp_i ! index))) = pr @ ''/''))
         else None)
      else Some False)"

function get_found_bp ::
    "('d, 'w) blueprint list \<Rightarrow> 16 word list \<Rightarrow> ('d, 'w) blueprint list \<Rightarrow> ('d, 'w) blueprint list \<Rightarrow> nat \<Rightarrow>
     ('d, 'w) blueprint list option" where
  "get_found_bp tops bp_i bps found index =
     (if index < length bp_i then
        (let k = unat (bp_i ! index) in
         case verify_prefix bp_i bps found index of
           None \<Rightarrow> None
         | Some True \<Rightarrow> get_found_bp tops bp_i (bp_children (bps ! k)) (found @ [bps ! k]) (index + 1)
         | Some False \<Rightarrow>
             if length found < 2 then
               (if k < length tops then get_found_bp tops bp_i (bp_children (tops ! k)) [tops ! k] (index + 1) else None)
             else
               (let found1 = butlast found; cs = bp_children (last found1) in
                if k < length cs then get_found_bp tops bp_i (bp_children (cs ! k)) (found1 @ [cs ! k]) (index + 1)
                else None))
      else Some found)"
  by pat_completeness auto
termination
  by (relation "measure (\<lambda>(tops, bp_i, bps, found, index). length bp_i - index)") auto

declare get_found_bp.simps [simp del]

text \<open>The loop of \<open>get_error\<close> goes down to the blueprint of index 1.\<close>

fun bp_catchall_from :: "nat \<Rightarrow> ('d, 'w) blueprint list \<Rightarrow> ('d, 'w) rule_handler option" where
  "bp_catchall_from 0 bps = None"
| "bp_catchall_from (Suc i) bps =
     (case bp_catchall (bps ! Suc i) of Some h \<Rightarrow> Some h | None \<Rightarrow> bp_catchall_from i bps)"

definition get_error ::
    "('d, 'w) router \<Rightarrow> int \<Rightarrow> 16 word list \<Rightarrow> crow_request \<Rightarrow> crow_response \<Rightarrow> 'w \<Rightarrow> 'w outcome" where
  "get_error ro c blueprint_indices req res w =
     (let res = res\<lparr>rs_code := c\<rparr> in
      case get_found_bp (ro_blueprints ro) blueprint_indices (ro_blueprints ro) [] 0 of
        None \<Rightarrow> Some (Some Undefined_behaviour, res, w)
      | Some bps \<Rightarrow>
          (case bp_catchall_from (length bps - 1) bps of
             Some h \<Rightarrow> h req empty_params (res, w)
           | None \<Rightarrow>
               (case ro_catchall ro of Some h \<Rightarrow> h req empty_params (res, w) | None \<Rightarrow> Some (None, res, w))))"

subsection \<open>Choosing the route\<close>

record 'd found_route =
  fr_result :: "'d routing_result"
  fr_method :: "HTTPMethod option"

definition no_route :: "'d routing_result" where
  "no_route = \<lparr>rr_rule_index = 0, rr_blueprints = [], rr_params = empty_params\<rparr>"

definition method_find ::
    "(string \<Rightarrow> ('d \<times> nat) option) \<Rightarrow> ('d, 'w) router \<Rightarrow> string \<Rightarrow> nat \<Rightarrow> 'd routing_result" where
  "method_find D ro url i = Trie_find D (pm_trie (ro_per_methods ro ! i)) url"

definition method_hit ::
    "(string \<Rightarrow> ('d \<times> nat) option) \<Rightarrow> ('d, 'w) router \<Rightarrow> string \<Rightarrow> nat \<Rightarrow> bool" where
  "method_hit D ro url i \<longleftrightarrow> rr_rule_index (method_find D ro url i) \<noteq> 0"

text \<open>A loop over all methods that stops at the first one that passes the test.\<close>

definition any_method :: "(nat \<Rightarrow> bool) \<Rightarrow> bool" where
  "any_method P \<longleftrightarrow> list_ex P [0..<method_index InternalMethodCount]"

text \<open>The \<open>Allow\<close> header: every method whose tree passes the test, but HEAD; the last comma is cut.\<close>

definition allow_header :: "(nat \<Rightarrow> bool) \<Rightarrow> string" where
  "allow_header hit =
     (let allow = ''OPTIONS, HEAD, '' @
            concat (map (\<lambda>i. if i \<noteq> method_index Head \<and> hit i then method_name (all_methods ! i) @ '', '' else '''')
              [0..<method_index InternalMethodCount])
      in take (length allow - 2) allow)"

definition plain_answer :: "int \<Rightarrow> crow_response \<Rightarrow> crow_response" where
  "plain_answer c res = end_response (assign_response (response_code c) res)"

definition options_answer :: "string \<Rightarrow> crow_response \<Rightarrow> crow_response" where
  "options_answer allow res =
     end_response (set_header ''Allow'' allow (assign_response (response_code 204) res))"

definition handle_initial ::
    "(string \<Rightarrow> ('d \<times> nat) option) \<Rightarrow> ('d, 'w) router \<Rightarrow> crow_request \<Rightarrow> crow_response \<Rightarrow> 'w \<Rightarrow>
     'd found_route \<times> 'w outcome" where
  "handle_initial D ro req res w =
     (let m = rq_method req; url = rq_url req;
          none = \<lparr>fr_result = no_route, fr_method = Some InternalMethodCount\<rparr>;
          find = method_find D ro url \<circ> method_index in
      if method_index InternalMethodCount \<le> method_index m then (none, Some (None, res, w))
      else if m = Head then
        (let m1 = (if rr_rule_index (find m) = 0 then Get else m) in
         if rr_rule_index (find m1) = 0
         then (\<lparr>fr_result = find m1, fr_method = None\<rparr>, Some (None, plain_answer 404 res, w))
         else (\<lparr>fr_result = find m1, fr_method = Some m1\<rparr>, Some (None, res\<lparr>rs_skip_body := True\<rparr>, w)))
      else if m = Options then
        (if url = ''/*'' then
           (none\<lparr>fr_method := Some m\<rparr>,
            Some (None, options_answer
              (allow_header (\<lambda>i. \<not> trie_is_empty (pm_trie (ro_per_methods ro ! i)))) res, w))
         else if any_method (method_hit D ro url) then
           (none\<lparr>fr_method := Some m\<rparr>, Some (None, options_answer (allow_header (method_hit D ro url)) res, w))
         else (none, Some (None, plain_answer 404 res, w)))
      else if rr_rule_index (find m) = 0 then
        (\<lparr>fr_result = find m, fr_method = None\<rparr>,
         (case get_error ro (if any_method (method_hit D ro url) then 405 else 404)
                 (rr_blueprints (find m)) req res w of
            None \<Rightarrow> None
          | Some (Some x, res1, w1) \<Rightarrow> Some (Some x, res1, w1)
          | Some (None, res1, w1) \<Rightarrow> Some (None, end_response res1, w1)))
      else (\<lparr>fr_result = find m, fr_method = Some m\<rparr>, Some (None, res, w)))"

subsection \<open>Running the rule\<close>

definition redirect_answer :: "crow_request \<Rightarrow> crow_response \<Rightarrow> crow_response" where
  "redirect_answer req res =
     end_response
       (add_header ''Location''
         (if rq_get_header_value req ''Host'' = '''' then rq_url req @ ''/''
          else ''http://'' @ rq_get_header_value req ''Host'' @ rq_url req @ ''/'')
         (assign_response (response_code 301) res))"

text \<open>An exception of a handler becomes a response 500; undefined behaviour does not.\<close>

definition catch_500 :: "'w outcome \<Rightarrow> 'w outcome" where
  "catch_500 r =
     (case r of
        Some (Some x, res, w) \<Rightarrow>
          if x = Undefined_behaviour then r else Some (None, plain_answer 500 res, w)
      | _ \<Rightarrow> r)"

definition run_found ::
    "('d, 'w) per_method \<Rightarrow> 16 word \<Rightarrow> (('d, 'w) rule \<Rightarrow> 'w outcome) \<Rightarrow> crow_request \<Rightarrow> crow_response \<Rightarrow> 'w \<Rightarrow> 'w outcome" where
  "run_found pm index run req res w =
     (if length (pm_rules pm) \<le> unat index then
        Some (Some (Std_exception ''Trie internal structure corrupted!''), res, w)
      else if index = RULE_SPECIAL_REDIRECT_SLASH then Some (None, redirect_answer req res, w)
      else (case pm_rules pm ! unat index of
              None \<Rightarrow> Some (Some Undefined_behaviour, res, w)
            | Some r \<Rightarrow> catch_500 (run r)))"

definition handle ::
    "('d, 'w) router \<Rightarrow> 'd found_route \<Rightarrow> crow_request \<Rightarrow> crow_response \<Rightarrow> 'w \<Rightarrow> 'w outcome" where
  "handle ro f req res w =
     (case fr_method f of
        None \<Rightarrow> Some (Some Undefined_behaviour, res, w)
      | Some m \<Rightarrow>
          if length (ro_per_methods ro) \<le> method_index m then Some (Some Undefined_behaviour, res, w)
          else run_found (ro_per_methods ro ! method_index m) (rr_rule_index (fr_result f))
                 (\<lambda>r. handle_rule r req (rr_params (fr_result f)) (res, w)) req res w)"

text \<open>
  \<open>handle_upgrade\<close>: \<open>up\<close> is what the upgrade of a WebSocket rule does (the connection class of
  \<open>websocket.h\<close>); other rules answer 404.
\<close>

definition handle_upgrade ::
    "(string \<Rightarrow> ('d \<times> nat) option) \<Rightarrow> (('d, 'w) rule \<Rightarrow> crow_request \<Rightarrow> crow_response \<times> 'w \<Rightarrow> 'w outcome) \<Rightarrow>
     ('d, 'w) router \<Rightarrow> crow_request \<Rightarrow> crow_response \<Rightarrow> 'w \<Rightarrow> 'w outcome" where
  "handle_upgrade D up ro req res w =
     (let m = method_index (rq_method req);
          index = rr_rule_index (method_find D ro (rq_url req) m) in
      if method_index InternalMethodCount \<le> m then Some (None, res, w)
      else if index = 0 then
        Some (None, plain_answer (if any_method (method_hit D ro (rq_url req)) then 405 else 404) res, w)
      else run_found (ro_per_methods ro ! m) index
             (\<lambda>r. if ru_kind r = WebSocketRule then up r req (res, w)
                  else Some (None, plain_answer 404 res, w)) req res w)"

definition handle_full ::
    "(string \<Rightarrow> ('d \<times> nat) option) \<Rightarrow> ('d, 'w) router \<Rightarrow> crow_request \<Rightarrow> crow_response \<Rightarrow> 'w \<Rightarrow> 'w outcome" where
  "handle_full D ro req res w =
     (case handle_initial D ro req res w of
        (f, Some (None, res1, w1)) \<Rightarrow>
          if rr_rule_index (fr_result f) \<noteq> 0 then handle ro f req res1 w1 else Some (None, res1, w1)
      | (f, out) \<Rightarrow> out)"

end
