(* ===== verification/Crow_Dispatch_Props.thy ===== *)
theory Crow_Dispatch_Props
  imports Crow_Dispatch
begin

section \<open>A request runs the first rule that matches it\<close>

text \<open>
  The contract of the router for rules outside blueprints: validation succeeds, and a request is
  dispatched by the list of the rules of its method, in the order they were registered.
\<close>

subsection \<open>No blueprints\<close>

fun no_bp :: "trie_node \<Rightarrow> bool" where
  "no_bp (Node r b k p cs) \<longleftrightarrow> b = INVALID_BP_ID \<and> (\<forall>c \<in> set cs. no_bp c)"

lemma no_bp_iff: "no_bp n \<longleftrightarrow> nd_bp n = INVALID_BP_ID \<and> (\<forall>c \<in> set (nd_children n). no_bp c)"
  by (cases n) simp

lemma trie_add_no_bp:
  "no_bp n \<Longrightarrow> trie_add False bl b ru i s n = Some (Inr n') \<Longrightarrow> no_bp n'"
proof (induction "False" bl b ru i s n arbitrary: n' rule: trie_add.induct)
  case (1 bl b ru i s n)
  have leaf: "no_bp (Node ru (nd_bp n) k p (nd_children n))" for k p
    using 1(3) by (subst (asm) no_bp_iff) simp
  have upd: "no_bp (Node (nd_rule n) (nd_bp n) (nd_key n) (nd_param n)
      (case j of Some k \<Rightarrow> (nd_children n)[k := c] | None \<Rightarrow> nd_children n @ [c]))" if "no_bp c" for c j
    using 1(3) that by (subst (asm) no_bp_iff) (auto split: option.split dest: set_update_subsetD)
  have child: "no_bp (case j of Some k \<Rightarrow> nd_children n ! k | None \<Rightarrow> Node 0 INVALID_BP_ID key p [])"
    if "\<And>k. j = Some k \<Longrightarrow> k < length (nd_children n)" for j key p
    using 1(3) that by (subst (asm) no_bp_iff) (auto split: option.split)
  show ?case
  proof (cases s)
    case Nil
    with 1(4) leaf show ?thesis by (auto simp: trie_add.simps [of _ _ _ _ _ "[]"] split: if_splits)
  next
    case (Cons c r)
    show ?thesis
    proof (cases "c = CHR ''<''")
      case True
      from 1(4) True Cons obtain t name where t: "read_trait s = Some (t, name)"
        by (auto simp: trie_add.simps [of _ _ _ _ _ "CHR ''<'' # r"] split: option.splits)
      let ?j = "first_index (\<lambda>x. nd_param x = Some t) (nd_children n)"
      let ?child = "case ?j of Some k \<Rightarrow> nd_children n ! k | None \<Rightarrow> Node 0 INVALID_BP_ID '''' (Some t) []"
      from 1(4) True Cons t obtain c1 where c1:
        "trie_add False bl b ru (i + length name) (drop (length name) s) ?child = Some (Inr c1)"
        "n' = Node (nd_rule n) (nd_bp n) (nd_key n) (nd_param n)
          (case ?j of Some k \<Rightarrow> (nd_children n)[k := c1] | None \<Rightarrow> nd_children n @ [c1])"
        by (auto simp: trie_add.simps [of _ _ _ _ _ "CHR ''<'' # r"] Let_def split: option.splits sum.splits)
      have "no_bp c1"
        by (rule 1(1) [OF Cons True t refl refl refl refl _ c1(1)]) (rule child, auto)
      with c1(2) upd show ?thesis by simp
    next
      case False
      let ?j = "first_index (key_starts c) (nd_children n)"
      let ?child = "case ?j of Some k \<Rightarrow> nd_children n ! k | None \<Rightarrow> Node 0 INVALID_BP_ID [c] None []"
      from 1(4) False Cons obtain c1 where c1:
        "trie_add False bl b ru (i + 1) r ?child = Some (Inr c1)"
        "n' = Node (nd_rule n) (nd_bp n) (nd_key n) (nd_param n)
          (case ?j of Some k \<Rightarrow> (nd_children n)[k := c1] | None \<Rightarrow> nd_children n @ [c1])"
        by (auto simp: trie_add.simps [of _ _ _ _ _ "c # r"] Let_def split: option.splits sum.splits)
      let ?child' = "case ?j of Some k \<Rightarrow> nd_children n ! k
        | None \<Rightarrow> Node 0 (if False \<and> i = bl then b else INVALID_BP_ID) [c] None []"
      have eq: "?child' = ?child" by (simp split: option.split)
      have "no_bp ?child" by (rule child) auto
      then have "no_bp c1"
        by (rule 1(2) [OF Cons False refl refl refl, unfolded eq, OF _ c1(1)])
      with c1(2) upd show ?thesis by simp
    qed
  qed
qed

lemma Trie_add_no_bp:
  assumes "no_bp t" "Trie_add url i 0 INVALID_BP_ID t = Some (Inr t')"
  shows "no_bp t'"
proof -
  have "trie_add False 0 INVALID_BP_ID i 0 url t = Some (Inr t')" using assms(2) by (simp add: Trie_add_def)
  then show ?thesis by (rule trie_add_no_bp [OF assms(1)])
qed

lemma add_rules_no_bp: "no_bp t \<Longrightarrow> add_rules rs t = Some (Inr t') \<Longrightarrow> no_bp t'"
proof (induction rs t rule: add_rules.induct)
  case (2 url i rs t)
  then obtain t1 where t1: "Trie_add url i 0 INVALID_BP_ID t = Some (Inr t1)" "add_rules rs t1 = Some (Inr t')"
    by (auto split: option.splits sum.splits)
  from Trie_add_no_bp [OF 2(2) t1(1)] 2(1) [OF t1(1) refl] t1(2) show ?case by simp
qed simp

lemma optimizeNode_no_bp: "no_bp n \<Longrightarrow> no_bp (optimizeNode n)"
proof (induction n rule: optimizeNode.induct)
  case (1 r b k p cs)
  consider "cs = []" | r2 b2 k2 p2 cs2 where "cs \<noteq> []" "IsSimpleNode (Node r b k p cs)" "hd cs = Node r2 b2 k2 p2 cs2"
    | "cs \<noteq> []" "\<not> IsSimpleNode (Node r b k p cs)" by (cases "hd cs") blast
  then show ?case
  proof cases
    case 1
    with \<open>no_bp (Node r b k p cs)\<close> show ?thesis by (simp add: optimizeNode.simps)
  next
    case (2 r2 b2 k2 p2 cs2)
    have "no_bp (Node r2 b2 (k @ k2) p cs2)" using simple_merge [OF 2(2,1,3)] 1(3) by simp
    with 1(1) [OF 2(1,2,3)] 2 show ?thesis by (subst optimizeNode.simps) simp
  next
    case 3
    with 1(2) [OF 3] 1(3) show ?thesis by (simp add: optimizeNode.simps)
  qed
qed

lemma Trie_validate_no_bp: "no_bp t \<Longrightarrow> Trie_validate t = Inr t' \<Longrightarrow> no_bp t'"
  by (cases t) (auto simp: Trie_validate_def optimizeNode_no_bp split: if_splits)

lemma find_no_bp:
  "no_bp n \<Longrightarrow> bps = [] \<Longrightarrow> rr_blueprints (fst (find_node D n s q bps)) = [] \<and> snd (find_node D n s q bps) = []"
  "(\<forall>c \<in> set cs. no_bp c) \<Longrightarrow> bps = [] \<Longrightarrow> rr_blueprints found = [] \<Longrightarrow>
   rr_blueprints (fst (find_children D cs s q bps found fragment)) = [] \<and>
   snd (snd (find_children D cs s q bps found fragment)) = []"
proof (induction D n s q bps and D cs s q bps found fragment rule: find_node_find_children.induct)
  case (1 D r b k p cs s q bps)
  then show ?case by (cases "s = []") (auto split: prod.splits)
next
  case (3 D c cs s q bps found fragment)
  show ?case
  proof (cases "consume_node D c s q")
    case None
    with 3 show ?thesis by simp
  next
    case (Some p)
    obtain q1 s1 where p: "p = (q1, s1)" by fastforce
    have bp: "nd_bp c = INVALID_BP_ID" "no_bp c" using 3(4) by (auto simp: no_bp_iff [of c])
    obtain ret bps2 where f: "find_node D c s1 q1 (if nd_bp c \<noteq> INVALID_BP_ID then bps @ [nd_bp c] else bps) = (ret, bps2)"
      by fastforce
    have r: "rr_blueprints ret = []" "bps2 = []"
      using 3(2) [OF Some p [symmetric] refl] bp 3(5) f by auto
    then have "rr_blueprints (update_found ret found) = []" by (simp add: update_found_def)
    with 3(3) [OF Some p [symmetric] refl f [symmetric]] r 3(4) Some p f show ?thesis by simp
  qed
qed simp

lemma Trie_find_no_bp: "no_bp t \<Longrightarrow> rr_blueprints (Trie_find D t url) = []"
  by (simp add: Trie_find_def find_no_bp)


subsection \<open>The rules of a method\<close>

text \<open>
  What \<open>internal_add_rule_object\<close> adds for the rules of one method: each rule with its index, and
  the rule without its trailing slash with index 1.
\<close>

definition rules_for :: "nat \<Rightarrow> ('d, 'w) rule list \<Rightarrow> ('d, 'w) rule list" where
  "rules_for i rs = filter (\<lambda>r. i \<in> set (foreach_method (ru_methods r))) rs"

fun entries_from :: "nat \<Rightarrow> ('d, 'w) rule list \<Rightarrow> (string \<times> 16 word) list" where
  "entries_from k [] = []"
| "entries_from k (r # rs) =
     (ru_text r, word_of_nat k) #
     (if has_trailing_slash (ru_text r) then [(butlast (ru_text r), RULE_SPECIAL_REDIRECT_SLASH)] else []) @
     entries_from (Suc k) rs"

definition packed :: "('d, 'w) rule \<Rightarrow> ('d, 'w) rule" where
  "packed r = r\<lparr>ru_mw := mw_pack (ru_mw r)\<rparr>"

definition plain_rule :: "('d, 'w) rule \<Rightarrow> bool" where
  "plain_rule r \<longleftrightarrow> ru_upgrade r = None \<and> ru_kind r \<noteq> WebSocketRule \<and> ru_handler r \<noteq> None \<and> rule_ok (ru_text r) \<and>
     (has_trailing_slash (ru_text r) \<longrightarrow> rule_ok (butlast (ru_text r)))"

lemma add_rules_append:
  "add_rules (xs @ ys) t = bind_ro (add_rules xs t) (add_rules ys)"
proof (induction xs t rule: add_rules.induct)
  case (2 url i rs t)
  show ?case
    by (cases "Trie_add url i 0 INVALID_BP_ID t")
      (auto simp: 2 split: sum.split)
qed simp

lemma add_rules_bind:
  "add_rules ((url, i) # rs) t = bind_ro (Trie_add url i 0 INVALID_BP_ID t) (add_rules rs)"
  by (simp add: bind_ro_def)

lemma bind_ro_assoc: "bind_ro (bind_ro m f) g = bind_ro m (\<lambda>x. bind_ro (f x) g)"
  by (simp add: bind_ro_def split: option.split sum.split)

lemma add_to_method_entries:
  "add_to_method (ru_text r) r 0 INVALID_BP_ID pm =
     bind_ro (add_rules (entries_from (length (pm_rules pm)) [r]) (pm_trie pm))
       (\<lambda>t. Some (Inr \<lparr>pm_rules = pm_rules pm @ [Some r], pm_trie = t\<rparr>))"
  by (cases "has_trailing_slash (ru_text r)")
    (simp_all add: add_to_method_def Let_def add_rules_bind bind_ro_assoc del: add_rules.simps(2))

lemma fold_ro_update:
  fixes pms :: "'p list"
  assumes "distinct is" "\<forall>i \<in> set is. i < length pms \<and> f (pms ! i) = Some (Inr (g i))"
  shows "\<exists>pms'. fold_ro (\<lambda>i pms. bind_ro (f (pms ! i)) (\<lambda>pm. Some (Inr (pms[i := pm])))) is pms = Some (Inr pms') \<and>
    length pms' = length pms \<and> (\<forall>j < length pms. pms' ! j = (if j \<in> set is then g j else pms ! j))"
  using assms
proof (induction "is" arbitrary: pms)
  case (Cons i "is")
  have "\<forall>k \<in> set is. k < length (pms[i := g i]) \<and> f (pms[i := g i] ! k) = Some (Inr (g k))"
    using Cons.prems by (auto simp: nth_list_update)
  with Cons.IH [of "pms[i := g i]"] Cons.prems obtain pms' where
    "fold_ro (\<lambda>i pms. bind_ro (f (pms ! i)) (\<lambda>pm. Some (Inr (pms[i := pm])))) is (pms[i := g i]) = Some (Inr pms')"
    "length pms' = length pms" "\<forall>j < length pms. pms' ! j = (if j \<in> set is then g j else pms[i := g i] ! j)"
    by auto
  with Cons.prems show ?case by (auto simp: nth_list_update)
qed simp

lemma foreach_method_distinct: "distinct (foreach_method w)" "i \<in> set (foreach_method w) \<Longrightarrow> i < 34"
  by (simp_all add: foreach_method_bits)

lemma entries_from_append:
  "entries_from k (xs @ ys) = entries_from k xs @ entries_from (k + length xs) ys"
  by (induction k xs rule: entries_from.induct) simp_all

text \<open>Adding the rules one after the other leaves every method with its own.\<close>

lemma validate_add_rules:
  assumes "length pms = 34" "\<forall>r \<in> set rs. plain_rule r"
    "\<forall>i < 34. add_rules (entries_from (length (pm_rules (pms ! i))) (rules_for i rs)) (pm_trie (pms ! i)) = Some (Inr (t i))"
  shows "\<exists>pms'. fold_ro (validate_add [] 0 INVALID_BP_ID) rs pms = Some (Inr pms') \<and> length pms' = 34 \<and>
    (\<forall>i < 34. pms' ! i = \<lparr>pm_rules = pm_rules (pms ! i) @ map (Some \<circ> packed) (rules_for i rs), pm_trie = t i\<rparr>)"
  using assms
proof (induction rs arbitrary: pms)
  case Nil
  then show ?case by (simp add: rules_for_def)
next
  case (Cons r rs)
  let ?is = "foreach_method (ru_methods r)"
  have ready: "plain_rule r" using Cons.prems(2) by simp
  have v: "validate_add [] 0 INVALID_BP_ID r pms = internal_add_rule_object r 0 INVALID_BP_ID pms"
    using ready by (cases "ru_kind r") (auto simp: validate_add_def plain_rule_def upgrade_rule_def validate_rule_def
        rule_ok_def merge_front_def)
  have "\<forall>i \<in> set ?is. \<exists>u. add_rules (entries_from (length (pm_rules (pms ! i))) [r]) (pm_trie (pms ! i)) = Some (Inr u) \<and>
      add_rules (entries_from (Suc (length (pm_rules (pms ! i)))) (rules_for i rs)) u = Some (Inr (t i))"
  proof
    fix i assume i: "i \<in> set ?is"
    then have "i < 34" by (rule foreach_method_distinct)
    have "rules_for i (r # rs) = [r] @ rules_for i rs" using i by (simp add: rules_for_def)
    then have "add_rules (entries_from (length (pm_rules (pms ! i))) ([r] @ rules_for i rs)) (pm_trie (pms ! i)) = Some (Inr (t i))"
      using Cons.prems(3) \<open>i < 34\<close> by metis
    then show "\<exists>u. add_rules (entries_from (length (pm_rules (pms ! i))) [r]) (pm_trie (pms ! i)) = Some (Inr u) \<and>
      add_rules (entries_from (Suc (length (pm_rules (pms ! i)))) (rules_for i rs)) u = Some (Inr (t i))"
      unfolding entries_from_append add_rules_append by (auto simp: bind_ro_def split: option.splits sum.splits)
  qed
  then obtain u where u: "\<forall>i \<in> set ?is. add_rules (entries_from (length (pm_rules (pms ! i))) [r]) (pm_trie (pms ! i)) = Some (Inr (u i)) \<and>
      add_rules (entries_from (Suc (length (pm_rules (pms ! i)))) (rules_for i rs)) (u i) = Some (Inr (t i))"
    by metis
  let ?g = "\<lambda>i. \<lparr>pm_rules = pm_rules (pms ! i) @ [Some (packed r)], pm_trie = u i\<rparr>"
  have e: "entries_from k [packed r] = entries_from k [r]" for k by (simp add: packed_def)
  have "\<forall>i \<in> set ?is. i < length pms \<and> add_to_method (ru_text (packed r)) (packed r) 0 INVALID_BP_ID (pms ! i) = Some (Inr (?g i))"
    using u Cons.prems(1) foreach_method_distinct(2) unfolding add_to_method_entries e by fastforce
  from fold_ro_update [OF foreach_method_distinct(1) this] obtain pms1 where pms1:
    "internal_add_rule_object r 0 INVALID_BP_ID pms = Some (Inr pms1)" "length pms1 = 34"
    "\<forall>j < 34. pms1 ! j = (if j \<in> set ?is then ?g j else pms ! j)"
    using Cons.prems(1) by (auto simp: internal_add_rule_object_def packed_def Let_def)
  have "\<forall>i < 34. add_rules (entries_from (length (pm_rules (pms1 ! i))) (rules_for i rs)) (pm_trie (pms1 ! i)) = Some (Inr (t i))"
    using u pms1(3) Cons.prems(3) by (auto simp: rules_for_def)
  with Cons.IH [OF pms1(2)] Cons.prems(2) obtain pms2 where pms2:
    "fold_ro (validate_add [] 0 INVALID_BP_ID) rs pms1 = Some (Inr pms2)" "length pms2 = 34"
    "\<forall>i < 34. pms2 ! i = \<lparr>pm_rules = pm_rules (pms1 ! i) @ map (Some \<circ> packed) (rules_for i rs), pm_trie = t i\<rparr>"
    by auto
  with pms1 v show ?case by (auto simp: rules_for_def)
qed


subsection \<open>The route of a request\<close>

datatype ('d, 'w) route = No_route | Redirect_slash | Run_rule "('d, 'w) rule" "'d routing_params"

definition rule_match :: "(string \<Rightarrow> ('d \<times> nat) option) \<Rightarrow> string \<Rightarrow> string \<Rightarrow> 'd routing_params option" where
  "rule_match D t url = (case rule_pieces t of None \<Rightarrow> None | Some ps \<Rightarrow> match_rule D ps url empty_params)"

definition choose_route :: "(string \<Rightarrow> ('d \<times> nat) option) \<Rightarrow> ('d, 'w) rule list \<Rightarrow> string \<Rightarrow> ('d, 'w) route" where
  "choose_route D rs url =
     (if list_ex (\<lambda>r. has_trailing_slash (ru_text r) \<and> rule_match D (butlast (ru_text r)) url \<noteq> None) rs
      then Redirect_slash
      else (case find (\<lambda>r. rule_match D (ru_text r) url \<noteq> None) rs of
              Some r \<Rightarrow> Run_rule r (the (rule_match D (ru_text r) url))
            | None \<Rightarrow> No_route))"

lemma entries_from_iff:
  "(u, j) \<in> set (entries_from k rs) \<longleftrightarrow>
     (\<exists>i < length rs. u = ru_text (rs ! i) \<and> j = word_of_nat (k + i)) \<or>
     (\<exists>r \<in> set rs. has_trailing_slash (ru_text r) \<and> u = butlast (ru_text r) \<and> j = RULE_SPECIAL_REDIRECT_SLASH)"
proof (induction k rs rule: entries_from.induct)
  case (2 k r rs)
  have "(\<exists>i < length (r # rs). u = ru_text ((r # rs) ! i) \<and> j = word_of_nat (k + i)) \<longleftrightarrow>
      (u = ru_text r \<and> j = word_of_nat k) \<or> (\<exists>i < length rs. u = ru_text (rs ! i) \<and> j = word_of_nat (Suc k + i))"
    by (simp add: Ex_less_Suc2 ac_simps)
  with 2 show ?case by auto
qed simp

lemma unat_index: "i < 65536 \<Longrightarrow> unat (word_of_nat i :: 16 word) = i"
  by (simp add: unat_of_nat)

lemma index_less: "i < 65536 \<Longrightarrow> k < 65536 \<Longrightarrow> (word_of_nat i :: 16 word) \<le> word_of_nat k \<longleftrightarrow> i \<le> k"
  by (simp add: word_le_nat_alt unat_index)

lemma index_special:
  assumes "2 \<le> i" "i < 65536"
  shows "(word_of_nat i :: 16 word) \<noteq> 0" "\<not> (word_of_nat i :: 16 word) \<le> 1"
  using assms unat_index [OF assms(2)] by (auto simp: word_le_nat_alt)

lemma choose_route_best:
  assumes best: "best_of (\<lambda>i q. \<exists>(u, j) \<in> set (entries_from 2 rs). \<exists>ps. rule_pieces u = Some ps \<and> j = i \<and>
      match_rule D ps url empty_params = Some q) res"
    and len: "2 + length rs < 65536"
  shows "case choose_route D rs url of
      No_route \<Rightarrow> rr_rule_index res = 0
    | Redirect_slash \<Rightarrow> rr_rule_index res = RULE_SPECIAL_REDIRECT_SLASH
    | Run_rule r q \<Rightarrow> \<exists>i < length rs. rr_rule_index res = word_of_nat (2 + i) \<and> rs ! i = r \<and> rr_params res = q"
proof -
  define M where "M i q \<longleftrightarrow> (\<exists>(u, j) \<in> set (entries_from 2 rs). j = i \<and> rule_match D u url = Some q)" for i q
  have "(\<exists>ps. rule_pieces u = Some ps \<and> j = i \<and> match_rule D ps url empty_params = Some q) \<longleftrightarrow>
      j = i \<and> rule_match D u url = Some q" for u q and j i :: "16 word"
    by (auto simp: rule_match_def split: option.splits)
  then have "(\<lambda>i q. \<exists>(u, j) \<in> set (entries_from 2 rs). \<exists>ps. rule_pieces u = Some ps \<and> j = i \<and>
      match_rule D ps url empty_params = Some q) = M"
    by (intro ext) (simp add: M_def split_beta)
  with best have best: "best_of M res" by simp
  let ?red = "\<lambda>r. has_trailing_slash (ru_text r) \<and> rule_match D (butlast (ru_text r)) url \<noteq> None"
  have M_iff: "M j q \<longleftrightarrow> (\<exists>i < length rs. j = word_of_nat (2 + i) \<and> rule_match D (ru_text (rs ! i)) url = Some q) \<or>
      (\<exists>r \<in> set rs. has_trailing_slash (ru_text r) \<and> j = RULE_SPECIAL_REDIRECT_SLASH \<and>
         rule_match D (butlast (ru_text r)) url = Some q)" for j q
  proof -
    have "M j q \<longleftrightarrow> (\<exists>u. (u, j) \<in> set (entries_from 2 rs) \<and> rule_match D u url = Some q)"
      by (auto simp: M_def)
    then show ?thesis unfolding entries_from_iff by blast
  qed
  have idx: "i < length rs \<Longrightarrow> 2 \<le> 2 + i \<and> 2 + i < 65536" for i using len by simp
  show ?thesis
  proof (cases "list_ex ?red rs")
    case True
    then obtain r q where "r \<in> set rs" "has_trailing_slash (ru_text r)" "rule_match D (butlast (ru_text r)) url = Some q"
      by (auto simp: list_ex_iff)
    then have M1: "M RULE_SPECIAL_REDIRECT_SLASH q" unfolding M_iff by blast
    with best have "rr_rule_index res \<noteq> 0" "rr_rule_index res \<le> 1"
      by (auto simp: best_of_def RULE_SPECIAL_REDIRECT_SLASH_def split: if_splits)
    then have "rr_rule_index res = 1" by (simp add: word_le_nat_alt word_unat_eq_iff)
    with True show ?thesis by (simp add: choose_route_def RULE_SPECIAL_REDIRECT_SLASH_def)
  next
    case nored: False
    then have M_run: "M j q \<longleftrightarrow> (\<exists>i < length rs. j = word_of_nat (2 + i) \<and> rule_match D (ru_text (rs ! i)) url = Some q)" for j q
      unfolding M_iff by (auto simp: list_ex_iff)
    show ?thesis
    proof (cases "find (\<lambda>r. rule_match D (ru_text r) url \<noteq> None) rs")
      case None
      then have "\<not> M j q" for j q unfolding M_run find_None_iff by (auto dest: nth_mem)
      with best have "rr_rule_index res = 0" by (auto simp: best_of_def split: if_splits)
      with None nored show ?thesis by (simp add: choose_route_def)
    next
      case (Some r)
      then obtain i where i: "i < length rs" "rule_match D (ru_text (rs ! i)) url \<noteq> None" "r = rs ! i"
        "\<forall>j < i. rule_match D (ru_text (rs ! j)) url = None"
        by (auto simp: find_Some_iff)
      then obtain q where q: "rule_match D (ru_text (rs ! i)) url = Some q" by blast
      with i(1) have "M (word_of_nat (2 + i)) q" unfolding M_run by blast
      with best have nz: "rr_rule_index res \<noteq> 0" and le: "rr_rule_index res \<le> word_of_nat (2 + i)"
        and M: "M (rr_rule_index res) (rr_params res)"
        by (auto simp: best_of_def split: if_splits)
      from M obtain k where k: "k < length rs" "rr_rule_index res = word_of_nat (2 + k)"
        "rule_match D (ru_text (rs ! k)) url = Some (rr_params res)"
        unfolding M_run by blast
      with le idx i(1) have "k \<le> i" using index_less [of "2 + k" "2 + i"] by auto
      moreover have "\<not> k < i" using i(4) k(3) by auto
      ultimately have "k = i" by simp
      with k q i nored Some show ?thesis by (auto simp: choose_route_def)
    qed
  qed
qed


lemma rules_for_len: "2 + length rs < 65536 \<Longrightarrow> 2 + length (rules_for i rs) < 65536"
  unfolding rules_for_def
  by (rule le_less_trans [of _ "2 + length rs"]) (simp_all add: length_filter_le del: add_2_eq_Suc)

lemma entries_ok:
  assumes "\<forall>r \<in> set rs. plain_rule r" "2 + length rs < 65536"
  shows "\<forall>(url, i) \<in> set (entries_from 2 rs). rule_ok url \<and> i \<noteq> 0"
proof clarify
  fix u j assume "(u, j) \<in> set (entries_from 2 rs)"
  then show "rule_ok u \<and> j \<noteq> 0"
    unfolding entries_from_iff
  proof
    assume "\<exists>i < length rs. u = ru_text (rs ! i) \<and> j = word_of_nat (2 + i)"
    then obtain i where i: "i < length rs" "u = ru_text (rs ! i)" "j = word_of_nat (2 + i)" by blast
    then have "rule_ok u" using assms(1) nth_mem [OF i(1)] by (simp add: plain_rule_def)
    moreover have "j \<noteq> 0" unfolding i(3) using i(1) assms(2) by (intro index_special) simp_all
    ultimately show ?thesis by blast
  next
    assume "\<exists>r \<in> set rs. has_trailing_slash (ru_text r) \<and> u = butlast (ru_text r) \<and> j = RULE_SPECIAL_REDIRECT_SLASH"
    with assms(1) show ?thesis by (auto simp: plain_rule_def RULE_SPECIAL_REDIRECT_SLASH_def)
  qed
qed

lemma entries_from_Nil: "entries_from k rs = [] \<longleftrightarrow> rs = []"
  by (cases rs) auto

lemma validate_tries_map:
  assumes "\<forall>pm \<in> set pms. Trie_validate (pm_trie pm) = Inr (v pm)"
  shows "validate_tries pms = Some (Inr (map (\<lambda>pm. pm\<lparr>pm_trie := v pm\<rparr>) pms))"
proof -
  have "fold_ro (\<lambda>pm acc. case Trie_validate (pm_trie pm) of Inl e \<Rightarrow> Some (Inl e)
                | Inr tr \<Rightarrow> Some (Inr (acc @ [pm\<lparr>pm_trie := tr\<rparr>]))) pms acc =
      Some (Inr (acc @ map (\<lambda>pm. pm\<lparr>pm_trie := v pm\<rparr>) pms))" for acc
    using assms by (induction pms arbitrary: acc) simp_all
  then show ?thesis by (simp add: validate_tries_def)
qed

lemma add_all_rules: "fold router_new_rule rs ro = ro\<lparr>ro_all_rules := ro_all_rules ro @ rs\<rparr>"
  by (induction rs arbitrary: ro) (simp_all add: router_new_rule_def)

definition rules_ready :: "('d, 'w) rule list \<Rightarrow> bool" where
  "rules_ready rs \<longleftrightarrow> (\<forall>r \<in> set rs. plain_rule r) \<and> 2 + length rs < 65536 \<and>
     (\<forall>i < 34. distinct (map (rule_pieces \<circ> fst) (entries_from 2 (rules_for i rs))))"

text \<open>A validated router holds, for every method, the rules of this method and a tree for them.\<close>

definition finds_route :: "('d, 'w) rule list \<Rightarrow> ('d, 'w) route \<Rightarrow> 'd routing_result \<Rightarrow> bool" where
  "finds_route rs rt f \<longleftrightarrow>
     (case rt of
        No_route \<Rightarrow> rr_rule_index f = 0
      | Redirect_slash \<Rightarrow> rr_rule_index f = RULE_SPECIAL_REDIRECT_SLASH
      | Run_rule r q \<Rightarrow> \<exists>k < length rs. rr_rule_index f = word_of_nat (2 + k) \<and> rs ! k = r \<and> rr_params f = q)"

definition serves :: "('d, 'w) rule list \<Rightarrow> ('d, 'w) router \<Rightarrow> bool" where
  "serves rs ro \<longleftrightarrow> ro_catchall ro = None \<and> ro_blueprints ro = [] \<and> length (ro_per_methods ro) = 34 \<and>
     (\<forall>i < 34. pm_rules (ro_per_methods ro ! i) = [None, None] @ map (Some \<circ> packed) (rules_for i rs) \<and>
       (trie_is_empty (pm_trie (ro_per_methods ro ! i)) \<longleftrightarrow> rules_for i rs = []) \<and>
       (\<forall>D url. rr_blueprints (method_find D ro url i) = [] \<and>
         finds_route (rules_for i rs) (choose_route D (rules_for i rs) url) (method_find D ro url i)))"

lemma router_built:
  assumes "rules_ready rs"
  shows "\<exists>ro. router_validate (fold router_new_rule rs init_router) = Some (Inr ro) \<and> serves rs ro"
proof -
  let ?e = "\<lambda>i. entries_from 2 (rules_for i rs)"
  have plain: "\<forall>r \<in> set rs. plain_rule r" and len: "2 + length rs < 65536"
    and dist: "\<And>i. i < 34 \<Longrightarrow> distinct (map (rule_pieces \<circ> fst) (?e i))"
    using assms by (auto simp: rules_ready_def)
  have len_i: "2 + length (rules_for i rs) < 65536" for i
    using len by (rule rules_for_len)
  have ok: "\<forall>(url, j) \<in> set (?e i). rule_ok url \<and> j \<noteq> 0" for i
    by (rule entries_ok [OF _ len_i]) (use plain in \<open>simp add: rules_for_def\<close>)
  note find = add_rules_find [OF ok dist]
  have "\<forall>i. \<exists>t v. i < 34 \<longrightarrow> add_rules (?e i) empty_node = Some (Inr t) \<and> Trie_validate t = Inr v"
    using find by blast
  then obtain t v where tv: "\<And>i. i < 34 \<Longrightarrow> add_rules (?e i) empty_node = Some (Inr (t i)) \<and> Trie_validate (t i) = Inr (v i)"
    by metis
  let ?pms = "replicate 34 init_per_method :: ('a, 'b) per_method list"
  have "\<forall>i < 34. add_rules (entries_from (length (pm_rules (?pms ! i))) (rules_for i rs)) (pm_trie (?pms ! i)) = Some (Inr (t i))"
    using tv by (simp add: init_per_method_def numeral_2_eq_2)
  from validate_add_rules [OF _ plain this] obtain pms where pms:
    "fold_ro (validate_add [] 0 INVALID_BP_ID) rs ?pms = Some (Inr pms)" "length pms = 34"
    "\<And>i. i < 34 \<Longrightarrow> pms ! i = \<lparr>pm_rules = [None, None] @ map (Some \<circ> packed) (rules_for i rs), pm_trie = t i\<rparr>"
    by (auto simp: init_per_method_def)
  define w where "w pm = projr (Trie_validate (pm_trie pm))" for pm :: "('a, 'b) per_method"
  have "\<forall>pm \<in> set pms. Trie_validate (pm_trie pm) = Inr (w pm)"
    using pms(2,3) tv by (auto simp: w_def in_set_conv_nth)
  note vt = validate_tries_map [OF this]
  let ?ro = "init_router\<lparr>ro_all_rules := rs, ro_per_methods := map (\<lambda>pm. pm\<lparr>pm_trie := w pm\<rparr>) pms\<rparr>"
  have val: "router_validate (fold router_new_rule rs init_router) = Some (Inr ?ro)"
    using pms(1) vt by (simp add: router_validate_def add_all_rules init_router_def method_index_count)
  have pm: "ro_per_methods ?ro ! i =
      \<lparr>pm_rules = [None, None] @ map (Some \<circ> packed) (rules_for i rs), pm_trie = v i\<rparr>" if "i < 34" for i
    using that pms(2,3) tv by (simp add: w_def)
  have all: "(trie_is_empty (v i) \<longleftrightarrow> rules_for i rs = []) \<and> rr_blueprints (Trie_find D (v i) url) = [] \<and>
      finds_route (rules_for i rs) (choose_route D (rules_for i rs) url) (Trie_find D (v i) url)" if i: "i < 34" for i D url
  proof -
    have "no_bp (t i)"
      by (rule add_rules_no_bp [of empty_node]) (simp add: empty_node_def, use tv [OF i] in blast)
    then have bp: "no_bp (v i)"
      by (rule Trie_validate_no_bp) (use tv [OF i] in blast)
    have "trie_is_empty (v i) \<longleftrightarrow> rules_for i rs = []"
      using find [OF i, of D] tv [OF i] by (auto simp: entries_from_Nil)
    moreover have "best_of (\<lambda>k q. \<exists>(u, j) \<in> set (?e i). \<exists>ps. rule_pieces u = Some ps \<and> j = k \<and>
        match_rule D ps url empty_params = Some q) (Trie_find D (v i) url)"
      using find [OF i, of D] tv [OF i] by auto
    ultimately show ?thesis using Trie_find_no_bp [OF bp] choose_route_best [OF _ len_i]
      unfolding finds_route_def by blast
  qed
  have "serves rs ?ro"
    unfolding serves_def method_find_def using pm all pms(2) by (simp add: init_router_def)
  with val show ?thesis by blast
qed

subsection \<open>The contract\<close>

declare upt_rec_numeral [simp del]

text \<open>What becomes of a request, by the rules alone.\<close>

fun routed :: "('d, 'w) route \<Rightarrow> bool" where
  "routed No_route = False"
| "routed _ = True"

definition run_route :: "('d, 'w) route \<Rightarrow> crow_request \<Rightarrow> crow_response \<Rightarrow> 'w \<Rightarrow> 'w outcome \<Rightarrow> 'w outcome" where
  "run_route rt req res w otherwise =
     (case rt of
        No_route \<Rightarrow> otherwise
      | Redirect_slash \<Rightarrow> Some (None, redirect_answer req res, w)
      | Run_rule r q \<Rightarrow> catch_500 (handle_rule r req q (res, w)))"

definition route_outcome ::
    "(string \<Rightarrow> ('d \<times> nat) option) \<Rightarrow> ('d, 'w) rule list \<Rightarrow> crow_request \<Rightarrow> crow_response \<Rightarrow> 'w \<Rightarrow> 'w outcome" where
  "route_outcome D rs req res w =
     (let route = \<lambda>i. choose_route D (rules_for i rs) (rq_url req);
          some = any_method (\<lambda>i. routed (route i)); m = rq_method req in
      if m = InternalMethodCount then Some (None, res, w)
      else if m = Head then
        run_route (if routed (route (method_index Head)) then route (method_index Head) else route (method_index Get))
          req (res\<lparr>rs_skip_body := True\<rparr>) w (Some (None, plain_answer 404 res, w))
      else if m = Options then
        (if rq_url req = ''/*'' then
           Some (None, options_answer (allow_header (\<lambda>i. rules_for i rs \<noteq> [])) res, w)
         else if some then Some (None, options_answer (allow_header (\<lambda>i. routed (route i))) res, w)
         else Some (None, plain_answer 404 res, w))
      else
        run_route (route (method_index m)) req res w
          (Some (None, end_response (res\<lparr>rs_code := (if some then 405 else 404)\<rparr>), w)))"

lemma allow_header_cong:
  assumes "\<And>i. i < 34 \<Longrightarrow> f i = g i"
  shows "allow_header f = allow_header g"
proof -
  have "map (\<lambda>i. if i \<noteq> method_index Head \<and> f i then method_name (all_methods ! i) @ '', '' else '''') [0..<34] =
      map (\<lambda>i. if i \<noteq> method_index Head \<and> g i then method_name (all_methods ! i) @ '', '' else '''') [0..<34]"
    using assms by (intro map_cong) auto
  then show ?thesis unfolding allow_header_def method_index_count by (simp only:)
qed

lemma any_method_cong: "(\<And>i. i < 34 \<Longrightarrow> f i = g i) \<Longrightarrow> any_method f = any_method g"
  unfolding any_method_def method_index_count by (rule list_ex_cong) simp_all

lemma method_index_lt: "m \<noteq> InternalMethodCount \<Longrightarrow> method_index m < 34"
  by (cases m) (simp_all add: method_index_def all_methods_def)

lemma handle_packed: "handle_rule (packed r) = handle_rule r"
  by (simp add: handle_rule_def packed_def fun_eq_iff)

lemma finds_route_hit:
  assumes "finds_route rs rt f" "2 + length rs < 65536"
  shows "rr_rule_index f \<noteq> 0 \<longleftrightarrow> routed rt"
proof (cases rt)
  case (Run_rule r q)
  with assms(1) obtain k where k: "k < length rs" "rr_rule_index f = word_of_nat (2 + k)"
    by (auto simp: finds_route_def)
  have "(word_of_nat (2 + k) :: 16 word) \<noteq> 0"
    by (rule index_special(1)) (use assms(2) k(1) in simp_all)
  with k(2) Run_rule show ?thesis by (simp only: routed.simps simp_thms)
qed (use assms(1) in \<open>simp_all add: finds_route_def RULE_SPECIAL_REDIRECT_SLASH_def\<close>)

lemma handle_route:
  assumes "m \<noteq> InternalMethodCount" "length (ro_per_methods ro) = 34" "2 + length rs < 65536"
    "pm_rules (ro_per_methods ro ! method_index m) = [None, None] @ map (Some \<circ> packed) rs"
    "finds_route rs rt f" "routed rt"
  shows "handle ro \<lparr>fr_result = f, fr_method = Some m\<rparr> req res w = run_route rt req res w other"
proof (cases rt)
  case No_route
  with assms(6) show ?thesis by simp
next
  case Redirect_slash
  with assms method_index_lt [OF assms(1)] show ?thesis
    by (simp add: finds_route_def handle_def run_found_def run_route_def RULE_SPECIAL_REDIRECT_SLASH_def)
next
  case (Run_rule r q)
  with assms(5) obtain k where k: "k < length rs" "rr_rule_index f = word_of_nat (2 + k)" "rs ! k = r" "rr_params f = q"
    by (auto simp: finds_route_def)
  have u: "unat (word_of_nat (2 + k) :: 16 word) = 2 + k" using k(1) assms(3) by (intro unat_index) simp
  have n1: "(word_of_nat (2 + k) :: 16 word) \<noteq> RULE_SPECIAL_REDIRECT_SLASH"
  proof
    assume "(word_of_nat (2 + k) :: 16 word) = RULE_SPECIAL_REDIRECT_SLASH"
    with u have "unat RULE_SPECIAL_REDIRECT_SLASH = 2 + k" by (simp only:)
    then show False by (simp add: RULE_SPECIAL_REDIRECT_SLASH_def)
  qed
  have "pm_rules (ro_per_methods ro ! method_index m) ! (2 + k) = Some (packed r)"
    using assms(4) k(1,3) by simp
  with k u n1 assms(2,4) method_index_lt [OF assms(1)] Run_rule show ?thesis
    by (simp add: handle_def run_found_def run_route_def handle_packed del: add_2_eq_Suc of_nat_add)
qed

lemma router_outcome:
  assumes "rules_ready rs"
  shows "\<exists>ro. router_validate (fold router_new_rule rs init_router) = Some (Inr ro) \<and>
    (\<forall>D req res w. handle_full D ro req res w = route_outcome D rs req res w)"
proof -
  obtain ro where val: "router_validate (fold router_new_rule rs init_router) = Some (Inr ro)" and ro: "serves rs ro"
    using router_built [OF assms] by blast
  have "handle_full D ro req res w = route_outcome D rs req res w" for D req res w
  proof -
    let ?m = "rq_method req"
    let ?url = "rq_url req"
    let ?route = "\<lambda>i. choose_route D (rules_for i rs) ?url"
    have len: "2 + length (rules_for i rs) < 65536" for i
      by (rule rules_for_len) (use assms in \<open>simp add: rules_ready_def\<close>)
    have sv: "length (ro_per_methods ro) = 34"
      "i < 34 \<Longrightarrow> pm_rules (ro_per_methods ro ! i) = [None, None] @ map (Some \<circ> packed) (rules_for i rs)"
      "i < 34 \<Longrightarrow> finds_route (rules_for i rs) (?route i) (method_find D ro ?url i)"
      "i < 34 \<Longrightarrow> rr_blueprints (method_find D ro ?url i) = []"
      "i < 34 \<Longrightarrow> trie_is_empty (pm_trie (ro_per_methods ro ! i)) \<longleftrightarrow> rules_for i rs = []" for i
      using ro unfolding serves_def by blast+
    have hit: "method_hit D ro ?url i \<longleftrightarrow> routed (?route i)" if "i < 34" for i
      unfolding method_hit_def by (rule finds_route_hit [OF sv(3) [OF that] len])
    have some: "any_method (method_hit D ro ?url) = any_method (\<lambda>i. routed (?route i))"
      by (rule any_method_cong) (rule hit)
    have run: "handle ro \<lparr>fr_result = method_find D ro ?url (method_index m), fr_method = Some m\<rparr> req res' w =
        run_route (?route (method_index m)) req res' w other"
      if "m \<noteq> InternalMethodCount" "routed (?route (method_index m))" for m res' other
      using handle_route [OF that(1) sv(1) len sv(2) sv(3) that(2)] method_index_lt [OF that(1)] by blast
    note defs = handle_full_def handle_initial_def Let_def method_index_count route_outcome_def
    consider "?m = InternalMethodCount" | "?m = Head" | "?m = Options" "?url = ''/*''" | "?m = Options" "?url \<noteq> ''/*''"
      | "?m \<notin> {InternalMethodCount, Head, Options}" by blast
    then show ?thesis
    proof cases
      case 1
      then show ?thesis by (simp add: defs no_route_def)
    next
      case 2
      have lt: "method_index Head < 34" "method_index Get < 34" by (simp_all add: method_index_lt)
      have no: "\<not> routed (?route (method_index Get)) \<Longrightarrow> ?route (method_index Get) = No_route"
        by (cases "?route (method_index Get)") simp_all
      show ?thesis
        using 2 lt hit [OF lt(1)] hit [OF lt(2)] run [of Head] run [of Get] no
        by (auto simp: defs method_hit_def run_route_def)
    next
      case 3
      have "allow_header (\<lambda>i. \<not> trie_is_empty (pm_trie (ro_per_methods ro ! i))) = allow_header (\<lambda>i. rules_for i rs \<noteq> [])"
        by (rule allow_header_cong) (simp add: sv(5))
      with 3 show ?thesis by (simp add: defs no_route_def method_index_def all_methods_def)
    next
      case 4
      have "allow_header (method_hit D ro ?url) = allow_header (\<lambda>i. routed (?route i))"
        by (rule allow_header_cong) (simp add: hit)
      with 4 some show ?thesis by (simp add: defs no_route_def method_index_def all_methods_def)
    next
      case 5
      then have lt: "method_index ?m < 34" by (simp add: method_index_lt)
      have "rr_blueprints (method_find D ro ?url (method_index ?m)) = []"
        by (rule sv(4) [OF lt])
      moreover have "get_found_bp (ro_blueprints ro) [] (ro_blueprints ro) [] 0 = Some []"
        by (subst get_found_bp.simps) simp
      moreover have ctx: "ro_catchall ro = None" "ro_blueprints ro = []" using ro by (simp_all add: serves_def)
      moreover have idx: "rr_rule_index (method_find D ro ?url (method_index ?m)) \<noteq> 0 \<longleftrightarrow> routed (?route (method_index ?m))"
        using hit [OF lt] by (simp add: method_hit_def)
      ultimately show ?thesis
      proof (cases "routed (?route (method_index ?m))")
        case True
        with 5 lt idx run [of ?m] show ?thesis by (simp add: defs)
      next
        case False
        then have "?route (method_index ?m) = No_route" by (cases "?route (method_index ?m)") simp_all
        with 5 lt idx some ctx \<open>rr_blueprints _ = []\<close> \<open>get_found_bp _ [] _ [] 0 = Some []\<close> show ?thesis
          by (simp add: defs run_route_def get_error_def)
      qed
    qed
  qed
  with val show ?thesis by blast
qed

text \<open>
  C25. Dispatch: for rules that are complete and whose patterns differ within each method, the
  router is built without an error, and then every request is answered as the list of the rules
  says: the first rule of the request's method that matches the URL runs (an exception becomes a
  500), a URL that only lacks a trailing slash is redirected, a HEAD request falls back on the GET
  rules, an OPTIONS request is told the methods, and otherwise the answer is 405 when a rule of
  another method matches and 404 when none does.
\<close>

theorem router_dispatches:
  assumes "rules_ready rs"
  shows "\<exists>ro. router_validate (fold router_new_rule rs init_router) = Some (Inr ro) \<and>
    (\<forall>D req res w. handle_full D ro req res w = route_outcome D rs req res w)"
  using router_outcome [OF assms] .

end
