(* ===== verification/Tasker.thy ===== *)
theory Tasker
  imports Json_Api Slots "HOL-Library.Word"
begin

section \<open>The task server: \<open>group_clients\<close> and \<open>tasker_manager\<close>\<close>

text \<open>
  The model of \<open>tasker_manager.h\<close> and \<open>tasker_manager.cpp\<close>. A tasker keeps one
  \<open>group_clients\<close> per group name; a group keeps the clients that have polled it and the tasks
  (\<open>event\<close>) queued for it. Every operation of \<open>tasker_manager\<close> holds its recursive mutex from
  its first to its last statement (see \<open>Mutex\<close>), so an operation is one function from the
  state before to the state after. The clock readings an operation makes are arguments; the
  hash function of OpenSSL is the parameter \<open>H\<close>, the JSON library the parameter \<open>J\<close>. Log
  output is not part of the state.
\<close>

subsection \<open>State\<close>

record client =
  cl_hash_worker :: string
  cl_group :: string
  cl_busy :: bool
  cl_last_update :: bool

record 'j event =
  ev_hash_worker :: string
  ev_hash_event :: string
  ev_json :: 'j
  ev_count_restart :: int
  ev_busy :: bool
  ev_process :: bool

record 'j group_clients =
  gc_clients :: "client list"
  gc_events :: "'j event list"
  gc_group :: string
  gc_server_hash :: string

record 'j tasker_manager =
  name_server :: string
  last_check_client :: int
  tm_server_hash :: string
  clients_group :: "'j group_clients list"

text \<open>What the calls to \<open>time\<close> and \<open>clock\<close> inside one operation return, in their order.\<close>

record clocks =
  clk_client :: int      \<comment> \<open>\<open>std::time\<close> in \<open>get_new_client\<close>\<close>
  clk_time :: int        \<comment> \<open>\<open>time\<close> in \<open>generate_hash_event\<close>\<close>
  clk_clock :: int       \<comment> \<open>\<open>clock\<close> in \<open>generate_hash_event\<close>\<close>

definition default_client :: client where
  "default_client =
     \<lparr>cl_hash_worker = '''', cl_group = '''', cl_busy = False, cl_last_update = False\<rparr>"

definition default_event :: "'j json_lib \<Rightarrow> 'j event" where
  "default_event J =
     \<lparr>ev_hash_worker = '''', ev_hash_event = '''', ev_json = j_null J, ev_count_restart = 0,
      ev_busy = False, ev_process = False\<rparr>"

definition init_client :: "client \<Rightarrow> client" where
  "init_client cl =
     cl\<lparr>cl_hash_worker := '''', cl_group := '''', cl_busy := False, cl_last_update := False\<rparr>"

definition init_event :: "'j json_lib \<Rightarrow> 'j event \<Rightarrow> 'j event" where
  "init_event J ev =
     ev\<lparr>ev_hash_worker := '''', ev_hash_event := '''', ev_busy := False,
        ev_json := j_clear J (ev_json ev), ev_count_restart := 0, ev_process := False\<rparr>"

subsection \<open>Task ids\<close>

definition hex_digit :: "nat \<Rightarrow> char" where
  "hex_digit d = (if d < 10 then char_of (48 + d) else char_of (87 + d))"

definition hex_byte :: "8 word \<Rightarrow> string" where
  "hex_byte b = [hex_digit (unat b div 16), hex_digit (unat b mod 16)]"

definition sha256 :: "(string \<Rightarrow> 8 word list) \<Rightarrow> string \<Rightarrow> string" where
  "sha256 H input = concat (map hex_byte (H input))"

definition generate_hash_event ::
    "(string \<Rightarrow> 8 word list) \<Rightarrow> clocks \<Rightarrow> 'j group_clients \<Rightarrow> string \<Rightarrow> string \<Rightarrow> string" where
  "generate_hash_event H c g strindex count_restart =
     sha256 H (gc_server_hash g @ gc_group g @ to_string (clk_time c) @ strindex @
               to_string (clk_clock c) @ count_restart)"

subsection \<open>The operations of \<open>group_clients\<close>\<close>

definition new_group_clients :: "'j json_lib \<Rightarrow> 'j group_clients" where
  "new_group_clients J =
     \<lparr>gc_clients = replicate 25 default_client, gc_events = replicate 100 (default_event J),
      gc_group = '''', gc_server_hash = ''''\<rparr>"

text \<open>
  The move constructor initialises \<open>server_hash\<close> from itself, the member under construction,
  and not from \<open>other.server_hash\<close>: the moved-to object has an empty one.
\<close>

definition move_group_clients :: "'j group_clients \<Rightarrow> 'j group_clients" where
  "move_group_clients other =
     \<lparr>gc_clients = gc_clients other, gc_events = gc_events other,
      gc_group = gc_group other, gc_server_hash = ''''\<rparr>"

definition set_group :: "string \<Rightarrow> 'j group_clients \<Rightarrow> 'j group_clients" where
  "set_group name g = g\<lparr>gc_group := name\<rparr>"

definition gc_init :: "string \<Rightarrow> 'j group_clients \<Rightarrow> 'j group_clients" where
  "gc_init server_hash g = g\<lparr>gc_server_hash := server_hash\<rparr>"

definition get_group :: "'j group_clients \<Rightarrow> string" where
  "get_group g = gc_group g"

definition check_client :: "string \<Rightarrow> 'j group_clients \<Rightarrow> bool" where
  "check_client hash_worker g \<longleftrightarrow>
     list_ex (\<lambda>cl. cl_busy cl \<and> cl_hash_worker cl = hash_worker) (gc_clients g)"

definition gc_get_new_client ::
    "clocks \<Rightarrow> string \<Rightarrow> 'j group_clients \<Rightarrow> client \<times> 'j group_clients" where
  "gc_get_new_client c hash_worker g =
     (let cl = \<lparr>cl_hash_worker = hash_worker, cl_group = gc_group g, cl_busy = True,
                cl_last_update = (clk_client c \<noteq> 0)\<rparr>
      in case first_index (\<lambda>s. \<not> cl_busy s) (gc_clients g) of
           Some i \<Rightarrow> (cl, g\<lparr>gc_clients := (gc_clients g)[i := cl]\<rparr>)
         | None \<Rightarrow> (cl, g\<lparr>gc_clients := gc_clients g @ [cl]\<rparr>))"

text \<open>The guard every operation below starts with.\<close>

definition ensure_client :: "clocks \<Rightarrow> string \<Rightarrow> 'j group_clients \<Rightarrow> 'j group_clients" where
  "ensure_client c hash_worker g =
     (if \<not> check_client hash_worker g then snd (gc_get_new_client c hash_worker g) else g)"

definition gc_start_event ::
    "clocks \<Rightarrow> string \<Rightarrow> string \<Rightarrow> 'j group_clients \<Rightarrow> int \<times> 'j group_clients" where
  "gc_start_event c hash_worker event_id g0 =
     (let g = ensure_client c hash_worker g0 in
      case first_index (\<lambda>e. ev_hash_event e = event_id) (gc_events g) of
        None \<Rightarrow> (-3, g)
      | Some i \<Rightarrow>
          if ev_process (gc_events g ! i) then (-2, g)
          else (0, g\<lparr>gc_events := (gc_events g)[i := (gc_events g ! i)\<lparr>ev_process := True\<rparr>]\<rparr>))"

definition gc_clear_event ::
    "(string \<Rightarrow> 8 word list) \<Rightarrow> clocks \<Rightarrow> string \<Rightarrow> string \<Rightarrow> 'j group_clients \<Rightarrow>
     int \<times> 'j group_clients" where
  "gc_clear_event H c hash_worker event_id g0 =
     (let g = ensure_client c hash_worker g0 in
      case first_index (\<lambda>e. ev_hash_event e = event_id) (gc_events g) of
        None \<Rightarrow> (-2, g)
      | Some i \<Rightarrow>
          if ev_process (gc_events g ! i) then
            let e = gc_events g ! i;
                count = ev_count_restart e + 1;
                h = generate_hash_event H c g (dec_nat i) (to_string count)
            in (0, g\<lparr>gc_events := (gc_events g)[i := e\<lparr>ev_count_restart := count,
                       ev_hash_event := h, ev_process := False\<rparr>]\<rparr>)
          else (0, g))"

definition gc_end_event ::
    "'j json_lib \<Rightarrow> clocks \<Rightarrow> string \<Rightarrow> string \<Rightarrow> 'j group_clients \<Rightarrow> int \<times> 'j group_clients" where
  "gc_end_event J c hash_worker event_id g0 =
     (let g = ensure_client c hash_worker g0 in
      case first_index (\<lambda>e. ev_hash_event e = event_id) (gc_events g) of
        None \<Rightarrow> (-2, g)
      | Some i \<Rightarrow>
          (0, g\<lparr>gc_events := (gc_events g)[i := init_event J (gc_events g ! i)]\<rparr>))"

text \<open>
  In \<open>add_new_event\<close> the index of a reused slot is written in decimal, but a new slot's index
  is assigned to the string as a character (\<open>strindex = events.size()\<close>).
\<close>

definition gc_add_new_event ::
    "(string \<Rightarrow> 8 word list) \<Rightarrow> clocks \<Rightarrow> string \<Rightarrow> 'j event \<Rightarrow> 'j group_clients \<Rightarrow>
     int \<times> 'j group_clients" where
  "gc_add_new_event H c hash_worker ev0 g0 =
     (let g = ensure_client c hash_worker g0; ev = ev0\<lparr>ev_busy := True\<rparr>;
          hash = (\<lambda>strindex. generate_hash_event H c g strindex (to_string (ev_count_restart ev)))
      in case first_index (\<lambda>e. \<not> ev_busy e) (gc_events g) of
           Some i \<Rightarrow>
             (0, g\<lparr>gc_events := (gc_events g)[i := ev\<lparr>ev_hash_event := hash (dec_nat i)\<rparr>]\<rparr>)
         | None \<Rightarrow>
             (0, g\<lparr>gc_events := gc_events g @
                     [ev\<lparr>ev_hash_event := hash [char_of (length (gc_events g))]\<rparr>]\<rparr>))"

text \<open>
  \<open>get_events_json\<close>: the record of one task is the size and the text of its id object, the
  size and the text of its \<open>meta\<close>, the size and the text of its \<open>data\<close> when it has one, and a
  line feed (the \<open>+ "\0"\<close> of the source appends the empty string). \<open>json_id\<close> is the object the
  loop reuses.
\<close>

definition event_record :: "'j json_lib \<Rightarrow> 'j \<Rightarrow> 'j event \<Rightarrow> 'j event \<times> ('j \<times> string) result" where
  "event_record J json_id e =
     (case j_assign J json_id [K ''id''] (j_str J (ev_hash_event e)) of
        Inl x \<Rightarrow> (e, Inl x)
      | Inr json_id' \<Rightarrow>
     (case dump J json_id' of
        Inl x \<Rightarrow> (e, Inl x)
      | Inr str_id \<Rightarrow>
     (case j_index J (ev_json e) (K ''meta'') of
        None \<Rightarrow> (e, Inl Json_type_error)
      | Some (js, meta) \<Rightarrow>
     (case dump J meta of
        Inl x \<Rightarrow> (e\<lparr>ev_json := js\<rparr>, Inl x)
      | Inr str_meta \<Rightarrow>
          let respon = dec_nat (length str_id) @ str_id @ dec_nat (length str_meta) @ str_meta in
          if j_contains J js ''data'' then
            (case j_index J js (K ''data'') of
               None \<Rightarrow> (e\<lparr>ev_json := js\<rparr>, Inl Json_type_error)
             | Some (js', data) \<Rightarrow>
            (case dump J data of
               Inl x \<Rightarrow> (e\<lparr>ev_json := js'\<rparr>, Inl x)
             | Inr str_data \<Rightarrow>
                 (e\<lparr>ev_json := js'\<rparr>,
                  Inr (json_id', respon @ dec_nat (length str_data) @ str_data @ [LF]))))
          else (e\<lparr>ev_json := js\<rparr>, Inr (json_id', respon @ [LF]))))))"

fun serialize_events ::
    "'j json_lib \<Rightarrow> 'j \<Rightarrow> 'j event list \<Rightarrow> string \<Rightarrow> 'j event list \<times> string result" where
  "serialize_events J json_id [] respon = ([], Inr respon)"
| "serialize_events J json_id (e # es) respon =
     (if ev_busy e \<and> \<not> ev_process e then
        (case event_record J json_id e of
           (e', Inl x) \<Rightarrow> (e' # es, Inl x)
         | (e', Inr (json_id', rec)) \<Rightarrow>
             (case serialize_events J json_id' es (respon @ rec) of (es', r) \<Rightarrow> (e' # es', r)))
      else (case serialize_events J json_id es respon of (es', r) \<Rightarrow> (e # es', r)))"

definition gc_get_events_json ::
    "'j json_lib \<Rightarrow> clocks \<Rightarrow> string \<Rightarrow> 'j group_clients \<Rightarrow> string result \<times> 'j group_clients" where
  "gc_get_events_json J c hash_worker g0 =
     (let g = ensure_client c hash_worker g0 in
      case j_assign J (j_null J) [K ''id''] (j_str J ''0'') of
        Inl x \<Rightarrow> (Inl x, g)
      | Inr json_id \<Rightarrow>
          (case serialize_events J json_id (gc_events g) '''' of
             (es, Inl x) \<Rightarrow> (Inl x, g\<lparr>gc_events := es\<rparr>)
           | (es, Inr respon) \<Rightarrow>
               (Inr (if respon = '''' then ''{}'' else respon), g\<lparr>gc_events := es\<rparr>)))"

subsection \<open>The operations of \<open>tasker_manager\<close>\<close>

definition gethash :: "(string \<Rightarrow> 8 word list) \<Rightarrow> int \<Rightarrow> string" where
  "gethash H now = sha256 H (to_string now)"

definition new_tasker_manager :: "(string \<Rightarrow> 8 word list) \<Rightarrow> int \<Rightarrow> int \<Rightarrow> 'j tasker_manager" where
  "new_tasker_manager H now now' =
     \<lparr>name_server = ''tasker'', last_check_client = now', tm_server_hash = gethash H now,
      clients_group = []\<rparr>"

definition find_group :: "string \<Rightarrow> 'j tasker_manager \<Rightarrow> nat option" where
  "find_group name tm = first_index (\<lambda>g. get_group g = name) (clients_group tm)"

definition get_server_hash :: "'j tasker_manager \<Rightarrow> string" where
  "get_server_hash tm = tm_server_hash tm"

text \<open>
  The block that \<open>get_new_client\<close>, \<open>get_events_json\<close> and \<open>add_new_event\<close> share: the index of
  the group, which is created at the end of the vector when there is none.
\<close>

definition ensure_group ::
    "'j json_lib \<Rightarrow> string \<Rightarrow> 'j tasker_manager \<Rightarrow> nat \<times> 'j tasker_manager" where
  "ensure_group J name tm =
     (case find_group name tm of
        Some i \<Rightarrow> (i, tm)
      | None \<Rightarrow>
          let gr = gc_init (tm_server_hash tm) (set_group name (new_group_clients J));
              gs = clients_group tm @ [move_group_clients gr]
          in (length gs - 1, tm\<lparr>clients_group := gs\<rparr>))"

definition put_group :: "nat \<Rightarrow> 'j group_clients \<Rightarrow> 'j tasker_manager \<Rightarrow> 'j tasker_manager" where
  "put_group i g tm = tm\<lparr>clients_group := (clients_group tm)[i := g]\<rparr>"

definition tm_get_new_client ::
    "'j json_lib \<Rightarrow> clocks \<Rightarrow> string \<Rightarrow> string \<Rightarrow> 'j tasker_manager \<Rightarrow>
     client \<times> 'j tasker_manager" where
  "tm_get_new_client J c hash_worker name tm0 =
     (let (i, tm) = ensure_group J name tm0;
          (cl, g) = gc_get_new_client c hash_worker (clients_group tm ! i)
      in (cl, put_group i g tm))"

definition tm_get_events_json ::
    "'j json_lib \<Rightarrow> clocks \<Rightarrow> string \<Rightarrow> string \<Rightarrow> 'j tasker_manager \<Rightarrow>
     string result \<times> 'j tasker_manager" where
  "tm_get_events_json J c name hash_worker tm0 =
     (let (i, tm) = ensure_group J name tm0;
          (ev, g) = gc_get_events_json J c hash_worker (clients_group tm ! i)
      in (ev, put_group i g tm))"

definition tm_start_event ::
    "'j json_lib \<Rightarrow> clocks \<Rightarrow> string \<Rightarrow> string \<Rightarrow> string \<Rightarrow> 'j tasker_manager \<Rightarrow>
     'j result \<times> 'j tasker_manager" where
  "tm_start_event J c name hash_worker event_id tm =
     (case j_assign J (j_null J) [K ''$status''] (j_int J (-1)) of
        Inl x \<Rightarrow> (Inl x, tm)
      | Inr res \<Rightarrow>
          (case find_group name tm of
             None \<Rightarrow> (Inr res, tm)
           | Some i \<Rightarrow>
               let (s, g) = gc_start_event c hash_worker event_id (clients_group tm ! i)
               in (j_assign J res [K ''$status''] (j_int J s), put_group i g tm)))"

definition tm_clear_event ::
    "'j json_lib \<Rightarrow> (string \<Rightarrow> 8 word list) \<Rightarrow> clocks \<Rightarrow> string \<Rightarrow> string \<Rightarrow> string \<Rightarrow>
     'j tasker_manager \<Rightarrow> 'j result \<times> 'j tasker_manager" where
  "tm_clear_event J H c name hash_worker event_id tm =
     (case j_assign J (j_null J) [K ''$status''] (j_int J (-1)) of
        Inl x \<Rightarrow> (Inl x, tm)
      | Inr res \<Rightarrow>
          (case find_group name tm of
             None \<Rightarrow> (Inr res, tm)
           | Some i \<Rightarrow>
               let (s, g) = gc_clear_event H c hash_worker event_id (clients_group tm ! i)
               in (j_assign J res [K ''$status''] (j_int J s), put_group i g tm)))"

definition tm_end_event ::
    "'j json_lib \<Rightarrow> clocks \<Rightarrow> string \<Rightarrow> string \<Rightarrow> string \<Rightarrow> 'j tasker_manager \<Rightarrow>
     'j result \<times> 'j tasker_manager" where
  "tm_end_event J c name hash_worker event_id tm =
     (case j_assign J (j_null J) [K ''$status''] (j_int J (-1)) of
        Inl x \<Rightarrow> (Inl x, tm)
      | Inr res \<Rightarrow>
          (case find_group name tm of
             None \<Rightarrow> (Inr res, tm)
           | Some i \<Rightarrow>
               let (s, g) = gc_end_event J c hash_worker event_id (clients_group tm ! i)
               in (j_assign J res [K ''$status''] (j_int J s), put_group i g tm)))"

text \<open>
  The loop of \<open>add_new_event\<close> over \<open>meta.$list_servers\<close>: where the entry's name is this
  server's, the group is the name of the next entry, or of the entry itself when it is the
  last one. The loop has no \<open>break\<close>, so the last match decides.
\<close>

fun route_scan ::
    "'j json_lib \<Rightarrow> string \<Rightarrow> nat \<Rightarrow> nat list \<Rightarrow> 'j \<Rightarrow> string \<Rightarrow> ('j \<times> string) result" where
  "route_scan J name n_list [] json grp = Inr (json, grp)"
| "route_scan J name n_list (i # is) json grp =
     (case j_path J json [K ''meta'', K ''$list_servers'', N i, K ''name''] of
        Inl x \<Rightarrow> Inl x
      | Inr (json1, v) \<Rightarrow>
          if j_eq_str J v name then
            let n = (if i + 1 \<noteq> n_list then i + 1 else i) in
            (case j_path J json1 [K ''meta'', K ''$list_servers'', N n, K ''name''] of
               Inl x \<Rightarrow> Inl x
             | Inr (json2, w) \<Rightarrow>
                 (case get_string J w of
                    Inl x \<Rightarrow> Inl x
                  | Inr s \<Rightarrow> route_scan J name n_list is json2 s))
          else route_scan J name n_list is json1 grp)"

definition route_event :: "'j json_lib \<Rightarrow> string \<Rightarrow> 'j \<Rightarrow> ('j \<times> string) result" where
  "route_event J name json =
     (case j_path J json [K ''meta'', K ''$list_servers''] of
        Inl x \<Rightarrow> Inl x
      | Inr (json1, l) \<Rightarrow>
          (case dump J l of
             Inl x \<Rightarrow> Inl x
           | Inr printed \<Rightarrow> route_scan J name (j_size J l) [0..<j_size J l] json1 ''''))"

definition tm_add_new_event ::
    "'j json_lib \<Rightarrow> (string \<Rightarrow> 8 word list) \<Rightarrow> clocks \<Rightarrow> string \<Rightarrow> 'j event \<Rightarrow>
     'j tasker_manager \<Rightarrow> int result \<times> 'j tasker_manager" where
  "tm_add_new_event J H c hash_worker ev tm0 =
     (case route_event J (name_server tm0) (ev_json ev) of
        Inl x \<Rightarrow> (Inl x, tm0)
      | Inr (json, grp) \<Rightarrow>
          (let (i, tm) = ensure_group J grp tm0 in
           case j_index J json (K ''meta'') of
             None \<Rightarrow> (Inl Json_type_error, tm)
           | Some (json', meta) \<Rightarrow>
               if \<not> j_contains J meta ''$respon_id'' then (Inr (-1), tm)
               else
                 (case j_assign J json' [K ''meta'', K ''$server_hash'']
                         (j_str J (tm_server_hash tm)) of
                    Inl x \<Rightarrow> (Inl x, tm)
                  | Inr json'' \<Rightarrow>
                      let (res, g) = gc_add_new_event H c hash_worker (ev\<lparr>ev_json := json''\<rparr>)
                                       (clients_group tm ! i)
                      in (Inr res, put_group i g tm))))"

end
