(* ===== verification/Tasker_Facts.thy ===== *)
theory Tasker_Facts
  imports Tasker
begin

section \<open>Facts about one group of the task server\<close>

text \<open>
  The tables of a group as instances of \<open>slot_table\<close>, the invariant every operation of a group
  keeps, and the abstract task pool that the slot representation implements.
\<close>

named_theorems gc_defs \<open>definitions of the operations of a group\<close>

declare gc_start_event_def [gc_defs] gc_clear_event_def [gc_defs] gc_end_event_def [gc_defs]
  gc_add_new_event_def [gc_defs] gc_get_events_json_def [gc_defs]

subsection \<open>The client table\<close>

lemma gc_get_new_client_slot:
  "gc_clients (snd (gc_get_new_client c hw g)) =
     (let cl = \<lparr>cl_hash_worker = hw, cl_group = gc_group g, cl_busy = True,
                cl_last_update = (clk_client c \<noteq> 0)\<rparr>
      in put_slot (\<lambda>s. \<not> cl_busy s) (\<lambda>_. cl) (\<lambda>_. cl) (gc_clients g))"
  by (simp add: gc_get_new_client_def put_slot_def Let_def split: option.split)

lemma gc_get_new_client_frame [simp]:
  "gc_events (snd (gc_get_new_client c hw g)) = gc_events g"
  "gc_group (snd (gc_get_new_client c hw g)) = gc_group g"
  "gc_server_hash (snd (gc_get_new_client c hw g)) = gc_server_hash g"
  by (simp_all add: gc_get_new_client_def Let_def split: option.split)

interpretation ct: slot_table gc_clients "\<lambda>(c, hw) g. snd (gc_get_new_client c hw g)"
    "\<lambda>(c, hw) g. \<lparr>cl_hash_worker = hw, cl_group = gc_group g, cl_busy = True,
                  cl_last_update = (clk_client c \<noteq> 0)\<rparr>" cl_busy "\<lambda>_ _. True"
proof (unfold_locales, goal_cases)
  case (1 x s)
  then show ?case
    by (cases x) (simp add: gc_get_new_client_slot Let_def put_slot_live_same del: mset_filter)
next
  case (2 s x)
  then show ?case by (cases x) (simp add: gc_get_new_client_slot Let_def put_slot_length)
qed

lemma ensure_client_frame [simp]:
  "gc_events (ensure_client c hw g) = gc_events g"
  "gc_group (ensure_client c hw g) = gc_group g"
  "gc_server_hash (ensure_client c hw g) = gc_server_hash g"
  by (simp_all add: ensure_client_def)

lemma check_client_iff:
  "check_client hw g \<longleftrightarrow> (\<exists>cl \<in> set (gc_clients g). cl_busy cl \<and> cl_hash_worker cl = hw)"
  by (simp add: check_client_def list_ex_iff)

lemma ensure_client_registers: "check_client hw (ensure_client c hw g)"
proof (cases "check_client hw g")
  case False
  then show ?thesis
    using ct.stored_in [of "(c, hw)" g] by (force simp: ensure_client_def check_client_iff)
qed (simp add: ensure_client_def)

text \<open>The workers of the clients in use, with multiplicity.\<close>

definition workers :: "'j group_clients \<Rightarrow> string multiset" where
  "workers g = image_mset cl_hash_worker (mset (filter cl_busy (gc_clients g)))"

lemma workers_ensure:
  "workers (ensure_client c hw g) =
     (if check_client hw g then workers g else add_mset hw (workers g))"
  using ct.ins_live [of "(c, hw)" g] by (simp add: ensure_client_def workers_def)

lemma check_client_workers: "check_client hw g \<longleftrightarrow> hw \<in># workers g"
  by (auto simp: check_client_iff workers_def)

lemma busy_clients_ensure:
  "cl \<in> set (gc_clients (ensure_client c hw g)) \<Longrightarrow> cl_busy cl \<Longrightarrow>
   cl_group cl = gc_group g \<or> cl \<in> set (gc_clients g)"
  using ct.live_only [of cl "(c, hw)" g] by (auto simp: ensure_client_def split: if_splits)

lemma ensure_client_grows: "length (gc_clients g) \<le> length (gc_clients (ensure_client c hw g))"
  using ct.ins_grows [of g "(c, hw)"] by (simp add: ensure_client_def)

subsection \<open>The task table\<close>

abbreviation task_at :: "string \<Rightarrow> 'j group_clients \<Rightarrow> nat option" where
  "task_at event_id g \<equiv> first_index (\<lambda>e. ev_hash_event e = event_id) (gc_events g)"

abbreviation is_pending :: "'j event \<Rightarrow> bool" where
  "is_pending e \<equiv> ev_busy e \<and> \<not> ev_process e"

text \<open>The tasks in use, with multiplicity: the abstract state of a group.\<close>

definition tasks :: "'j group_clients \<Rightarrow> 'j event multiset" where
  "tasks g = mset (filter ev_busy (gc_events g))"

definition added_event ::
    "(string \<Rightarrow> 8 word list) \<Rightarrow> clocks \<Rightarrow> 'j event \<Rightarrow> 'j group_clients \<Rightarrow> 'j event" where
  "added_event H c ev g =
     ev\<lparr>ev_busy := True,
        ev_hash_event := generate_hash_event H c g
          (case first_index (\<lambda>e. \<not> ev_busy e) (gc_events g) of
             Some i \<Rightarrow> dec_nat i | None \<Rightarrow> [char_of (length (gc_events g))])
          (to_string (ev_count_restart ev))\<rparr>"

lemma generate_hash_ensure [simp]:
  "generate_hash_event H c (ensure_client c' hw g) = generate_hash_event H c g"
  by (intro ext) (simp add: generate_hash_event_def)

lemma gc_add_events:
  "gc_events (snd (gc_add_new_event H c hw ev g)) =
     put_slot (\<lambda>e. \<not> ev_busy e) (\<lambda>_. added_event H c ev g) (\<lambda>_. added_event H c ev g) (gc_events g)"
  by (simp add: gc_add_new_event_def put_slot_def added_event_def Let_def split: option.split)

interpretation et: slot_table gc_events "\<lambda>(H, c, hw, ev) g. snd (gc_add_new_event H c hw ev g)"
    "\<lambda>(H, c, hw, ev) g. added_event H c ev g" ev_busy "\<lambda>_ _. True"
proof (unfold_locales, goal_cases)
  case (1 x s)
  have "ev_busy (added_event H c ev g)" for H c ev and g :: "'a group_clients"
    by (simp add: added_event_def)
  then show ?case
    by (cases x) (simp add: gc_add_events put_slot_live_same del: mset_filter)
next
  case (2 s x)
  then show ?case by (cases x) (simp add: gc_add_events put_slot_length)
qed

subsection \<open>The invariant of a group\<close>

definition group_inv :: "'j group_clients \<Rightarrow> bool" where
  "group_inv g \<longleftrightarrow>
     25 \<le> length (gc_clients g) \<and> 100 \<le> length (gc_events g) \<and>
     (\<forall>w. count (workers g) w \<le> 1) \<and>
     (\<forall>cl \<in> set (gc_clients g). cl_busy cl \<longrightarrow> cl_group cl = gc_group g) \<and>
     (\<forall>e \<in> set (gc_events g). \<not> ev_busy e \<longrightarrow> ev_hash_event e = '''' \<and> \<not> ev_process e)"

definition clients_ok :: "'j group_clients \<Rightarrow> bool" where
  "clients_ok g \<longleftrightarrow>
     25 \<le> length (gc_clients g) \<and> (\<forall>w. count (workers g) w \<le> 1) \<and>
     (\<forall>cl \<in> set (gc_clients g). cl_busy cl \<longrightarrow> cl_group cl = gc_group g)"

definition event_ok :: "'j event \<Rightarrow> bool" where
  "event_ok e \<longleftrightarrow> (\<not> ev_busy e \<longrightarrow> ev_hash_event e = '''' \<and> \<not> ev_process e)"

lemma group_inv_alt:
  "group_inv g \<longleftrightarrow>
     clients_ok g \<and> 100 \<le> length (gc_events g) \<and> (\<forall>e \<in> set (gc_events g). event_ok e)"
  by (auto simp: group_inv_def clients_ok_def event_ok_def)

lemma clients_ok_ensure: "clients_ok g \<Longrightarrow> clients_ok (ensure_client c hw g)"
  using ensure_client_grows [of g c hw] busy_clients_ensure [of _ c hw g]
  by (auto simp: clients_ok_def workers_ensure check_client_workers count_eq_zero_iff)

lemma clients_ok_events [simp]: "clients_ok (g\<lparr>gc_events := es\<rparr>) = clients_ok g"
  by (simp add: clients_ok_def workers_def)

lemma group_inv_ensure: "group_inv g \<Longrightarrow> group_inv (ensure_client c hw g)"
  by (simp add: group_inv_alt clients_ok_ensure)

text \<open>Writing one slot of the task table with a good task keeps the invariant.\<close>

lemma group_inv_update:
  "group_inv g \<Longrightarrow> gc_events g = es \<Longrightarrow> event_ok e \<Longrightarrow> group_inv (g\<lparr>gc_events := es[i := e]\<rparr>)"
  by (auto simp: group_inv_alt dest: set_update_subsetD)

lemma group_inv_new: "group_inv (new_group_clients J)"
  by (simp add: group_inv_def new_group_clients_def workers_def default_client_def
      default_event_def)

lemma group_inv_move: "group_inv g \<Longrightarrow> group_inv (move_group_clients g)"
  by (simp add: group_inv_def move_group_clients_def workers_def)

lemma group_inv_set:
  "group_inv (gc_init h (set_group name (new_group_clients J)))"
  by (simp add: group_inv_def new_group_clients_def set_group_def gc_init_def workers_def
      default_client_def default_event_def)

text \<open>A task found under a non-empty id is in use.\<close>

lemma found_busy:
  assumes "group_inv g" "task_at event_id g = Some i" "event_id \<noteq> ''''"
  shows "i < length (gc_events g)" "ev_busy (gc_events g ! i)"
    "ev_hash_event (gc_events g ! i) = event_id"
proof -
  have *: "i < length (gc_events g)" "ev_hash_event (gc_events g ! i) = event_id"
    using first_index_SomeD [OF assms(2)] by auto
  then have "event_ok (gc_events g ! i)" using assms(1) by (auto simp: group_inv_alt)
  with * assms(3) show "i < length (gc_events g)" "ev_busy (gc_events g ! i)"
    "ev_hash_event (gc_events g ! i) = event_id"
    by (auto simp: event_ok_def)
qed

lemma group_inv_start:
  assumes "group_inv g" "event_id \<noteq> ''''"
  shows "group_inv (snd (gc_start_event c hw event_id g))"
proof -
  have "group_inv (ensure_client c hw g)" using assms(1) by (rule group_inv_ensure)
  then show ?thesis
    using found_busy [of "ensure_client c hw g" event_id] assms(2)
    by (auto simp: gc_start_event_def Let_def event_ok_def intro!: group_inv_update
        split: option.split)
qed

lemma group_inv_clear:
  assumes "group_inv g"
  shows "group_inv (snd (gc_clear_event H c hw event_id g))"
proof -
  have inv: "group_inv (ensure_client c hw g)" using assms by (rule group_inv_ensure)
  then have "event_ok (gc_events g ! i)" if "task_at event_id g = Some i" for i
    using that by (auto simp: group_inv_alt dest: first_index_in)
  with inv show ?thesis
    by (auto simp: gc_clear_event_def Let_def event_ok_def intro!: group_inv_update
        split: option.split)
qed

lemma group_inv_end:
  "group_inv g \<Longrightarrow> group_inv (snd (gc_end_event J c hw event_id g))"
  by (auto simp: gc_end_event_def Let_def event_ok_def init_event_def group_inv_ensure
      intro!: group_inv_update split: option.split)

lemma group_inv_add:
  assumes "group_inv g"
  shows "group_inv (snd (gc_add_new_event H c hw ev g))"
proof -
  let ?e = "added_event H c ev g"
  have "event_ok ?e" by (simp add: event_ok_def added_event_def)
  moreover have "clients_ok (snd (gc_add_new_event H c hw ev g))"
    using clients_ok_ensure [of g c hw] assms
    by (auto simp: gc_add_new_event_def Let_def group_inv_alt split: option.split)
  ultimately show ?thesis
    using assms et.ins_grows [of g "(H, c, hw, ev)"]
      set_put_slot [of "\<lambda>e. \<not> ev_busy e" "\<lambda>_. ?e" "\<lambda>_. ?e" "gc_events g"]
    by (auto simp: group_inv_alt gc_add_events split: option.splits)
qed

text \<open>Polling may add a missing \<open>meta\<close> to a task's JSON; every other field stays.\<close>

definition same_task :: "'j event \<Rightarrow> 'j event \<Rightarrow> bool" where
  "same_task e e' \<longleftrightarrow> (\<exists>js. e' = e\<lparr>ev_json := js\<rparr>)"

lemma same_task_refl [simp]: "same_task e e"
  by (auto simp: same_task_def intro: exI [of _ "ev_json e"])

lemma event_record_same: "same_task e (fst (event_record J json_id e))"
  by (auto simp: event_record_def Let_def same_task_def split: sum.split option.split
      intro: exI [of _ "ev_json e"])

lemma serialize_same: "list_all2 same_task es (fst (serialize_events J json_id es respon))"
proof (induction es arbitrary: json_id respon)
  case (Cons e es)
  obtain e' r where er: "event_record J json_id e = (e', r)" by fastforce
  have e': "same_task e e'" using event_record_same [of e J json_id] er by simp
  have es: "list_all2 same_task es es" by (simp add: list_all2_refl)
  show ?case
  proof (cases r)
    case (Inl x)
    with er e' es Cons.IH show ?thesis by (simp add: case_prod_beta)
  next
    case (Inr p)
    obtain j t where "p = (j, t)" by fastforce
    with Inr er e' Cons.IH show ?thesis by (simp add: case_prod_beta)
  qed
qed simp

lemma same_task_fields:
  assumes "same_task e e'"
  shows "ev_busy e' = ev_busy e" "ev_process e' = ev_process e"
    "ev_hash_event e' = ev_hash_event e" "ev_count_restart e' = ev_count_restart e"
  using assms by (auto simp: same_task_def)

lemma get_events_frame:
  "\<exists>es. snd (gc_get_events_json J c hw g) = (ensure_client c hw g)\<lparr>gc_events := es\<rparr> \<and>
        list_all2 same_task (gc_events g) es"
proof -
  have refl: "list_all2 same_task (gc_events g) (gc_events g)" by (simp add: list_all2_refl)
  show ?thesis
  proof (cases "j_assign J (j_null J) [K ''id''] (j_str J ''0'')")
    case (Inl x)
    then have "snd (gc_get_events_json J c hw g) =
        (ensure_client c hw g)\<lparr>gc_events := gc_events g\<rparr>"
      by (simp add: gc_get_events_json_def Let_def)
    with refl show ?thesis by blast
  next
    case (Inr json_id)
    obtain es r where ser: "serialize_events J json_id (gc_events g) '''' = (es, r)" by fastforce
    with Inr have "snd (gc_get_events_json J c hw g) = (ensure_client c hw g)\<lparr>gc_events := es\<rparr>"
      by (cases r) (simp_all add: gc_get_events_json_def Let_def)
    with ser serialize_same [of "gc_events g" J json_id "''''"] show ?thesis by auto
  qed
qed

lemma group_inv_get_events:
  assumes "group_inv g"
  shows "group_inv (snd (gc_get_events_json J c hw g))"
proof -
  obtain es where es: "snd (gc_get_events_json J c hw g) = (ensure_client c hw g)\<lparr>gc_events := es\<rparr>"
      "list_all2 same_task (gc_events g) es"
    using get_events_frame by blast
  have "event_ok e'" if "e' \<in> set es" for e'
  proof -
    from that es(2) obtain e where "e \<in> set (gc_events g)" "same_task e e'"
      by (metis in_set_conv_nth list_all2_conv_all_nth)
    with assms show ?thesis
      using same_task_fields [of e e'] by (auto simp: group_inv_alt event_ok_def)
  qed
  with es assms show ?thesis
    by (auto simp: group_inv_alt clients_ok_ensure dest: list_all2_lengthD)
qed

subsection \<open>The task pool a group implements\<close>

text \<open>
  What the four task operations promise, without slots, indexes or clients: a multiset of tasks
  and the status each command returns. A task is taken by its id; an idle task can be started
  once, a started one can be given back under a new id, any task can be ended, which removes it.
\<close>

datatype 'j pool_cmd =
    Pool_start string | Pool_clear string | Pool_end string | Pool_add "'j event"

inductive pool_step :: "'j event multiset \<Rightarrow> 'j pool_cmd \<Rightarrow> int \<Rightarrow> 'j event multiset \<Rightarrow> bool" where
  start_ok: "e \<in># P \<Longrightarrow> ev_hash_event e = h \<Longrightarrow> \<not> ev_process e \<Longrightarrow>
     pool_step P (Pool_start h) 0 (add_mset (e\<lparr>ev_process := True\<rparr>) (P - {#e#}))"
| start_running: "e \<in># P \<Longrightarrow> ev_hash_event e = h \<Longrightarrow> ev_process e \<Longrightarrow>
     pool_step P (Pool_start h) (-2) P"
| start_unknown: "(\<And>e. e \<in># P \<Longrightarrow> ev_hash_event e \<noteq> h) \<Longrightarrow> pool_step P (Pool_start h) (-3) P"
| clear_running: "e \<in># P \<Longrightarrow> ev_hash_event e = h \<Longrightarrow> ev_process e \<Longrightarrow>
     pool_step P (Pool_clear h) 0
       (add_mset (e\<lparr>ev_count_restart := ev_count_restart e + 1, ev_hash_event := h',
                    ev_process := False\<rparr>) (P - {#e#}))"
| clear_idle: "e \<in># P \<Longrightarrow> ev_hash_event e = h \<Longrightarrow> \<not> ev_process e \<Longrightarrow>
     pool_step P (Pool_clear h) 0 P"
| clear_unknown: "(\<And>e. e \<in># P \<Longrightarrow> ev_hash_event e \<noteq> h) \<Longrightarrow> pool_step P (Pool_clear h) (-2) P"
| end_ok: "e \<in># P \<Longrightarrow> ev_hash_event e = h \<Longrightarrow> pool_step P (Pool_end h) 0 (P - {#e#})"
| end_unknown: "(\<And>e. e \<in># P \<Longrightarrow> ev_hash_event e \<noteq> h) \<Longrightarrow> pool_step P (Pool_end h) (-2) P"
| add_task: "pool_step P (Pool_add e) 0 (add_mset (e\<lparr>ev_busy := True, ev_hash_event := h'\<rparr>) P)"

inductive_cases pool_start_zero: "pool_step P (Pool_start h) 0 Q"
inductive_cases pool_end_zero: "pool_step P (Pool_end h) 0 Q"

lemma tasks_ensure [simp]: "tasks (ensure_client c hw g) = tasks g"
  by (simp add: tasks_def)

lemma in_tasks: "e \<in># tasks g \<longleftrightarrow> e \<in> set (gc_events g) \<and> ev_busy e"
  by (auto simp: tasks_def)

lemma tasks_update:
  assumes "i < length (gc_events g)" "ev_busy (gc_events g ! i)"
  shows "mset (filter ev_busy ((gc_events g)[i := e])) =
    (if ev_busy e then add_mset e (tasks g - {#gc_events g ! i#})
     else tasks g - {#gc_events g ! i#})"
proof -
  have "mset (filter ev_busy ((gc_events g)[i := e])) + {#gc_events g ! i#} =
        tasks g + (if ev_busy e then {#e#} else {#})"
    using mset_filter_update [OF assms(1), of ev_busy e] assms(2) by (simp add: tasks_def)
  then have "mset (filter ev_busy ((gc_events g)[i := e])) =
        tasks g + (if ev_busy e then {#e#} else {#}) - {#gc_events g ! i#}"
    by (metis add_diff_cancel_right')
  moreover have "gc_events g ! i \<in># tasks g" using assms by (simp add: in_tasks)
  ultimately show ?thesis by (simp only: if_split) (auto simp: multiset_diff_union_assoc)
qed

lemma not_found_unknown:
  "task_at event_id g = None \<Longrightarrow> e \<in># tasks g \<Longrightarrow> ev_hash_event e \<noteq> event_id"
  by (auto simp: search_simps in_tasks)

lemma found_task:
  assumes "group_inv g" "task_at event_id g = Some i" "event_id \<noteq> ''''"
  shows "gc_events g ! i \<in># tasks g"
  using found_busy [OF assms] by (simp add: in_tasks)

lemma pool_start_refines:
  assumes "group_inv g" "event_id \<noteq> ''''"
    and "gc_start_event c hw event_id g = (s, g')"
  shows "pool_step (tasks g) (Pool_start event_id) s (tasks g')"
proof (cases "task_at event_id g")
  case None
  then show ?thesis
    using assms(3) pool_step.start_unknown [OF not_found_unknown [OF None]]
    by (auto simp: gc_start_event_def)
next
  case (Some i)
  note fb = found_busy [OF assms(1) Some assms(2)] and ft = found_task [OF assms(1) Some assms(2)]
  show ?thesis
  proof (cases "ev_process (gc_events g ! i)")
    case True
    with Some assms(3) ft fb show ?thesis
      by (auto simp: gc_start_event_def intro: pool_step.start_running)
  next
    case False
    with Some assms(3) have "s = 0" "tasks g' = add_mset ((gc_events g ! i)\<lparr>ev_process := True\<rparr>)
        (tasks g - {#gc_events g ! i#})"
      using tasks_update [OF fb(1,2)] fb(2) by (auto simp: gc_start_event_def tasks_def)
    with ft fb False show ?thesis by (auto intro: pool_step.start_ok)
  qed
qed

lemma pool_clear_refines:
  assumes "group_inv g" "event_id \<noteq> ''''"
    and "gc_clear_event H c hw event_id g = (s, g')"
  shows "pool_step (tasks g) (Pool_clear event_id) s (tasks g')"
proof (cases "task_at event_id g")
  case None
  then show ?thesis
    using assms(3) pool_step.clear_unknown [OF not_found_unknown [OF None]]
    by (auto simp: gc_clear_event_def)
next
  case (Some i)
  note fb = found_busy [OF assms(1) Some assms(2)] and ft = found_task [OF assms(1) Some assms(2)]
  show ?thesis
  proof (cases "ev_process (gc_events g ! i)")
    case True
    define e where "e = gc_events g ! i"
    define h where "h = generate_hash_event H c g (dec_nat i) (to_string (ev_count_restart e + 1))"
    from True Some assms(3) have "s = 0" "tasks g' = add_mset
        (e\<lparr>ev_count_restart := ev_count_restart e + 1, ev_hash_event := h, ev_process := False\<rparr>)
        (tasks g - {#e#})"
      using tasks_update [OF fb(1,2)] fb(2)
      by (auto simp: gc_clear_event_def tasks_def Let_def h_def e_def)
    with ft fb True show ?thesis by (auto simp: e_def intro: pool_step.clear_running)
  next
    case False
    with Some assms(3) ft fb show ?thesis
      by (auto simp: gc_clear_event_def intro: pool_step.clear_idle)
  qed
qed

lemma pool_end_refines:
  assumes "group_inv g" "event_id \<noteq> ''''"
    and "gc_end_event J c hw event_id g = (s, g')"
  shows "pool_step (tasks g) (Pool_end event_id) s (tasks g')"
proof (cases "task_at event_id g")
  case None
  then show ?thesis
    using assms(3) pool_step.end_unknown [OF not_found_unknown [OF None]]
    by (auto simp: gc_end_event_def)
next
  case (Some i)
  note fb = found_busy [OF assms(1) Some assms(2)] and ft = found_task [OF assms(1) Some assms(2)]
  from Some assms(3) have "s = 0" "tasks g' = tasks g - {#gc_events g ! i#}"
    using tasks_update [OF fb(1,2), of "init_event J (gc_events g ! i)"]
    by (auto simp: gc_end_event_def tasks_def init_event_def)
  with ft fb show ?thesis by (auto intro: pool_step.end_ok)
qed

lemma pool_add_refines:
  assumes "gc_add_new_event H c hw ev g = (s, g')"
  shows "pool_step (tasks g) (Pool_add ev) s (tasks g')"
proof -
  have "tasks (snd (gc_add_new_event H c hw ev g)) = add_mset (added_event H c ev g) (tasks g)"
    using et.ins_live [of "(H, c, hw, ev)" g] by (simp add: tasks_def)
  moreover have "s = 0"
    using assms by (auto simp: gc_add_new_event_def Let_def split: option.splits)
  moreover obtain h where "added_event H c ev g = ev\<lparr>ev_busy := True, ev_hash_event := h\<rparr>"
    by (simp add: added_event_def)
  ultimately show ?thesis
    using assms pool_step.add_task [of "tasks g" ev h] by simp
qed

end
