(* ===== verification/Tasker_Manager.thy ===== *)
theory Tasker_Manager
  imports Tasker_Props Json_Sample
begin

section \<open>Properties of the task manager\<close>

text \<open>
  \<open>tasker_manager\<close> is a vector of groups searched by name. Here it is shown to be a map from
  names to groups on which each request does what \<open>group_clients\<close> does on the group it names
  and nothing else; the routing of a new task along \<open>$list_servers\<close> is characterised, and what
  a task's id depends on. The witnesses evaluate the properties at sample requests.
\<close>

interpretation gt: keyed_table clients_group get_group find_group put_group
    "\<lambda>g tm. tm\<lparr>clients_group := clients_group tm @ [g]\<rparr>"
  by unfold_locales (simp_all add: find_group_def put_group_def)

definition groups_of :: "'j tasker_manager \<Rightarrow> string \<Rightarrow> 'j group_clients option" where
  "groups_of tm name = map_option (\<lambda>i. clients_group tm ! i) (find_group name tm)"

lemma groups_of_view: "groups_of tm = gt.view tm"
  by (rule ext) (simp add: groups_of_def gt.view_def)

text \<open>The group \<open>ensure_group\<close> creates.\<close>

definition fresh_group :: "'j json_lib \<Rightarrow> string \<Rightarrow> 'j group_clients" where
  "fresh_group J name =
     \<lparr>gc_clients = replicate 25 default_client, gc_events = replicate 100 (default_event J),
      gc_group = name, gc_server_hash = ''''\<rparr>"

lemma group_inv_fresh: "group_inv (fresh_group J name)"
  by (simp add: group_inv_def fresh_group_def workers_def default_client_def default_event_def)

lemma ensure_group_fresh:
  "ensure_group J name tm =
     (case find_group name tm of
        Some i \<Rightarrow> (i, tm)
      | None \<Rightarrow> (length (clients_group tm),
                 tm\<lparr>clients_group := clients_group tm @ [fresh_group J name]\<rparr>))"
  by (simp add: ensure_group_def fresh_group_def move_group_clients_def gc_init_def set_group_def
      new_group_clients_def Let_def split: option.split)

lemma ensure_group_found:
  assumes "ensure_group J name tm = (i, tm')"
  shows "find_group name tm' = Some i"
    and "clients_group tm' ! i =
      (case groups_of tm name of Some g \<Rightarrow> g | None \<Rightarrow> fresh_group J name)"
    and "groups_of tm' = (groups_of tm)
      (name \<mapsto> (case groups_of tm name of Some g \<Rightarrow> g | None \<Rightarrow> fresh_group J name))"
proof -
  have key: "get_group (fresh_group J name) = name" by (simp add: fresh_group_def get_group_def)
  have "find_group name tm' = Some i \<and>
    clients_group tm' ! i =
      (case groups_of tm name of Some g \<Rightarrow> g | None \<Rightarrow> fresh_group J name) \<and>
    groups_of tm' = (groups_of tm)
      (name \<mapsto> (case groups_of tm name of Some g \<Rightarrow> g | None \<Rightarrow> fresh_group J name))"
  proof (cases "find_group name tm")
    case None
    with assms gt.look_push [of "fresh_group J name" tm name]
      gt.view_push [of "fresh_group J name" tm] key
    show ?thesis by (auto simp: ensure_group_fresh groups_of_view gt.view_def)
  next
    case (Some j)
    with assms show ?thesis
      by (auto simp: ensure_group_fresh groups_of_view gt.view_def fun_upd_idem)
  qed
  then show "find_group name tm' = Some i"
    and "clients_group tm' ! i =
      (case groups_of tm name of Some g \<Rightarrow> g | None \<Rightarrow> fresh_group J name)"
    and "groups_of tm' = (groups_of tm)
      (name \<mapsto> (case groups_of tm name of Some g \<Rightarrow> g | None \<Rightarrow> fresh_group J name))"
    by simp_all
qed

lemma groups_of_put:
  "find_group name tm = Some i \<Longrightarrow> get_group g = name \<Longrightarrow>
   groups_of (put_group i g tm) = (groups_of tm)(name \<mapsto> g)"
  by (simp add: groups_of_view gt.view_put)

text \<open>No request renames a group.\<close>

lemma group_name_kept:
  "get_group (snd (gc_start_event c hw i g)) = get_group g"
  "get_group (snd (gc_clear_event H c hw i g)) = get_group g"
  "get_group (snd (gc_end_event J c hw i g)) = get_group g"
  "get_group (snd (gc_add_new_event H c hw ev g)) = get_group g"
  "get_group (snd (gc_get_events_json J c hw g)) = get_group g"
  using get_events_frame [of J c hw g]
  by (auto simp: get_group_def gc_start_event_def gc_clear_event_def gc_end_event_def
      gc_add_new_event_def Let_def split: option.split)

lemma server_hash_kept:
  "gc_server_hash (snd (gc_start_event c hw i g)) = gc_server_hash g"
  "gc_server_hash (snd (gc_clear_event H c hw i g)) = gc_server_hash g"
  "gc_server_hash (snd (gc_end_event J c hw i g)) = gc_server_hash g"
  "gc_server_hash (snd (gc_add_new_event H c hw ev g)) = gc_server_hash g"
  "gc_server_hash (snd (gc_get_events_json J c hw g)) = gc_server_hash g"
  using get_events_frame [of J c hw g]
  by (auto simp: gc_start_event_def gc_clear_event_def gc_end_event_def
      gc_add_new_event_def Let_def split: option.split)

lemma groups_of_key: "groups_of tm name = Some g \<Longrightarrow> get_group g = name"
  by (simp add: groups_of_view gt.view_key)

lemma groups_of_find:
  "groups_of tm name = Some g \<Longrightarrow>
   \<exists>i. find_group name tm = Some i \<and> clients_group tm ! i = g"
  by (auto simp: groups_of_def)

subsection \<open>The manager as a map from names to groups\<close>

definition group_or_fresh :: "'j json_lib \<Rightarrow> 'j tasker_manager \<Rightarrow> string \<Rightarrow> 'j group_clients" where
  "group_or_fresh J tm name =
     (case groups_of tm name of Some g \<Rightarrow> g | None \<Rightarrow> fresh_group J name)"

lemma group_or_fresh_key: "get_group (group_or_fresh J tm name) = name"
  using groups_of_key [of tm name]
  by (auto simp: group_or_fresh_def fresh_group_def get_group_def split: option.split)

definition status_json :: "'j json_lib \<Rightarrow> int \<Rightarrow> 'j result" where
  "status_json J s =
     (case j_assign J (j_null J) [K ''$status''] (j_int J (-1)) of
        Inl x \<Rightarrow> Inl x
      | Inr res \<Rightarrow> j_assign J res [K ''$status''] (j_int J s))"

lemma tm_get_events_map:
  "groups_of (snd (tm_get_events_json J c name hw tm)) =
     (groups_of tm)(name \<mapsto> snd (gc_get_events_json J c hw (group_or_fresh J tm name)))"
  "fst (tm_get_events_json J c name hw tm) =
     fst (gc_get_events_json J c hw (group_or_fresh J tm name))"
proof -
  obtain i tm' where e: "ensure_group J name tm = (i, tm')" by fastforce
  obtain r g where g: "gc_get_events_json J c hw (group_or_fresh J tm name) = (r, g)" by fastforce
  then have "get_group g = name"
    using group_name_kept(5) [of J c hw "group_or_fresh J tm name"] group_or_fresh_key by simp
  then have "groups_of (put_group i g tm') = (groups_of tm)(name \<mapsto> g)"
    using groups_of_put [OF ensure_group_found(1) [OF e]] ensure_group_found(3) [OF e] by simp
  then show
    "groups_of (snd (tm_get_events_json J c name hw tm)) =
       (groups_of tm)(name \<mapsto> snd (gc_get_events_json J c hw (group_or_fresh J tm name)))"
    "fst (tm_get_events_json J c name hw tm) =
       fst (gc_get_events_json J c hw (group_or_fresh J tm name))"
    using e g ensure_group_found(2) [OF e]
    by (simp_all add: tm_get_events_json_def group_or_fresh_def)
qed

text \<open>The three status requests, over the group operation \<open>f\<close> they call.\<close>

definition status_request ::
    "'j json_lib \<Rightarrow> ('j group_clients \<Rightarrow> int \<times> 'j group_clients) \<Rightarrow> string \<Rightarrow>
     'j tasker_manager \<Rightarrow> 'j result \<times> 'j tasker_manager" where
  "status_request J f name tm =
     (case j_assign J (j_null J) [K ''$status''] (j_int J (-1)) of
        Inl x \<Rightarrow> (Inl x, tm)
      | Inr res \<Rightarrow>
          (case find_group name tm of
             None \<Rightarrow> (Inr res, tm)
           | Some i \<Rightarrow>
               let (s, g) = f (clients_group tm ! i)
               in (j_assign J res [K ''$status''] (j_int J s), put_group i g tm)))"

lemma status_requests:
  "tm_start_event J c name hw i = status_request J (gc_start_event c hw i) name"
  "tm_clear_event J H c name hw i = status_request J (gc_clear_event H c hw i) name"
  "tm_end_event J c name hw i = status_request J (gc_end_event J c hw i) name"
  by (rule ext, simp add: tm_start_event_def tm_clear_event_def tm_end_event_def
      status_request_def)+


lemma status_request_map:
  assumes "json_access_laws J" "\<And>g. get_group (snd (f g)) = get_group g"
  shows "groups_of (snd (status_request J f name tm)) =
      (case groups_of tm name of None \<Rightarrow> groups_of tm
       | Some g \<Rightarrow> (groups_of tm)(name \<mapsto> snd (f g)))"
    and "groups_of tm name = Some g \<Longrightarrow>
      fst (status_request J f name tm) = status_json J (fst (f g))"
proof -
  obtain res where ce: "j_assign J (j_null J) [K ''$status''] (j_int J (-1)) = Inr res"
    using access_assign_null [OF assms(1)] by blast
  have some: "groups_of (snd (status_request J f name tm)) = (groups_of tm)(name \<mapsto> snd (f g)) \<and>
     fst (status_request J f name tm) = status_json J (fst (f g))" if g: "groups_of tm name = Some g" for g
  proof -
    obtain i where i: "find_group name tm = Some i" "clients_group tm ! i = g"
      using groups_of_find [OF g] by blast
    obtain s g' where fg: "f g = (s, g')" by fastforce
    have "get_group g' = name" using assms(2) [of g] fg groups_of_key [OF g] by simp
    with i fg ce show ?thesis
      using groups_of_put [OF i(1)] by (simp add: status_request_def status_json_def)
  qed
  show "groups_of (snd (status_request J f name tm)) =
      (case groups_of tm name of None \<Rightarrow> groups_of tm
       | Some g \<Rightarrow> (groups_of tm)(name \<mapsto> snd (f g)))"
  proof (cases "groups_of tm name")
    case None
    then have "find_group name tm = None" by (simp add: groups_of_def)
    with None ce show ?thesis by (simp add: status_request_def)
  next
    case (Some g)
    with some show ?thesis by simp
  qed
  show "groups_of tm name = Some g \<Longrightarrow>
      fst (status_request J f name tm) = status_json J (fst (f g))"
    using some by simp
qed

text \<open>
  C5. The manager is a map from group names to groups. A poll of a group acts on that group as
  \<open>group_clients\<close> does (on a fresh one if the name is new) and returns its answer; a start, a
  clear or an end acts on the named group, returns its status wrapped as JSON, and does nothing
  when there is no such group. No request changes a group it does not name.
\<close>

theorem manager_refines_map:
  assumes "json_access_laws J"
  shows
    "groups_of (snd (tm_get_events_json J c name hw tm)) =
       (groups_of tm)(name \<mapsto> snd (gc_get_events_json J c hw (group_or_fresh J tm name))) \<and>
     fst (tm_get_events_json J c name hw tm) =
       fst (gc_get_events_json J c hw (group_or_fresh J tm name)) \<and>
     groups_of (snd (tm_start_event J c name hw i tm)) =
       (case groups_of tm name of None \<Rightarrow> groups_of tm
        | Some g \<Rightarrow> (groups_of tm)(name \<mapsto> snd (gc_start_event c hw i g))) \<and>
     groups_of (snd (tm_clear_event J H c name hw i tm)) =
       (case groups_of tm name of None \<Rightarrow> groups_of tm
        | Some g \<Rightarrow> (groups_of tm)(name \<mapsto> snd (gc_clear_event H c hw i g))) \<and>
     groups_of (snd (tm_end_event J c name hw i tm)) =
       (case groups_of tm name of None \<Rightarrow> groups_of tm
        | Some g \<Rightarrow> (groups_of tm)(name \<mapsto> snd (gc_end_event J c hw i g))) \<and>
     (\<forall>g. groups_of tm name = Some g \<longrightarrow>
        fst (tm_start_event J c name hw i tm) = status_json J (fst (gc_start_event c hw i g)) \<and>
        fst (tm_clear_event J H c name hw i tm) = status_json J (fst (gc_clear_event H c hw i g)) \<and>
        fst (tm_end_event J c name hw i tm) = status_json J (fst (gc_end_event J c hw i g)))"
  using assms
  by (auto simp: status_requests tm_get_events_map status_request_map group_name_kept)

subsection \<open>Routing\<close>

text \<open>The server list of a task as the library presents it: entry \<open>i\<close> is named \<open>names ! i\<close>.\<close>

definition lists_servers :: "'j json_lib \<Rightarrow> 'j \<Rightarrow> string list \<Rightarrow> bool" where
  "lists_servers J json names \<longleftrightarrow>
     (\<exists>l. j_path J json [K ''meta'', K ''$list_servers''] = Inr (json, l) \<and>
          j_size J l = length names \<and> j_dump J l \<noteq> None) \<and>
     (\<forall>i < length names. \<exists>v.
        j_path J json [K ''meta'', K ''$list_servers'', N i, K ''name''] = Inr (json, v) \<and>
        j_get_str J v = Some (names ! i) \<and> (\<forall>s. j_eq_str J v s = (s = names ! i)))"

text \<open>The successor of the last entry under the server's own name, or that entry itself.\<close>

definition next_hop :: "string \<Rightarrow> string list \<Rightarrow> string" where
  "next_hop name names =
     (case [i \<leftarrow> [0..<length names]. names ! i = name] of
        [] \<Rightarrow> ''''
      | i # is \<Rightarrow>
          let k = last (i # is) in if k + 1 < length names then names ! (k + 1) else names ! k)"


lemma route_scan_hop:
  assumes "lists_servers J json names" "\<forall>i \<in> set is. i < length names"
  shows "route_scan J name (length names) is json grp =
    Inr (json, case [i \<leftarrow> is. names ! i = name] of
        [] \<Rightarrow> grp
      | i # is' \<Rightarrow> (let k = last (i # is') in
                    if k + 1 < length names then names ! (k + 1) else names ! k))"
  using assms(2)
proof (induction "is" arbitrary: grp)
  case (Cons i "is")
  have entry: "\<exists>v. j_path J json [K ''meta'', K ''$list_servers'', N k, K ''name''] = Inr (json, v) \<and>
      j_get_str J v = Some (names ! k) \<and> (\<forall>s. j_eq_str J v s = (s = names ! k))"
    if "k < length names" for k
    using assms(1) that by (auto simp: lists_servers_def)
  from entry [of i] Cons.prems obtain v where v:
      "j_path J json [K ''meta'', K ''$list_servers'', N i, K ''name''] = Inr (json, v)"
      "\<And>s. j_eq_str J v s = (s = names ! i)" by auto
  show ?case
  proof (cases "names ! i = name")
    case False
    with v Cons show ?thesis by auto
  next
    case True
    define n where "n = (if Suc i \<noteq> length names then Suc i else i)"
    have "n < length names" using Cons.prems by (auto simp: n_def)
    with entry [of n] obtain w where w:
        "j_path J json [K ''meta'', K ''$list_servers'', N n, K ''name''] = Inr (json, w)"
        "j_get_str J w = Some (names ! n)" by blast
    have n: "names ! n = (if Suc i < length names then names ! Suc i else names ! i)"
      using Cons.prems by (auto simp: n_def)
    from True v w Cons.prems have "route_scan J name (length names) (i # is) json grp =
        route_scan J name (length names) is json (names ! n)"
      by (cases "Suc i = length names") (simp_all add: n_def get_string_def)
    then show ?thesis using Cons n True by (auto split: list.split)
  qed
qed simp

lemma route_event_hop:
  assumes "lists_servers J json names"
  shows "route_event J name json = Inr (json, next_hop name names)"
proof -
  obtain l where l: "j_path J json [K ''meta'', K ''$list_servers''] = Inr (json, l)"
      "j_size J l = length names" "j_dump J l \<noteq> None"
    using assms by (auto simp: lists_servers_def)
  have "route_scan J name (length names) [0..<length names] json '''' =
      Inr (json, next_hop name names)"
    using route_scan_hop [OF assms, of "[0..<length names]" name "''''"]
    by (simp add: next_hop_def split: list.split)
  with l show ?thesis by (auto simp: route_event_def dump_def split: option.split)
qed

subsection \<open>Queuing a task\<close>

text \<open>What a group has waiting, whether it exists yet or not.\<close>

lemma tasks_or_fresh:
  "tasks (group_or_fresh J tm grp) = (case groups_of tm grp of Some g \<Rightarrow> tasks g | None \<Rightarrow> {#})"
  by (simp add: group_or_fresh_def tasks_def fresh_group_def default_event_def split: option.split)

lemma gc_add_tasks:
  "tasks (snd (gc_add_new_event H c hw ev g)) = add_mset (added_event H c ev g) (tasks g)"
proof -
  have "ev_busy (added_event H c ev g)" by (simp add: added_event_def)
  from put_slot_live_same [of ev_busy, OF this, of "gc_events g"] show ?thesis
    by (simp add: tasks_def gc_add_events del: mset_filter)
qed

lemma tm_add_map:
  assumes "route_event J (name_server tm) (ev_json ev) = Inr (json, grp)"
    and "j_index J json (K ''meta'') = Some (json', meta)" "j_contains J meta ''$respon_id''"
    and "j_assign J json' [K ''meta'', K ''$server_hash''] (j_str J (tm_server_hash tm)) = Inr json''"
  shows "tm_add_new_event J H c hw ev tm = (Inr 0, snd (tm_add_new_event J H c hw ev tm)) \<and>
    groups_of (snd (tm_add_new_event J H c hw ev tm)) = (groups_of tm)
      (grp \<mapsto> snd (gc_add_new_event H c hw (ev\<lparr>ev_json := json''\<rparr>) (group_or_fresh J tm grp)))"
proof -
  obtain i tm' where e: "ensure_group J grp tm = (i, tm')" by fastforce
  have h: "tm_server_hash tm' = tm_server_hash tm"
    using e by (auto simp: ensure_group_fresh split: option.splits)
  obtain r g where g: "gc_add_new_event H c hw (ev\<lparr>ev_json := json''\<rparr>) (group_or_fresh J tm grp) = (r, g)"
    by fastforce
  then have "r = 0" "get_group g = grp"
    using group_name_kept(4) [of H c hw "ev\<lparr>ev_json := json''\<rparr>" "group_or_fresh J tm grp"]
      group_or_fresh_key [of J tm grp]
    by (auto simp: gc_add_new_event_def Let_def split: option.splits)
  with assms e h g ensure_group_found [OF e] show ?thesis
    using groups_of_put [OF ensure_group_found(1) [OF e]]
    by (simp add: tm_add_new_event_def group_or_fresh_def)
qed

text \<open>
  C7. A task is queued for the server that follows this one in its \<open>$list_servers\<close>, and for
  this server itself when it is the last: if the list is well formed and the task has a
  \<open>$respon_id\<close>, \<open>add_new_event\<close> answers 0, the group named \<open>next_hop\<close> of the list has exactly this task
  more, stamped with the hash of the server, and every other group is as it was.
\<close>

theorem add_event_next_hop:
  assumes "lists_servers J (ev_json ev) names"
    and "j_index J (ev_json ev) (K ''meta'') = Some (json', meta)" "j_contains J meta ''$respon_id''"
    and "j_assign J json' [K ''meta'', K ''$server_hash''] (j_str J (tm_server_hash tm)) = Inr json''"
    and "hop = next_hop (name_server tm) names"
  shows "\<exists>tm' g. tm_add_new_event J H c hw ev tm = (Inr 0, tm') \<and>
    groups_of tm' hop = Some g \<and>
    tasks g = add_mset (added_event H c (ev\<lparr>ev_json := json''\<rparr>) (group_or_fresh J tm hop))
      (case groups_of tm hop of Some g \<Rightarrow> tasks g | None \<Rightarrow> {#}) \<and>
    (\<forall>name. name \<noteq> hop \<longrightarrow> groups_of tm' name = groups_of tm name)"
proof -
  have r: "route_event J (name_server tm) (ev_json ev) = Inr (ev_json ev, hop)"
    unfolding assms(5) by (rule route_event_hop [OF assms(1)])
  from tm_add_map [OF r assms(2-4), of H c hw] show ?thesis
    by (intro exI [of _ "snd (tm_add_new_event J H c hw ev tm)"]
        exI [of _ "snd (gc_add_new_event H c hw (ev\<lparr>ev_json := json''\<rparr>) (group_or_fresh J tm hop))"])
      (simp add: gc_add_tasks tasks_or_fresh)
qed

text \<open>
  C8. The status of \<open>add_new_event\<close>: whenever it returns, it has routed the task to a group, and it answers 0
  exactly when the task's \<open>meta\<close> has a \<open>$respon_id\<close>, and then the group has this one task more; otherwise
  it answers -1 and no group has another task. Either way every other group is as it was; the reply number
  is never the answer.
\<close>

theorem add_new_event_status:
  assumes "tm_add_new_event J H c hw ev tm = (Inr r, tm')"
  shows "\<exists>json grp json' meta g. route_event J (name_server tm) (ev_json ev) = Inr (json, grp) \<and>
    j_index J json (K ''meta'') = Some (json', meta) \<and> groups_of tm' = (groups_of tm)(grp \<mapsto> g) \<and>
    (if j_contains J meta ''$respon_id''
     then r = 0 \<and> (\<exists>json''. j_assign J json' [K ''meta'', K ''$server_hash''] (j_str J (tm_server_hash tm)) = Inr json'' \<and>
       tasks g = add_mset (added_event H c (ev\<lparr>ev_json := json''\<rparr>) (group_or_fresh J tm grp))
         (case groups_of tm grp of Some g \<Rightarrow> tasks g | None \<Rightarrow> {#}))
     else r = -1 \<and> tasks g = (case groups_of tm grp of Some g \<Rightarrow> tasks g | None \<Rightarrow> {#}))"
proof -
  obtain json grp where r: "route_event J (name_server tm) (ev_json ev) = Inr (json, grp)"
    using assms by (auto simp: tm_add_new_event_def split: sum.splits)
  obtain i tm1 where e: "ensure_group J grp tm = (i, tm1)" by fastforce
  obtain json' meta where m: "j_index J json (K ''meta'') = Some (json', meta)"
    using assms r e by (auto simp: tm_add_new_event_def split: option.splits)
  show ?thesis
  proof (cases "j_contains J meta ''$respon_id''")
    case False
    then have "r = -1" "tm' = tm1" using assms r e m by (simp_all add: tm_add_new_event_def)
    moreover have "groups_of tm1 = (groups_of tm)(grp \<mapsto> group_or_fresh J tm grp)"
      using ensure_group_found(3) [OF e] by (simp add: group_or_fresh_def)
    ultimately show ?thesis using r m False by (auto simp: tasks_or_fresh)
  next
    case True
    have "tm_server_hash tm1 = tm_server_hash tm"
      using e by (auto simp: ensure_group_fresh split: option.splits)
    with True obtain json'' where a:
        "j_assign J json' [K ''meta'', K ''$server_hash''] (j_str J (tm_server_hash tm)) = Inr json''"
      using assms r e m by (auto simp: tm_add_new_event_def split: sum.splits)
    from tm_add_map [OF r m True a, of H c hw] assms have "r = 0" "groups_of tm' = (groups_of tm)
      (grp \<mapsto> snd (gc_add_new_event H c hw (ev\<lparr>ev_json := json''\<rparr>) (group_or_fresh J tm grp)))" by simp_all
    then show ?thesis using r m a True
      by (intro exI [of _ json] exI [of _ grp] exI [of _ json'] exI [of _ meta] exI conjI) (auto simp: gc_add_tasks tasks_or_fresh)
  qed
qed

subsection \<open>Runs of requests against the manager\<close>

datatype 'j request =
    Poll clocks string string
  | Start clocks string string string
  | Clear clocks string string string
  | End clocks string string string
  | Send clocks string "'j event"

fun tm_step ::
    "'j json_lib \<Rightarrow> (string \<Rightarrow> 8 word list) \<Rightarrow> 'j request \<Rightarrow> 'j tasker_manager \<Rightarrow> 'j tasker_manager" where
  "tm_step J H (Poll c name hw) tm = snd (tm_get_events_json J c name hw tm)"
| "tm_step J H (Start c name hw i) tm = snd (tm_start_event J c name hw i tm)"
| "tm_step J H (Clear c name hw i) tm = snd (tm_clear_event J H c name hw i tm)"
| "tm_step J H (End c name hw i) tm = snd (tm_end_event J c name hw i tm)"
| "tm_step J H (Send c hw ev) tm = snd (tm_add_new_event J H c hw ev tm)"

fun request_ok :: "'j request \<Rightarrow> bool" where
  "request_ok (Start c name hw i) = (i \<noteq> '''')"
| "request_ok _ = True"

definition tm_inv :: "'j tasker_manager \<Rightarrow> bool" where
  "tm_inv tm \<longleftrightarrow>
     distinct (map get_group (clients_group tm)) \<and>
     (\<forall>g \<in> set (clients_group tm). group_inv g \<and> gc_server_hash g = '''')"

lemma tm_inv_put:
  assumes "tm_inv tm" "find_group name tm = Some i" "get_group g = name"
    and "group_inv g" "gc_server_hash g = ''''"
  shows "tm_inv (put_group i g tm)"
  using assms gt.keys_put [OF assms(2,3)]
  by (auto simp: tm_inv_def put_group_def dest: set_update_subsetD)

lemma tm_inv_found:
  "tm_inv tm \<Longrightarrow> find_group name tm = Some i \<Longrightarrow>
   group_inv (clients_group tm ! i) \<and> gc_server_hash (clients_group tm ! i) = '''' \<and>
   get_group (clients_group tm ! i) = name"
  using gt.look_key [of name tm i] nth_mem [OF gt.look_lt, of name tm i] by (auto simp: tm_inv_def)

lemma tm_inv_ensure:
  assumes "tm_inv tm" "ensure_group J name tm = (i, tm')"
  shows "tm_inv tm'"
proof (cases "find_group name tm")
  case None
  have "name \<notin> get_group ` set (clients_group tm)"
    using None gt.view_None [of tm name] by (simp add: gt.view_def)
  then show ?thesis
    using None assms group_inv_fresh [of J name]
    by (auto simp: tm_inv_def ensure_group_fresh fresh_group_def get_group_def)
next
  case (Some j)
  with assms show ?thesis by (simp add: ensure_group_fresh)
qed

lemma tm_inv_status:
  assumes "tm_inv tm"
    and "\<And>g. group_inv g \<Longrightarrow> group_inv (snd (f g)) \<and> get_group (snd (f g)) = get_group g \<and>
           gc_server_hash (snd (f g)) = gc_server_hash g"
  shows "tm_inv (snd (status_request J f name tm))"
proof -
  have "tm_inv (put_group i (snd (f (clients_group tm ! i))) tm)" if "find_group name tm = Some i" for i
    using tm_inv_found [OF assms(1) that] assms(2) [of "clients_group tm ! i"]
    by (intro tm_inv_put [OF assms(1) that]) auto
  with assms(1) show ?thesis
    by (auto simp: status_request_def split: sum.split option.split prod.split)
qed

lemma tm_inv_poll:
  assumes "tm_inv tm"
  shows "tm_inv (snd (tm_get_events_json J c name hw tm))"
proof -
  obtain i tm' where e: "ensure_group J name tm = (i, tm')" by fastforce
  note inv = tm_inv_ensure [OF assms e] and i = ensure_group_found(1) [OF e]
  have "tm_inv (put_group i (snd (gc_get_events_json J c hw (clients_group tm' ! i))) tm')"
    using tm_inv_found [OF inv i]
    by (intro tm_inv_put [OF inv i]) (auto simp: group_name_kept server_hash_kept group_inv_get_events)
  with e show ?thesis by (simp add: tm_get_events_json_def split: prod.split) (metis snd_conv)
qed

lemma tm_inv_add:
  assumes "tm_inv tm"
  shows "tm_inv (snd (tm_add_new_event J H c hw ev tm))"
proof (cases "route_event J (name_server tm) (ev_json ev)")
  case (Inl x)
  with assms show ?thesis by (simp add: tm_add_new_event_def)
next
  case (Inr p)
  obtain json grp where p: "p = (json, grp)" by fastforce
  obtain i tm' where e: "ensure_group J grp tm = (i, tm')" by fastforce
  note inv = tm_inv_ensure [OF assms e] and i = ensure_group_found(1) [OF e]
  have "tm_inv (put_group i (snd (gc_add_new_event H c hw ev' (clients_group tm' ! i))) tm')" for ev'
    using tm_inv_found [OF inv i]
    by (intro tm_inv_put [OF inv i]) (auto simp: group_name_kept server_hash_kept group_inv_add)
  with Inr p e inv show ?thesis
    by (auto simp: tm_add_new_event_def split: option.split sum.split prod.split) (metis snd_conv)
qed

lemma tm_inv_step: "tm_inv tm \<Longrightarrow> request_ok r \<Longrightarrow> tm_inv (tm_step J H r tm)"
  by (cases r) (auto simp: tm_inv_poll tm_inv_add status_requests group_inv_start group_inv_clear
      group_inv_end group_name_kept server_hash_kept intro!: tm_inv_status)

definition tm_run ::
    "'j json_lib \<Rightarrow> (string \<Rightarrow> 8 word list) \<Rightarrow> 'j request list \<Rightarrow> 'j tasker_manager \<Rightarrow>
     'j tasker_manager" where
  "tm_run J H rs tm = fold (tm_step J H) rs tm"

lemma tm_inv_run:
  assumes "list_all request_ok rs"
  shows "tm_inv (tm_run J H rs (new_tasker_manager H now now'))"
proof -
  have "tm_inv tm \<Longrightarrow> list_all request_ok rs \<Longrightarrow> tm_inv (tm_run J H rs tm)" for tm
    by (induction rs arbitrary: tm) (auto simp: tm_run_def tm_inv_step)
  moreover have "tm_inv (new_tasker_manager H now now')"
    by (simp add: tm_inv_def new_tasker_manager_def)
  ultimately show ?thesis using assms by blast
qed

text \<open>
  C6. Whatever requests the server answers from its start on, with non-empty ids: no two groups
  have the same name and every group satisfies the invariant of groups.
\<close>

theorem manager_invariant:
  assumes "list_all request_ok rs"
  shows "distinct (map get_group (clients_group (tm_run J H rs (new_tasker_manager H now now')))) \<and>
    list_all group_inv (clients_group (tm_run J H rs (new_tasker_manager H now now')))"
  using tm_inv_run [OF assms, of J H now now'] by (simp add: tm_inv_def list_all_iff)

subsection \<open>What a task id depends on\<close>

text \<open>
  C23. The move constructor of \<open>group_clients\<close> drops the server's hash: in every group of a
  running server it is the empty string, so the ids of tasks are a hash of the group's name, two
  clock readings, the slot and the restart count alone.
\<close>

theorem ids_ignore_server_hash:
  assumes "list_all request_ok rs"
    and "g \<in> set (clients_group (tm_run J H rs (new_tasker_manager H now now')))"
  shows "generate_hash_event H c g strindex restarts =
    sha256 H (gc_group g @ to_string (clk_time c) @ strindex @ to_string (clk_clock c) @ restarts)"
  using tm_inv_run [OF assms(1), of J H now now'] assms(2)
  by (simp add: tm_inv_def generate_hash_event_def)

text \<open>
  A slot appended to a full table enters the hash as one character, its index modulo 256:
  tasks appended at indexes that agree modulo 256, under the same clock readings, get the same
  id.
\<close>

lemma appended_ids_collide:
  assumes "list_all ev_busy (gc_events g)" "list_all ev_busy (gc_events g')"
    and "gc_group g = gc_group g'" "gc_server_hash g = gc_server_hash g'"
    and "length (gc_events g) mod 256 = length (gc_events g') mod 256"
  shows "ev_hash_event (last (gc_events (snd (gc_add_new_event H c hw ev g)))) =
         ev_hash_event (last (gc_events (snd (gc_add_new_event H c hw' ev g'))))"
proof -
  have full: "first_index (\<lambda>e. \<not> ev_busy e) (gc_events g) = None"
      "first_index (\<lambda>e. \<not> ev_busy e) (gc_events g') = None"
    using assms(1,2) by (auto simp: search_simps list_all_iff)
  have "(char_of (length (gc_events g)) :: char) = char_of (length (gc_events g'))"
    using assms(5) by (metis char_of_mod_256)
  from arg_cong [OF this, of "\<lambda>x. sha256 H (gc_server_hash g @ gc_group g @
      to_string (clk_time c) @ [x] @ to_string (clk_clock c) @ to_string (ev_count_restart ev))"]
    full assms(3,4)
  show ?thesis
    by (simp add: gc_add_events put_slot_def added_event_def generate_hash_event_def)
qed

lemma hex_digit_inj: "d < 16 \<Longrightarrow> e < 16 \<Longrightarrow> hex_digit d = hex_digit e \<Longrightarrow> d = e"
  by (auto simp: hex_digit_def split: if_splits)

lemma hex_digit_set: "d < 16 \<Longrightarrow> hex_digit d \<in> set ''0123456789abcdef''"
proof -
  assume "d < 16"
  moreover have "list_all (\<lambda>d. hex_digit d \<in> set ''0123456789abcdef'') [0..<16]" by code_simp
  ultimately show ?thesis by (simp add: list_all_iff del: set_simps)
qed

lemma unat_byte: "unat (b :: 8 word) < 256"
  using unsigned_less [of b] by simp

lemma byte_nibbles: "unat (b :: 8 word) div 16 < 16" "unat b mod 16 < 16"
  using unat_byte [of b] by (simp_all add: less_mult_imp_div_less)

lemma hex_byte_inj: "hex_byte a = hex_byte b \<Longrightarrow> a = b"
proof -
  assume "hex_byte a = hex_byte b"
  then have "unat a div 16 = unat b div 16" "unat a mod 16 = unat b mod 16"
    unfolding hex_byte_def list.inject
    using hex_digit_inj [OF byte_nibbles(1) byte_nibbles(1)]
      hex_digit_inj [OF byte_nibbles(2) byte_nibbles(2)]
    by blast+
  then have "unat a = unat b" by (metis div_mult_mod_eq)
  then show ?thesis by (rule word_unat_eq_iff [THEN iffD2])
qed

lemma hex_bytes_inj: "concat (map hex_byte xs) = concat (map hex_byte ys) \<Longrightarrow> xs = ys"
proof (induction xs arbitrary: ys)
  case Nil
  then show ?case by (cases ys) (simp_all add: hex_byte_def)
next
  case (Cons x xs)
  then obtain y ys' where ys: "ys = y # ys'" by (cases ys) (auto simp: hex_byte_def)
  have "hex_byte x @ concat (map hex_byte xs) = hex_byte y @ concat (map hex_byte ys')"
    using Cons.prems ys by simp
  moreover have "length (hex_byte x) = length (hex_byte y)" by (simp add: hex_byte_def)
  ultimately show ?case using Cons.IH [of ys'] hex_byte_inj ys by simp
qed

text \<open>
  The textual hash: two lower-case hexadecimal digits per byte of the digest, and texts are
  equal exactly when digests are, so formatting adds no collision. Ids hold no \<open>/\<close>, so they can
  stand in a route.
\<close>

lemma sha256_text:
  "length (sha256 H s) = 2 * length (H s) \<and>
   set (sha256 H s) \<subseteq> set ''0123456789abcdef'' \<and>
   (sha256 H s = sha256 H t) = (H s = H t)"
proof -
  have "length (concat (map hex_byte bs)) = 2 * length bs" for bs
    by (induction bs) (simp_all add: hex_byte_def)
  moreover have "set (concat (map hex_byte bs)) \<subseteq> set ''0123456789abcdef''" for bs
  proof -
    have "set (hex_byte b) \<subseteq> set ''0123456789abcdef''" for b
      using hex_digit_set [OF byte_nibbles(1)] hex_digit_set [OF byte_nibbles(2)]
      unfolding hex_byte_def by (metis empty_set insert_subset list.simps(15) empty_subsetI)
    then show ?thesis by (induction bs) fastforce+
  qed
  ultimately show ?thesis
    using hex_bytes_inj by (auto simp: sha256_def)
qed

subsection \<open>The properties at sample requests\<close>

definition sample_clocks :: clocks where
  "sample_clocks = \<lparr>clk_client = 7, clk_time = 7, clk_clock = 3\<rparr>"

definition sample_hash :: "string \<Rightarrow> 8 word list" where
  "sample_hash s = [of_nat (length s)]"

definition sample_names :: "string list" where
  "sample_names = [''chat'', ''tasker'', ''bot'']"

definition sample_payload :: sj where
  "sample_payload = SObj [(''meta'', SObj
     [(''$list_servers'', SArr (map (\<lambda>n. SObj [(''name'', SStr n)]) sample_names)),
      (''$respon_id'', SInt 4)]), (''data'', SObj [(''x'', SInt 1)])]"

definition sample_event :: "sj event" where
  "sample_event = (default_event (sample_json []))\<lparr>ev_json := sample_payload\<rparr>"

definition sample_group :: "sj group_clients" where
  "sample_group = snd (gc_add_new_event sample_hash sample_clocks ''w'' sample_event
     (fresh_group (sample_json []) ''bot''))"

lemma sample_group_inv: "group_inv sample_group"
  by (simp add: sample_group_def group_inv_add group_inv_fresh)

lemma group_invariant_witness:
  "group_inv (gc_run (sample_json []) sample_hash
     [Add_event sample_clocks ''w'' sample_event, Get_events sample_clocks ''v'',
      Start_event sample_clocks ''w'' ''0b'', End_event sample_clocks ''w'' ''0b'']
     (gc_init ''h'' (set_group ''bot'' (new_group_clients (sample_json [])))))"
  by (rule group_invariant) simp

lemma group_refines_pool_witness:
  "case gc_end_event (sample_json []) sample_clocks ''w'' ''0b'' sample_group of
     (s, g') \<Rightarrow> pool_step (tasks sample_group) (Pool_end ''0b'') s (tasks g')"
  using group_refines_pool [OF sample_group_inv, of "''0b''" sample_clocks "''w''" sample_hash
      "sample_json []" sample_event] by simp

lemma sample_first: "gc_events sample_group =
    sample_event\<lparr>ev_busy := True, ev_hash_event := ''07''\<rparr> #
      replicate 99 (default_event (sample_json []))"
proof -
  have r: "gc_events (fresh_group (sample_json []) n) =
      default_event (sample_json []) # replicate 99 (default_event (sample_json []))" for n
    by (simp add: fresh_group_def flip: replicate_Suc)
  have d: "dec_nat 0 = ''0''" "to_string 7 = ''7''" "to_string 3 = ''3''" "to_string 0 = ''0''"
      "hex_digit 0 = CHR ''0''" "hex_digit 7 = CHR ''7''"
    by code_simp+
  let ?g = "fresh_group (sample_json []) ''bot''"
  have f: "first_index (\<lambda>e. \<not> ev_busy e) (gc_events ?g) = Some 0"
    unfolding r by (simp add: default_event_def)
  have c: "ev_count_restart sample_event = 0"
    by (simp add: sample_event_def default_event_def)
  have g: "gc_server_hash ?g = ''''" "gc_group ?g = ''bot''" by (simp_all add: fresh_group_def)
  have "added_event sample_hash sample_clocks sample_event ?g =
      sample_event\<lparr>ev_busy := True, ev_hash_event := ''07''\<rparr>"
    unfolding added_event_def f
    by (simp add: c g d generate_hash_event_def sample_clocks_def sha256_def sample_hash_def
        hex_byte_def)
  then show ?thesis
    unfolding sample_group_def gc_add_events by (simp add: f put_slot_def) (simp add: r)
qed

lemma sample_start:
  "gc_start_event sample_clocks ''w'' ''07'' sample_group =
     (0, snd (gc_start_event sample_clocks ''w'' ''07'' sample_group))"
  by (simp add: gc_start_event_def Let_def sample_first sample_event_def default_event_def
      )

lemma task_started_once_witness:
  "fst (gc_start_event sample_clocks ''v'' ''07'' (gc_run (sample_json []) sample_hash
     [Get_events sample_clocks ''v'', Start_event sample_clocks ''v'' ''07'']
     (snd (gc_start_event sample_clocks ''w'' ''07'' sample_group)))) = -2"
  by (rule task_started_once [OF sample_group_inv _ sample_start])
    (simp_all add: given_id_def)

lemma manager_refines_map_witness:
  "groups_of (snd (tm_get_events_json (sample_json []) sample_clocks ''bot'' ''w''
       (new_tasker_manager sample_hash 5 6))) =
     [''bot'' \<mapsto> snd (gc_get_events_json (sample_json []) sample_clocks ''w''
       (fresh_group (sample_json []) ''bot''))]"
  using manager_refines_map [OF sample_access_laws, of "[]" sample_clocks "''bot''" "''w''"
      "new_tasker_manager sample_hash 5 6" "''i''" sample_hash]
  by (simp add: groups_of_def find_group_def new_tasker_manager_def group_or_fresh_def
      fun_eq_iff)

lemma sample_lists: "lists_servers (sample_json []) sample_payload sample_names"
proof -
  have entries: "\<exists>v. j_path (sample_json []) sample_payload
        [K ''meta'', K ''$list_servers'', N i, K ''name''] = Inr (sample_payload, v) \<and>
      sj_get_str v = Some (sample_names ! i) \<and> (\<forall>s. (v = SStr s) = (s = sample_names ! i))"
    if "i < length sample_names" for i
  proof -
    from that have "i = 0 \<or> i = 1 \<or> i = 2" by (auto simp: sample_names_def)
    then show ?thesis
      by (elim disjE) (auto simp: sample_payload_def sample_names_def j_path.simps)
  qed
  have "\<exists>l. j_path (sample_json []) sample_payload [K ''meta'', K ''$list_servers''] =
      Inr (sample_payload, l) \<and> sj_size l = length sample_names"
    by (simp add: sample_payload_def sample_names_def j_path.simps)
  with entries show ?thesis by (simp add: lists_servers_def)
qed

lemma add_event_next_hop_witness:
  "\<exists>tm' g. tm_add_new_event (sample_json []) sample_hash sample_clocks ''w'' sample_event
     (new_tasker_manager sample_hash 5 6) = (Inr 0, tm') \<and>
   groups_of tm' ''bot'' = Some g \<and> size (tasks g) = 1 \<and> groups_of tm' ''chat'' = None"
proof -
  let ?tm = "new_tasker_manager sample_hash 5 6 :: sj tasker_manager"
  obtain meta json'' where j: "j_index (sample_json []) sample_payload (K ''meta'') = Some (sample_payload, meta)"
    "j_contains (sample_json []) meta ''$respon_id''"
    "j_assign (sample_json []) sample_payload [K ''meta'', K ''$server_hash''] (j_str (sample_json []) (tm_server_hash ?tm)) = Inr json''"
    by (fastforce simp: sample_payload_def j_assign.simps)
  have p: "ev_json sample_event = sample_payload" by (simp add: sample_event_def)
  have n: "next_hop (name_server ?tm) sample_names = ''bot''"
    by (simp add: next_hop_def sample_names_def upt_rec new_tasker_manager_def)
  have g: "groups_of ?tm name = None" for name by (simp add: groups_of_def find_group_def new_tasker_manager_def)
  from add_event_next_hop [where ev = sample_event and tm = ?tm, unfolded p, OF sample_lists j n [symmetric], of sample_hash sample_clocks "''w''"]
  show ?thesis by (force simp: g)
qed

definition sample_manager :: "sj tasker_manager" where
  "sample_manager = new_tasker_manager sample_hash 5 6"

lemma sample_add:
  "\<exists>tm'. tm_add_new_event (sample_json []) sample_hash sample_clocks ''w'' sample_event
     sample_manager = (Inr 0, tm')"
proof -
  have "name_server sample_manager = ''tasker''"
    by (simp add: sample_manager_def new_tasker_manager_def)
  then have "route_event (sample_json []) (name_server sample_manager) (ev_json sample_event) =
      Inr (sample_payload, ''bot'')"
    using route_event_hop [OF sample_lists, of "''tasker''"]
    by (simp add: next_hop_def sample_names_def upt_rec sample_event_def)
  from tm_add_map [OF this] show ?thesis
    by (fastforce simp: sample_payload_def j_assign.simps)
qed

lemma add_new_event_status_witness:
  "\<exists>r tm' g. tm_add_new_event (sample_json []) sample_hash sample_clocks ''w'' sample_event
     sample_manager = (Inr r, tm') \<and> r = 0 \<and> groups_of tm' ''bot'' = Some g \<and> size (tasks g) = 1"
proof -
  obtain tm' where a: "tm_add_new_event (sample_json []) sample_hash sample_clocks ''w'' sample_event
     sample_manager = (Inr 0, tm')" using sample_add by blast
  have "name_server sample_manager = ''tasker''" "ev_json sample_event = sample_payload"
    by (simp_all add: sample_manager_def new_tasker_manager_def sample_event_def)
  then have r: "route_event (sample_json []) (name_server sample_manager) (ev_json sample_event) =
      Inr (sample_payload, ''bot'')"
    using route_event_hop [OF sample_lists, of "''tasker''"] by (simp add: next_hop_def sample_names_def upt_rec)
  have g: "groups_of sample_manager name = None" for name
    by (simp add: groups_of_def find_group_def new_tasker_manager_def sample_manager_def)
  from add_new_event_status [OF a] r a show ?thesis by (auto simp: g split: if_splits)
qed

lemma manager_invariant_witness:
  "distinct (map get_group (clients_group (tm_run (sample_json []) sample_hash
     [Send sample_clocks ''w'' sample_event, Poll sample_clocks ''bot'' ''w'']
     (new_tasker_manager sample_hash 5 6))))"
  using manager_invariant [of "[Send sample_clocks ''w'' sample_event,
      Poll sample_clocks ''bot'' ''w'']" "sample_json []" sample_hash 5 6] by simp

lemma ids_ignore_server_hash_witness:
  "generate_hash_event sample_hash sample_clocks (fresh_group (sample_json []) ''bot'') ''0'' ''0'' =
     sha256 sample_hash (''bot'' @ to_string 7 @ ''0'' @ to_string 3 @ ''0'')"
proof -
  let ?tm = "tm_run (sample_json []) sample_hash [Send sample_clocks ''w'' (sample_event\<lparr>ev_json :=
      SObj [(''meta'', SObj [(''$list_servers'', SArr [SObj [(''name'', SStr ''tasker'')],
        SObj [(''name'', SStr ''bot'')]])])]\<rparr>)]
     (new_tasker_manager sample_hash 5 6)"
  have "fresh_group (sample_json []) ''bot'' \<in> set (clients_group ?tm)"
    by (simp add: tm_run_def tm_add_new_event_def route_event_def j_path.simps upt_rec dump_def
        get_string_def new_tasker_manager_def ensure_group_fresh find_group_def)
  from ids_ignore_server_hash [OF _ this, of sample_clocks "''0''" "''0''"] show ?thesis
    by (simp add: fresh_group_def sample_clocks_def)
qed

lemma appended_ids_collide_witness:
  "let g = (\<lambda>n. (fresh_group (sample_json []) ''bot'')\<lparr>gc_events :=
       replicate n (sample_event\<lparr>ev_busy := True\<rparr>)\<rparr>);
     ident = (\<lambda>n. ev_hash_event (last (gc_events
       (snd (gc_add_new_event sample_hash sample_clocks ''w'' sample_event (g n))))))
   in ident 100 = ident 356"
  unfolding Let_def
  by (rule appended_ids_collide) (simp_all add: list_all_iff)

end
