(* ===== verification/Web_Server.thy ===== *)
theory Web_Server
  imports Crow_Dispatch_Props Tasker_Manager
begin

section \<open>The web server: routes, controllers and the server's parts\<close>

text \<open>
  \<open>url.cpp\<close> registers six routes, whose handlers call the functions of \<open>controller.cpp\<close>, which call
  the task manager and end the response. The application's state is the task manager and the clock
  readings of the requests to come (\<open>ww_clock n\<close> for the n-th call that reads the clock).
\<close>

subsection \<open>Controllers\<close>

record 'j web_world =
  ww_tasker :: "'j tasker_manager"
  ww_clock :: "nat \<Rightarrow> clocks"
  ww_calls :: nat

text \<open>Calling the task manager with the next clock readings.\<close>

definition ask_tasker ::
    "(clocks \<Rightarrow> 'j tasker_manager \<Rightarrow> 'a \<times> 'j tasker_manager) \<Rightarrow> 'j web_world \<Rightarrow> 'a \<times> 'j web_world" where
  "ask_tasker f w =
     (case f (ww_clock w (ww_calls w)) (ww_tasker w) of
        (x, tm) \<Rightarrow> (x, w\<lparr>ww_tasker := tm, ww_calls := ww_calls w + 1\<rparr>))"

text \<open>Ending a response whose body was computed, or an exception on the way.\<close>

definition answer_body :: "string result \<Rightarrow> crow_response \<Rightarrow> 'w \<Rightarrow> 'w outcome" where
  "answer_body r res w =
     (case r of Inl x \<Rightarrow> Some (Some x, res, w) | Inr b \<Rightarrow> Some (None, end_response (res\<lparr>rs_body := b\<rparr>), w))"

definition dump_result :: "'j json_lib \<Rightarrow> 'j result \<Rightarrow> string result" where
  "dump_result J r = (case r of Inl x \<Rightarrow> Inl x | Inr v \<Rightarrow> dump J v)"

definition get_events ::
    "'j json_lib \<Rightarrow> string \<Rightarrow> string \<Rightarrow> crow_response \<Rightarrow> 'j web_world \<Rightarrow> 'j web_world outcome" where
  "get_events J hash_worker grp res w =
     (case ask_tasker (\<lambda>c. tm_get_events_json J c grp hash_worker) w of (r, w') \<Rightarrow> answer_body r res w')"

definition send_event ::
    "'j json_lib \<Rightarrow> (string \<Rightarrow> 8 word list) \<Rightarrow> crow_request \<Rightarrow> string \<Rightarrow> crow_response \<Rightarrow> 'j web_world \<Rightarrow>
     'j web_world outcome" where
  "send_event J H req hash_worker res w =
     (case parse J (rq_body req) of
        Inl x \<Rightarrow> Some (Some x, res, w)
      | Inr v \<Rightarrow>
          (case ask_tasker (\<lambda>c. tm_add_new_event J H c hash_worker ((default_event J)\<lparr>ev_json := v\<rparr>)) w of
             (Inl x, w') \<Rightarrow> Some (Some x, res, w')
           | (Inr r, w') \<Rightarrow>
               answer_body (dump_result J (j_assign J (j_null J) [K ''$respon_id''] (j_int J r))) res w'))"

definition start_event ::
    "'j json_lib \<Rightarrow> string \<Rightarrow> string \<Rightarrow> string \<Rightarrow> crow_response \<Rightarrow> 'j web_world \<Rightarrow> 'j web_world outcome" where
  "start_event J hash_worker grp event_id res w =
     (case ask_tasker (\<lambda>c. tm_start_event J c grp hash_worker event_id) w of
        (r, w') \<Rightarrow> answer_body (dump_result J r) res w')"

definition clear_event ::
    "'j json_lib \<Rightarrow> (string \<Rightarrow> 8 word list) \<Rightarrow> string \<Rightarrow> string \<Rightarrow> string \<Rightarrow> crow_response \<Rightarrow> 'j web_world \<Rightarrow>
     'j web_world outcome" where
  "clear_event J H hash_worker grp event_id res w =
     (case ask_tasker (\<lambda>c. tm_clear_event J H c grp hash_worker event_id) w of
        (r, w') \<Rightarrow> answer_body (dump_result J r) res w')"

definition end_event ::
    "'j json_lib \<Rightarrow> string \<Rightarrow> string \<Rightarrow> string \<Rightarrow> crow_response \<Rightarrow> 'j web_world \<Rightarrow> 'j web_world outcome" where
  "end_event J hash_worker grp event_id res w =
     (case ask_tasker (\<lambda>c. tm_end_event J c grp hash_worker event_id) w of
        (r, w') \<Rightarrow> answer_body (dump_result J r) res w')"

subsection \<open>Routes\<close>

text \<open>
  A handler takes its arguments from the string parameters of the route, in their order. Reading
  one that is not there is undefined.
\<close>

definition arg :: "'d routing_params \<Rightarrow> nat \<Rightarrow> string" where
  "arg q i = string_params q ! i"

definition with_args :: "nat \<Rightarrow> ('d routing_params \<Rightarrow> crow_response \<Rightarrow> 'w \<Rightarrow> 'w outcome) \<Rightarrow> 'd routing_params \<Rightarrow>
    crow_response \<times> 'w \<Rightarrow> 'w outcome" where
  "with_args n f q = (\<lambda>(res, w). if length (string_params q) < n then Some (Some Undefined_behaviour, res, w) else f q res w)"

definition web_route :: "string \<Rightarrow> ('d, 'w) rule_handler \<Rightarrow> ('d, 'w) rule" where
  "web_route t h = (new_rule TaggedRule t)\<lparr>ru_handler := Some h\<rparr>"

definition api_rules ::
    "'j json_lib \<Rightarrow> (string \<Rightarrow> 8 word list) \<Rightarrow> ('d, 'j web_world) rule list" where
  "api_rules J H =
     [web_route ''/'' (\<lambda>req q (res, w).
        Some (None, end_response (assign_response (response_body ''tasker node'') res), w)),
      web_route ''/api/get/<string>/<string>/command/event'' (\<lambda>req.
        with_args 2 (\<lambda>q. get_events J (arg q 0) (arg q 1))),
      (web_route ''/api/send/<string>/<string>/command/event'' (\<lambda>req.
        with_args 2 (\<lambda>q. send_event J H req (arg q 0))))
        \<lparr>ru_methods := (case rule_methods Post [] of Some m \<Rightarrow> m | None \<Rightarrow> 0)\<rparr>,
      web_route ''/api/send/<string>/<string>/command/event/start/<string>'' (\<lambda>req.
        with_args 3 (\<lambda>q. start_event J (arg q 0) (arg q 1) (arg q 2))),
      web_route ''/api/send/<string>/<string>/command/event/clear/<string>'' (\<lambda>req.
        with_args 3 (\<lambda>q. clear_event J H (arg q 0) (arg q 1) (arg q 2))),
      web_route ''/api/send/<string>/<string>/command/event/finish/<string>'' (\<lambda>req.
        with_args 3 (\<lambda>q. end_event J (arg q 0) (arg q 1) (arg q 2)))]"

definition init_api_url ::
    "'j json_lib \<Rightarrow> (string \<Rightarrow> 8 word list) \<Rightarrow> ('d, 'j web_world) router \<Rightarrow> ('d, 'j web_world) router" where
  "init_api_url J H ro = fold router_new_rule (api_rules J H) ro"

subsection \<open>The patterns of the routes\<close>

definition lits :: "string \<Rightarrow> piece list" where
  "lits s = map Lit s"

definition str_par :: piece where
  "str_par = Par PString"

lemma api_pieces:
  "rule_pieces ''/'' = Some (lits ''/'')"
  "rule_pieces ''/api/get/<string>/<string>/command/event'' =
     Some (lits ''/api/get/'' @ str_par # lits ''/'' @ str_par # lits ''/command/event'')"
  "rule_pieces ''/api/send/<string>/<string>/command/event'' =
     Some (lits ''/api/send/'' @ str_par # lits ''/'' @ str_par # lits ''/command/event'')"
  "rule_pieces ''/api/send/<string>/<string>/command/event/start/<string>'' =
     Some (lits ''/api/send/'' @ str_par # lits ''/'' @ str_par # lits ''/command/event/start/'' @ [str_par])"
  "rule_pieces ''/api/send/<string>/<string>/command/event/clear/<string>'' =
     Some (lits ''/api/send/'' @ str_par # lits ''/'' @ str_par # lits ''/command/event/clear/'' @ [str_par])"
  "rule_pieces ''/api/send/<string>/<string>/command/event/finish/<string>'' =
     Some (lits ''/api/send/'' @ str_par # lits ''/'' @ str_par # lits ''/command/event/finish/'' @ [str_par])"
  by code_simp+

lemma method_masks:
  "foreach_method default_methods = [method_index Get]"
  "method_bit Post = Some 8"
  "foreach_method 8 = [method_index Post]"
  by code_simp+

lemma entries_texts:
  assumes "\<forall>r \<in> set rs. \<not> has_trailing_slash (ru_text r)"
  shows "map fst (entries_from k rs) = map ru_text rs"
  using assms by (induction k rs rule: entries_from.induct) simp_all

lemma rules_readyI:
  assumes "\<forall>r \<in> set rs. plain_rule r \<and> \<not> has_trailing_slash (ru_text r)" "2 + length rs < 65536"
    "distinct (map (rule_pieces \<circ> ru_text) rs)"
  shows "rules_ready rs"
proof -
  have "distinct (map (rule_pieces \<circ> fst) (entries_from 2 (rules_for i rs)))" for i
  proof -
    have "map (rule_pieces \<circ> fst) (entries_from 2 (rules_for i rs)) = map (rule_pieces \<circ> ru_text) (rules_for i rs)"
      using entries_texts [of "rules_for i rs" 2] assms(1) by (simp add: rules_for_def flip: map_map)
    then show ?thesis using assms(3) by (simp add: rules_for_def distinct_map_filter)
  qed
  with assms show ?thesis by (simp add: rules_ready_def)
qed

lemma api_texts:
  "map ru_text (api_rules J H) =
     [''/'', ''/api/get/<string>/<string>/command/event'', ''/api/send/<string>/<string>/command/event'',
      ''/api/send/<string>/<string>/command/event/start/<string>'',
      ''/api/send/<string>/<string>/command/event/clear/<string>'',
      ''/api/send/<string>/<string>/command/event/finish/<string>'']"
  by (simp add: api_rules_def web_route_def new_rule_def)

lemma api_ready: "rules_ready (api_rules J H)"
proof (rule rules_readyI)
  show "\<forall>r \<in> set (api_rules J H). plain_rule r \<and> \<not> has_trailing_slash (ru_text r)"
    by (simp add: api_rules_def web_route_def new_rule_def plain_rule_def rule_ok_def api_pieces has_trailing_slash_def)
  have "distinct (map rule_pieces (map ru_text (api_rules J H)))"
    unfolding api_texts by (simp add: api_pieces lits_def str_par_def)
  then show "distinct (map (rule_pieces \<circ> ru_text) (api_rules J H))" by simp
qed (simp add: api_rules_def)

subsection \<open>Matching the routes\<close>

text \<open>A non-empty path segment, and what the pieces of a route do with one.\<close>

definition segment :: "string \<Rightarrow> bool" where
  "segment s \<longleftrightarrow> s \<noteq> '''' \<and> CHR ''/'' \<notin> set s"

lemma match_literals:
  "match_rule D (lits l @ ps) s q = (if take (length l) s = l then match_rule D ps (drop (length l) s) q else None)"
  by (simp add: lits_def match_lits)

lemma match_literals_end:
  "match_rule D (lits l) s q = (if s = l then Some q else None)"
  using match_literals [of D l "[]" s q] by (auto simp: take_all_iff)

lemma match_prefix: "match_rule D (lits l @ ps) (l @ r) q = match_rule D ps r q"
  by (simp add: match_literals)

definition with_string :: "string \<Rightarrow> 'd routing_params \<Rightarrow> 'd routing_params" where
  "with_string v q = q\<lparr>string_params := string_params q @ [v]\<rparr>"

lemma match_segment:
  assumes "CHR ''/'' \<notin> set v"
  shows "match_rule D (str_par # ps) (v @ CHR ''/'' # r) q =
    (if v = '''' then None else match_rule D ps (CHR ''/'' # r) (with_string v q))"
proof (cases v)
  case Nil
  then show ?thesis by (simp add: str_par_def)
next
  case (Cons c w)
  have "takeWhile (\<lambda>x. x \<noteq> CHR ''/'') (v @ CHR ''/'' # r) = v"
    using assms by (subst takeWhile_append2) auto
  with Cons show ?thesis by (simp add: str_par_def with_string_def Let_def)
qed

lemma match_last_segment:
  assumes "segment v"
  shows "match_rule D [str_par] v q = Some (with_string v q)"
proof -
  obtain c w where v: "v = c # w" using assms by (cases v) (auto simp: segment_def)
  have "takeWhile (\<lambda>x. x \<noteq> CHR ''/'') v = v" using assms by (intro takeWhile_eq_all_conv [THEN iffD2]) (auto simp: segment_def)
  with v show ?thesis by (simp add: str_par_def with_string_def Let_def)
qed

text \<open>A route with two segments between literals, on a URL of this form.\<close>

lemma match_two_segments:
  assumes "CHR ''/'' \<notin> set h" "CHR ''/'' \<notin> set g"
  shows "match_rule D (lits l @ str_par # lits ''/'' @ str_par # ps) (l @ h @ ''/'' @ g @ CHR ''/'' # r) q =
    (if h = '''' \<or> g = '''' then None
     else match_rule D ps (CHR ''/'' # r) (with_string g (with_string h q)))"
  using assms match_segment [of "''''" D ps r]
  by (simp add: match_prefix match_segment) (simp add: lits_def match_segment)

lemma api_method_rules:
  "rules_for (method_index Get) (api_rules J H) = [api_rules J H ! 0, api_rules J H ! Suc 0, api_rules J H ! 3,
     api_rules J H ! 4, api_rules J H ! 5]"
  "rules_for (method_index Post) (api_rules J H) = [api_rules J H ! 2]"
  by (simp_all add: rules_for_def api_rules_def web_route_def new_rule_def method_masks method_index_inj)

lemma api_no_redirect:
  "choose_route D (rules_for i (api_rules J H)) url =
     (case find (\<lambda>r. rule_match D (ru_text r) url \<noteq> None) (rules_for i (api_rules J H)) of
        Some r \<Rightarrow> Run_rule r (the (rule_match D (ru_text r) url)) | None \<Rightarrow> No_route)"
proof -
  have "\<forall>r \<in> set (api_rules J H). \<not> has_trailing_slash (ru_text r)"
    by (simp add: api_rules_def web_route_def new_rule_def has_trailing_slash_def)
  then show ?thesis by (auto simp: choose_route_def rules_for_def list_ex_iff)
qed

lemma api_rule_texts:
  "ru_text (api_rules J H ! 0) = ''/''"
  "ru_text (api_rules J H ! Suc 0) = ''/api/get/<string>/<string>/command/event''"
  "ru_text (api_rules J H ! 2) = ''/api/send/<string>/<string>/command/event''"
  "ru_text (api_rules J H ! 3) = ''/api/send/<string>/<string>/command/event/start/<string>''"
  "ru_text (api_rules J H ! 4) = ''/api/send/<string>/<string>/command/event/clear/<string>''"
  "ru_text (api_rules J H ! 5) = ''/api/send/<string>/<string>/command/event/finish/<string>''"
  by (simp_all add: api_rules_def web_route_def new_rule_def)

lemma api_root_match: "rule_match D ''/'' url = (if url = ''/'' then Some empty_params else None)"
  by (simp add: rule_match_def api_pieces match_literals_end)



text \<open>What the handler of each rule does with the segments it was given.\<close>

lemma api_handlers:
  fixes J :: "'j json_lib" and q :: "'d routing_params"
  assumes "string_params q = h # g # is"
  shows "handle_rule (api_rules J H ! Suc 0) req q (res, w) = get_events J h g res w"
    "handle_rule (api_rules J H ! 2) req q (res, w) = send_event J H req h res w"
    "is = [i] \<Longrightarrow> handle_rule (api_rules J H ! 3) req q (res, w) = start_event J h g i res w"
    "is = [i] \<Longrightarrow> handle_rule (api_rules J H ! 4) req q (res, w) = clear_event J H h g i res w"
    "is = [i] \<Longrightarrow> handle_rule (api_rules J H ! 5) req q (res, w) = end_event J h g i res w"
  using assms
  by (simp_all add: handle_rule_def api_rules_def web_route_def new_rule_def with_args_def arg_def)

definition api_url :: "string \<Rightarrow> string \<Rightarrow> string \<Rightarrow> string \<Rightarrow> string" where
  "api_url prefix h g suffix = prefix @ h @ ''/'' @ g @ ''/command/event'' @ suffix"

text \<open>The route of each request of the API.\<close>

lemma api_routes:
  assumes "segment h" "segment g" "segment i"
  defines "q2 \<equiv> with_string g (with_string h empty_params)"
  shows "choose_route D (rules_for (method_index Get) (api_rules J H)) (api_url ''/api/get/'' h g '''') =
      Run_rule (api_rules J H ! Suc 0) q2"
    "choose_route D (rules_for (method_index Post) (api_rules J H)) (api_url ''/api/send/'' h g '''') =
      Run_rule (api_rules J H ! 2) q2"
    "choose_route D (rules_for (method_index Get) (api_rules J H)) (api_url ''/api/send/'' h g (''/start/'' @ i)) =
      Run_rule (api_rules J H ! 3) (with_string i q2)"
    "choose_route D (rules_for (method_index Get) (api_rules J H)) (api_url ''/api/send/'' h g (''/clear/'' @ i)) =
      Run_rule (api_rules J H ! 4) (with_string i q2)"
    "choose_route D (rules_for (method_index Get) (api_rules J H)) (api_url ''/api/send/'' h g (''/finish/'' @ i)) =
      Run_rule (api_rules J H ! 5) (with_string i q2)"
proof -
  have sl: "CHR ''/'' \<notin> set h" "CHR ''/'' \<notin> set g" and ne: "h \<noteq> ''''" "g \<noteq> ''''"
    using assms by (auto simp: segment_def)
  have two: "match_rule D (lits l @ str_par # lits ''/'' @ str_par # ps) (l @ h @ ''/'' @ g @ CHR ''/'' # r) empty_params =
      match_rule D ps (CHR ''/'' # r) q2"  for l ps r
    using match_two_segments [OF sl, of D l ps r empty_params] ne by (simp add: q2_def)
  have get: "rule_match D ''/api/get/<string>/<string>/command/event'' (api_url ''/api/get/'' h g '''') = Some q2"
    using two [of "''/api/get/''" "lits ''/command/event''" "''command/event''"]
    by (simp add: rule_match_def api_pieces api_url_def match_literals_end)
  have action: "rule_match D (''/api/send/<string>/<string>/command/event'' @ a @ ''<string>'') (api_url ''/api/send/'' h g (b @ i)) =
      (if a = b then Some (with_string i q2) else None)"
    if "a \<in> {''/start/'', ''/clear/'', ''/finish/''}" "b \<in> {''/start/'', ''/clear/'', ''/finish/''}"
    for a b
    using that two [of "''/api/send/''" "lits (''/command/event'' @ a) @ [str_par]" "''command/event'' @ b @ i"]
      match_last_segment [OF assms(3), of D q2]
    by (elim insertE emptyE)
      (simp_all add: rule_match_def api_pieces api_url_def match_literals)
  have no_get: "rule_match D ''/api/get/<string>/<string>/command/event'' (api_url ''/api/send/'' h g s) = None"
    for s
    by (simp add: rule_match_def api_pieces api_url_def match_literals)
  have no_root: "rule_match D ''/'' (api_url p h g s) = None" if "p \<in> {''/api/get/'', ''/api/send/''}"
    for p s
    using that by (auto simp: api_root_match api_url_def)
  have post: "rule_match D ''/api/send/<string>/<string>/command/event'' (api_url ''/api/send/'' h g '''') = Some q2"
    using two [of "''/api/send/''" "lits ''/command/event''" "''command/event''"]
    by (simp add: rule_match_def api_pieces api_url_def match_literals_end)
  note acts = action [of "''/start/''" "''/start/''"] action [of "''/start/''" "''/clear/''"]
    action [of "''/start/''" "''/finish/''"] action [of "''/clear/''" "''/clear/''"]
    action [of "''/clear/''" "''/finish/''"] action [of "''/finish/''" "''/finish/''"]
  note defs = api_method_rules api_rule_texts
  show "choose_route D (rules_for (method_index Get) (api_rules J H)) (api_url ''/api/get/'' h g '''') =
      Run_rule (api_rules J H ! Suc 0) q2"
    unfolding api_no_redirect by (simp add: defs get no_root)
  show "choose_route D (rules_for (method_index Post) (api_rules J H)) (api_url ''/api/send/'' h g '''') =
      Run_rule (api_rules J H ! 2) q2"
    unfolding api_no_redirect by (simp add: defs post)
  show "choose_route D (rules_for (method_index Get) (api_rules J H)) (api_url ''/api/send/'' h g (''/start/'' @ i)) =
      Run_rule (api_rules J H ! 3) (with_string i q2)"
    "choose_route D (rules_for (method_index Get) (api_rules J H)) (api_url ''/api/send/'' h g (''/clear/'' @ i)) =
      Run_rule (api_rules J H ! 4) (with_string i q2)"
    "choose_route D (rules_for (method_index Get) (api_rules J H)) (api_url ''/api/send/'' h g (''/finish/'' @ i)) =
      Run_rule (api_rules J H ! 5) (with_string i q2)"
    unfolding api_no_redirect using acts by (simp_all add: defs no_get no_root)
qed

text \<open>
  C26. The API: the server's router is built without an error, and for non-empty segments \<open>h\<close>, \<open>g\<close>
  and \<open>i\<close> each of the five API requests runs the controller of its route with exactly these
  segments as worker, group and task; an exception of the controller becomes a 500.
\<close>

theorem api_dispatches:
  fixes J :: "'j json_lib"
  assumes "segment h" "segment g" "segment i"
  shows "\<exists>ro :: ('d, 'j web_world) router. router_validate (init_api_url J H init_router) = Some (Inr ro) \<and>
    (\<forall>D req res w.
      (rq_method req = Get \<and> rq_url req = api_url ''/api/get/'' h g '''' \<longrightarrow>
         handle_full D ro req res w = catch_500 (get_events J h g res w)) \<and>
      (rq_method req = Post \<and> rq_url req = api_url ''/api/send/'' h g '''' \<longrightarrow>
         handle_full D ro req res w = catch_500 (send_event J H req h res w)) \<and>
      (rq_method req = Get \<and> rq_url req = api_url ''/api/send/'' h g (''/start/'' @ i) \<longrightarrow>
         handle_full D ro req res w = catch_500 (start_event J h g i res w)) \<and>
      (rq_method req = Get \<and> rq_url req = api_url ''/api/send/'' h g (''/clear/'' @ i) \<longrightarrow>
         handle_full D ro req res w = catch_500 (clear_event J H h g i res w)) \<and>
      (rq_method req = Get \<and> rq_url req = api_url ''/api/send/'' h g (''/finish/'' @ i) \<longrightarrow>
         handle_full D ro req res w = catch_500 (end_event J h g i res w)))"
proof -
  obtain ro :: "('d, 'j web_world) router" where
    val: "router_validate (fold router_new_rule (api_rules J H) init_router) = Some (Inr ro)" and
    run: "\<And>D req res w. handle_full D ro req res w = route_outcome D (api_rules J H) req res w"
    using router_outcome [OF api_ready] by blast
  note routes = api_routes [OF assms, where J = J and H = H] api_routes [OF assms, where J = J and H = H, simplified]
  let ?q = "with_string g (with_string h empty_params) :: 'd routing_params"
  have sq: "string_params ?q = [h, g]" "string_params (with_string i ?q) = [h, g, i]"
    by (simp_all add: with_string_def empty_params_def)
  note defs = run route_outcome_def run_route_def Let_def
  have "rq_method req = Get \<and> rq_url req = api_url ''/api/get/'' h g '''' \<Longrightarrow>
      handle_full D ro req res w = catch_500 (get_events J h g res w)" for D req res w
    by (simp add: defs routes api_handlers(1) [OF sq(1)])
  moreover have "rq_method req = Post \<and> rq_url req = api_url ''/api/send/'' h g '''' \<Longrightarrow>
      handle_full D ro req res w = catch_500 (send_event J H req h res w)" for D req res w
    by (simp add: defs routes api_handlers(2) [OF sq(1)])
  moreover have "rq_method req = Get \<and> rq_url req = api_url ''/api/send/'' h g (''/start/'' @ i) \<Longrightarrow>
      handle_full D ro req res w = catch_500 (start_event J h g i res w)" for D req res w
    by (simp add: defs routes api_handlers(3) [OF sq(2) refl])
  moreover have "rq_method req = Get \<and> rq_url req = api_url ''/api/send/'' h g (''/clear/'' @ i) \<Longrightarrow>
      handle_full D ro req res w = catch_500 (clear_event J H h g i res w)" for D req res w
    by (simp add: defs routes api_handlers(4) [OF sq(2) refl])
  moreover have "rq_method req = Get \<and> rq_url req = api_url ''/api/send/'' h g (''/finish/'' @ i) \<Longrightarrow>
      handle_full D ro req res w = catch_500 (end_event J h g i res w)" for D req res w
    by (simp add: defs routes api_handlers(5) [OF sq(2) refl])
  ultimately show ?thesis
    using val unfolding init_api_url_def by (intro exI [of _ ro] conjI allI impI; blast)
qed

end
