(* ===== verification/Server_Logic.thy ===== *)
theory Server_Logic
  imports Web_Server Connector_Wire
begin

section \<open>The server and its client together\<close>

text \<open>
  \<open>server_logic.h\<close> puts a task manager and a connector into one object, \<open>web_server.h\<close> adds the
  routes. Here the two halves of the program meet: the URLs the connector asks for against the
  routes of the server, and the text a poll returns against the connector's parser.
\<close>

subsection \<open>The object\<close>

record ('j, 'cb, 'w) server_logic =
  sl_tasker :: "'j tasker_manager"
  sl_conn :: "('j, 'cb, 'w) connector"

text \<open>The body of \<open>handle_transfer\<close> is commented out: a transferred request is dropped.\<close>

definition handle_transfer :: "'j \<Rightarrow> (('j, 'cb, 'w) connector, unit) prog" where
  "handle_transfer json = pret ()"

definition new_server_logic ::
    "'cb \<Rightarrow> 'j tasker_manager \<Rightarrow> ('j, 'cb, 'w) connector \<Rightarrow> ('j, 'cb, 'w) server_logic" where
  "new_server_logic handle_transfer_ptr tm cm =
     \<lparr>sl_tasker = tm, sl_conn = set_transfer (Some handle_transfer_ptr) cm\<rparr>"

definition set_name_server :: "string \<Rightarrow> ('j, 'cb, 'w) server_logic \<Rightarrow> ('j, 'cb, 'w) server_logic" where
  "set_name_server name sl =
     sl\<lparr>sl_tasker := (sl_tasker sl)\<lparr>name_server := name\<rparr>, sl_conn := (sl_conn sl)\<lparr>name_client := name\<rparr>\<rparr>"

definition add_conn_server :: "string \<Rightarrow> ('j, 'cb, 'w) server_logic \<Rightarrow> ('j, 'cb, 'w) server_logic" where
  "add_conn_server ip sl = sl\<lparr>sl_conn := add_connection ip (sl_conn sl)\<rparr>"

subsection \<open>The connector's URLs\<close>

text \<open>Literals without a slash are matched by the segment they start in.\<close>

lemma match_through:
  "CHR ''/'' \<notin> set p \<Longrightarrow> match_rule D (lits p @ ps) (W @ CHR ''/'' # t) q \<noteq> None \<Longrightarrow>
   \<exists>W'. W = p @ W' \<and> match_rule D ps (W' @ CHR ''/'' # t) q \<noteq> None"
proof (induction p arbitrary: W)
  case (Cons c p)
  show ?case
  proof (cases W)
    case Nil
    with Cons.prems show ?thesis by (auto simp: lits_def split: if_splits)
  next
    case (Cons x W1)
    with Cons.prems Cons.IH [of W1] show ?thesis by (auto simp: lits_def split: if_splits)
  qed
qed (simp add: lits_def)

text \<open>A route with two segments does not match a URL with a third one after \<open>command\<close>.\<close>

lemma match_command_event:
  assumes "CHR ''/'' \<notin> set W"
    and "r = '''' \<and> ps = [] \<or> (\<exists>x r'. r = CHR ''/'' # x # r' \<and> x \<noteq> CHR ''e'')"
  shows "match_rule D (lits (''/command/event'' @ r) @ ps) (''/command/'' @ W @ ''/event'' @ t) q = None"
proof (rule ccontr)
  assume "match_rule D (lits (''/command/event'' @ r) @ ps) (''/command/'' @ W @ ''/event'' @ t) q \<noteq> None"
  then have "match_rule D (lits ''/command/'' @ lits ''event'' @ lits r @ ps) (''/command/'' @ W @ ''/event'' @ t) q \<noteq> None"
    by (simp add: lits_def)
  then have "match_rule D (lits ''event'' @ lits r @ ps) (W @ CHR ''/'' # ''event'' @ t) q \<noteq> None"
    using match_prefix [of D "''/command/''" "lits ''event'' @ lits r @ ps" "W @ CHR ''/'' # ''event'' @ t" q]
    by simp
  from match_through [OF _ this] obtain W' where W: "W = ''event'' @ W'"
    "match_rule D (lits r @ ps) (W' @ CHR ''/'' # ''event'' @ t) q \<noteq> None" by auto
  from assms(2) show False
  proof
    assume "r = '''' \<and> ps = []"
    with W(2) show False by (cases W') (simp_all add: lits_def)
  next
    assume "\<exists>x r'. r = CHR ''/'' # x # r' \<and> x \<noteq> CHR ''e''"
    then obtain x r' where r: "r = CHR ''/'' # x # r'" "x \<noteq> CHR ''e''" by blast
    from assms(1) W(1) have "CHR ''/'' \<notin> set W'" by simp
    with W(2) r show False by (cases W') (auto simp: lits_def split: if_splits)
  qed
qed

text \<open>So no API route matches a command URL of the connector.\<close>

lemma no_route_two_segments:
  assumes "CHR ''/'' \<notin> set H" "CHR ''/'' \<notin> set Nm" "CHR ''/'' \<notin> set W"
    and "r = '''' \<and> ps = [] \<or> (\<exists>x r'. r = CHR ''/'' # x # r' \<and> x \<noteq> CHR ''e'')"
  shows "match_rule D (lits l @ str_par # lits ''/'' @ str_par # lits (''/command/event'' @ r) @ ps)
    (l @ H @ ''/'' @ Nm @ ''/command/'' @ W @ ''/event'' @ t) q = None"
  using match_two_segments [OF assms(1,2), of D l "lits (''/command/event'' @ r) @ ps"
      "''command/'' @ W @ ''/event'' @ t" q] match_command_event [OF assms(3,4), of D t]
  by simp

lemma api_unrouted:
  fixes D :: "string \<Rightarrow> ('d \<times> nat) option" and J :: "'k json_lib"
  assumes "\<forall>r \<in> set (api_rules J H :: ('d, 'k web_world) rule list). rule_match D (ru_text r) url = None"
  shows "choose_route D (rules_for i (api_rules J H)) url = No_route"
proof -
  have "find (\<lambda>r :: ('d, 'k web_world) rule. rule_match D (ru_text r) url \<noteq> None) (rules_for i (api_rules J H)) = None"
    using assms by (simp add: find_None_iff rules_for_def)
  then show ?thesis by (simp add: api_no_redirect)
qed

text \<open>The URLs the connector asks for.\<close>

definition connector_url :: "('j, 'cb, 'w) connector \<Rightarrow> connection \<Rightarrow> string \<Rightarrow> bool" where
  "connector_url s c url \<longleftrightarrow>
     url \<in> {command_url ''/api/get/'' s c ''/event'', command_url ''/api/send/'' s c ''/event'',
            command_url ''/api/client/'' s c ''/exit'', ''/api/client/'' @ name_client s @ ''/getid''} \<or>
     (\<exists>action i. action \<in> {''start'', ''clear'', ''finish''} \<and>
        url = command_url ''/api/send/'' s c (''/event/'' @ action @ ''/'' @ i))"

lemma connector_url_form:
  assumes "connector_url s c url"
  obtains p t where "p \<in> {''/api/get/'', ''/api/send/''}"
      "url = p @ co_server_hash c @ ''/'' @ name_client s @ ''/command/'' @ co_hash_worker c @ ''/event'' @ t"
    | t where "url = ''/api/client/'' @ t"
proof -
  consider "url = command_url ''/api/get/'' s c ''/event''" | "url = command_url ''/api/send/'' s c ''/event''"
    | "url = command_url ''/api/client/'' s c ''/exit''" | "url = ''/api/client/'' @ name_client s @ ''/getid''"
    | action i where "url = command_url ''/api/send/'' s c (''/event/'' @ action @ ''/'' @ i)"
    using assms unfolding connector_url_def by blast
  then show thesis
  proof cases
    case 1
    then show thesis by (intro that(1) [of "''/api/get/''" "''''"]) (simp_all add: command_url_def)
  next
    case 2
    then show thesis by (intro that(1) [of "''/api/send/''" "''''"]) (simp_all add: command_url_def)
  next
    case 3
    then show thesis by (intro that(2)) (simp add: command_url_def)
  next
    case 4
    then show thesis by (intro that(2)) simp
  next
    case (5 action i)
    then show thesis
      by (intro that(1) [of "''/api/send/''" "''/'' @ action @ ''/'' @ i"]) (simp_all add: command_url_def)
  qed
qed

lemma connector_url_unmatched:
  assumes "connector_url s c url" "CHR ''/'' \<notin> set (co_server_hash c)" "CHR ''/'' \<notin> set (name_client s)"
    "CHR ''/'' \<notin> set (co_hash_worker c)" "t \<in> set (map ru_text (api_rules J H))"
  shows "rule_match D t url = None"
  using assms(1)
proof (cases rule: connector_url_form)
  case (1 p u)
  note no = no_route_two_segments [OF assms(2-4)]
  from 1 assms(5) show ?thesis
    unfolding api_texts
    using no [of "''''" "[]"] no [of "''/start/''" "[str_par]"] no [of "''/clear/''" "[str_par]"] no [of "''/finish/''" "[str_par]"]
    by (auto simp: rule_match_def api_pieces match_literals match_literals_end)
next
  case (2 u)
  with assms(5) show ?thesis
    unfolding api_texts by (auto simp: rule_match_def api_pieces match_literals match_literals_end)
qed

text \<open>
  C32. No request the connector makes is routed by the server of the same program: for worker ids,
  server ids and client names without a slash, every GET, POST or other ordinary request to a URL
  of the connector is answered 404, because the connector puts the worker id behind \<open>command\<close> and
  the server's routes do not.
\<close>

theorem connector_unrouted:
  fixes s :: "('j, 'cb, 'v) connector" and J :: "'k json_lib"
  assumes "CHR ''/'' \<notin> set (co_server_hash c)" "CHR ''/'' \<notin> set (name_client s)"
    "CHR ''/'' \<notin> set (co_hash_worker c)" "connector_url s c (rq_url req)"
    "rq_method req \<notin> {Head, Options, InternalMethodCount}"
  shows "\<exists>ro :: ('d, 'k web_world) router. router_validate (init_api_url J H init_router) = Some (Inr ro) \<and>
    (\<forall>D res w. handle_full D ro req res w = Some (None, end_response (res\<lparr>rs_code := 404\<rparr>), w))"
proof -
  obtain ro :: "('d, 'k web_world) router" where
    val: "router_validate (fold router_new_rule (api_rules J H) init_router) = Some (Inr ro)" and
    run: "\<And>D req res w. handle_full D ro req res w = route_outcome D (api_rules J H) req res w"
    using router_outcome [OF api_ready] by blast
  have none: "choose_route D (rules_for i (api_rules J H)) (rq_url req) = No_route"
    for D :: "string \<Rightarrow> ('d \<times> nat) option" and i
    by (rule api_unrouted, rule ballI, rule connector_url_unmatched [OF assms(4,1,2,3)],
        unfold list.set_map, erule imageI)
  have "\<not> any_method (\<lambda>i. False)" by (simp add: any_method_def list_ex_iff)
  then have "handle_full D ro req res w = Some (None, end_response (res\<lparr>rs_code := 404\<rparr>), w)" for D res w
    using assms(5) by (simp add: run route_outcome_def none run_route_def)
  with val show ?thesis by (auto simp: init_api_url_def)
qed

end
