(* ===== verification/Web_Sample.thy ===== *)
theory Web_Sample
  imports Server_Logic
begin

section \<open>Sample runs of the web server\<close>

definition web_lib :: "sj json_lib" where
  "web_lib = sample_json []"

definition web_hash :: "string \<Rightarrow> 8 word list" where
  "web_hash s = [word_of_nat (length s)]"

definition sample_web :: "sj web_world" where
  "sample_web = \<lparr>ww_tasker = new_tasker_manager web_hash 0 0,
     ww_clock = (\<lambda>n. \<lparr>clk_client = 1, clk_time = int n, clk_clock = int n\<rparr>), ww_calls = 0\<rparr>"

definition sample_request :: "HTTPMethod \<Rightarrow> string \<Rightarrow> crow_request" where
  "sample_request m url = \<lparr>rq_method = m, rq_raw_url = url, rq_url = url, rq_headers = [], rq_body = '''',
     rq_remote_ip = '''', rq_ver_major = 1, rq_ver_minor = 1, rq_keep_alive = True,
     rq_close_connection = False, rq_upgrade = False\<rparr>"

definition sample_strtod :: "string \<Rightarrow> (nat \<times> nat) option" where
  "sample_strtod s = None"

text \<open>The first poll of a worker: an empty object.\<close>

lemma sample_poll:
  "map_option (\<lambda>(x, res, w). (x, rs_code res, rs_body res, rs_completed res, ww_calls w))
     (catch_500 (get_events web_lib ''w'' ''g'' response sample_web)) = Some (None, 200, ''{}'', True, 1)"
  by code_simp

lemma api_dispatches_witness:
  "\<exists>ro :: (nat, sj web_world) router.
     router_validate (init_api_url web_lib web_hash init_router) = Some (Inr ro) \<and>
     map_option (\<lambda>(x, res, w). (x, rs_code res, rs_body res, rs_completed res, ww_calls w))
       (handle_full sample_strtod ro (sample_request Get ''/api/get/w/g/command/event'') response sample_web) =
     Some (None, 200, ''{}'', True, 1)"
proof -
  have "segment ''w''" "segment ''g''" "segment ''7''" by (simp_all add: segment_def)
  from api_dispatches [OF this, of web_lib web_hash] obtain ro :: "(nat, sj web_world) router" where
    ro: "router_validate (init_api_url web_lib web_hash init_router) = Some (Inr ro)"
    "\<And>D req res w. rq_method req = Get \<and> rq_url req = api_url ''/api/get/'' ''w'' ''g'' '''' \<Longrightarrow>
       handle_full D ro req res w = catch_500 (get_events web_lib ''w'' ''g'' res w)"
    by blast
  have "rq_method (sample_request Get ''/api/get/w/g/command/event'') = Get \<and>
      rq_url (sample_request Get ''/api/get/w/g/command/event'') = api_url ''/api/get/'' ''w'' ''g'' ''''"
    by (simp add: sample_request_def api_url_def)
  from ro(2) [OF this] sample_poll ro(1) show ?thesis by auto
qed

text \<open>Two routes on one path, a parameter, and a trailing slash.\<close>

definition sample_handler :: "string \<Rightarrow> (nat, string list) rule_handler" where
  "sample_handler name req q = (\<lambda>(res, w). Some (None, end_with name res, w @ string_params q))"

definition sample_rules :: "(nat, string list) rule list" where
  "sample_rules =
     [web_route ''/about/'' (sample_handler ''about''),
      web_route ''/item/<string>'' (sample_handler ''item''),
      (web_route ''/item/<string>'' (sample_handler ''update''))\<lparr>ru_methods := 8\<rparr>]"

lemma sample_rules_ready: "rules_ready sample_rules"
proof -
  have f: "foreach_method default_methods = [Suc 0]" "foreach_method 8 = [3]" by code_simp+
  have p: "rule_pieces ''/about/'' = Some (map Lit ''/about/'')" "rule_pieces ''/about'' = Some (map Lit ''/about'')"
    "rule_pieces ''/item/<string>'' = Some (map Lit ''/item/'' @ [Par PString])" by code_simp+
  have "distinct (map (rule_pieces \<circ> fst) (entries_from 2 (rules_for i sample_rules)))" if "i < 34" for i
    by (cases "i = Suc 0"; cases "i = 3")
      (simp_all add: sample_rules_def rules_for_def web_route_def new_rule_def f p has_trailing_slash_def)
  then show ?thesis
    by (simp add: rules_ready_def sample_rules_def plain_rule_def web_route_def new_rule_def rule_ok_def p has_trailing_slash_def)
qed

lemma router_dispatches_witness:
  "\<exists>ro. router_validate (fold router_new_rule sample_rules init_router) = Some (Inr ro) \<and>
    map (\<lambda>(m, url). map_option (\<lambda>(x, res, w). (x, rs_code res, rs_body res, w))
          (handle_full sample_strtod ro (sample_request m url) response []))
      [(Get, ''/about''), (Get, ''/item/7''), (Post, ''/item/7'')] =
    [Some (None, 301, '''', []), Some (None, 200, ''item'', [''7'']), Some (None, 200, ''update'', [''7''])]"
proof -
  have "map (\<lambda>(m, url). map_option (\<lambda>(x, res, w). (x, rs_code res, rs_body res, w))
          (route_outcome sample_strtod sample_rules (sample_request m url) response []))
      [(Get, ''/about''), (Get, ''/item/7''), (Post, ''/item/7'')] =
    [Some (None, 301, '''', []), Some (None, 200, ''item'', [''7'']), Some (None, 200, ''update'', [''7''])]"
    by code_simp
  with router_dispatches [OF sample_rules_ready] show ?thesis by auto
qed


text \<open>A connector that has just been made polls the server.\<close>

definition sample_client :: "(sj, unit, unit) connector" where
  "sample_client = new_connector web_lib 0 '''' ()"

lemma connector_unrouted_witness:
  "\<exists>ro :: (nat, sj web_world) router.
     router_validate (init_api_url web_lib web_hash init_router) = Some (Inr ro) \<and>
     handle_full sample_strtod ro (sample_request Get ''/api/get/1/test/command/1/event'') response sample_web =
       Some (None, response\<lparr>rs_code := 404, rs_completed := True\<rparr>, sample_web)"
proof -
  let ?req = "sample_request Get ''/api/get/1/test/command/1/event''"
  have h: "CHR ''/'' \<notin> set (co_server_hash (new_connection ''a''))" "CHR ''/'' \<notin> set (name_client sample_client)"
    "CHR ''/'' \<notin> set (co_hash_worker (new_connection ''a''))"
    by (simp_all add: new_connection_def sample_client_def new_connector_def)
  have u: "connector_url sample_client (new_connection ''a'') (rq_url ?req)"
    by (simp add: connector_url_def command_url_def sample_request_def new_connection_def sample_client_def
        new_connector_def)
  have m: "rq_method ?req \<notin> {Head, Options, InternalMethodCount}" by (simp add: sample_request_def)
  have "end_response (response\<lparr>rs_code := 404\<rparr>) = response\<lparr>rs_code := 404, rs_completed := True\<rparr>"
    by (simp add: end_response_def response_def)
  with connector_unrouted [OF h u m, of web_lib web_hash] show ?thesis by auto
qed

end
