(* ===== verification/Logger.thy ===== *)
theory Logger
  imports Slots
begin

section \<open>The loggers\<close>

text \<open>
  The class \<open>Logger\<close>, which \<open>tasker_manager.h\<close> and \<open>connector_manager.h\<close> both define, word for word
  the same. A logger keeps a vector of open files and the name of the current one. The outside
  world is the contents of the files and the text on the console; which files can be opened is a
  parameter, and so is the text \<open>std::ctime\<close> returns. \<open>exit(1)\<close> ends the process: \<open>None\<close>. Every
  operation holds the logger's recursive mutex (see \<open>Mutex\<close>).
\<close>

subsection \<open>State\<close>

record log_file =
  file_is_open :: bool
  name_file :: string

record logger =
  logFiles :: "log_file list"
  currentfile :: string

record log_world =
  lw_files :: "string \<Rightarrow> string option"
  lw_console :: string

definition new_logger :: logger where
  "new_logger = \<lparr>logFiles = [], currentfile = ''''\<rparr>"

text \<open>\<open>getCurrentTime\<close>: the line feed at the end of \<open>ctime\<close>'s text is cut off.\<close>

definition getCurrentTime :: "string \<Rightarrow> string" where
  "getCurrentTime ctime = take (length ctime - 1) ctime"

subsection \<open>Operations\<close>

definition close_file :: "log_file \<Rightarrow> log_file" where
  "close_file f = (if file_is_open f then f\<lparr>file_is_open := False\<rparr> else f)"

definition find_file :: "string \<Rightarrow> logger \<Rightarrow> nat option" where
  "find_file filename l = first_index (\<lambda>f. name_file f = filename) (logFiles l)"

text \<open>\<open>delete_file\<close> closes the file before it takes it out of the vector.\<close>

definition delete_file :: "string \<Rightarrow> logger \<Rightarrow> logger" where
  "delete_file filename l =
     (case first_index (\<lambda>f. name_file f = filename) (logFiles l) of
        None \<Rightarrow> l
      | Some i \<Rightarrow>
          let fs = (logFiles l)[i := close_file (logFiles l ! i)]
          in l\<lparr>logFiles := take i fs @ drop (Suc i) fs\<rparr>)"

definition set_current_file :: "string \<Rightarrow> logger \<Rightarrow> logger" where
  "set_current_file filename l = l\<lparr>currentfile := filename\<rparr>"

text \<open>Opening for appending creates a file that does not exist.\<close>

definition open_append :: "string \<Rightarrow> log_world \<Rightarrow> log_world" where
  "open_append filename w =
     (case lw_files w filename of
        None \<Rightarrow> w\<lparr>lw_files := (lw_files w)(filename \<mapsto> [])\<rparr>
      | Some t \<Rightarrow> w)"

definition add_file ::
    "(string \<Rightarrow> bool) \<Rightarrow> string \<Rightarrow> logger \<times> log_world \<Rightarrow> (logger \<times> log_world) option" where
  "add_file can_open filename s =
     (case s of (l0, w) \<Rightarrow>
        let l = delete_file filename l0 in
        if \<not> can_open filename then None
        else Some (l\<lparr>currentfile := filename,
                     logFiles := logFiles l @ [\<lparr>file_is_open = True, name_file = filename\<rparr>]\<rparr>,
                   open_append filename w))"

definition log_line :: "string \<Rightarrow> string \<Rightarrow> string \<Rightarrow> string" where
  "log_line time name_log message = time @ '' - '' @ name_log @ '' - '' @ message @ [LF]"

definition print_console :: "string \<Rightarrow> log_world \<Rightarrow> log_world" where
  "print_console t w = w\<lparr>lw_console := lw_console w @ t\<rparr>"

definition append_file :: "string \<Rightarrow> string \<Rightarrow> log_world \<Rightarrow> log_world" where
  "append_file filename t w =
     w\<lparr>lw_files := (lw_files w)(filename \<mapsto> (case lw_files w filename of None \<Rightarrow> [] | Some u \<Rightarrow> u) @ t)\<rparr>"

text \<open>\<open>log(filename, name_log, message)\<close> and \<open>log(name_log, message)\<close>.\<close>

definition log_to ::
    "string \<Rightarrow> string \<Rightarrow> string \<Rightarrow> string \<Rightarrow> logger \<times> log_world \<Rightarrow> (logger \<times> log_world) option" where
  "log_to ctime filename name_log message s =
     (case s of (l, w) \<Rightarrow>
        let time = getCurrentTime ctime; t = log_line time name_log message in
        if logFiles l = [] then Some (l, print_console t w)
        else
          (case find_file filename l of
             None \<Rightarrow> None
           | Some index \<Rightarrow>
               if file_is_open (logFiles l ! index)
               then Some (l, append_file (name_file (logFiles l ! index)) t w)
               else Some (l, w)))"

definition log_current ::
    "string \<Rightarrow> string \<Rightarrow> string \<Rightarrow> logger \<times> log_world \<Rightarrow> (logger \<times> log_world) option" where
  "log_current ctime name_log message s =
     (case s of (l, w) \<Rightarrow>
        let time = getCurrentTime ctime; t = log_line time name_log message in
        if logFiles l = [] then Some (l, print_console t w)
        else
          (case find_file (currentfile l) l of
             None \<Rightarrow> None
           | Some index \<Rightarrow>
               if file_is_open (logFiles l ! index)
               then Some (l, append_file (name_file (logFiles l ! index)) t w)
               else Some (l, w)))"

definition destroy_logger :: "logger \<Rightarrow> logger" where
  "destroy_logger l = l\<lparr>logFiles := map close_file (logFiles l)\<rparr>"

subsection \<open>The table of files\<close>

interpretation lf: keyed_table logFiles name_file find_file
    "\<lambda>i f l. l\<lparr>logFiles := (logFiles l)[i := f]\<rparr>" "\<lambda>f l. l\<lparr>logFiles := logFiles l @ [f]\<rparr>"
  by unfold_locales (simp_all add: find_file_def)

text \<open>Every file in the vector is open, and there is at most one of a name.\<close>

definition logger_ok :: "logger \<Rightarrow> bool" where
  "logger_ok l \<longleftrightarrow> distinct (map name_file (logFiles l)) \<and> (\<forall>f \<in> set (logFiles l). file_is_open f)"

definition log_names :: "logger \<Rightarrow> string set" where
  "log_names l = name_file ` set (logFiles l)"

lemma find_file_names: "find_file f l = None \<longleftrightarrow> f \<notin> log_names l"
  using lf.view_None [of l f] by (simp add: lf.view_def log_names_def)

lemma delete_file_spec:
  assumes "logger_ok l"
  shows "logger_ok (delete_file f l)" "log_names (delete_file f l) = log_names l - {f}"
    "currentfile (delete_file f l) = currentfile l"
proof -
  have "logger_ok (delete_file f l) \<and> log_names (delete_file f l) = log_names l - {f} \<and>
      currentfile (delete_file f l) = currentfile l"
  proof (cases "find_file f l")
    case None
    then have "delete_file f l = l" by (simp add: delete_file_def find_file_def)
    with assms None show ?thesis by (auto simp: find_file_names)
  next
    case (Some i)
    let ?fs = "logFiles l"
    have i: "i < length ?fs" "name_file (?fs ! i) = f" using lf.look_lt [OF Some] lf.look_key [OF Some] by simp_all
    then have fs: "?fs = take i ?fs @ ?fs ! i # drop (Suc i) ?fs" by (simp add: id_take_nth_drop)
    have del: "logFiles (delete_file f l) = take i ?fs @ drop (Suc i) ?fs"
      "currentfile (delete_file f l) = currentfile l"
      using Some by (simp_all add: delete_file_def find_file_def Let_def)
    have d: "distinct (map name_file (take i ?fs @ ?fs ! i # drop (Suc i) ?fs))"
      and op: "\<forall>g \<in> set (take i ?fs @ ?fs ! i # drop (Suc i) ?fs). file_is_open g"
      using assms fs by (auto simp: logger_ok_def)
    have "log_names l = name_file ` set (take i ?fs @ ?fs ! i # drop (Suc i) ?fs)"
      using fs by (simp add: log_names_def)
    with del i(2) d op show ?thesis
      by (auto simp: logger_ok_def log_names_def) (metis image_eqI)+
  qed
  then show "logger_ok (delete_file f l)" "log_names (delete_file f l) = log_names l - {f}"
    "currentfile (delete_file f l) = currentfile l" by simp_all
qed

subsection \<open>What a logger promises\<close>

datatype log_op =
    Add_file string
  | Delete_file string
  | Set_current string
  | Log string string string
  | Log_to string string string string

fun log_step :: "(string \<Rightarrow> bool) \<Rightarrow> log_op \<Rightarrow> logger \<times> log_world \<Rightarrow> (logger \<times> log_world) option" where
  "log_step can_open (Add_file f) s = add_file can_open f s"
| "log_step can_open (Delete_file f) (l, w) = Some (delete_file f l, w)"
| "log_step can_open (Set_current f) (l, w) = Some (set_current_file f l, w)"
| "log_step can_open (Log ctime n m) s = log_current ctime n m s"
| "log_step can_open (Log_to ctime f n m) s = log_to ctime f n m s"

text \<open>
  The specification: a set of names and the current one. A line goes to the console while no file
  is registered and to the end of the named file otherwise; a name that is not registered ends the
  process.
\<close>

type_synonym log_registry = "string set \<times> string"

definition spec_log :: "string \<Rightarrow> string \<Rightarrow> log_registry \<times> log_world \<Rightarrow> (log_registry \<times> log_world) option" where
  "spec_log f t s =
     (case s of (r, w) \<Rightarrow>
        if fst r = {} then Some (r, print_console t w)
        else if f \<in> fst r then Some (r, append_file f t w)
        else None)"

fun spec_log_step ::
    "(string \<Rightarrow> bool) \<Rightarrow> log_op \<Rightarrow> log_registry \<times> log_world \<Rightarrow> (log_registry \<times> log_world) option" where
  "spec_log_step can_open (Add_file f) ((names, cur), w) =
     (if can_open f then Some ((insert f names, f), open_append f w) else None)"
| "spec_log_step can_open (Delete_file f) ((names, cur), w) = Some ((names - {f}, cur), w)"
| "spec_log_step can_open (Set_current f) ((names, cur), w) = Some ((names, f), w)"
| "spec_log_step can_open (Log ctime n m) ((names, cur), w) =
     spec_log cur (log_line (butlast ctime) n m) ((names, cur), w)"
| "spec_log_step can_open (Log_to ctime f n m) ((names, cur), w) =
     spec_log f (log_line (butlast ctime) n m) ((names, cur), w)"

fun run_steps :: "('o \<Rightarrow> 's \<Rightarrow> 's option) \<Rightarrow> 'o list \<Rightarrow> 's \<Rightarrow> 's option" where
  "run_steps f [] s = Some s"
| "run_steps f (x # xs) s = (case f x s of None \<Rightarrow> None | Some s' \<Rightarrow> run_steps f xs s')"

definition registry :: "logger \<times> log_world \<Rightarrow> log_registry \<times> log_world" where
  "registry s = ((log_names (fst s), currentfile (fst s)), snd s)"

lemma log_names_empty: "log_names l = {} \<longleftrightarrow> logFiles l = []"
  by (simp add: log_names_def)

lemma log_to_spec:
  assumes "logger_ok l"
  shows "map_option registry (log_to ctime f n m (l, w)) =
      spec_log f (log_line (butlast ctime) n m) (registry (l, w))"
    and "log_to ctime f n m (l, w) = Some (l', w') \<Longrightarrow> l' = l"
proof -
  have t: "getCurrentTime ctime = butlast ctime" by (simp add: getCurrentTime_def butlast_conv_take)
  have op: "file_is_open (logFiles l ! i)" "name_file (logFiles l ! i) = f" if "find_file f l = Some i" for i
    using assms lf.look_lt [OF that] lf.look_key [OF that] by (simp_all add: logger_ok_def)
  show "map_option registry (log_to ctime f n m (l, w)) =
      spec_log f (log_line (butlast ctime) n m) (registry (l, w))"
    using find_file_names [of f l] op
    by (cases "find_file f l") (auto simp: log_to_def spec_log_def registry_def t Let_def log_names_empty)
  show "log_to ctime f n m (l, w) = Some (l', w') \<Longrightarrow> l' = l"
    by (auto simp: log_to_def Let_def split: if_splits option.splits)
qed

lemma log_current_to: "log_current ctime n m (l, w) = log_to ctime (currentfile l) n m (l, w)"
  by (simp add: log_current_def log_to_def)

lemma add_file_spec:
  assumes "logger_ok l"
  shows "map_option registry (add_file can_open f (l, w)) = spec_log_step can_open (Add_file f) (registry (l, w))"
    and "add_file can_open f (l, w) = Some (l', w') \<Longrightarrow> logger_ok l'"
proof -
  note del = delete_file_spec [OF assms, of f]
  show "map_option registry (add_file can_open f (l, w)) = spec_log_step can_open (Add_file f) (registry (l, w))"
    using del(2) by (auto simp: add_file_def registry_def log_names_def Let_def)
  have "find_file f (delete_file f l) = None" using del(2) by (simp add: find_file_names)
  then have "distinct (map name_file (logFiles (delete_file f l) @ [\<lparr>file_is_open = True, name_file = f\<rparr>]))"
    using lf.distinct_push [of "\<lparr>file_is_open = True, name_file = f\<rparr>" "delete_file f l"] del(1)
    by (simp add: logger_ok_def)
  then show "add_file can_open f (l, w) = Some (l', w') \<Longrightarrow> logger_ok l'"
    using del(1) by (auto simp: add_file_def Let_def logger_ok_def split: if_splits)
qed

lemma logger_ok_set_current [simp]: "logger_ok (set_current_file f l) = logger_ok l"
  by (simp add: logger_ok_def set_current_file_def)

lemma log_step_spec:
  assumes "logger_ok (fst s)"
  shows "map_option registry (log_step can_open x s) = spec_log_step can_open x (registry s)"
    and "log_step can_open x s = Some s' \<Longrightarrow> logger_ok (fst s')"
proof -
  obtain l w where s: "s = (l, w)" by (cases s)
  with assms have ok: "logger_ok l" by simp
  note facts = add_file_spec [OF ok] delete_file_spec [OF ok] log_to_spec [OF ok]
  show "map_option registry (log_step can_open x s) = spec_log_step can_open x (registry s)"
    using facts by (cases x) (simp_all add: s log_current_to, simp_all add: registry_def set_current_file_def log_names_def)
  show "log_step can_open x s = Some s' \<Longrightarrow> logger_ok (fst s')"
    using ok delete_file_spec(1) [OF ok]
    by (cases x; cases s')
      (auto simp: s log_current_to logger_ok_set_current dest: log_to_spec(2) [OF ok] add_file_spec(2) [OF ok])
qed

text \<open>
  C40. After any sequence of operations on a new logger, the logger stands for the set of registered
  file names and the current name as the specification says, the contents of all files and of the
  console are what it says, and the process has ended exactly when it says so; the vector then holds
  each registered file once and open.
\<close>

theorem logger_refines_registry:
  "map_option registry (run_steps (log_step can_open) ops (new_logger, w)) =
     run_steps (spec_log_step can_open) ops (({}, ''''), w) \<and>
   pred_option (logger_ok \<circ> fst) (run_steps (log_step can_open) ops (new_logger, w))"
proof -
  have "map_option registry (run_steps (log_step can_open) ops s) =
        run_steps (spec_log_step can_open) ops (registry s) \<and>
      pred_option (logger_ok \<circ> fst) (run_steps (log_step can_open) ops s)"
    if "logger_ok (fst s)" for s
    using that
  proof (induction ops arbitrary: s)
    case (Cons x ops)
    note step = log_step_spec [OF Cons.prems, of can_open x]
    show ?case
    proof (cases "log_step can_open x s")
      case None
      with step(1) show ?thesis by (simp add: option.map_sel)
    next
      case (Some s')
      with Cons.IH [of s'] step(2) [of s'] step(1) [symmetric] show ?thesis by simp
    qed
  qed simp
  from this [of "(new_logger, w)"] show ?thesis
    by (simp add: new_logger_def registry_def log_names_def logger_ok_def)
qed

end
