(* ===== verification/Crow_Sha1.thy ===== *)
theory Crow_Sha1
  imports Prelude "HOL-Library.Word" "HOL-Library.While_Combinator"
begin

section \<open>Crow: SHA-1\<close>

text \<open>
  The class \<open>sha1::SHA1\<close> of \<open>TinySHA1.hpp\<close>, which the WebSocket handshake uses. The buffer of a new
  object is not initialised: its contents are an argument. The class is compared with the algorithm
  of FIPS 180: pad the message to blocks, run the compression function over them.
\<close>

unbundle bit_operations_syntax

subsection \<open>The class\<close>

type_synonym digest32 = "32 word \<times> 32 word \<times> 32 word \<times> 32 word \<times> 32 word"

record sha1 =
  m_digest :: digest32
  m_block :: "8 word list"
  m_blockByteIndex :: nat
  m_byteCount :: "64 word"

definition LeftRotate :: "32 word \<Rightarrow> nat \<Rightarrow> 32 word" where
  "LeftRotate v n = push_bit n v XOR drop_bit (32 - n) v"

definition sha1_init :: digest32 where
  "sha1_init = (0x67452301, 0xEFCDAB89, 0x98BADCFE, 0x10325476, 0xC3D2E1F0)"

definition reset :: "sha1 \<Rightarrow> sha1" where
  "reset s = s\<lparr>m_digest := sha1_init, m_blockByteIndex := 0, m_byteCount := 0\<rparr>"

definition new_sha1 :: "8 word list \<Rightarrow> sha1" where
  "new_sha1 buffer =
     reset \<lparr>m_digest = (0, 0, 0, 0, 0), m_block = buffer, m_blockByteIndex = 0, m_byteCount = 0\<rparr>"

text \<open>The word array of a block: sixteen words read from the bytes, the others computed from them.\<close>

definition block_word :: "8 word list \<Rightarrow> nat \<Rightarrow> 32 word" where
  "block_word b i =
     push_bit 24 (ucast (b ! (i * 4))) OR push_bit 16 (ucast (b ! (i * 4 + 1))) OR
     push_bit 8 (ucast (b ! (i * 4 + 2))) OR ucast (b ! (i * 4 + 3))"

definition extend_words :: "32 word list \<Rightarrow> nat \<Rightarrow> 32 word list" where
  "extend_words w i = w @ [LeftRotate (w ! (i - 3) XOR w ! (i - 8) XOR w ! (i - 14) XOR w ! (i - 16)) 1]"

definition block_words :: "8 word list \<Rightarrow> 32 word list" where
  "block_words b = foldl extend_words (map (block_word b) [0..<16]) [16..<80]"

definition sha1_round :: "32 word list \<Rightarrow> digest32 \<Rightarrow> nat \<Rightarrow> digest32" where
  "sha1_round w s i =
     (case s of (a, b, c, d, e) \<Rightarrow>
        let (f, k) =
              (if i < 20 then ((b AND c) OR (NOT b AND d), 0x5A827999)
               else if i < 40 then (b XOR c XOR d, 0x6ED9EBA1)
               else if i < 60 then ((b AND c) OR (b AND d) OR (c AND d), 0x8F1BBCDC)
               else (b XOR c XOR d, 0xCA62C1D6));
            temp = LeftRotate a 5 + f + e + k + w ! i
        in (temp, a, LeftRotate b 30, c, d))"

definition add_digest :: "digest32 \<Rightarrow> digest32 \<Rightarrow> digest32" where
  "add_digest s t =
     (case (s, t) of ((a, b, c, d, e), (a', b', c', d', e')) \<Rightarrow> (a + a', b + b', c + c', d + d', e + e'))"

definition processBlock :: "sha1 \<Rightarrow> sha1" where
  "processBlock s =
     s\<lparr>m_digest := add_digest (m_digest s)
         (foldl (sha1_round (block_words (m_block s))) (m_digest s) [0..<80])\<rparr>"

definition processByte :: "8 word \<Rightarrow> sha1 \<Rightarrow> sha1" where
  "processByte octet s0 =
     (let s = s0\<lparr>m_block := (m_block s0)[m_blockByteIndex s0 := octet],
                m_blockByteIndex := m_blockByteIndex s0 + 1, m_byteCount := m_byteCount s0 + 1\<rparr>
      in if m_blockByteIndex s = 64 then processBlock (s\<lparr>m_blockByteIndex := 0\<rparr>) else s)"

definition processBytes :: "8 word list \<Rightarrow> sha1 \<Rightarrow> sha1" where
  "processBytes data s = fold processByte data s"

text \<open>
  \<open>getDigest\<close> pads and returns the digest. The two loops of the source that feed zero bytes may run
  forever as far as their conditions say, so they are \<open>while_option\<close>; below they always end. Only
  the low four bytes of the bit count are written.
\<close>

definition bit_count :: "sha1 \<Rightarrow> 64 word" where
  "bit_count s = m_byteCount s * 8"

definition getDigest :: "sha1 \<Rightarrow> (digest32 \<times> sha1) option" where
  "getDigest s0 =
     (let bitCount = bit_count s0; s = processByte 0x80 s0;
          fill = while_option (\<lambda>s. m_blockByteIndex s < 56) (processByte 0) in
      case (if m_blockByteIndex s > 56
            then (case while_option (\<lambda>s. m_blockByteIndex s \<noteq> 0) (processByte 0) s of
                    None \<Rightarrow> None | Some s' \<Rightarrow> fill s')
            else fill s) of
        None \<Rightarrow> None
      | Some s \<Rightarrow>
          let s' = processBytes
                [0, 0, 0, 0, ucast (drop_bit 24 bitCount AND 0xFF), ucast (drop_bit 16 bitCount AND 0xFF),
                 ucast (drop_bit 8 bitCount AND 0xFF), ucast (bitCount AND 0xFF)] s
          in Some (m_digest s', s'))"

definition word_octets :: "32 word \<Rightarrow> 8 word list" where
  "word_octets x =
     [ucast (drop_bit 24 x AND 0xFF), ucast (drop_bit 16 x AND 0xFF), ucast (drop_bit 8 x AND 0xFF), ucast (x AND 0xFF)]"

definition getDigestBytes :: "sha1 \<Rightarrow> 8 word list option" where
  "getDigestBytes s =
     (case getDigest s of
        None \<Rightarrow> None
      | Some ((a, b, c, d, e), s') \<Rightarrow>
          Some (word_octets a @ word_octets b @ word_octets c @ word_octets d @ word_octets e))"

subsection \<open>The specification\<close>

function spec_W :: "32 word list \<Rightarrow> nat \<Rightarrow> 32 word" where
  "spec_W M t =
     (if t < 16 then M ! t
      else word_rotl 1 (spec_W M (t - 3) XOR spec_W M (t - 8) XOR spec_W M (t - 14) XOR spec_W M (t - 16)))"
  by pat_completeness auto
termination by (relation "measure snd") auto

declare spec_W.simps [simp del]

definition spec_f :: "nat \<Rightarrow> 32 word \<Rightarrow> 32 word \<Rightarrow> 32 word \<Rightarrow> 32 word" where
  "spec_f t x y z =
     (if t < 20 then (x AND y) XOR (NOT x AND z)
      else if 40 \<le> t \<and> t < 60 then (x AND y) XOR (x AND z) XOR (y AND z)
      else x XOR y XOR z)"

definition spec_K :: "nat \<Rightarrow> 32 word" where
  "spec_K t = [0x5A827999, 0x6ED9EBA1, 0x8F1BBCDC, 0xCA62C1D6] ! (t div 20)"

fun spec_rounds :: "32 word list \<Rightarrow> nat \<Rightarrow> digest32 \<Rightarrow> digest32" where
  "spec_rounds M 0 s = s"
| "spec_rounds M (Suc t) s =
     (case spec_rounds M t s of (a, b, c, d, e) \<Rightarrow>
        (word_rotl 5 a + spec_f t b c d + e + spec_K t + spec_W M t, a, word_rotl 30 b, c, d))"

definition spec_compress :: "digest32 \<Rightarrow> 8 word list \<Rightarrow> digest32" where
  "spec_compress H b = add_digest H (spec_rounds (map (block_word b) [0..<16]) 80 H)"

function spec_blocks :: "digest32 \<Rightarrow> 8 word list \<Rightarrow> digest32" where
  "spec_blocks H m = (if length m < 64 then H else spec_blocks (spec_compress H (take 64 m)) (drop 64 m))"
  by pat_completeness auto
termination by (relation "measure (length \<circ> snd)") auto

declare spec_blocks.simps [simp del]

definition be64 :: "nat \<Rightarrow> 8 word list" where
  "be64 n = map (\<lambda>i. word_of_nat (n div 256 ^ i)) [7, 6, 5, 4, 3, 2, 1, 0]"

definition sha1_pad :: "8 word list \<Rightarrow> 8 word list" where
  "sha1_pad m = m @ [0x80] @ replicate ((119 - length m mod 64) mod 64) 0 @ be64 (8 * length m)"

definition spec_sha1 :: "8 word list \<Rightarrow> digest32" where
  "spec_sha1 m = spec_blocks sha1_init (sha1_pad m)"

subsection \<open>The compression function\<close>

lemma LeftRotate_bits:
  assumes "0 < n" "n < 32" "i < 32"
  shows "bit (LeftRotate v n) i = (if n \<le> i then bit v (i - n) else bit v (i + (32 - n)))"
proof -
  have "\<not> bit v (i + (32 - n))" if "n \<le> i" using that assms(2) by (auto dest: bit_imp_le_length)
  with assms show ?thesis
    by (auto simp: LeftRotate_def bit_push_bit_iff bit_drop_bit_eq bit_xor_iff add.commute)
qed

lemma rotl_bits:
  assumes "0 < n" "n < 32" "i < 32"
  shows "bit (word_rotl n (v :: 32 word)) i = (if n \<le> i then bit v (i - n) else bit v (i + (32 - n)))"
proof -
  have "(i + (32 - n)) mod 32 = (if n \<le> i then i - n else i + (32 - n))"
    using assms by (auto simp: mod_if)
  with assms show ?thesis by (simp add: bit_word_rotl_iff del: add_diff_assoc)
qed

lemma LeftRotate_rotl: "n \<in> {1, 5, 30} \<Longrightarrow> LeftRotate v n = word_rotl n v"
  by (rule bit_word_eqI, subst LeftRotate_bits rotl_bits, auto simp: rotl_bits)

lemma block_words_spec:
  assumes "length M = 16" "n \<le> 64"
  shows "length (foldl extend_words M [16..<16 + n]) = 16 + n \<and>
    (\<forall>i < 16 + n. foldl extend_words M [16..<16 + n] ! i = spec_W M i)"
  using assms(2)
proof (induction n)
  case 0
  show ?case using assms by (simp add: spec_W.simps)
next
  case (Suc n)
  let ?w = "foldl extend_words M [16..<16 + n]"
  have IH: "length ?w = 16 + n" "\<And>i. i < 16 + n \<Longrightarrow> ?w ! i = spec_W M i" using Suc by simp_all
  have "foldl extend_words M [16..<16 + Suc n] = extend_words ?w (16 + n)" (is "?v = _")
    unfolding add_Suc_right by (subst upt_Suc_append) simp_all
  moreover have "LeftRotate (?w ! (16 + n - 3) XOR ?w ! (16 + n - 8) XOR ?w ! (16 + n - 14) XOR ?w ! (16 + n - 16)) 1
      = spec_W M (16 + n)"
    by (simp add: IH spec_W.simps [of M "16 + n"] LeftRotate_rotl)
  ultimately have v: "?v = ?w @ [spec_W M (16 + n)]" by (simp only: extend_words_def)
  show ?case unfolding v using IH by (auto simp: nth_append intro!: arg_cong [where f = "spec_W M"])
qed

lemma sha1_f:
  fixes b c d :: "32 word"
  shows "(b AND c) OR (NOT b AND d) = (b AND c) XOR (NOT b AND d)"
    "(b AND c) OR (b AND d) OR (c AND d) = (b AND c) XOR (b AND d) XOR (c AND d)"
  by (auto intro!: bit_word_eqI simp: bit_simps)

lemma sha1_round_spec:
  assumes "w ! t = spec_W M t" "t < 80"
  shows "sha1_round w (a, b, c, d, e) t =
    (word_rotl 5 a + spec_f t b c d + e + spec_K t + spec_W M t, a, word_rotl 30 b, c, d)"
proof -
  have "t div 20 = (if t < 20 then 0 else if t < 40 then 1 else if t < 60 then 2 else 3)"
    using assms(2) by auto
  then show ?thesis
    using assms by (auto simp: sha1_round_def spec_f_def spec_K_def LeftRotate_rotl sha1_f Let_def)
qed

lemma rounds_spec:
  assumes "\<And>i. i < 80 \<Longrightarrow> w ! i = spec_W M i" "n \<le> 80"
  shows "foldl (sha1_round w) s [0..<n] = spec_rounds M n s"
  using assms(2)
proof (induction n)
  case (Suc n)
  then show ?case
    using assms(1) [of n] by (auto simp: sha1_round_spec split: prod.split)
qed simp

lemma processBlock_spec:
  "processBlock s = s\<lparr>m_digest := spec_compress (m_digest s) (m_block s)\<rparr>"
proof -
  let ?M = "map (block_word (m_block s)) [0..<16]"
  have "i < 80 \<Longrightarrow> block_words (m_block s) ! i = spec_W ?M i" for i
    using block_words_spec [of ?M 64] by (simp add: block_words_def)
  from rounds_spec [of "block_words (m_block s)" ?M 80, OF this] show ?thesis
    by (simp add: processBlock_def spec_compress_def)
qed

subsection \<open>Absorbing a message\<close>

text \<open>What the object holds after it has been fed \<open>m\<close>.\<close>

definition absorbed :: "8 word list \<Rightarrow> sha1 \<Rightarrow> bool" where
  "absorbed m s \<longleftrightarrow>
     m_digest s = spec_blocks sha1_init m \<and> m_blockByteIndex s = length m mod 64 \<and>
     length (m_block s) = 64 \<and> m_byteCount s = word_of_nat (length m) \<and>
     take (length m mod 64) (m_block s) = drop (length m - length m mod 64) m"

lemma absorbed_new: "length buffer = 64 \<Longrightarrow> absorbed [] (new_sha1 buffer)"
  by (simp add: absorbed_def new_sha1_def reset_def spec_blocks.simps)

text \<open>Appending a byte completes a block or not.\<close>

lemma spec_blocks_part: "length b < 64 \<Longrightarrow> length m mod 64 = 0 \<Longrightarrow> spec_blocks H (m @ b) = spec_blocks H m"
proof (induction H m rule: spec_blocks.induct)
  case (1 H m)
  show ?case
  proof (cases "length m < 64")
    case True
    with 1(3) have "m = []" by simp
    with 1(2) show ?thesis by (simp add: spec_blocks.simps)
  next
    case False
    then have "length (drop 64 m) mod 64 = 0" using 1(3) by (simp add: mod_if)
    from 1(1) [OF False 1(2) this] False show ?thesis
      by (simp add: spec_blocks.simps [of H "m @ b"] spec_blocks.simps [of H m])
  qed
qed

lemma spec_blocks_full:
  "length b = 64 \<Longrightarrow> length m mod 64 = 0 \<Longrightarrow> spec_blocks H (m @ b) = spec_compress (spec_blocks H m) b"
proof (induction H m rule: spec_blocks.induct)
  case (1 H m)
  show ?case
  proof (cases "length m < 64")
    case True
    with 1(3) have "m = []" by simp
    with 1(2) show ?thesis by (simp add: spec_blocks.simps)
  next
    case False
    then have "length (drop 64 m) mod 64 = 0" using 1(3) by (simp add: mod_if)
    from 1(1) [OF False 1(2) this] False show ?thesis
      by (simp add: spec_blocks.simps [of H "m @ b"] spec_blocks.simps [of H m])
  qed
qed

lemma processByte_absorbed:
  assumes "absorbed m s"
  shows "absorbed (m @ [x]) (processByte x s)"
proof -
  let ?r = "length m mod 64"
  let ?p = "take (length m - ?r) m" and ?q = "drop (length m - ?r) m"
  have m: "m = ?p @ ?q" "length ?q = ?r" and r: "?r < 64" by simp_all
  have p: "length ?p mod 64 = 0" by (simp add: minus_mod_eq_mult_div)
  have s: "m_digest s = spec_blocks sha1_init m" "m_blockByteIndex s = ?r" "length (m_block s) = 64"
    "m_byteCount s = word_of_nat (length m)" "take ?r (m_block s) = ?q"
    using assms by (simp_all add: absorbed_def)
  have blk: "take (Suc ?r) ((m_block s)[?r := x]) = ?q @ [x]"
    using s(3,5) r by (simp add: take_Suc_conv_app_nth take_update_cancel)
  have dg: "spec_blocks sha1_init m = spec_blocks sha1_init ?p"
    using spec_blocks_part [OF _ p, of ?q sha1_init] m r by simp
  have mx: "m @ [x] = ?p @ (?q @ [x])" using m(1) by simp
  show ?thesis
  proof (cases "?r = 63")
    case True
    then have "(m_block s)[?r := x] = ?q @ [x]" using blk s(3) by simp
    moreover have "spec_blocks sha1_init (m @ [x]) = spec_compress (spec_blocks sha1_init ?p) (?q @ [x])"
      unfolding mx using True by (intro spec_blocks_full p) (simp add: m(2))
    moreover have "Suc (length m) mod 64 = 0" using True by (simp add: mod_Suc)
    ultimately show ?thesis
      using True s dg by (simp add: absorbed_def processByte_def Let_def processBlock_spec)
  next
    case False
    then have "Suc (length m) mod 64 = Suc ?r" using r by (simp add: mod_Suc)
    moreover have "spec_blocks sha1_init (m @ [x]) = spec_blocks sha1_init ?p"
      unfolding mx using False r by (intro spec_blocks_part [OF _ p]) (simp add: m(2))
    moreover have "Suc (length m) - Suc ?r = length m - ?r" by simp
    ultimately show ?thesis
      using False s dg blk by (simp add: absorbed_def processByte_def Let_def)
  qed
qed

lemma processBytes_absorbed: "absorbed m s \<Longrightarrow> absorbed (m @ d) (processBytes d s)"
  unfolding processBytes_def
proof (induction d arbitrary: m s)
  case (Cons x d)
  from Cons.IH [OF processByte_absorbed [OF Cons.prems, of x]] show ?case by simp
qed simp

subsection \<open>Padding\<close>

lemma fill_while:
  assumes "absorbed m s" "\<forall>j < k. P ((length m + j) mod 64)" "\<not> P ((length m + k) mod 64)"
  shows "\<exists>s'. while_option (\<lambda>s. P (m_blockByteIndex s)) (processByte 0) s = Some s' \<and>
    absorbed (m @ replicate k 0) s'"
  using assms
proof (induction k arbitrary: m s)
  case 0
  then have "\<not> P (m_blockByteIndex s)" by (simp add: absorbed_def)
  with 0 show ?case by (subst while_option_unfold) simp
next
  case (Suc k)
  from Suc.prems(2) have P: "P (length m mod 64)" "\<forall>j < k. P ((length (m @ [0 :: 8 word]) + j) mod 64)"
    by (auto dest: spec [of _ 0])
  have "\<exists>s'. while_option (\<lambda>s. P (m_blockByteIndex s)) (processByte 0) (processByte 0 s) = Some s' \<and>
      absorbed ((m @ [0]) @ replicate k 0) s'"
    by (rule Suc.IH [OF processByte_absorbed [OF Suc.prems(1)] P(2)]) (use Suc.prems(3) in simp)
  moreover have "P (m_blockByteIndex s)" using P(1) Suc.prems(1) by (simp add: absorbed_def)
  ultimately show ?case by (subst while_option_unfold) simp
qed

lemma word_of_nat_unat: "word_of_nat (unat x) = ucast x"
  by transfer simp

lemma octet_nat:
  "ucast (drop_bit k (x :: 'a :: len word) AND 0xFF) = (word_of_nat (unat x div 2 ^ k) :: 8 word)"
proof -
  have "ucast (y AND 0xFF) = (ucast y :: 8 word)" for y :: "'a word"
  proof (rule bit_word_eqI)
    fix i assume "i < LENGTH(8)"
    moreover have m: "(0xFF :: 'a word) = mask 8" by (simp add: mask_eq_exp_minus_1)
    ultimately show "bit (ucast (y AND 0xFF) :: 8 word) i = bit (ucast y :: 8 word) i"
      unfolding m by (auto simp: bit_ucast_iff bit_and_iff bit_mask_iff dest: bit_imp_le_length)
  qed
  then have "ucast (drop_bit k x AND 0xFF) = (word_of_nat (unat (drop_bit k x)) :: 8 word)"
    by (simp only: word_of_nat_unat)
  moreover have "unat (drop_bit k x) = unat x div 2 ^ k"
    by (simp only: unat_drop_bit_eq drop_bit_eq_div [of k "unat x"])
  ultimately show ?thesis by (simp only:)
qed

subsection \<open>The digest\<close>

definition be32 :: "32 word \<Rightarrow> 8 word list" where
  "be32 x = map (\<lambda>i. word_of_nat (unat x div 256 ^ i)) [3, 2, 1, 0]"

lemma word_octets_be: "word_octets x = be32 x"
proof -
  have "x AND 0xFF = drop_bit 0 x AND 0xFF" by simp
  then show ?thesis by (simp only: word_octets_def be32_def octet_nat) simp
qed

lemma length_bytes:
  assumes "n < 2 ^ 29" and b: "b = word_of_nat n * (8 :: 64 word)"
  shows "[0, 0, 0, 0, ucast (drop_bit 24 b AND 0xFF), ucast (drop_bit 16 b AND 0xFF),
      ucast (drop_bit 8 b AND 0xFF), ucast (b AND 0xFF)] = be64 (8 * n)"
proof -
  have "b = word_of_nat (8 * n)" using b by (simp add: mult.commute)
  moreover have "8 * n < 2 ^ LENGTH(64)" using assms(1) by simp
  ultimately have u: "unat b = 8 * n" by (simp only: unat_of_nat mod_less)
  have "b AND 0xFF = drop_bit 0 b AND 0xFF" by simp
  moreover have "8 * n div 256 ^ k = 0" if "4 \<le> k" for k
  proof -
    have "(256 :: nat) ^ 4 \<le> 256 ^ k" using that by (intro power_increasing) simp_all
    with assms show ?thesis by simp
  qed
  ultimately show ?thesis
    by (simp only: be64_def octet_nat list.map u) simp
qed

lemma pad_zeros:
  assumes "absorbed m s"
  shows "\<exists>s'. (if m_blockByteIndex s > 56
      then (case while_option (\<lambda>s. m_blockByteIndex s \<noteq> 0) (processByte 0) s of
              None \<Rightarrow> None | Some s' \<Rightarrow> while_option (\<lambda>s. m_blockByteIndex s < 56) (processByte 0) s')
      else while_option (\<lambda>s. m_blockByteIndex s < 56) (processByte 0) s) = Some s' \<and>
    absorbed (m @ replicate ((120 - length m mod 64) mod 64) 0) s'"
proof -
  let ?r = "length m mod 64"
  have r: "?r < 64" by simp
  have add: "(length m + j) mod 64 = ?r + j" if "?r + j < 64" for j
    using that mod_add_left_eq [of "length m" 64 j] by simp
  have add64: "(length m + (64 - ?r)) mod 64 = 0"
    using mod_add_left_eq [of "length m" 64 "64 - ?r"] r by simp
  have idx: "m_blockByteIndex s = ?r" using assms by (simp add: absorbed_def)
  show ?thesis
  proof (cases "?r > 56")
    case True
    obtain s1 where s1: "while_option (\<lambda>s. m_blockByteIndex s \<noteq> 0) (processByte 0) s = Some s1"
      "absorbed (m @ replicate (64 - ?r) 0) s1"
      using fill_while [OF assms, of "64 - ?r" "\<lambda>i. i \<noteq> 0"] True add add64 by force
    let ?m = "m @ replicate (64 - ?r) (0 :: 8 word)"
    have l: "(length ?m + j) mod 64 = j mod 64" for j
      using mod_add_left_eq [of "length ?m" 64 j] add64 by simp
    obtain s2 where "while_option (\<lambda>s. m_blockByteIndex s < 56) (processByte 0) s1 = Some s2"
      "absorbed (?m @ replicate 56 0) s2"
      using fill_while [OF s1(2), of 56 "\<lambda>i. i < 56"] unfolding l by auto
    note s2 = this
    have "(120 - ?r) mod 64 = (64 - ?r) + 56" using True r by simp
    then have rep: "replicate ((120 - ?r) mod 64) (0 :: 8 word) = replicate (64 - ?r) 0 @ replicate 56 0"
      by (simp only: replicate_add)
    show ?thesis
    proof (intro exI [of _ s2] conjI)
      show "absorbed (m @ replicate ((120 - ?r) mod 64) 0) s2" using s2(2) by (simp only: rep append_assoc)
    qed (subst idx, subst if_P [OF True], subst s1(1), simp only: option.case s2(1))
  next
    case False
    obtain s1 where "while_option (\<lambda>s. m_blockByteIndex s < 56) (processByte 0) s = Some s1"
      "absorbed (m @ replicate (56 - ?r) 0) s1"
      using fill_while [OF assms, of "56 - ?r" "\<lambda>i. i < 56"] False add [of "56 - ?r"] add by force
    moreover have "(120 - ?r) mod 64 = 56 - ?r"
    proof -
      have "120 - ?r = (56 - ?r) + 64" using False by simp
      then show ?thesis by (simp only: mod_add_self2) simp
    qed
    ultimately show ?thesis using False idx by simp
  qed
qed

lemma getDigest_spec:
  assumes "absorbed m s" "length m < 2 ^ 29"
  shows "\<exists>s'. getDigest s = Some (spec_sha1 m, s')"
proof -
  let ?m1 = "m @ [0x80]"
  have a1: "absorbed ?m1 (processByte 0x80 s)" by (rule processByte_absorbed [OF assms(1)])
  have pad: "(120 - length ?m1 mod 64) mod 64 = (119 - length m mod 64) mod 64"
  proof (cases "length m mod 64 = 63")
    case True
    then show ?thesis by (simp add: mod_Suc)
  qed (simp add: mod_Suc)
  obtain s2 where s2: "(if m_blockByteIndex (processByte 0x80 s) > 56
      then (case while_option (\<lambda>s. m_blockByteIndex s \<noteq> 0) (processByte 0) (processByte 0x80 s) of
              None \<Rightarrow> None | Some s' \<Rightarrow> while_option (\<lambda>s. m_blockByteIndex s < 56) (processByte 0) s')
      else while_option (\<lambda>s. m_blockByteIndex s < 56) (processByte 0) (processByte 0x80 s)) = Some s2"
    "absorbed (?m1 @ replicate ((119 - length m mod 64) mod 64) 0) s2"
    using pad_zeros [OF a1] unfolding pad by blast
  have bits: "bit_count s = word_of_nat (length m) * 8" using assms(1) by (simp add: bit_count_def absorbed_def)
  have "absorbed (sha1_pad m) (processBytes (be64 (8 * length m)) s2)"
    using processBytes_absorbed [OF s2(2), of "be64 (8 * length m)"] by (simp add: sha1_pad_def)
  then have "m_digest (processBytes (be64 (8 * length m)) s2) = spec_sha1 m"
    by (simp add: absorbed_def spec_sha1_def)
  then show ?thesis
    unfolding getDigest_def Let_def s2(1) length_bytes [OF assms(2) bits] by simp
qed

definition sha1_octets :: "digest32 \<Rightarrow> 8 word list" where
  "sha1_octets h = (case h of (a, b, c, d, e) \<Rightarrow> be32 a @ be32 b @ be32 c @ be32 d @ be32 e)"

lemma digest_of_pieces:
  assumes "length buffer = 64" "length (concat pieces) < 2 ^ 29"
  shows "getDigestBytes (fold processBytes pieces (new_sha1 buffer)) = Some (sha1_octets (spec_sha1 (concat pieces)))"
proof -
  have fold: "fold processBytes pieces s = processBytes (concat pieces) s" for s
    by (induction pieces arbitrary: s) (simp_all add: processBytes_def)
  have "absorbed (concat pieces) (processBytes (concat pieces) (new_sha1 buffer))"
    using processBytes_absorbed [OF absorbed_new [OF assms(1)], of "concat pieces"] by simp
  from getDigest_spec [OF this assms(2)] show ?thesis
    by (auto simp: fold getDigestBytes_def sha1_octets_def word_octets_be split: prod.split)
qed

text \<open>
  C33. Fed a message in any pieces, the class returns the SHA-1 digest of the whole message as FIPS 180
  defines it, as long as the message is shorter than 2 ^ 29 bytes (the upper half of the 64 bit length
  field is always written as zero); in particular its padding loops end.
\<close>

theorem sha1_digest:
  assumes "length buffer = 64" "length (concat pieces) < 2 ^ 29"
  shows "getDigestBytes (fold processBytes pieces (new_sha1 buffer)) = Some (sha1_octets (spec_sha1 (concat pieces)))"
  using assms by (rule digest_of_pieces)

text \<open>The digest of \<open>abc\<close> in two pieces.\<close>

lemma sha1_digest_witness:
  "length (replicate 64 (0 :: 8 word)) = 64 \<and> length (concat [[97], [98, 99 :: 8 word]]) < 2 ^ 29 \<and>
   getDigestBytes (fold processBytes [[97], [98, 99]] (new_sha1 (replicate 64 0))) =
     Some (sha1_octets (spec_sha1 [97, 98, 99]))"
  using sha1_digest [of "replicate 64 0" "[[97], [98, 99]]"] by simp

end
