(* ===== verification/Crow_Websocket.thy ===== *)
theory Crow_Websocket
  imports Crow_Response Crow_Sha1
begin

section \<open>Crow: WebSocket connections\<close>

text \<open>
  The class \<open>Connection\<close> of \<open>websocket.h\<close>. ASIO is not modelled: an operation only notes what the
  connection has asked the socket for (\<open>ws_reading\<close>, \<open>ws_writing\<close>, the queue of posted work), and
  the completion of a request is a step of its own with whatever bytes or error the library
  delivers. User code is a record of handlers, functions of the application's state that may call
  back into the connection. Bytes are 8 bit words; the host is little-endian; the build options
  \<open>CROW_ENABLE_DEBUG\<close> and \<open>CROW_ENFORCE_WS_SPEC\<close> are off, as in \<open>settings.h\<close>.
\<close>

type_synonym bytes = "8 word list"

subsection \<open>Byte order\<close>

text \<open>An integer in memory, lowest byte first, and the conversions \<open>htons\<close> and \<open>htonl\<close>.\<close>

fun le_word :: "bytes \<Rightarrow> 'a :: len word" where
  "le_word [] = 0"
| "le_word (b # bs) = ucast b OR push_bit 8 (le_word bs)"

definition le_bytes :: "nat \<Rightarrow> 'a :: len word \<Rightarrow> bytes" where
  "le_bytes n x = map (\<lambda>i. ucast (drop_bit (8 * i) x)) [0..<n]"

definition htons :: "16 word \<Rightarrow> 16 word" where
  "htons x = le_word (rev (le_bytes 2 x))"

definition htonl :: "32 word \<Rightarrow> 32 word" where
  "htonl x = le_word (rev (le_bytes 4 x))"

text \<open>The 64 bit conversion that \<open>build_header\<close> and the reader of a 64 bit length both spell out.\<close>

definition swap64 :: "64 word \<Rightarrow> 64 word" where
  "swap64 x = push_bit 32 (ucast (htonl (ucast (x AND 0xFFFFFFFF)))) OR ucast (htonl (ucast (drop_bit 32 x)))"

subsection \<open>State\<close>

datatype ws_read_state = MiniHeader | Len16 | Len64 | Mask | Payload

text \<open>
  What a handler, or another thread, may ask of a connection, and the work the calls post to the
  I/O service.
\<close>

datatype ws_call = Ws_text bytes | Ws_binary bytes | Ws_ping bytes | Ws_pong bytes | Ws_close bytes

datatype ws_work = Send_data nat bytes | Close_later bytes

text \<open>\<open>async_read_some\<close> completes with some of the bytes asked for, \<open>async_read\<close> with all of them.\<close>

datatype ws_read = Read_some nat | Read_all nat

record 'u ws_conn =
  ws_user :: 'u
  ws_sending :: "bytes list"
  ws_write :: "bytes list"
  ws_is_binary :: bool
  ws_message :: bytes
  ws_fragment :: bytes
  ws_state :: ws_read_state
  ws_length16 :: "16 word"
  ws_length :: "64 word"
  ws_max_payload :: "64 word"
  ws_close_connection :: bool
  ws_is_reading :: bool
  ws_has_mask :: bool
  ws_mask :: bytes
  ws_mini_header :: "16 word"
  ws_sent_close :: bool
  ws_recv_close :: bool
  ws_pong_received :: bool
  ws_close_called :: bool
  ws_reading :: "ws_read option"
  ws_writing :: bool
  ws_posted :: "ws_work list"
  ws_sent :: bytes
  ws_shutdown :: bool
  ws_closed :: bool
  ws_removed :: nat
  ws_deleted :: bool

text \<open>The four callbacks; an absent \<open>std::function\<close> is \<open>None\<close>.\<close>

type_synonym 'u ws_callback = "('u \<Rightarrow> ws_call list \<times> 'u) option"

record 'u ws_handlers =
  on_open :: "'u ws_callback"
  on_message :: "bytes \<Rightarrow> bool \<Rightarrow> 'u ws_callback"
  on_close :: "bytes \<Rightarrow> 'u ws_callback"
  on_error :: "string \<Rightarrow> 'u ws_callback"

subsection \<open>Writing\<close>

definition build_header :: "nat \<Rightarrow> nat \<Rightarrow> bytes" where
  "build_header opcode n =
     (let b0 = 0x80 + word_of_nat opcode in
      if n < 126 then [b0, word_of_nat n]
      else if n < 0x10000 then [b0, 126] @ le_bytes 2 (htons (word_of_nat n))
      else [b0, 127] @ le_bytes 8 (swap64 (word_of_nat n)))"

definition do_write :: "'u ws_conn \<Rightarrow> 'u ws_conn" where
  "do_write s =
     (if ws_sending s = []
      then s\<lparr>ws_sending := ws_write s, ws_write := ws_sending s, ws_writing := True\<rparr>
      else s)"

definition send_data_impl :: "nat \<Rightarrow> bytes \<Rightarrow> 'u ws_conn \<Rightarrow> 'u ws_conn" where
  "send_data_impl opcode payload s =
     do_write (s\<lparr>ws_write := ws_write s @ [build_header opcode (length payload), payload]\<rparr>)"

definition send_data :: "nat \<Rightarrow> bytes \<Rightarrow> 'u ws_conn \<Rightarrow> 'u ws_conn" where
  "send_data opcode msg s = s\<lparr>ws_posted := ws_posted s @ [Send_data opcode msg]\<rparr>"

definition send_ping :: "bytes \<Rightarrow> 'u ws_conn \<Rightarrow> 'u ws_conn" where
  "send_ping msg = send_data 0x9 msg"

definition send_pong :: "bytes \<Rightarrow> 'u ws_conn \<Rightarrow> 'u ws_conn" where
  "send_pong msg = send_data 0xA msg"

definition send_binary :: "bytes \<Rightarrow> 'u ws_conn \<Rightarrow> 'u ws_conn" where
  "send_binary msg = send_data 0x2 msg"

definition send_text :: "bytes \<Rightarrow> 'u ws_conn \<Rightarrow> 'u ws_conn" where
  "send_text msg = send_data 0x1 msg"

definition set_max_payload_size :: "64 word \<Rightarrow> 'u ws_conn \<Rightarrow> 'u ws_conn" where
  "set_max_payload_size payload s = s\<lparr>ws_max_payload := payload\<rparr>"

subsection \<open>Closing and callbacks\<close>

text \<open>
  \<open>close\<close> hands its body to \<open>asio::dispatch\<close>, which runs it at once in a thread of the I/O service,
  where all handlers run; another thread's \<open>close\<close> is queued. The close handler is called with its
  flag already set, so a \<open>close\<close> it makes does not call it again: \<open>close_again\<close> is that case.
\<close>

definition close_again :: "bytes \<Rightarrow> 'u ws_conn \<Rightarrow> 'u ws_conn" where
  "close_again msg s = send_data_impl 0x8 msg (s\<lparr>ws_sent_close := True\<rparr>)"

fun call_again :: "ws_call \<Rightarrow> 'u ws_conn \<Rightarrow> 'u ws_conn" where
  "call_again (Ws_text msg) s = send_text msg s"
| "call_again (Ws_binary msg) s = send_binary msg s"
| "call_again (Ws_ping msg) s = send_ping msg s"
| "call_again (Ws_pong msg) s = send_pong msg s"
| "call_again (Ws_close msg) s = close_again msg s"

definition run_handler ::
    "(ws_call \<Rightarrow> 'u ws_conn \<Rightarrow> 'u ws_conn) \<Rightarrow> 'u ws_callback \<Rightarrow> 'u ws_conn \<Rightarrow> 'u ws_conn" where
  "run_handler call f s =
     (case f of
        None \<Rightarrow> s
      | Some g \<Rightarrow> (case g (ws_user s) of (cs, u) \<Rightarrow> fold call cs (s\<lparr>ws_user := u\<rparr>)))"

definition ws_do_close :: "'u ws_handlers \<Rightarrow> bytes \<Rightarrow> 'u ws_conn \<Rightarrow> 'u ws_conn" where
  "ws_do_close h msg s0 =
     (let s = s0\<lparr>ws_sent_close := True\<rparr>;
          s' = (if ws_recv_close s \<and> \<not> ws_close_called s
                then run_handler call_again (on_close h msg) (s\<lparr>ws_close_called := True\<rparr>) else s)
      in send_data_impl 0x8 msg s')"

fun ws_do_call :: "'u ws_handlers \<Rightarrow> ws_call \<Rightarrow> 'u ws_conn \<Rightarrow> 'u ws_conn" where
  "ws_do_call h (Ws_text msg) s = send_text msg s"
| "ws_do_call h (Ws_binary msg) s = send_binary msg s"
| "ws_do_call h (Ws_ping msg) s = send_ping msg s"
| "ws_do_call h (Ws_pong msg) s = send_pong msg s"
| "ws_do_call h (Ws_close msg) s = ws_do_close h msg s"

definition ws_notify :: "'u ws_handlers \<Rightarrow> 'u ws_callback \<Rightarrow> 'u ws_conn \<Rightarrow> 'u ws_conn" where
  "ws_notify h f s = run_handler (ws_do_call h) f s"

definition check_destroy :: "'u ws_handlers \<Rightarrow> 'u ws_conn \<Rightarrow> 'u ws_conn" where
  "check_destroy h s0 =
     (let s1 = (if \<not> ws_close_called s0 then ws_notify h (on_close h (bytes_of ''uncleanly'')) s0 else s0);
          s = s1\<lparr>ws_removed := ws_removed s1 + 1\<rparr>
      in if ws_sending s = [] \<and> \<not> ws_is_reading s then s\<lparr>ws_deleted := True\<rparr> else s)"

definition shut_and_close :: "'u ws_conn \<Rightarrow> 'u ws_conn" where
  "shut_and_close s = s\<lparr>ws_shutdown := True, ws_closed := True\<rparr>"

subsection \<open>Reading\<close>

definition is_FIN :: "'u ws_conn \<Rightarrow> bool" where
  "is_FIN s \<longleftrightarrow> ws_mini_header s AND 0x8000 \<noteq> 0"

definition ws_opcode :: "'u ws_conn \<Rightarrow> nat" where
  "ws_opcode s = unat (drop_bit 8 (ws_mini_header s AND 0x0F00))"

definition do_read :: "'u ws_handlers \<Rightarrow> 'u ws_conn \<Rightarrow> 'u ws_conn" where
  "do_read h s0 =
     (if ws_sent_close s0 \<and> ws_recv_close s0
      then check_destroy h (shut_and_close (s0\<lparr>ws_close_connection := True\<rparr>))
      else
        (let s = s0\<lparr>ws_is_reading := True\<rparr>;
             payload = (\<lambda>s. s\<lparr>ws_reading := Some (Read_some (min 4096 (unat (ws_length s))))\<rparr>) in
         case ws_state s of
           MiniHeader \<Rightarrow> s\<lparr>ws_mini_header := 0, ws_reading := Some (Read_some 2)\<rparr>
         | Len16 \<Rightarrow> s\<lparr>ws_length := 0, ws_length16 := 0, ws_reading := Some (Read_all 2)\<rparr>
         | Len64 \<Rightarrow> s\<lparr>ws_reading := Some (Read_all 8)\<rparr>
         | Mask \<Rightarrow>
             if ws_max_payload s < ws_length s then
               check_destroy h (ws_notify h (on_error h ''Message length exceeds maximum payload.'')
                 (s\<lparr>ws_close_connection := True, ws_closed := True\<rparr>))
             else if ws_has_mask s then s\<lparr>ws_reading := Some (Read_all 4)\<rparr>
             else payload (s\<lparr>ws_state := Payload\<rparr>)
         | Payload \<Rightarrow> payload s))"

definition unmask :: "bytes \<Rightarrow> bytes \<Rightarrow> bytes" where
  "unmask key data = map (\<lambda>i. data ! i XOR key ! (i mod 4)) [0..<length data]"

definition end_of_message :: "'u ws_handlers \<Rightarrow> 'u ws_conn \<Rightarrow> 'u ws_conn" where
  "end_of_message h s =
     (if is_FIN s
      then (ws_notify h (on_message h (ws_message s) (ws_is_binary s)) s)\<lparr>ws_message := []\<rparr>
      else s)"

text \<open>\<open>handle_fragment\<close>: the result is false after the end of the connection.\<close>

definition handle_fragment :: "'u ws_handlers \<Rightarrow> 'u ws_conn \<Rightarrow> bool \<times> 'u ws_conn" where
  "handle_fragment h s0 =
     (let s = (if ws_has_mask s0 then s0\<lparr>ws_fragment := unmask (ws_mask s0) (ws_fragment s0)\<rparr> else s0);
          next_frame = (\<lambda>s. (True, s\<lparr>ws_fragment := []\<rparr>)) in
      if ws_opcode s = 0 then
        next_frame (end_of_message h (s\<lparr>ws_message := ws_message s @ ws_fragment s\<rparr>))
      else if ws_opcode s = 1 then
        next_frame (end_of_message h (s\<lparr>ws_is_binary := False, ws_message := ws_message s @ ws_fragment s\<rparr>))
      else if ws_opcode s = 2 then
        next_frame (end_of_message h (s\<lparr>ws_is_binary := True, ws_message := ws_message s @ ws_fragment s\<rparr>))
      else if ws_opcode s = 8 then
        (let s1 = s\<lparr>ws_recv_close := True\<rparr> in
         if \<not> ws_sent_close s1 then next_frame (ws_do_close h (ws_fragment s1) s1)
         else
           let s2 = (shut_and_close s1)\<lparr>ws_close_connection := True\<rparr>;
               s3 = (if \<not> ws_close_called s2
                     then (ws_notify h (on_close h (ws_fragment s2)) s2)\<lparr>ws_close_called := True\<rparr> else s2)
           in (False, check_destroy h s3))
      else if ws_opcode s = 9 then next_frame (send_pong (ws_fragment s) s)
      else if ws_opcode s = 10 then next_frame (s\<lparr>ws_pong_received := True\<rparr>)
      else next_frame s)"

text \<open>The bytes a completed read has put over the variable it reads into.\<close>

definition overlay :: "bytes \<Rightarrow> bytes \<Rightarrow> bytes" where
  "overlay bs old = bs @ drop (length bs) old"

definition read_failed :: "'u ws_handlers \<Rightarrow> string \<Rightarrow> 'u ws_conn \<Rightarrow> 'u ws_conn" where
  "read_failed h ec s =
     check_destroy h (ws_notify h (on_error h ec) (shut_and_close (s\<lparr>ws_close_connection := True\<rparr>)))"

definition read_failed_late :: "'u ws_handlers \<Rightarrow> string \<Rightarrow> 'u ws_conn \<Rightarrow> 'u ws_conn" where
  "read_failed_late h ec s =
     check_destroy h (shut_and_close (ws_notify h (on_error h ec) (s\<lparr>ws_close_connection := True\<rparr>)))"

text \<open>The completion handlers of the five reads.\<close>

definition on_mini_header :: "'u ws_handlers \<Rightarrow> string option \<Rightarrow> bytes \<Rightarrow> 'u ws_conn \<Rightarrow> 'u ws_conn" where
  "on_mini_header h ec bs s0 =
     (let m = htons (le_word (overlay bs (le_bytes 2 (ws_mini_header s0)))); s = s0\<lparr>ws_mini_header := m\<rparr> in
      case ec of
        Some e \<Rightarrow> read_failed h e s
      | None \<Rightarrow>
          let s = s\<lparr>ws_has_mask := (m AND 0x80 = 0x80)\<rparr> in
          if m AND 0x7F = 127 then do_read h (s\<lparr>ws_state := Len64\<rparr>)
          else if m AND 0x7F = 126 then do_read h (s\<lparr>ws_state := Len16\<rparr>)
          else do_read h (s\<lparr>ws_length := ucast (m AND 0x7F), ws_state := Mask\<rparr>))"

definition on_len16 :: "'u ws_handlers \<Rightarrow> string option \<Rightarrow> bytes \<Rightarrow> 'u ws_conn \<Rightarrow> 'u ws_conn" where
  "on_len16 h ec bs s0 =
     (let n = htons (le_word (overlay bs (le_bytes 2 (ws_length16 s0))));
          s = s0\<lparr>ws_length16 := n, ws_length := ucast n\<rparr> in
      case ec of Some e \<Rightarrow> read_failed h e s | None \<Rightarrow> do_read h (s\<lparr>ws_state := Mask\<rparr>))"

definition on_len64 :: "'u ws_handlers \<Rightarrow> string option \<Rightarrow> bytes \<Rightarrow> 'u ws_conn \<Rightarrow> 'u ws_conn" where
  "on_len64 h ec bs s0 =
     (let s = s0\<lparr>ws_length := swap64 (le_word (overlay bs (le_bytes 8 (ws_length s0))))\<rparr> in
      case ec of Some e \<Rightarrow> read_failed h e s | None \<Rightarrow> do_read h (s\<lparr>ws_state := Mask\<rparr>))"

definition on_mask :: "'u ws_handlers \<Rightarrow> string option \<Rightarrow> bytes \<Rightarrow> 'u ws_conn \<Rightarrow> 'u ws_conn" where
  "on_mask h ec bs s0 =
     (let s = s0\<lparr>ws_mask := overlay bs (ws_mask s0)\<rparr> in
      case ec of Some e \<Rightarrow> read_failed_late h e s | None \<Rightarrow> do_read h (s\<lparr>ws_state := Payload\<rparr>))"

definition on_payload :: "'u ws_handlers \<Rightarrow> string option \<Rightarrow> bytes \<Rightarrow> 'u ws_conn \<Rightarrow> 'u ws_conn" where
  "on_payload h ec bs s0 =
     (case ec of
        Some e \<Rightarrow> read_failed_late h e s0
      | None \<Rightarrow>
          let s = s0\<lparr>ws_fragment := ws_fragment s0 @ bs, ws_length := ws_length s0 - word_of_nat (length bs)\<rparr> in
          if ws_length s = 0 then
            (case handle_fragment h s of
               (True, s') \<Rightarrow> do_read h (s'\<lparr>ws_state := MiniHeader\<rparr>)
             | (False, s') \<Rightarrow> s')
          else do_read h s)"

definition on_read :: "'u ws_handlers \<Rightarrow> string option \<Rightarrow> bytes \<Rightarrow> 'u ws_conn \<Rightarrow> 'u ws_conn" where
  "on_read h ec bs s0 =
     (let s = s0\<lparr>ws_is_reading := False, ws_reading := None\<rparr> in
      (case ws_state s of
         MiniHeader \<Rightarrow> on_mini_header | Len16 \<Rightarrow> on_len16 | Len64 \<Rightarrow> on_len64 | Mask \<Rightarrow> on_mask
       | Payload \<Rightarrow> on_payload) h ec bs s)"

lemmas on_read_defs = on_read_def on_mini_header_def on_len16_def on_len64_def on_mask_def on_payload_def

text \<open>The completion handler of \<open>async_write\<close>; \<open>ws_sent\<close> is what the socket has accepted.\<close>

definition on_write :: "'u ws_handlers \<Rightarrow> bool \<Rightarrow> 'u ws_conn \<Rightarrow> 'u ws_conn" where
  "on_write h ok s0 =
     (let s = s0\<lparr>ws_writing := False, ws_sent := (if ok then ws_sent s0 @ concat (ws_sending s0) else ws_sent s0)\<rparr> in
      if ok \<and> \<not> ws_close_connection s then
        (let s1 = s\<lparr>ws_sending := []\<rparr>;
             s2 = (if ws_write s1 \<noteq> [] then do_write s1 else s1)
         in if ws_sent_close s2 then s2\<lparr>ws_close_connection := True\<rparr> else s2)
      else check_destroy h (s\<lparr>ws_sending := [], ws_close_connection := True\<rparr>))"

subsection \<open>The handshake\<close>

definition ws_magic :: string where
  "ws_magic = ''258EAFA5-E914-47DA-95CA-C5AB0DC85B11''"

definition ws_accept_key :: "bytes \<Rightarrow> string \<Rightarrow> string option" where
  "ws_accept_key buffer key =
     (case getDigestBytes (processBytes (bytes_of (key @ ws_magic)) (new_sha1 buffer)) of
        None \<Rightarrow> None
      | Some digest \<Rightarrow> Some (base64encode b64_key digest))"

definition ws_start :: "'u ws_handlers \<Rightarrow> string \<Rightarrow> 'u ws_conn \<Rightarrow> 'u ws_conn" where
  "ws_start h hello s =
     (let crlf = bytes_of [CR, LF];
          header = bytes_of (''HTTP/1.1 101 Switching Protocols'' @ [CR, LF] @ ''Upgrade: websocket'' @ [CR, LF] @
            ''Connection: Upgrade'' @ [CR, LF] @ ''Sec-WebSocket-Accept: '')
      in do_read h (ws_notify h (on_open h)
           (do_write (s\<lparr>ws_write := ws_write s @ [header, bytes_of hello, crlf, crlf]\<rparr>))))"

text \<open>
  A new object; the members the source leaves uninitialised are arguments. The accept handler is a
  function of the request.
\<close>

definition blank_ws :: "'u \<Rightarrow> bool \<Rightarrow> bytes \<Rightarrow> 64 word \<Rightarrow> 'u ws_conn" where
  "blank_ws u binary0 mask0 max_payload =
     \<lparr>ws_user = u, ws_sending = [], ws_write = [], ws_is_binary = binary0, ws_message = [], ws_fragment = [],
      ws_state = MiniHeader, ws_length16 = 0, ws_length = 0, ws_max_payload = max_payload,
      ws_close_connection = False, ws_is_reading = False, ws_has_mask = False, ws_mask = mask0,
      ws_mini_header = 0, ws_sent_close = False, ws_recv_close = False, ws_pong_received = False,
      ws_close_called = False, ws_reading = None, ws_writing = False, ws_posted = [], ws_sent = [],
      ws_shutdown = False, ws_closed = False, ws_removed = 0, ws_deleted = False\<rparr>"

definition new_ws ::
    "'u ws_handlers \<Rightarrow> (crow_request \<Rightarrow> 'u \<Rightarrow> bool \<times> 'u) option \<Rightarrow> bytes \<Rightarrow> crow_request \<Rightarrow> 'u ws_conn \<Rightarrow>
     'u ws_conn option" where
  "new_ws h accept buffer req s =
     (let refuse = (\<lambda>s. s\<lparr>ws_closed := True, ws_removed := ws_removed s + 1, ws_deleted := True\<rparr>) in
      if \<not> string_equals (rq_get_header_value req ''upgrade'') ''websocket'' False then Some (refuse s)
      else
        (case (case accept of None \<Rightarrow> (True, ws_user s) | Some f \<Rightarrow> f req (ws_user s)) of
           (ok, u) \<Rightarrow>
             if \<not> ok then Some (refuse (s\<lparr>ws_user := u\<rparr>))
             else
               (case ws_accept_key buffer (rq_get_header_value req ''Sec-WebSocket-Key'') of
                  None \<Rightarrow> None
                | Some hello \<Rightarrow> Some (ws_start h hello (s\<lparr>ws_user := u\<rparr>)))))"

subsection \<open>Steps\<close>

fun read_delivers :: "ws_read \<Rightarrow> string option \<Rightarrow> bytes \<Rightarrow> bool" where
  "read_delivers (Read_some n) ec bs \<longleftrightarrow> length bs \<le> n \<and> (ec = None \<and> 0 < n \<longrightarrow> bs \<noteq> [])"
| "read_delivers (Read_all n) ec bs \<longleftrightarrow> length bs \<le> n \<and> (ec = None \<longrightarrow> length bs = n)"

text \<open>
  The steps: completions, a posted call that reaches the front of its queue (calls on an object that
  is gone are dropped by the weak pointer), and calls from other threads.
\<close>

datatype ws_step_kind =
    Ws_read_done "string option" bytes
  | Ws_write_done bool
  | Ws_posted_run
  | Ws_api ws_call

definition run_posted :: "'u ws_handlers \<Rightarrow> 'u ws_conn \<Rightarrow> 'u ws_conn" where
  "run_posted h s =
     (case ws_posted s of
        [] \<Rightarrow> s
      | Send_data opcode msg # ps \<Rightarrow> send_data_impl opcode msg (s\<lparr>ws_posted := ps\<rparr>)
      | Close_later msg # ps \<Rightarrow> ws_do_close h msg (s\<lparr>ws_posted := ps\<rparr>))"

text \<open>A call from another thread: sending posts as always, closing is posted too.\<close>

fun ws_from_outside :: "ws_call \<Rightarrow> 'u ws_conn \<Rightarrow> 'u ws_conn" where
  "ws_from_outside (Ws_text msg) s = send_text msg s"
| "ws_from_outside (Ws_binary msg) s = send_binary msg s"
| "ws_from_outside (Ws_ping msg) s = send_ping msg s"
| "ws_from_outside (Ws_pong msg) s = send_pong msg s"
| "ws_from_outside (Ws_close msg) s = s\<lparr>ws_posted := ws_posted s @ [Close_later msg]\<rparr>"

inductive ws_step :: "'u ws_handlers \<Rightarrow> ws_step_kind \<Rightarrow> 'u ws_conn \<Rightarrow> 'u ws_conn \<Rightarrow> bool" for h where
  read_done: "ws_reading s = Some r \<Longrightarrow> read_delivers r ec bs \<Longrightarrow>
     ws_step h (Ws_read_done ec bs) s (on_read h ec bs s)"
| write_done: "ws_writing s \<Longrightarrow> ws_step h (Ws_write_done ok) s (on_write h ok s)"
| posted_run: "ws_posted s \<noteq> [] \<Longrightarrow> \<not> ws_deleted s \<Longrightarrow> ws_step h Ws_posted_run s (run_posted h s)"
| api_call: "\<not> ws_deleted s \<Longrightarrow> ws_step h (Ws_api c) s (ws_from_outside c s)"

end
