(* ===== verification/Crow_Frames.thy ===== *)
theory Crow_Frames
  imports Crow_Websocket
begin

section \<open>WebSocket frames\<close>

text \<open>
  What RFC 6455 calls a frame, and what a connection makes of the frames it reads and writes.
\<close>

subsection \<open>Bytes and words\<close>

lemma le_bytes_length [simp]: "length (le_bytes n x) = n"
  by (simp add: le_bytes_def)

lemma bit_le_word:
  "bit (le_word bs :: 'a :: len word) i \<longleftrightarrow> i < LENGTH('a) \<and> i < 8 * length bs \<and> bit (bs ! (i div 8)) (i mod 8)"
proof (induction bs arbitrary: i)
  case (Cons b bs)
  show ?case
  proof (cases "i < 8")
    case True
    then show ?thesis by (auto simp: bit_or_iff bit_push_bit_iff bit_ucast_iff)
  next
    case False
    then have "i div 8 = Suc ((i - 8) div 8)" "i mod 8 = (i - 8) mod 8"
      by (simp_all add: div_if mod_if)
    moreover have "\<not> bit b i" using False by (auto dest: bit_imp_le_length)
    ultimately show ?thesis
      using False Cons.IH [of "i - 8"] by (auto simp: bit_or_iff bit_push_bit_iff bit_ucast_iff)
  qed
qed simp

lemma le_bytes_nth_bit:
  "k < n \<Longrightarrow> bit (le_bytes n x ! k) j \<longleftrightarrow> j < 8 \<and> bit x (8 * k + j)"
  by (auto simp: le_bytes_def bit_ucast_iff bit_drop_bit_eq)

lemma le_word_bytes:
  fixes x :: "'a :: len word"
  assumes "LENGTH('a) \<le> 8 * n"
  shows "le_word (le_bytes n x) = x"
proof (rule bit_word_eqI)
  fix i assume i: "i < LENGTH('a)"
  then have "i div 8 < n" using assms by auto
  then have "bit (le_bytes n x ! (i div 8)) (i mod 8) = bit x i" by (simp add: le_bytes_nth_bit)
  with i assms show "bit (le_word (le_bytes n x) :: 'a word) i = bit x i" by (simp add: bit_le_word)
qed

lemma le_bytes_word:
  assumes "8 * length bs \<le> LENGTH('a :: len)" "n = length bs"
  shows "le_bytes n (le_word bs :: 'a word) = bs"
proof (rule nth_equalityI)
  fix k assume "k < length (le_bytes n (le_word bs :: 'a word))"
  then have k: "k < length bs" using assms(2) by simp
  show "le_bytes n (le_word bs :: 'a word) ! k = bs ! k"
  proof (rule bit_word_eqI)
    fix j assume "j < LENGTH(8)"
    then have j: "j < 8" by simp
    with k have "8 * k + j < 8 * length bs" "(8 * k + j) div 8 = k" "(8 * k + j) mod 8 = j" by auto
    with j k assms show "bit (le_bytes n (le_word bs :: 'a word) ! k) j = bit (bs ! k) j"
      by (simp add: le_bytes_nth_bit bit_le_word)
  qed
qed (simp add: assms)

definition be_bytes :: "nat \<Rightarrow> 'a :: len word \<Rightarrow> bytes" where
  "be_bytes n x = rev (le_bytes n x)"

lemma htons_be: "length bs = 2 \<Longrightarrow> htons (le_word bs) = le_word (rev bs)"
  by (simp add: htons_def le_bytes_word)

lemma htons_le_bytes: "le_bytes 2 (htons x) = be_bytes 2 x"
  by (simp add: htons_def be_bytes_def le_bytes_word)

lemma htonl_be: "length bs = 4 \<Longrightarrow> htonl (le_word bs) = le_word (rev bs)"
  by (simp add: htonl_def le_bytes_word)

lemma swap64_be:
  assumes "length bs = 8"
  shows "swap64 (le_word bs) = le_word (rev bs)"
proof -
  have lo: "(ucast (le_word bs AND 0xFFFFFFFF :: 64 word) :: 32 word) = le_word (take 4 bs)"
  proof (rule bit_word_eqI)
    fix i assume "i < LENGTH(32)"
    moreover have m: "(0xFFFFFFFF :: 64 word) = mask 32" by (simp add: mask_eq_exp_minus_1)
    moreover have "i div 8 < 4 \<longleftrightarrow> i < 32" by auto
    ultimately show "bit (ucast (le_word bs AND 0xFFFFFFFF :: 64 word) :: 32 word) i = bit (le_word (take 4 bs) :: 32 word) i"
      using assms unfolding m by (auto simp: bit_ucast_iff bit_and_iff bit_mask_iff bit_le_word)
  qed
  have hi: "(ucast (drop_bit 32 (le_word bs :: 64 word)) :: 32 word) = le_word (drop 4 bs)"
  proof (rule bit_word_eqI)
    fix i assume "i < LENGTH(32)"
    moreover have "(32 + i) div 8 = 4 + i div 8" "(32 + i) mod 8 = i mod 8" by presburger+
    ultimately show "bit (ucast (drop_bit 32 (le_word bs :: 64 word)) :: 32 word) i = bit (le_word (drop 4 bs) :: 32 word) i"
      using assms by (auto simp: bit_ucast_iff bit_drop_bit_eq bit_le_word add.commute)
  qed
  have "swap64 (le_word bs) = push_bit 32 (ucast (le_word (rev (take 4 bs)) :: 32 word)) OR
      ucast (le_word (rev (drop 4 bs)) :: 32 word)"
    using assms by (simp only: swap64_def lo hi) (simp add: htonl_be)
  also have "\<dots> = le_word (rev bs)"
  proof (rule bit_word_eqI)
    fix i assume i: "i < LENGTH(64)"
    have rv: "rev bs = rev (drop 4 bs) @ rev (take 4 bs)" by (simp flip: rev_append)
    show "bit (push_bit 32 (ucast (le_word (rev (take 4 bs)) :: 32 word)) OR
        ucast (le_word (rev (drop 4 bs)) :: 32 word) :: 64 word) i = bit (le_word (rev bs) :: 64 word) i"
    proof (cases "i < 32")
      case True
      then have "i div 8 < 4" by auto
      with True assms show ?thesis
        unfolding rv by (simp add: bit_or_iff bit_push_bit_iff bit_ucast_iff bit_le_word nth_append)
    next
      case False
      then obtain k where k: "i = 32 + k" using le_Suc_ex not_less by blast
      have "(32 + k) div 8 = 4 + k div 8" "(32 + k) mod 8 = k mod 8" by presburger+
      moreover have "\<not> bit (ucast (le_word (rev (drop 4 bs)) :: 32 word) :: 64 word) i"
        using False by (simp add: bit_ucast_iff bit_le_word)
      ultimately show ?thesis
        using i assms unfolding rv k
        by (simp add: bit_or_iff bit_push_bit_iff bit_ucast_iff bit_le_word nth_append)
    qed
  qed
  finally show ?thesis .
qed

lemma swap64_le_bytes: "le_bytes 8 (swap64 x) = be_bytes 8 x"
  using swap64_be [of "le_bytes 8 x"] by (simp add: le_word_bytes le_bytes_word be_bytes_def)

subsection \<open>Frames as RFC 6455 has them\<close>

record ws_frame =
  fr_fin :: bool
  fr_opcode :: nat
  fr_key :: "bytes option"
  fr_data :: bytes

definition length_field :: "nat \<Rightarrow> 8 word \<times> bytes" where
  "length_field n =
     (if n < 126 then (word_of_nat n, [])
      else if n < 0x10000 then (126, be_bytes 2 (word_of_nat n :: 16 word))
      else (127, be_bytes 8 (word_of_nat n :: 64 word)))"

definition frame_head :: "ws_frame \<Rightarrow> bytes" where
  "frame_head f =
     [(if fr_fin f then 0x80 else 0) OR word_of_nat (fr_opcode f),
      (if fr_key f \<noteq> None then 0x80 else 0) OR fst (length_field (length (fr_data f)))]"

definition frame_payload :: "ws_frame \<Rightarrow> bytes" where
  "frame_payload f = (case fr_key f of None \<Rightarrow> fr_data f | Some key \<Rightarrow> unmask key (fr_data f))"

definition encode_frame :: "ws_frame \<Rightarrow> bytes" where
  "encode_frame f = frame_head f @ snd (length_field (length (fr_data f))) @
     (case fr_key f of None \<Rightarrow> [] | Some key \<Rightarrow> key) @ frame_payload f"

definition frame_ok :: "ws_frame \<Rightarrow> bool" where
  "frame_ok f \<longleftrightarrow> fr_opcode f < 16 \<and> length (fr_data f) < 2 ^ 64 \<and>
     (\<forall>key. fr_key f = Some key \<longrightarrow> length key = 4)"

definition server_frame :: "nat \<Rightarrow> bytes \<Rightarrow> ws_frame" where
  "server_frame opcode data = \<lparr>fr_fin = True, fr_opcode = opcode, fr_key = None, fr_data = data\<rparr>"

lemma unmask_length [simp]: "length (unmask key data) = length data"
  by (simp add: unmask_def)

lemma unmask_twice: "unmask key (unmask key data) = data"
  by (rule nth_equalityI) (simp_all add: unmask_def xor.assoc)

lemma opcode_byte: "n < 16 \<Longrightarrow> (0x80 :: 8 word) + word_of_nat n = 0x80 OR word_of_nat n"
proof -
  have "\<forall>n \<in> set [0..<16]. (0x80 :: 8 word) + word_of_nat n = 0x80 OR word_of_nat n" by code_simp
  then show "n < 16 \<Longrightarrow> ?thesis" by simp
qed

text \<open>A header the class writes and the data after it are an unmasked final frame.\<close>

lemma build_header_frame:
  "opcode < 16 \<Longrightarrow> build_header opcode (length data) @ data = encode_frame (server_frame opcode data)"
  by (simp add: build_header_def encode_frame_def frame_head_def server_frame_def frame_payload_def
      length_field_def opcode_byte htons_le_bytes swap64_le_bytes Let_def)

subsection \<open>The header of a frame, read back\<close>

definition header_word :: "8 word \<Rightarrow> 8 word \<Rightarrow> 16 word" where
  "header_word b0 b1 = push_bit 8 (ucast b0) OR ucast b1"

lemma htons_header: "htons (le_word [b0, b1]) = header_word b0 b1"
  using htons_be [of "[b0, b1]"] by (simp add: header_word_def or.commute)

lemma bit_header_word:
  "bit (header_word b0 b1) i \<longleftrightarrow> (if i < 8 then bit b1 i else bit b0 (i - 8))"
  by (auto simp: header_word_def bit_or_iff bit_push_bit_iff bit_ucast_iff dest: bit_imp_le_length)

lemma header_fin: "header_word b0 b1 AND 0x8000 \<noteq> 0 \<longleftrightarrow> bit b0 7"
  using and_exp_eq_0_iff_not_bit [of "header_word b0 b1" 15] by (simp add: bit_header_word)

lemma header_masked: "header_word b0 b1 AND 0x80 = 0x80 \<longleftrightarrow> bit b1 7"
proof -
  have "(header_word b0 b1 AND 2 ^ 7 = 2 ^ 7) = bit (header_word b0 b1) 7"
  proof
    assume "header_word b0 b1 AND 2 ^ 7 = 2 ^ 7"
    then have "header_word b0 b1 AND 2 ^ 7 \<noteq> 0" by simp
    then show "bit (header_word b0 b1) 7" by (simp only: and_exp_eq_0_iff_not_bit) simp
  next
    assume "bit (header_word b0 b1) 7"
    then show "header_word b0 b1 AND 2 ^ 7 = 2 ^ 7"
      by (intro bit_word_eqI) (simp only: bit_and_iff bit_exp_iff, blast)
  qed
  then show ?thesis by (simp add: bit_header_word)
qed

lemma header_opcode: "unat (drop_bit 8 (header_word b0 b1 AND 0x0F00)) = unat (b0 AND 0xF)"
proof -
  have m: "(0x0F00 :: 16 word) = push_bit 8 (mask 4)" "(0xF :: 8 word) = mask 4" by (simp_all add: mask_eq_exp_minus_1 push_bit_eq_mult)
  have "drop_bit 8 (header_word b0 b1 AND 0x0F00) = ucast (b0 AND 0xF)"
    unfolding m by (intro bit_word_eqI)
      (auto simp: bit_drop_bit_eq bit_and_iff bit_push_bit_iff bit_mask_iff bit_ucast_iff bit_header_word)
  moreover have "unat (b0 AND 0xF) < 2 ^ 8" using unsigned_less [of "b0 AND 0xF"] by simp
  ultimately show ?thesis by (simp add: unsigned_ucast_eq take_bit_nat_eq_self)
qed

lemma header_length: "header_word b0 b1 AND 0x7F = ucast (b1 AND 0x7F)"
proof -
  have m: "(0x7F :: 16 word) = mask 7" "(0x7F :: 8 word) = mask 7" by (simp_all add: mask_eq_exp_minus_1)
  show ?thesis
    unfolding m by (intro bit_word_eqI) (auto simp: bit_and_iff bit_mask_iff bit_ucast_iff bit_header_word)
qed

lemma small_byte_facts:
  "\<forall>n \<in> set [0..<16]. bit (0x80 OR word_of_nat n :: 8 word) 7 \<and> \<not> bit (word_of_nat n :: 8 word) 7 \<and>
     unat ((0x80 OR word_of_nat n) AND 0xF :: 8 word) = n \<and> unat (word_of_nat n AND 0xF :: 8 word) = n"
  "\<forall>n \<in> set [0..<128]. bit (0x80 OR word_of_nat n :: 8 word) 7 \<and> \<not> bit (word_of_nat n :: 8 word) 7 \<and>
     (0x80 OR word_of_nat n) AND 0x7F = (word_of_nat n :: 8 word) \<and> word_of_nat n AND 0x7F = (word_of_nat n :: 8 word)"
  by code_simp+

lemma length_field_small: "\<exists>k < 128. fst (length_field n) = word_of_nat k"
  by (auto simp: length_field_def intro: exI [of _ n] exI [of _ 126] exI [of _ 127])

lemma frame_header:
  assumes "frame_head f = [b0, b1]" "frame_ok f"
  shows "header_word b0 b1 AND 0x8000 \<noteq> 0 \<longleftrightarrow> fr_fin f"
    and "unat (drop_bit 8 (header_word b0 b1 AND 0x0F00)) = fr_opcode f"
    and "header_word b0 b1 AND 0x80 = 0x80 \<longleftrightarrow> fr_key f \<noteq> None"
    and "header_word b0 b1 AND 0x7F = ucast (fst (length_field (length (fr_data f))))"
proof -
  obtain k where k: "k < 128" "fst (length_field (length (fr_data f))) = word_of_nat k"
    using length_field_small by blast
  have b: "b0 = (if fr_fin f then 0x80 else 0) OR word_of_nat (fr_opcode f)"
    "b1 = (if fr_key f \<noteq> None then 0x80 else 0) OR word_of_nat k"
    using assms(1) k(2) by (simp_all add: frame_head_def)
  have op: "fr_opcode f \<in> set [0..<16]" and k': "k \<in> set [0..<128]"
    using assms(2) k(1) by (simp_all add: frame_ok_def)
  note small = small_byte_facts(1) [rule_format, OF op] small_byte_facts(2) [rule_format, OF k']
  show "header_word b0 b1 AND 0x8000 \<noteq> 0 \<longleftrightarrow> fr_fin f" using small by (simp only: header_fin b) simp
  show "unat (drop_bit 8 (header_word b0 b1 AND 0x0F00)) = fr_opcode f" using small by (simp only: header_opcode b) simp
  show "header_word b0 b1 AND 0x80 = 0x80 \<longleftrightarrow> fr_key f \<noteq> None" using small by (simp only: header_masked b) simp
  show "header_word b0 b1 AND 0x7F = ucast (fst (length_field (length (fr_data f))))"
    using small by (simp only: header_length b k(2)) simp
qed

end
