(* ===== verification/Crow_Ws_Props.thy ===== *)
theory Crow_Ws_Props
  imports Crow_Frames
begin

section \<open>What a WebSocket connection delivers and sends\<close>

subsection \<open>Frames in, messages out\<close>

text \<open>The connection waits for the header of the next frame.\<close>

definition ws_waiting :: "'u ws_conn \<Rightarrow> bool" where
  "ws_waiting s \<longleftrightarrow> ws_state s = MiniHeader \<and> ws_reading s = Some (Read_some 2) \<and> ws_is_reading s \<and>
     ws_fragment s = [] \<and> length (ws_mask s) = 4 \<and> \<not> (ws_sent_close s \<and> ws_recv_close s)"

text \<open>
  How the socket may hand over a frame: the header and the two fields after it each in one piece,
  the payload in pieces of any size (one empty piece if there is no payload).
\<close>

definition pieces_of :: "bytes \<Rightarrow> bytes list \<Rightarrow> bool" where
  "pieces_of p ps \<longleftrightarrow> concat ps = p \<and> ps \<noteq> [] \<and> (p \<noteq> [] \<longrightarrow> [] \<notin> set ps) \<and> (p = [] \<longrightarrow> ps = [[]]) \<and>
     (\<forall>q \<in> set ps. length q \<le> 4096)"

definition frame_reads :: "ws_frame \<Rightarrow> bytes list \<Rightarrow> bool" where
  "frame_reads f rs \<longleftrightarrow> (\<exists>ps. pieces_of (frame_payload f) ps \<and>
     rs = frame_head f # (let ext = snd (length_field (length (fr_data f))) in if ext = [] then [] else [ext]) @
       (case fr_key f of None \<Rightarrow> [] | Some key \<Rightarrow> [key]) @ ps)"

definition read_all :: "'u ws_handlers \<Rightarrow> bytes list \<Rightarrow> 'u ws_conn \<Rightarrow> 'u ws_conn" where
  "read_all h rs s = fold (on_read h None) rs s"

lemma read_all_simps [simp]:
  "read_all h [] s = s"
  "read_all h (r # rs) s = read_all h rs (on_read h None r s)"
  "read_all h (rs @ qs) s = read_all h qs (read_all h rs s)"
  by (simp_all add: read_all_def)

definition frame_done :: "'u ws_handlers \<Rightarrow> 'u ws_conn \<Rightarrow> 'u ws_conn" where
  "frame_done h s = (case handle_fragment h s of
     (True, s') \<Rightarrow> do_read h (s'\<lparr>ws_state := MiniHeader\<rparr>) | (False, s') \<Rightarrow> s')"

lemma frame_reads_concat: "frame_reads f rs \<Longrightarrow> concat rs = encode_frame f"
  by (auto simp: frame_reads_def pieces_of_def encode_frame_def Let_def split: option.split)

lemma small_of_nat: "n < 2 ^ 64 \<Longrightarrow> (word_of_nat n :: 64 word) = 0 \<longleftrightarrow> n = 0"
  by (auto simp: word_of_nat_eq_0_iff dest: dvd_imp_le)

text \<open>The payload, piece by piece.\<close>

lemma payload_read:
  assumes "ws_state s = Payload" "\<not> (ws_sent_close s \<and> ws_recv_close s)" "concat ps = p" "ps \<noteq> []"
    "p \<noteq> [] \<longrightarrow> [] \<notin> set ps" "p = [] \<longrightarrow> ps = [[]]" "ws_length s = word_of_nat (length p)" "length p < 2 ^ 64"
  shows "read_all h ps s = frame_done h (s\<lparr>ws_is_reading := False, ws_reading := None,
    ws_fragment := ws_fragment s @ p, ws_length := 0\<rparr>)"
  using assms
proof (induction ps arbitrary: s p)
  case (Cons q ps)
  let ?s = "s\<lparr>ws_is_reading := False, ws_reading := None, ws_fragment := ws_fragment s @ q,
    ws_length := word_of_nat (length (concat ps))\<rparr>"
  have p: "p = q @ concat ps" and len: "length (concat ps) < 2 ^ 64" using Cons.prems by auto
  have zero: "(word_of_nat (length (concat ps)) :: 64 word) = 0 \<longleftrightarrow> concat ps = []"
    using len by (simp only: small_of_nat length_0_conv)
  have read: "on_read h None q s = (if concat ps = [] then frame_done h ?s else do_read h ?s)"
    using Cons.prems(1) by (simp add: on_read_def on_payload_def Let_def frame_done_def Cons.prems(7) p zero)
  show ?case
  proof (cases "ps = []")
    case True
    with p read show ?thesis by simp
  next
    case False
    then have ne: "concat ps \<noteq> []" "[] \<notin> set (q # ps)" using Cons.prems(5,6) by (cases ps; auto)+
    have "on_read h None q s = do_read h ?s" using read ne(1) by (simp only: if_False)
    also have "\<dots> = ?s\<lparr>ws_is_reading := True,
        ws_reading := Some (Read_some (min 4096 (unat (ws_length ?s))))\<rparr>" (is "_ = ?t")
      using Cons.prems(1,2) by (auto simp: do_read_def)
    finally have "on_read h None q s = ?t" .
    moreover have "read_all h ps ?t = frame_done h (?t\<lparr>ws_is_reading := False, ws_reading := None,
        ws_fragment := ws_fragment ?t @ concat ps, ws_length := 0\<rparr>)"
      using Cons.prems(1,2) ne len False by (intro Cons.IH) auto
    ultimately show ?thesis by (simp add: p)
  qed
qed simp

text \<open>The header, the length and the key.\<close>

definition head_read :: "ws_frame \<Rightarrow> 'u ws_conn \<Rightarrow> 'u ws_conn" where
  "head_read f s = s\<lparr>ws_mini_header := header_word (frame_head f ! 0) (frame_head f ! 1),
     ws_has_mask := (fr_key f \<noteq> None)\<rparr>"

lemma mini_header_read:
  assumes "ws_waiting s" "frame_ok f"
  shows "on_read h None (frame_head f) s =
    (let s1 = head_read f (s\<lparr>ws_is_reading := False, ws_reading := None\<rparr>); n = length (fr_data f) in
     if n < 126 then do_read h (s1\<lparr>ws_length := word_of_nat n, ws_state := Mask\<rparr>)
     else if n < 0x10000 then do_read h (s1\<lparr>ws_state := Len16\<rparr>)
     else do_read h (s1\<lparr>ws_state := Len64\<rparr>))"
proof -
  obtain b0 b1 where b: "frame_head f = [b0, b1]" by (simp add: frame_head_def)
  let ?m = "header_word b0 b1" and ?n = "length (fr_data f)"
  have m: "htons (le_word (overlay [b0, b1] (le_bytes 2 x))) = ?m" for x :: "16 word"
    unfolding overlay_def htons_header [symmetric] by simp
  note hd = frame_header [OF b assms(2)]
  have "ucast (fst (length_field ?n)) = (if ?n < 126 then word_of_nat ?n else if ?n < 0x10000 then 126 else 127 :: 16 word)"
    by (auto simp: length_field_def unsigned_of_nat take_bit_nat_eq_self)
  then have len: "?m AND 0x7F = (if ?n < 126 then word_of_nat ?n else if ?n < 0x10000 then 126 else 127)"
    using hd(4) by simp
  have small: "?n < 126 \<Longrightarrow> (word_of_nat ?n :: 16 word) \<noteq> 127 \<and> (word_of_nat ?n :: 16 word) \<noteq> 126 \<and>
      ucast (word_of_nat ?n :: 16 word) = (word_of_nat ?n :: 64 word)"
    by (auto simp: unsigned_of_nat take_bit_nat_eq_self dest!: arg_cong [where f = unat])
  have read: "on_read h None (frame_head f) s =
      (let s1 = head_read f (s\<lparr>ws_is_reading := False, ws_reading := None\<rparr>) in
       if ?m AND 0x7F = 127 then do_read h (s1\<lparr>ws_state := Len64\<rparr>)
       else if ?m AND 0x7F = 126 then do_read h (s1\<lparr>ws_state := Len16\<rparr>)
       else do_read h (s1\<lparr>ws_length := ucast (?m AND 0x7F), ws_state := Mask\<rparr>))"
    using assms(1) hd(3) by (simp add: on_read_defs m Let_def ws_waiting_def head_read_def b)
  show ?thesis
  proof (cases "?n < 126")
    case True
    with small have "?m AND 0x7F = word_of_nat ?n" "(word_of_nat ?n :: 16 word) \<noteq> 127" "(word_of_nat ?n :: 16 word) \<noteq> 126"
      "ucast (word_of_nat ?n :: 16 word) = (word_of_nat ?n :: 64 word)" using len by simp_all
    with True show ?thesis unfolding read Let_def by (simp only: if_True if_False)
  next
    case False
    with len show ?thesis unfolding read Let_def by simp
  qed
qed

lemma frame_read:
  assumes w: "ws_waiting s" and f: "frame_ok f" "frame_reads f rs" "length (fr_data f) \<le> unat (ws_max_payload s)"
  shows "\<exists>l16 key. read_all h rs s = frame_done h ((head_read f s)\<lparr>ws_length16 := l16, ws_is_reading := False,
    ws_reading := None, ws_state := Payload, ws_mask := key, ws_fragment := frame_payload f, ws_length := 0\<rparr>) \<and>
    length key = 4 \<and> (\<forall>k. fr_key f = Some k \<longrightarrow> key = k)"
proof -
  let ?n = "length (fr_data f)" and ?w = "word_of_nat (length (fr_data f)) :: 64 word"
  obtain ps where ps: "pieces_of (frame_payload f) ps"
    and rs: "rs = frame_head f # (let ext = snd (length_field ?n) in if ext = [] then [] else [ext]) @
       (case fr_key f of None \<Rightarrow> [] | Some key \<Rightarrow> [key]) @ ps"
    using f(2) by (auto simp: frame_reads_def)
  have nlt: "?n < 2 ^ 64" using f(1) by (simp add: frame_ok_def)
  then have un: "unat ?w = ?n" by (simp add: unat_of_nat)
  have max: "\<not> ws_max_payload s < ?w" using f(3) un by (simp add: word_less_nat_alt)
  have open_: "\<not> (ws_sent_close s \<and> ws_recv_close s)" using w by (simp add: ws_waiting_def)
  have frag: "ws_fragment s = []" using w by (simp add: ws_waiting_def)
  have plen: "length (frame_payload f) = ?n" by (simp add: frame_payload_def split: option.split)

  \<comment> \<open>the key and the payload, from the state that has read the length\<close>
  have rest: "\<exists>key. read_all h ((case fr_key f of None \<Rightarrow> [] | Some key \<Rightarrow> [key]) @ ps) (do_read h t) =
      frame_done h (t\<lparr>ws_is_reading := False, ws_reading := None, ws_state := Payload, ws_mask := key,
        ws_fragment := frame_payload f, ws_length := 0\<rparr>) \<and> length key = 4 \<and> (\<forall>k. fr_key f = Some k \<longrightarrow> key = k)"
    if t: "ws_state t = Mask" "ws_length t = ?w" "ws_has_mask t = (fr_key f \<noteq> None)"
      "ws_max_payload t = ws_max_payload s" "\<not> (ws_sent_close t \<and> ws_recv_close t)" "ws_fragment t = []" "length (ws_mask t) = 4" for t
  proof -
    have payload: "read_all h ps t' = frame_done h (t'\<lparr>ws_is_reading := False, ws_reading := None,
        ws_fragment := frame_payload f, ws_length := 0\<rparr>)"
      if "ws_state t' = Payload" "ws_length t' = ?w" "ws_fragment t' = []" "\<not> (ws_sent_close t' \<and> ws_recv_close t')" for t'
      using payload_read [of t' ps "frame_payload f" h] that ps nlt by (simp add: pieces_of_def plen)
    show ?thesis
    proof (cases "fr_key f")
      case None
      have "do_read h t = t\<lparr>ws_is_reading := True, ws_state := Payload,
          ws_reading := Some (Read_some (min 4096 (unat (ws_length t))))\<rparr>" (is "_ = ?t")
        using t None max by (auto simp: do_read_def Let_def)
      moreover have "read_all h ps ?t = frame_done h (?t\<lparr>ws_is_reading := False, ws_reading := None,
          ws_fragment := frame_payload f, ws_length := 0\<rparr>)"
        using t by (intro payload) simp_all
      moreover have "?t\<lparr>ws_is_reading := False, ws_reading := None, ws_fragment := frame_payload f, ws_length := 0\<rparr> =
          t\<lparr>ws_is_reading := False, ws_reading := None, ws_state := Payload, ws_mask := ws_mask t,
            ws_fragment := frame_payload f, ws_length := 0\<rparr>" by simp
      ultimately have "read_all h ps (do_read h t) = frame_done h (t\<lparr>ws_is_reading := False, ws_reading := None,
          ws_state := Payload, ws_mask := ws_mask t, ws_fragment := frame_payload f, ws_length := 0\<rparr>)"
        by (simp only:)
      with None t(7) show ?thesis by (intro exI [of _ "ws_mask t"]) simp
    next
      case (Some k)
      have k: "length k = 4" using f(1) Some by (simp add: frame_ok_def)
      have "do_read h t = t\<lparr>ws_is_reading := True, ws_reading := Some (Read_all 4)\<rparr>"
        using t Some max by (auto simp: do_read_def Let_def)
      then have "on_read h None k (do_read h t) =
          do_read h (t\<lparr>ws_is_reading := False, ws_reading := None, ws_mask := k, ws_state := Payload\<rparr>)"
        using t(1,7) k by (simp add: on_read_defs Let_def overlay_def)
      moreover let ?u = "t\<lparr>ws_is_reading := False, ws_reading := None, ws_mask := k, ws_state := Payload\<rparr>"
      let ?v = "?u\<lparr>ws_is_reading := True, ws_reading := Some (Read_some (min 4096 (unat (ws_length t))))\<rparr>"
      have "do_read h ?u = ?v" using t(5) by (auto simp: do_read_def Let_def)
      moreover have "read_all h ps ?v = frame_done h (?v\<lparr>ws_is_reading := False, ws_reading := None,
          ws_fragment := frame_payload f, ws_length := 0\<rparr>)"
        using t by (intro payload) simp_all
      moreover have "?v\<lparr>ws_is_reading := False, ws_reading := None, ws_fragment := frame_payload f, ws_length := 0\<rparr> =
          t\<lparr>ws_is_reading := False, ws_reading := None, ws_state := Payload, ws_mask := k,
            ws_fragment := frame_payload f, ws_length := 0\<rparr>" by simp
      ultimately have "read_all h ps (on_read h None k (do_read h t)) = frame_done h (t\<lparr>ws_is_reading := False,
          ws_reading := None, ws_state := Payload, ws_mask := k, ws_fragment := frame_payload f, ws_length := 0\<rparr>)"
        by (simp only:)
      with Some k show ?thesis by (intro exI [of _ k]) simp
    qed
  qed
  let ?s = "head_read f (s\<lparr>ws_is_reading := False, ws_reading := None\<rparr>)"
  let ?tail = "(case fr_key f of None \<Rightarrow> [] | Some key \<Rightarrow> [key]) @ ps"
  have goal: ?thesis if "read_all h rs s = read_all h ?tail (do_read h (?s\<lparr>ws_length16 := l16, ws_length := ?w, ws_state := Mask\<rparr>))" for l16
  proof -
    have "\<exists>key. read_all h rs s = frame_done h (?s\<lparr>ws_length16 := l16, ws_length := ?w, ws_state := Mask,
        ws_is_reading := False, ws_reading := None, ws_state := Payload, ws_mask := key,
        ws_fragment := frame_payload f, ws_length := 0\<rparr>) \<and> length key = 4 \<and> (\<forall>k. fr_key f = Some k \<longrightarrow> key = k)"
      unfolding that by (rule rest) (use open_ w in \<open>auto simp: head_read_def ws_waiting_def\<close>)
    then obtain key where "read_all h rs s = frame_done h (?s\<lparr>ws_length16 := l16, ws_length := ?w, ws_state := Mask,
        ws_is_reading := False, ws_reading := None, ws_state := Payload, ws_mask := key,
        ws_fragment := frame_payload f, ws_length := 0\<rparr>)" "length key = 4 \<and> (\<forall>k. fr_key f = Some k \<longrightarrow> key = k)"
      by blast
    then show ?thesis by (intro exI [of _ l16] exI [of _ key]) (simp add: head_read_def)
  qed
  consider "?n < 126" | "126 \<le> ?n" "?n < 0x10000" | "0x10000 \<le> ?n" by linarith
  then show ?thesis
  proof cases
    case 1
    with mini_header_read [OF w f(1), of h] show ?thesis
      by (intro goal [of "ws_length16 s"]) (simp add: rs length_field_def Let_def head_read_def)
  next
    case 2
    let ?x = "word_of_nat ?n :: 16 word"
    have x: "htons (le_word (overlay (be_bytes 2 ?x) old)) = ?x" if "length old = 2" for old
      using that htons_be [of "be_bytes 2 ?x"] by (simp add: overlay_def be_bytes_def le_word_bytes)
    have "ucast ?x = ?w" using 2 by (simp add: unsigned_of_nat take_bit_nat_eq_self)
    moreover have "do_read h (?s\<lparr>ws_state := Len16\<rparr>) = ?s\<lparr>ws_state := Len16, ws_is_reading := True,
        ws_length := 0, ws_length16 := 0, ws_reading := Some (Read_all 2)\<rparr>"
      using open_ by (auto simp: do_read_def head_read_def)
    ultimately have "on_read h None (be_bytes 2 ?x) (do_read h (?s\<lparr>ws_state := Len16\<rparr>)) =
        do_read h (?s\<lparr>ws_length16 := ?x, ws_length := ?w, ws_state := Mask\<rparr>)"
      using x by (simp add: on_read_defs Let_def head_read_def) (rule arg_cong [where f = "do_read h"], simp)
    with 2 mini_header_read [OF w f(1), of h] show ?thesis
      by (intro goal [of ?x]) (simp add: rs length_field_def be_bytes_def le_bytes_def Let_def)
  next
    case 3
    have x: "swap64 (le_word (overlay (be_bytes 8 ?w) old)) = ?w" if "length old = 8" for old
      using that swap64_be [of "be_bytes 8 ?w"] by (simp add: overlay_def be_bytes_def le_word_bytes)
    have "do_read h (?s\<lparr>ws_state := Len64\<rparr>) = ?s\<lparr>ws_state := Len64, ws_is_reading := True,
        ws_reading := Some (Read_all 8)\<rparr>"
      using open_ by (auto simp: do_read_def head_read_def)
    then have "on_read h None (be_bytes 8 ?w) (do_read h (?s\<lparr>ws_state := Len64\<rparr>)) =
        do_read h (?s\<lparr>ws_length16 := ws_length16 s, ws_length := ?w, ws_state := Mask\<rparr>)"
      using x by (simp add: on_read_defs Let_def head_read_def) (rule arg_cong [where f = "do_read h"], simp)
    with 3 mini_header_read [OF w f(1), of h] show ?thesis
      by (intro goal [of "ws_length16 s"]) (simp add: rs length_field_def be_bytes_def le_bytes_def Let_def)
  qed
qed

text \<open>
  The specification: what is visible of a connection (the application's state, the message being
  assembled and its kind, the calls posted) and what a frame does to it. Handlers that only send are
  the ordinary case; a handler that closes the connection changes more.
\<close>

type_synonym 'u ws_view = "'u \<times> bytes \<times> bool \<times> ws_work list"

definition ws_view :: "'u ws_conn \<Rightarrow> 'u ws_view" where
  "ws_view s = (ws_user s, ws_message s, ws_is_binary s, ws_posted s)"

definition only_sends :: "'u ws_handlers \<Rightarrow> bool" where
  "only_sends h \<longleftrightarrow> (\<forall>m b g u c. on_message h m b = Some g \<longrightarrow> c \<in> set (fst (g u)) \<longrightarrow> (\<forall>m. c \<noteq> Ws_close m))"

fun posted_work :: "ws_call \<Rightarrow> ws_work" where
  "posted_work (Ws_text m) = Send_data 1 m"
| "posted_work (Ws_binary m) = Send_data 2 m"
| "posted_work (Ws_ping m) = Send_data 9 m"
| "posted_work (Ws_pong m) = Send_data 10 m"
| "posted_work (Ws_close m) = Close_later m"

definition deliver_message :: "'u ws_handlers \<Rightarrow> bool \<Rightarrow> 'u ws_view \<Rightarrow> 'u ws_view" where
  "deliver_message h fin v = (case v of (u, msg, bin, posted) \<Rightarrow>
     if \<not> fin then v
     else (case on_message h msg bin of
             None \<Rightarrow> (u, [], bin, posted)
           | Some g \<Rightarrow> (snd (g u), [], bin, posted @ map posted_work (fst (g u)))))"

definition deliver :: "'u ws_handlers \<Rightarrow> ws_frame \<Rightarrow> 'u ws_view \<Rightarrow> 'u ws_view" where
  "deliver h f v = (case v of (u, msg, bin, posted) \<Rightarrow>
     if fr_opcode f = 0 then deliver_message h (fr_fin f) (u, msg @ fr_data f, bin, posted)
     else if fr_opcode f = 1 then deliver_message h (fr_fin f) (u, msg @ fr_data f, False, posted)
     else if fr_opcode f = 2 then deliver_message h (fr_fin f) (u, msg @ fr_data f, True, posted)
     else if fr_opcode f = 9 then (u, msg, bin, posted @ [Send_data 0xA (fr_data f)])
     else v)"

lemmas ws_sends = send_data_def send_text_def send_binary_def send_ping_def send_pong_def

lemma sends_posted:
  "(\<forall>c \<in> set cs. \<forall>m. c \<noteq> Ws_close m) \<Longrightarrow>
   fold (ws_do_call h) cs s = s\<lparr>ws_posted := ws_posted s @ map posted_work cs\<rparr>"
proof (induction cs arbitrary: s)
  case (Cons c cs)
  then show ?case by (cases c) (auto simp: ws_sends)
qed simp

lemma end_of_message_sends:
  assumes "only_sends h"
  shows "end_of_message h s =
    (case deliver_message h (is_FIN s) (ws_view s) of
       (u, msg, bin, posted) \<Rightarrow> s\<lparr>ws_user := u, ws_message := msg, ws_posted := posted\<rparr>)"
proof -
  have "\<forall>c \<in> set cs. \<forall>m. c \<noteq> Ws_close m" if "on_message h m b = Some g" "g u = (cs, u')" for m b g u cs u'
    using that assms by (metis fst_conv only_sends_def)
  then show ?thesis
    by (auto simp: end_of_message_def deliver_message_def ws_view_def ws_notify_def run_handler_def sends_posted
        split: option.split prod.split)
qed

definition fragment_data :: "'u ws_conn \<Rightarrow> bytes" where
  "fragment_data s = (if ws_has_mask s then unmask (ws_mask s) (ws_fragment s) else ws_fragment s)"

definition ws_rest :: "'u ws_conn \<Rightarrow> bytes list \<times> bytes list \<times> bool \<times> bytes \<times> 64 word \<times> bool \<times> bool \<times> bool \<times> bool \<times> bool \<times> nat \<times> bool" where
  "ws_rest s = (ws_sending s, ws_write s, ws_writing s, ws_sent s, ws_max_payload s, ws_sent_close s,
     ws_recv_close s, ws_close_connection s, ws_close_called s, ws_closed s, ws_removed s, ws_deleted s)"

lemma deliver_cong:
  "fr_opcode f = fr_opcode g \<Longrightarrow> fr_fin f = fr_fin g \<Longrightarrow> fr_data f = fr_data g \<Longrightarrow> deliver h f v = deliver h g v"
  by (cases v) (simp add: deliver_def)

lemma deliver_message_binary: "deliver_message h fin (u, m, b, p) = (u', m', b', p') \<Longrightarrow> b' = b"
  by (auto simp: deliver_message_def split: if_splits option.splits)

lemma handle_fragment_sends:
  assumes "only_sends h" "ws_opcode t \<noteq> 8"
  shows "\<exists>t'. handle_fragment h t = (True, t') \<and> ws_fragment t' = [] \<and> ws_rest t' = ws_rest t \<and> ws_mask t' = ws_mask t \<and>
    ws_view t' = deliver h \<lparr>fr_fin = is_FIN t, fr_opcode = ws_opcode t, fr_key = None, fr_data = fragment_data t\<rparr> (ws_view t)"
proof -
  let ?t = "t\<lparr>ws_fragment := fragment_data t\<rparr>"
  have t: "(if ws_has_mask t then t\<lparr>ws_fragment := unmask (ws_mask t) (ws_fragment t)\<rparr> else t) = ?t"
    by (simp add: fragment_data_def)
  have fin: "is_FIN (x\<lparr>ws_message := m\<rparr>) = is_FIN x" "is_FIN (x\<lparr>ws_is_binary := b, ws_message := m\<rparr>) = is_FIN x"
    "is_FIN (x\<lparr>ws_fragment := m\<rparr>) = is_FIN x" "is_FIN (x\<lparr>ws_is_binary := b\<rparr>) = is_FIN x" "ws_opcode (x\<lparr>ws_fragment := m\<rparr>) = ws_opcode x" for x :: "'u ws_conn" and b m
    by (simp_all add: is_FIN_def ws_opcode_def)
  show ?thesis
    using assms(2)
    unfolding handle_fragment_def Let_def t end_of_message_sends [OF assms(1)]
    by (auto simp: fin deliver_def ws_view_def ws_rest_def send_pong_def send_data_def split: prod.split
        dest: deliver_message_binary)
qed

lemma frame_delivered:
  assumes "ws_waiting s" "frame_ok f" "frame_reads f rs" "length (fr_data f) \<le> unat (ws_max_payload s)"
    "only_sends h" "fr_opcode f \<noteq> 8"
  shows "ws_waiting (read_all h rs s)" "ws_view (read_all h rs s) = deliver h f (ws_view s)"
    "ws_rest (read_all h rs s) = ws_rest s"
proof -
  obtain b0 b1 where b: "frame_head f = [b0, b1]" by (simp add: frame_head_def)
  obtain l16 key where r: "read_all h rs s = frame_done h ((head_read f s)\<lparr>ws_length16 := l16,
      ws_is_reading := False, ws_reading := None, ws_state := Payload, ws_mask := key,
      ws_fragment := frame_payload f, ws_length := 0\<rparr>)" (is "_ = frame_done h ?t")
    and key: "length key = 4" "\<forall>k. fr_key f = Some k \<longrightarrow> key = k"
    using frame_read [OF assms(1-4), of h] by blast
  have hd: "ws_opcode ?t = fr_opcode f" "is_FIN ?t = fr_fin f" "ws_has_mask ?t = (fr_key f \<noteq> None)"
    "ws_mask ?t = key" "ws_fragment ?t = frame_payload f" "ws_view ?t = ws_view s" "ws_rest ?t = ws_rest s"
    using frame_header [OF b assms(2)] by (simp_all add: head_read_def ws_opcode_def is_FIN_def b ws_view_def ws_rest_def)
  have data: "fragment_data ?t = fr_data f"
    using key by (auto simp: fragment_data_def frame_payload_def unmask_twice head_read_def split: option.split)
  obtain t' where t': "handle_fragment h ?t = (True, t')" "ws_fragment t' = []" "ws_rest t' = ws_rest ?t"
    "ws_mask t' = ws_mask ?t"
    "ws_view t' = deliver h \<lparr>fr_fin = is_FIN ?t, fr_opcode = ws_opcode ?t, fr_key = None, fr_data = fragment_data ?t\<rparr> (ws_view ?t)"
    using handle_fragment_sends [OF assms(5), of ?t] assms(6) hd(1) by auto
  have view: "ws_view t' = deliver h f (ws_view s)"
    unfolding t'(5) hd by (rule deliver_cong) (simp_all add: data)
  have rest: "ws_rest t' = ws_rest s" using t'(3) hd(7) by simp
  then have closed: "\<not> (ws_sent_close t' \<and> ws_recv_close t')" using assms(1) by (auto simp: ws_rest_def ws_waiting_def)
  have len: "length (ws_mask t') = 4"
    using t'(4) hd(4) key(1) by simp
  have "read_all h rs s = t'\<lparr>ws_state := MiniHeader, ws_is_reading := True, ws_mini_header := 0, ws_reading := Some (Read_some 2)\<rparr>"
    using closed by (auto simp: r frame_done_def t'(1) do_read_def)
  with view rest closed len t'(2) show "ws_waiting (read_all h rs s)" "ws_view (read_all h rs s) = deliver h f (ws_view s)"
    "ws_rest (read_all h rs s) = ws_rest s" by (simp_all add: ws_waiting_def ws_view_def ws_rest_def)
qed

lemma frames_delivered:
  assumes "ws_waiting s" "only_sends h" "list_all2 frame_reads fs rss"
    "\<forall>f \<in> set fs. frame_ok f \<and> fr_opcode f \<noteq> 8 \<and> length (fr_data f) \<le> unat (ws_max_payload s)"
  shows "ws_waiting (read_all h (concat rss) s)"
    "ws_view (read_all h (concat rss) s) = fold (deliver h) fs (ws_view s)"
    "ws_rest (read_all h (concat rss) s) = ws_rest s"
  using assms(3,1,4)
proof (induction arbitrary: s rule: list_all2_induct)
  case (Cons f fs rs rss)
  {
    case 1
    with frame_delivered [OF 1(1) _ Cons(1) _ assms(2)] Cons.IH show ?case by (simp add: ws_rest_def)
  next
    case 2
    with frame_delivered [OF 2(1) _ Cons(1) _ assms(2)] Cons.IH show ?case by (simp add: ws_rest_def)
  next
    case 3
    with frame_delivered [OF 3(1) _ Cons(1) _ assms(2)] Cons.IH show ?case by (simp add: ws_rest_def)
  }
qed simp_all

text \<open>
  C12. A connection that waits for a frame and reads any frames but a close frame, masked or not, with
  lengths of any of the three forms up to its limit and the payload in any pieces, waits for the next
  frame afterwards, and the application has seen exactly the messages the frames make up: fragments
  joined, text and binary told apart, a pong posted for every ping. Nothing else has changed.
\<close>

theorem ws_frames_delivered:
  assumes "ws_waiting s" "only_sends h" "list_all2 frame_reads fs rss"
    "\<forall>f \<in> set fs. frame_ok f \<and> fr_opcode f \<noteq> 8 \<and> length (fr_data f) \<le> unat (ws_max_payload s)"
  shows "let t = read_all h (concat rss) s in
    ws_waiting t \<and> ws_view t = fold (deliver h) fs (ws_view s) \<and> ws_rest t = ws_rest s"
  using frames_delivered [OF assms] by (simp add: Let_def)

text \<open>
  C13. A message sent over one connection arrives over another: what a sender with nothing else to send hands to
  its socket is delivered by a waiting receiver as that one message, in whatever pieces its payload arrives,
  when the two bytes of the header come in one read (the length and the mask are read to their end by ASIO),
  the message is within the receiver's limit, and its handlers do nothing to the connection but send.
\<close>

theorem ws_message_crosses:
  assumes "ws_sending p = []" "ws_write p = []" "ws_posted p = []"
    "ws_waiting q" "only_sends h" "ws_message q = []" "length msg \<le> unat (ws_max_payload q)"
    "frame_reads (server_frame (if binary then 2 else 1) msg) rs"
  shows "concat (ws_sending (run_posted h' ((if binary then send_binary else send_text) msg p))) = concat rs \<and>
    ws_waiting (read_all h rs q) \<and>
    ws_view (read_all h rs q) = deliver_message h True (ws_user q, msg, binary, ws_posted q)"
proof -
  let ?f = "server_frame (if binary then 2 else 1) msg"
  have "unat (ws_max_payload q) < 2 ^ LENGTH(64)" by (rule unsigned_less)
  with assms(7) have "frame_ok ?f" by (auto simp: frame_ok_def server_frame_def)
  then have "ws_waiting (read_all h rs q)" "ws_view (read_all h rs q) = deliver h ?f (ws_view q)"
    using frame_delivered [OF assms(4) _ assms(8) _ assms(5)] assms(7) by (auto simp: server_frame_def)
  moreover have "concat (ws_sending (run_posted h' ((if binary then send_binary else send_text) msg p))) = encode_frame ?f"
    using assms(1-3) build_header_frame [of "if binary then 2 else 1" msg]
    by (auto simp: run_posted_def ws_sends send_data_impl_def do_write_def)
  ultimately show ?thesis
    using assms(6) frame_reads_concat [OF assms(8)] by (auto simp: deliver_def ws_view_def server_frame_def)
qed

end
