(* ===== verification/Crow_Ws_Run.thy ===== *)
theory Crow_Ws_Run
  imports Crow_Ws_Props
begin

section \<open>The life of a WebSocket connection\<close>

text \<open>
  Invariants over all sequences of steps: what the socket is given is the handshake response followed
  by whole frames, and an object that has deleted itself is never touched again.
\<close>

subsection \<open>Output\<close>

text \<open>Everything written so far: accepted by the socket, handed to it, or queued.\<close>

definition ws_out :: "'u ws_conn \<Rightarrow> bytes" where
  "ws_out s = ws_sent s @ concat (ws_sending s) @ concat (ws_write s)"

definition server_frames :: "ws_frame list \<Rightarrow> bool" where
  "server_frames fs \<longleftrightarrow> (\<forall>f \<in> set fs. \<exists>op data. op < 16 \<and> f = server_frame op data)"

definition ws_grows :: "'u ws_conn \<Rightarrow> 'u ws_conn \<Rightarrow> bool" where
  "ws_grows s s' \<longleftrightarrow> (\<exists>fs. server_frames fs \<and> ws_out s' = ws_out s @ concat (map encode_frame fs))"

definition queues_ok :: "'u ws_conn \<Rightarrow> bool" where
  "queues_ok s \<longleftrightarrow> (ws_writing s \<longleftrightarrow> ws_sending s \<noteq> []) \<and> (\<forall>op d. Send_data op d \<in> set (ws_posted s) \<longrightarrow> op < 16)"

text \<open>A connection that is not gone, between two steps or in the middle of one.\<close>

definition ws_live :: "'u ws_conn \<Rightarrow> bool" where
  "ws_live s \<longleftrightarrow> queues_ok s \<and> \<not> ws_deleted s \<and> (ws_reading s \<noteq> None \<longrightarrow> ws_is_reading s)"

definition ws_inv :: "'u ws_conn \<Rightarrow> bool" where
  "ws_inv s \<longleftrightarrow> queues_ok s \<and> (ws_reading s \<noteq> None \<longrightarrow> ws_is_reading s) \<and>
     (ws_deleted s \<longrightarrow> ws_reading s = None \<and> ws_sending s = [])"

text \<open>What a call made by a handler may change.\<close>

definition ws_quiet :: "'u ws_conn \<Rightarrow> 'u ws_conn \<Rightarrow> bool" where
  "ws_quiet s s' \<longleftrightarrow> ws_grows s s' \<and> ws_reading s' = ws_reading s \<and> ws_is_reading s' = ws_is_reading s \<and>
     ws_deleted s' = ws_deleted s \<and> (queues_ok s \<longrightarrow> queues_ok s')"

named_theorems ws_quiet_intros \<open>steps that are quiet\<close>

lemma ws_grows_refl [simp, intro]: "ws_out s' = ws_out s \<Longrightarrow> ws_grows s s'"
  by (auto simp: ws_grows_def server_frames_def intro!: exI [of _ "[]"])

lemma ws_grows_trans [trans]: "ws_grows s t \<Longrightarrow> ws_grows t u \<Longrightarrow> ws_grows s u"
  unfolding ws_grows_def server_frames_def by (metis (no_types, lifting) Un_iff append_assoc concat_append map_append set_append)

lemma ws_quiet_trans [trans]: "ws_quiet s t \<Longrightarrow> ws_quiet t u \<Longrightarrow> ws_quiet s u"
  by (auto simp: ws_quiet_def intro: ws_grows_trans)

lemma ws_quiet_refl [ws_quiet_intros]: "ws_quiet s s"
  by (simp add: ws_quiet_def)

lemma ws_quiet_live: "ws_quiet s t \<Longrightarrow> ws_live s \<Longrightarrow> ws_live t"
  by (auto simp: ws_quiet_def ws_live_def)

lemma ws_quiet_grows: "ws_quiet s t \<Longrightarrow> ws_grows s t"
  by (simp add: ws_quiet_def)

lemma send_impl_quiet [ws_quiet_intros]:
  assumes "opcode < 16"
  shows "ws_quiet s (send_data_impl opcode msg s)"
proof -
  have "ws_out (send_data_impl opcode msg s) = ws_out s @ concat (map encode_frame [server_frame opcode msg])"
    using build_header_frame [OF assms] by (simp add: ws_out_def send_data_impl_def do_write_def)
  then have "ws_grows s (send_data_impl opcode msg s)"
    using assms unfolding ws_grows_def server_frames_def by (intro exI [of _ "[server_frame opcode msg]"]) auto
  then show ?thesis by (auto simp: ws_quiet_def queues_ok_def send_data_impl_def do_write_def)
qed

lemma send_data_quiet [ws_quiet_intros]: "opcode < 16 \<Longrightarrow> ws_quiet s (send_data opcode msg s)"
  by (auto simp: ws_quiet_def ws_out_def queues_ok_def send_data_def)

lemma ws_quiet_fold:
  assumes "\<And>c s. ws_quiet s (call c s)"
  shows "ws_quiet s (fold call cs s)"
proof (induction cs arbitrary: s)
  case (Cons c cs)
  show ?case using ws_quiet_trans [OF assms [of s c] Cons.IH [of "call c s"]] by simp
qed (simp add: ws_quiet_refl)

lemma run_handler_quiet:
  assumes "\<And>c s. ws_quiet s (call c s)"
  shows "ws_quiet s (run_handler call f s)"
proof -
  have "ws_quiet s (s\<lparr>ws_user := u\<rparr>)" for u by (simp add: ws_quiet_def ws_out_def queues_ok_def)
  then have "ws_quiet s (fold call cs (s\<lparr>ws_user := u\<rparr>))" for cs u
    by (rule ws_quiet_trans) (rule ws_quiet_fold [OF assms])
  then show ?thesis by (simp add: run_handler_def ws_quiet_refl split: option.split prod.split)
qed

lemma call_again_quiet: "ws_quiet s (call_again c s)"
proof (cases c)
  case (Ws_close msg)
  have "ws_quiet s (s\<lparr>ws_sent_close := True\<rparr>)" by (simp add: ws_quiet_def ws_out_def queues_ok_def)
  then show ?thesis
    unfolding Ws_close call_again.simps close_again_def by (rule ws_quiet_trans) (simp add: ws_quiet_intros)
qed (simp_all add: send_text_def send_binary_def send_ping_def send_pong_def send_data_quiet)

lemma do_close_quiet [ws_quiet_intros]: "ws_quiet s (ws_do_close h msg s)"
proof -
  have again: "ws_quiet s (run_handler call_again f s)" for f and s :: "'a ws_conn"
    by (rule run_handler_quiet) (rule call_again_quiet)
  have "ws_quiet s (s\<lparr>ws_sent_close := True\<rparr>)" "ws_quiet s (s\<lparr>ws_sent_close := True, ws_close_called := True\<rparr>)"
    by (simp_all add: ws_quiet_def ws_out_def queues_ok_def)
  then have "ws_quiet s (run_handler call_again f (s\<lparr>ws_sent_close := True, ws_close_called := True\<rparr>))"
    "ws_quiet s (s\<lparr>ws_sent_close := True\<rparr>)" for f
    using ws_quiet_trans [OF _ again] by blast+
  then show ?thesis
    unfolding ws_do_close_def Let_def by (intro ws_quiet_trans [OF _ send_impl_quiet]) simp_all
qed

lemma do_call_quiet: "ws_quiet s (ws_do_call h c s)"
  by (cases c) (simp_all add: send_text_def send_binary_def send_ping_def send_pong_def ws_quiet_intros)

lemma notify_quiet [ws_quiet_intros]: "ws_quiet s (ws_notify h f s)"
  unfolding ws_notify_def by (rule run_handler_quiet [OF do_call_quiet])

subsection \<open>Steps\<close>

text \<open>A change that touches none of what the invariant is about.\<close>

lemma ws_quiet_same [ws_quiet_intros]:
  "ws_sending s' = ws_sending s \<Longrightarrow> ws_write s' = ws_write s \<Longrightarrow> ws_sent s' = ws_sent s \<Longrightarrow>
   ws_writing s' = ws_writing s \<Longrightarrow> ws_posted s' = ws_posted s \<Longrightarrow> ws_reading s' = ws_reading s \<Longrightarrow>
   ws_is_reading s' = ws_is_reading s \<Longrightarrow> ws_deleted s' = ws_deleted s \<Longrightarrow> ws_quiet s s'"
  by (simp add: ws_quiet_def ws_out_def queues_ok_def)

text \<open>From a live connection to one that satisfies the invariant.\<close>

definition ws_moves :: "'u ws_conn \<Rightarrow> 'u ws_conn \<Rightarrow> bool" where
  "ws_moves s s' \<longleftrightarrow> ws_live s \<longrightarrow> ws_grows s s' \<and> ws_inv s'"

lemma ws_live_inv: "ws_live s \<Longrightarrow> ws_inv s"
  by (simp add: ws_live_def ws_inv_def)

lemma quiet_moves: "ws_quiet s t \<Longrightarrow> ws_moves t u \<Longrightarrow> ws_moves s u"
  by (auto simp: ws_moves_def intro: ws_grows_trans ws_quiet_grows ws_quiet_live)

lemma moves_quiet: "ws_quiet s t \<Longrightarrow> ws_moves s t"
  by (auto simp: ws_moves_def intro: ws_quiet_grows ws_live_inv ws_quiet_live)

lemma check_destroy_moves: "ws_moves s (check_destroy h s)"
proof -
  let ?s1 = "if \<not> ws_close_called s then ws_notify h (on_close h (bytes_of ''uncleanly'')) s else s"
  let ?s = "?s1\<lparr>ws_removed := ws_removed ?s1 + 1\<rparr>"
  have "ws_quiet s ?s1" by (simp add: ws_quiet_intros)
  then have q: "ws_quiet s ?s" by (rule ws_quiet_trans) (simp add: ws_quiet_intros)
  have "ws_moves ?s (if ws_sending ?s = [] \<and> \<not> ws_is_reading ?s then ?s\<lparr>ws_deleted := True\<rparr> else ?s)"
    using ws_live_inv [of ?s] by (auto simp: ws_moves_def ws_inv_def ws_live_def queues_ok_def ws_out_def)
  with q show ?thesis unfolding check_destroy_def Let_def by (rule quiet_moves)
qed

lemma error_moves:
  "ws_moves s (read_failed h e s)" "ws_moves s (read_failed_late h e s)"
proof -
  have shut: "ws_quiet t (shut_and_close t)" for t :: "'a ws_conn" by (simp add: shut_and_close_def ws_quiet_intros)
  have close: "ws_quiet t (t\<lparr>ws_close_connection := True\<rparr>)" for t :: "'a ws_conn" by (simp add: ws_quiet_intros)
  show "ws_moves s (read_failed h e s)" unfolding read_failed_def
    by (rule quiet_moves [OF ws_quiet_trans [OF ws_quiet_trans [OF close shut] notify_quiet] check_destroy_moves])
  show "ws_moves s (read_failed_late h e s)" unfolding read_failed_late_def
    by (rule quiet_moves [OF ws_quiet_trans [OF ws_quiet_trans [OF close notify_quiet] shut] check_destroy_moves])
qed

lemma asks_moves: "ws_moves s (s\<lparr>ws_is_reading := True, ws_reading := r\<rparr>)"
  by (simp add: ws_moves_def ws_inv_def ws_live_def ws_out_def queues_ok_def)

lemma do_read_moves: "ws_moves s (do_read h s)"
proof -
  let ?a = "s\<lparr>ws_is_reading := True\<rparr>"
  have live: "ws_moves s t" if "ws_moves ?a t" for t
    using that by (simp add: ws_moves_def ws_live_def queues_ok_def ws_grows_def ws_out_def)
  have asks: "ws_moves ?a t" if "ws_reading t = Some r" "ws_is_reading t" "ws_sending t = ws_sending s"
    "ws_write t = ws_write s" "ws_sent t = ws_sent s" "ws_writing t = ws_writing s" "ws_posted t = ws_posted s"
    "ws_deleted t = ws_deleted s" for t r
    using that by (simp add: ws_moves_def ws_inv_def ws_live_def queues_ok_def ws_out_def)
  have too_long: "ws_moves ?a (check_destroy h (ws_notify h f (?a\<lparr>ws_close_connection := True, ws_closed := True\<rparr>)))" for f
    by (rule quiet_moves [OF ws_quiet_trans [OF _ notify_quiet] check_destroy_moves]) (simp add: ws_quiet_intros)
  show ?thesis
  proof (cases "ws_sent_close s \<and> ws_recv_close s")
    case True
    have "ws_quiet s (shut_and_close (s\<lparr>ws_close_connection := True\<rparr>))"
      by (simp add: shut_and_close_def ws_quiet_intros)
    from quiet_moves [OF this check_destroy_moves [of _ h]] show ?thesis using True by (simp add: do_read_def)
  next
    case False
    show ?thesis
    proof (rule live, cases "ws_state s = Mask \<and> ws_max_payload s < ws_length s")
      case True
      with False too_long show "ws_moves ?a (do_read h s)" by (auto simp: do_read_def Let_def)
    next
      case nlong: False
      have "\<exists>r. ws_reading (do_read h s) = Some r \<and> ws_is_reading (do_read h s) \<and> ws_sending (do_read h s) = ws_sending s \<and>
          ws_write (do_read h s) = ws_write s \<and> ws_sent (do_read h s) = ws_sent s \<and> ws_writing (do_read h s) = ws_writing s \<and>
          ws_posted (do_read h s) = ws_posted s \<and> ws_deleted (do_read h s) = ws_deleted s"
        using False nlong by (cases "ws_state s") (auto simp: do_read_def Let_def)
      then show "ws_moves ?a (do_read h s)" using asks by blast
    qed
  qed
qed

lemma end_of_message_quiet [ws_quiet_intros]: "ws_quiet s (end_of_message h s)"
proof -
  have "ws_quiet s ((ws_notify h f s)\<lparr>ws_message := []\<rparr>)" for f
    by (rule ws_quiet_trans [OF notify_quiet [of s h f]]) (simp add: ws_quiet_intros)
  then show ?thesis by (simp add: end_of_message_def ws_quiet_refl)
qed

lemma moves_trans_quiet: "ws_quiet s t \<Longrightarrow> ws_quiet t u \<Longrightarrow> ws_moves s u"
  by (rule moves_quiet [OF ws_quiet_trans])

text \<open>\<open>handle_fragment\<close> either goes on with a live connection or ends it.\<close>

lemma handle_fragment_moves:
  "handle_fragment h s = (True, t) \<Longrightarrow> ws_quiet s t"
  "handle_fragment h s = (False, t) \<Longrightarrow> ws_moves s t"
proof -
  define s1 where s1: "s1 = (if ws_has_mask s then s\<lparr>ws_fragment := unmask (ws_mask s) (ws_fragment s)\<rparr> else s)"
  have s: "ws_quiet s s1" by (simp add: s1 ws_quiet_intros)
  have "ws_quiet u (u\<lparr>ws_fragment := []\<rparr>)" for u :: "'a ws_conn" by (simp add: ws_quiet_intros)
  then have clear: "ws_quiet x u \<Longrightarrow> ws_quiet x (u\<lparr>ws_fragment := []\<rparr>)" for x u :: "'a ws_conn"
    by (rule ws_quiet_trans [rotated])
  have msg: "ws_quiet s1 (end_of_message h (s1\<lparr>ws_message := m\<rparr>))"
    "ws_quiet s1 (end_of_message h (s1\<lparr>ws_is_binary := b, ws_message := m\<rparr>))" for b m
    by (rule ws_quiet_trans [OF _ end_of_message_quiet], simp add: ws_quiet_intros)+
  have close: "ws_quiet s1 (ws_do_close h d (s1\<lparr>ws_recv_close := True\<rparr>))" for d
    by (rule ws_quiet_trans [OF _ do_close_quiet]) (simp add: ws_quiet_intros)
  have others: "ws_quiet s1 (send_pong d s1)" "ws_quiet s1 (s1\<lparr>ws_pong_received := True\<rparr>)" for d
    by (simp_all add: send_pong_def ws_quiet_intros)
  show "handle_fragment h s = (True, t) \<Longrightarrow> ws_quiet s t"
    unfolding handle_fragment_def Let_def s1 [symmetric]
    by (auto split: if_split_asm intro!: ws_quiet_trans [OF s] clear msg close others ws_quiet_refl)
  define s2 where "s2 = (shut_and_close (s1\<lparr>ws_recv_close := True\<rparr>))\<lparr>ws_close_connection := True\<rparr>"
  have s2: "ws_quiet s1 s2" by (simp add: s2_def shut_and_close_def ws_quiet_intros)
  have "ws_quiet u (u\<lparr>ws_close_called := True\<rparr>)" for u :: "'a ws_conn" by (simp add: ws_quiet_intros)
  then have "ws_quiet s2 ((ws_notify h f s2)\<lparr>ws_close_called := True\<rparr>)" for f
    by (rule ws_quiet_trans [OF notify_quiet])
  then have "ws_quiet s2 (if \<not> ws_close_called s2
      then (ws_notify h (on_close h (ws_fragment s2)) s2)\<lparr>ws_close_called := True\<rparr> else s2)" (is "ws_quiet s2 ?s3")
    by (simp add: ws_quiet_refl)
  then have "ws_moves s (check_destroy h ?s3)"
    using quiet_moves [OF ws_quiet_trans [OF ws_quiet_trans [OF s s2]] check_destroy_moves] by blast
  then show "handle_fragment h s = (False, t) \<Longrightarrow> ws_moves s t"
    unfolding handle_fragment_def Let_def s1 [symmetric] s2_def by (auto split: if_split_asm)
qed

lemma completion_moves:
  assumes "ws_moves (s\<lparr>ws_is_reading := False, ws_reading := None\<rparr>) t"
  shows "ws_moves s t"
  using assms by (simp add: ws_moves_def ws_live_def queues_ok_def ws_grows_def ws_out_def)

lemma on_read_moves: "ws_moves s (on_read h ec bs s)"
proof (rule completion_moves)
  let ?s = "s\<lparr>ws_is_reading := False, ws_reading := None\<rparr>"
  have same: "ws_moves ?s t" if "ws_quiet ?s u" "ws_moves u t" for t u using quiet_moves [OF that] .
  have failed: "ws_moves ?s (read_failed h e u)" "ws_moves ?s (read_failed_late h e u)" "ws_moves ?s (do_read h u)"
    if "ws_quiet ?s u" for e u
    using quiet_moves [OF that] error_moves do_read_moves by blast+
  have fragment: "ws_moves ?s (case handle_fragment h u of
      (True, s') \<Rightarrow> do_read h (s'\<lparr>ws_state := MiniHeader\<rparr>) | (False, s') \<Rightarrow> s')" if q: "ws_quiet ?s u" for u
  proof (cases "handle_fragment h u")
    case (Pair b t)
    have st: "ws_quiet t (t\<lparr>ws_state := MiniHeader\<rparr>)" by (simp add: ws_quiet_intros)
    show ?thesis
    proof (cases b)
      case True
      with Pair handle_fragment_moves(1) [of h u t] have "ws_quiet ?s (t\<lparr>ws_state := MiniHeader\<rparr>)"
        using ws_quiet_trans [OF ws_quiet_trans [OF q] st] by simp
      with Pair True failed(3) show ?thesis by simp
    next
      case False
      with Pair handle_fragment_moves(2) [of h u t] quiet_moves [OF q] show ?thesis by simp
    qed
  qed
  show "ws_moves ?s (on_read h ec bs s)"
    unfolding on_read_defs Let_def
    by (auto split: ws_read_state.split option.split intro!: failed fragment ws_quiet_same)
qed

lemma on_write_moves:
  assumes "ws_writing s"
  shows "ws_live s \<Longrightarrow> ws_inv (on_write h ok s)" "ws_live s \<Longrightarrow> ok \<Longrightarrow> ws_grows s (on_write h ok s)"
proof -
  let ?t = "\<lambda>sent. s\<lparr>ws_writing := False, ws_sent := sent, ws_sending := []\<rparr>"
  let ?sent = "ws_sent s @ concat (ws_sending s)"
  have live: "ws_live s \<Longrightarrow> ws_live (?t x)" for x by (simp add: ws_live_def queues_ok_def)
  have out: "ws_out (?t ?sent) = ws_out s" by (simp add: ws_out_def)
  have grows: "ws_grows s u" if "ws_grows (?t ?sent) u" for u using that out by (simp add: ws_grows_def)
  have q: "ws_quiet (?t x) ((?t x)\<lparr>ws_close_connection := True\<rparr>)" for x by (simp add: ws_quiet_intros)
  have fail: "ws_moves (?t x) (check_destroy h ((?t x)\<lparr>ws_close_connection := True\<rparr>))" for x
    by (rule quiet_moves [OF q check_destroy_moves])
  have more: "ws_quiet (?t x) (if ws_write (?t x) \<noteq> [] then do_write (?t x) else ?t x)" for x
    by (auto simp: ws_quiet_def ws_out_def queues_ok_def do_write_def)
  let ?u = "\<lambda>x. if ws_write (?t x) \<noteq> [] then do_write (?t x) else ?t x"
  have "ws_quiet (?u x) (if ws_sent_close (?u x) then (?u x)\<lparr>ws_close_connection := True\<rparr> else ?u x)" for x
    by (simp add: ws_quiet_intros)
  then have ok_moves: "ws_moves (?t x) (if ws_sent_close (?u x) then (?u x)\<lparr>ws_close_connection := True\<rparr> else ?u x)" for x
    using moves_quiet [OF ws_quiet_trans [OF more]] by blast
  have w: "on_write h ok s =
      (if ok \<and> \<not> ws_close_connection s
       then (if ws_sent_close (?u ?sent) then (?u ?sent)\<lparr>ws_close_connection := True\<rparr> else ?u ?sent)
       else check_destroy h ((?t (if ok then ?sent else ws_sent s))\<lparr>ws_close_connection := True\<rparr>))"
    by (simp add: on_write_def Let_def)
  have "ws_moves (?t (if ok then ?sent else ws_sent s)) (on_write h ok s)"
    unfolding w using ok_moves fail by simp
  then show "ws_live s \<Longrightarrow> ws_inv (on_write h ok s)" "ws_live s \<Longrightarrow> ok \<Longrightarrow> ws_grows s (on_write h ok s)"
    using live grows by (auto simp: ws_moves_def)
qed

lemma run_posted_moves: "ws_moves s (run_posted h s)"
proof (cases "ws_posted s")
  case (Cons p ps)
  have drop: "ws_live s \<Longrightarrow> ws_live (s\<lparr>ws_posted := ps\<rparr>)" using Cons by (auto simp: ws_live_def queues_ok_def)
  have out: "ws_grows (s\<lparr>ws_posted := ps\<rparr>) t \<Longrightarrow> ws_grows s t" for t by (simp add: ws_grows_def ws_out_def)
  have "ws_live s \<Longrightarrow> ws_quiet (s\<lparr>ws_posted := ps\<rparr>) (run_posted h s)"
  proof (cases p)
    case (Send_data op d)
    moreover assume "ws_live s"
    ultimately have "op < 16" using Cons by (auto simp: ws_live_def queues_ok_def)
    with Cons Send_data show ?thesis by (simp add: run_posted_def send_impl_quiet)
  next
    case (Close_later msg)
    with Cons show ?thesis by (simp add: run_posted_def do_close_quiet)
  qed
  with drop out show ?thesis
    by (auto simp: ws_moves_def intro: ws_quiet_grows ws_live_inv ws_quiet_live)
qed (auto simp: run_posted_def intro: moves_quiet ws_quiet_refl)

lemma from_outside_moves: "ws_moves s (ws_from_outside c s)"
proof (cases c)
  case (Ws_close msg)
  then show ?thesis by (auto simp: ws_moves_def ws_inv_def ws_live_def queues_ok_def ws_out_def)
qed (simp_all add: moves_quiet send_text_def send_binary_def send_ping_def send_pong_def send_data_quiet)

subsection \<open>Runs\<close>

inductive ws_run :: "'u ws_handlers \<Rightarrow> 'u ws_conn \<Rightarrow> ws_step_kind list \<Rightarrow> 'u ws_conn \<Rightarrow> bool" for h where
  ws_begin: "ws_run h s [] s"
| ws_next: "ws_run h s0 ks s \<Longrightarrow> ws_step h k s s' \<Longrightarrow> ws_run h s0 (ks @ [k]) s'"

inductive_cases ws_read_doneE: "ws_step h (Ws_read_done ec bs) s s'"
inductive_cases ws_write_doneE: "ws_step h (Ws_write_done ok) s s'"
inductive_cases ws_stepE: "ws_step h k s s'"

lemma ws_step_inv:
  assumes "ws_step h k s s'" "ws_inv s"
  shows "ws_inv s'" "k \<noteq> Ws_write_done False \<Longrightarrow> ws_grows s s'"
proof -
  have live: "ws_live s"
    using assms by (auto simp: ws_inv_def ws_live_def queues_ok_def elim!: ws_stepE)
  have "ws_inv s' \<and> (k \<noteq> Ws_write_done False \<longrightarrow> ws_grows s s')"
    using assms(1)
  proof cases
    case (read_done r ec bs)
    then show ?thesis using on_read_moves [of s h ec bs] live by (simp add: ws_moves_def)
  next
    case (write_done ok)
    then show ?thesis using on_write_moves [OF write_done(3)] live by (cases ok) auto
  next
    case posted_run
    then show ?thesis using run_posted_moves [of s h] live by (simp add: ws_moves_def)
  next
    case (api_call c)
    then show ?thesis using from_outside_moves [of s c] live by (simp add: ws_moves_def)
  qed
  then show "ws_inv s'" "k \<noteq> Ws_write_done False \<Longrightarrow> ws_grows s s'" by blast+
qed

lemma ws_run_inv: "ws_run h s0 ks s \<Longrightarrow> ws_inv s0 \<Longrightarrow> ws_inv s"
  by (induction rule: ws_run.induct) (auto dest: ws_step_inv(1))

lemma ws_run_grows:
  "ws_run h s0 ks s \<Longrightarrow> ws_inv s0 \<Longrightarrow> Ws_write_done False \<notin> set ks \<Longrightarrow> ws_grows s0 s"
proof (induction rule: ws_run.induct)
  case (ws_next s0 ks s k s')
  then have "ws_grows s0 s" "ws_inv s" by (simp_all add: ws_run_inv)
  with ws_next show ?case by (auto intro: ws_grows_trans dest: ws_step_inv(2))
qed simp

subsection \<open>From the handshake on\<close>

definition handshake_text :: "string \<Rightarrow> bytes" where
  "handshake_text hello = bytes_of (''HTTP/1.1 101 Switching Protocols'' @ [CR, LF] @ ''Upgrade: websocket'' @ [CR, LF] @
     ''Connection: Upgrade'' @ [CR, LF] @ ''Sec-WebSocket-Accept: '' @ hello @ [CR, LF, CR, LF])"

text \<open>The key of RFC 6455: the base 64 text of the SHA-1 digest of the client's key and a fixed text.\<close>

definition rfc_accept_key :: "string \<Rightarrow> string" where
  "rfc_accept_key key = base64encode b64_key (sha1_octets (spec_sha1 (bytes_of (key @ ws_magic))))"

lemma accept_key_rfc:
  assumes "length buffer = 64" "length key < 2 ^ 28"
  shows "ws_accept_key buffer key = Some (rfc_accept_key key)"
proof -
  have "length (concat [bytes_of (key @ ws_magic)]) < 2 ^ 29"
    using assms(2) by (simp add: bytes_of_def ws_magic_def)
  from digest_of_pieces [OF assms(1) this] show ?thesis
    by (simp add: ws_accept_key_def rfc_accept_key_def)
qed

text \<open>A request that is accepted, and the connection it makes.\<close>

definition ws_upgrade :: "(crow_request \<Rightarrow> 'u \<Rightarrow> bool \<times> 'u) option \<Rightarrow> crow_request \<Rightarrow> 'u \<Rightarrow> bool" where
  "ws_upgrade accept req u \<longleftrightarrow>
     string_equals (rq_get_header_value req ''upgrade'') ''websocket'' False \<and>
     (\<forall>f. accept = Some f \<longrightarrow> fst (f req u)) \<and> length (rq_get_header_value req ''Sec-WebSocket-Key'') < 2 ^ 28"

lemma ws_start_out:
  assumes "ws_live s" "ws_out s = []"
  shows "ws_inv (ws_start h hello s)"
    "\<exists>fs. server_frames fs \<and> ws_out (ws_start h hello s) = handshake_text hello @ concat (map encode_frame fs)"
proof -
  let ?t = "do_write (s\<lparr>ws_write := ws_write s @ [bytes_of (''HTTP/1.1 101 Switching Protocols'' @ [CR, LF] @
    ''Upgrade: websocket'' @ [CR, LF] @ ''Connection: Upgrade'' @ [CR, LF] @ ''Sec-WebSocket-Accept: ''),
    bytes_of hello, bytes_of [CR, LF], bytes_of [CR, LF]]\<rparr>)"
  have live: "ws_live ?t" using assms(1) by (auto simp: ws_live_def queues_ok_def do_write_def)
  have out: "ws_out ?t = handshake_text hello"
    using assms(2) by (auto simp: ws_out_def do_write_def handshake_text_def bytes_of_def)
  have "ws_moves ?t (ws_start h hello s)"
    unfolding ws_start_def Let_def by (rule quiet_moves [OF notify_quiet do_read_moves])
  with live out show "ws_inv (ws_start h hello s)"
    "\<exists>fs. server_frames fs \<and> ws_out (ws_start h hello s) = handshake_text hello @ concat (map encode_frame fs)"
    by (auto simp: ws_moves_def ws_grows_def)
qed

lemma blank_live: "ws_live (blank_ws u b m mx)" "ws_out (blank_ws u b m mx) = []"
  by (simp_all add: blank_ws_def ws_live_def queues_ok_def ws_out_def)

lemma new_ws_inv:
  assumes "new_ws h accept buffer req (blank_ws u b m mx) = Some s"
  shows "ws_inv s"
proof -
  have refused: "ws_inv ((blank_ws u' b m mx)\<lparr>ws_closed := True, ws_removed := n, ws_deleted := True\<rparr>)" for u' n
    by (simp add: ws_inv_def queues_ok_def blank_ws_def)
  have user: "(blank_ws u b m mx)\<lparr>ws_user := u'\<rparr> = blank_ws u' b m mx" for u' by (simp add: blank_ws_def)
  show ?thesis
    using assms refused ws_start_out(1) [OF blank_live]
    by (auto simp: new_ws_def Let_def user split: if_split_asm option.split_asm prod.split_asm)
qed

lemma new_ws_accepted:
  assumes "ws_upgrade accept req u" "length buffer = 64"
  shows "\<exists>u'. new_ws h accept buffer req (blank_ws u b m mx) =
    Some (ws_start h (rfc_accept_key (rq_get_header_value req ''Sec-WebSocket-Key'')) (blank_ws u' b m mx))"
proof -
  have user: "(blank_ws u b m mx)\<lparr>ws_user := u'\<rparr> = blank_ws u' b m mx" for u' by (simp add: blank_ws_def)
  show ?thesis
    using assms accept_key_rfc [OF assms(2)]
    by (auto simp: new_ws_def ws_upgrade_def user Let_def blank_ws_def split: option.split prod.split)
qed

text \<open>
  C14. After a WebSocket request has been accepted, what the connection has given to its socket and still
  holds back is, as long as no write fails, the response with the key RFC 6455 asks for followed by
  whole unmasked frames, one behind the other, whatever completes in which order and whatever the
  application calls.
\<close>

theorem ws_output_is_frames:
  assumes "ws_upgrade accept req u" "length buffer = 64"
    "new_ws h accept buffer req (blank_ws u b m mx) = Some s0"
    "ws_run h s0 ks s" "Ws_write_done False \<notin> set ks"
  shows "\<exists>fs. (\<forall>f \<in> set fs. \<exists>op data. op < 16 \<and> f = server_frame op data) \<and>
    ws_sent s @ concat (ws_sending s) @ concat (ws_write s) =
      handshake_text (rfc_accept_key (rq_get_header_value req ''Sec-WebSocket-Key'')) @ concat (map encode_frame fs)"
proof -
  have "ws_grows s0 s" using ws_run_grows [OF assms(4) new_ws_inv [OF assms(3)] assms(5)] .
  moreover have "\<exists>fs. server_frames fs \<and> ws_out s0 =
      handshake_text (rfc_accept_key (rq_get_header_value req ''Sec-WebSocket-Key'')) @ concat (map encode_frame fs)"
    using new_ws_accepted [OF assms(1,2), of h b m mx] assms(3) ws_start_out(2) [OF blank_live] by auto
  ultimately obtain fs gs where "server_frames fs" "server_frames gs" "ws_out s =
      handshake_text (rfc_accept_key (rq_get_header_value req ''Sec-WebSocket-Key'')) @ concat (map encode_frame (fs @ gs))"
    by (auto simp: ws_grows_def)
  then show ?thesis by (intro exI [of _ "fs @ gs"]) (auto simp: server_frames_def ws_out_def)
qed

text \<open>
  C15. Once a connection has deleted itself nothing touches it again: no read and no write is
  outstanding, so no completion can run on it, and posted calls are dropped.
\<close>

theorem ws_deleted_untouched:
  assumes "new_ws h accept buffer req (blank_ws u b m mx) = Some s0" "ws_run h s0 ks s" "ws_deleted s"
  shows "\<not> ws_step h k s s'"
  using ws_run_inv [OF assms(2) new_ws_inv [OF assms(1)]] assms(3)
  by (auto simp: ws_inv_def queues_ok_def elim!: ws_stepE)

subsection \<open>Sample runs\<close>

text \<open>Each piece of a frame as one read.\<close>

definition reads_of :: "ws_frame \<Rightarrow> bytes list" where
  "reads_of f = frame_head f # (let ext = snd (length_field (length (fr_data f))) in if ext = [] then [] else [ext]) @
     (case fr_key f of None \<Rightarrow> [] | Some key \<Rightarrow> [key]) @ [frame_payload f]"

lemma reads_of_frame: "length (fr_data f) \<le> 4096 \<Longrightarrow> frame_reads f (reads_of f)"
  unfolding frame_reads_def reads_of_def pieces_of_def
  by (intro exI [of _ "[frame_payload f]"]) (auto simp: frame_payload_def split: option.split)

definition log_handlers :: "(bytes \<times> bool) list ws_handlers" where
  "log_handlers = \<lparr>on_open = None, on_message = (\<lambda>m b. Some (\<lambda>u. ([Ws_text m], u @ [(m, b)]))),
     on_close = (\<lambda>m. Some (\<lambda>u. ([], u @ [(m, True)]))), on_error = (\<lambda>e. None)\<rparr>"

definition sample_waiting :: "(bytes \<times> bool) list ws_conn" where
  "sample_waiting = (blank_ws [] False [0, 0, 0, 0] 1000)\<lparr>ws_is_reading := True, ws_reading := Some (Read_some 2)\<rparr>"

lemma sample_waiting_ok: "ws_waiting sample_waiting" "only_sends log_handlers" "ws_message sample_waiting = []"
  "ws_max_payload sample_waiting = 1000"
  by (auto simp: sample_waiting_def ws_waiting_def only_sends_def log_handlers_def blank_ws_def)

definition sample_frames :: "ws_frame list" where
  "sample_frames =
     [\<lparr>fr_fin = False, fr_opcode = 1, fr_key = Some [1, 2, 3, 4], fr_data = [72, 69, 76]\<rparr>,
      \<lparr>fr_fin = True, fr_opcode = 9, fr_key = Some [9, 9, 9, 9], fr_data = []\<rparr>,
      \<lparr>fr_fin = True, fr_opcode = 0, fr_key = None, fr_data = [76, 79]\<rparr>]"

text \<open>A message in two fragments with a ping in between.\<close>

lemma ws_frames_delivered_witness:
  "let t = read_all log_handlers (concat (map reads_of sample_frames)) sample_waiting in
     ws_waiting t \<and> ws_user t = [([72, 69, 76, 76, 79], False)] \<and>
     ws_posted t = [Send_data 10 [], Send_data 1 [72, 69, 76, 76, 79]]"
proof -
  have "list_all2 frame_reads sample_frames (map reads_of sample_frames)"
    by (simp add: sample_frames_def reads_of_frame)
  moreover have "\<forall>f \<in> set sample_frames. frame_ok f \<and> fr_opcode f \<noteq> 8 \<and>
      length (fr_data f) \<le> unat (ws_max_payload sample_waiting)"
    by (simp add: sample_frames_def frame_ok_def sample_waiting_ok)
  ultimately have "let t = read_all log_handlers (concat (map reads_of sample_frames)) sample_waiting in
      ws_waiting t \<and> ws_view t = fold (deliver log_handlers) sample_frames (ws_view sample_waiting) \<and>
      ws_rest t = ws_rest sample_waiting"
    by (intro ws_frames_delivered) (simp_all only: sample_waiting_ok)
  moreover have "fold (deliver log_handlers) sample_frames (ws_view sample_waiting) =
      ([([72, 69, 76, 76, 79], False)], [], False, [Send_data 10 [], Send_data 1 [72, 69, 76, 76, 79]])"
    by (simp add: sample_frames_def deliver_def deliver_message_def log_handlers_def ws_view_def sample_waiting_def blank_ws_def)
  ultimately show ?thesis by (simp add: Let_def ws_view_def)
qed

lemma ws_message_crosses_witness:
  "let p = blank_ws [] False [0, 0, 0, 0] 0; rs = reads_of (server_frame 2 [1, 2, 3]) in
     concat (ws_sending (run_posted log_handlers (send_binary [1, 2, 3] p))) = concat rs \<and>
     ws_user (read_all log_handlers rs sample_waiting) = [([1, 2, 3], True)]"
proof -
  let ?f = "server_frame 2 [1, 2, 3]" and ?p = "blank_ws [] False [0, 0, 0, 0] 0"
  have p: "ws_sending ?p = []" "ws_write ?p = []" "ws_posted ?p = []"
    and q: "ws_user sample_waiting = []" "ws_posted sample_waiting = []"
    by (simp_all add: blank_ws_def sample_waiting_def)
  have "frame_reads ?f (reads_of ?f)" by (rule reads_of_frame) (simp add: server_frame_def)
  then have "concat (ws_sending (run_posted log_handlers (send_binary [1, 2, 3] ?p))) = concat (reads_of ?f) \<and>
      ws_waiting (read_all log_handlers (reads_of ?f) sample_waiting) \<and>
      ws_view (read_all log_handlers (reads_of ?f) sample_waiting) =
        deliver_message log_handlers True (ws_user sample_waiting, [1, 2, 3], True, ws_posted sample_waiting)"
    using ws_message_crosses [OF p sample_waiting_ok(1-3), of "[1, 2, 3]" True "reads_of ?f" log_handlers]
    by (simp add: sample_waiting_ok)
  then show ?thesis by (simp only: Let_def q) (simp add: ws_view_def deliver_message_def log_handlers_def)
qed

definition sample_upgrade :: crow_request where
  "sample_upgrade = \<lparr>rq_method = Get, rq_raw_url = ''/'', rq_url = ''/'',
     rq_headers = [(''upgrade'', ''websocket''), (''Sec-WebSocket-Key'', ''dGhlIHNhbXBsZSBub25jZQ=='')], rq_body = '''',
     rq_remote_ip = '''', rq_ver_major = 1, rq_ver_minor = 1, rq_keep_alive = True,
     rq_close_connection = False, rq_upgrade = True\<rparr>"

definition sample_started :: "(bytes \<times> bool) list ws_conn" where
  "sample_started = ws_start log_handlers (rfc_accept_key (rq_get_header_value sample_upgrade ''Sec-WebSocket-Key''))
     (blank_ws [] False [0, 0, 0, 0] 1000)"

lemma sample_upgrade_ok: "ws_upgrade None sample_upgrade u"
  by (simp add: ws_upgrade_def sample_upgrade_def rq_get_header_value_def get_header_value_def ci_count_def ci_key_eq_def
      string_equals_def toUpper_def)

lemma sample_new: "new_ws log_handlers None (replicate 64 0) sample_upgrade (blank_ws [] False [0, 0, 0, 0] 1000) = Some sample_started"
proof -
  have k: "ws_accept_key (replicate 64 0) (rq_get_header_value sample_upgrade ''Sec-WebSocket-Key'') =
      Some (rfc_accept_key (rq_get_header_value sample_upgrade ''Sec-WebSocket-Key''))"
    using sample_upgrade_ok [of undefined] by (intro accept_key_rfc) (simp_all add: ws_upgrade_def)
  have u: "(blank_ws [] False [0, 0, 0, 0] 1000)\<lparr>ws_user := []\<rparr> = blank_ws [] False [0, 0, 0, 0] 1000" by (simp add: blank_ws_def)
  have up: "string_equals (rq_get_header_value sample_upgrade ''upgrade'') ''websocket'' False"
    using sample_upgrade_ok [of undefined] by (simp add: ws_upgrade_def)
  have user: "ws_user (blank_ws [] False [0, 0, 0, 0] 1000) = []" by (simp add: blank_ws_def)
  show ?thesis by (simp only: new_ws_def up k user u sample_started_def Let_def option.case prod.case if_False simp_thms)
qed

lemma sample_inv: "ws_inv sample_started"
  by (rule new_ws_inv [OF sample_new])

lemma sample_fields:
  "ws_reading sample_started = Some (Read_some 2)" "ws_writing sample_started" "ws_state sample_started = MiniHeader"
  "ws_sending sample_started \<noteq> []" "ws_write sample_started = []" "\<not> ws_close_connection sample_started"
  "\<not> ws_sent_close sample_started" "\<not> ws_close_called sample_started" "ws_user sample_started = []" "ws_removed sample_started = 0"
  by (simp_all add: sample_started_def ws_start_def do_write_def ws_notify_def run_handler_def log_handlers_def do_read_def
      blank_ws_def Let_def)

lemma ws_output_is_frames_witness:
  "\<exists>fs. (\<forall>f \<in> set fs. \<exists>op data. op < 16 \<and> f = server_frame op data) \<and>
    ws_sent sample_started @ concat (ws_sending sample_started) @ concat (ws_write sample_started) =
      handshake_text (rfc_accept_key (rq_get_header_value sample_upgrade ''Sec-WebSocket-Key'')) @ concat (map encode_frame fs)"
  by (rule ws_output_is_frames [OF sample_upgrade_ok _ sample_new ws_begin]) simp_all

text \<open>
  A failed read while the handshake is still being written: the close handler runs and the object stays
  until the write completes; then the close handler runs a second time, because
  \<open>check_destroy\<close> does not note that it has called it.
\<close>

definition sample_failed :: "(bytes \<times> bool) list ws_conn" where
  "sample_failed = on_read log_handlers (Some ''eof'') [] sample_started"

definition sample_gone :: "(bytes \<times> bool) list ws_conn" where
  "sample_gone = on_write log_handlers True sample_failed"

lemma sample_failed_fields:
  "ws_user sample_failed = [(bytes_of ''uncleanly'', True)]" "ws_writing sample_failed" "\<not> ws_deleted sample_failed"
  "\<not> ws_close_called sample_failed" "ws_close_connection sample_failed" "ws_removed sample_failed = 1"
  "ws_reading sample_failed = None" "\<not> ws_is_reading sample_failed"
  using sample_inv sample_fields
  by (simp_all add: sample_failed_def on_read_defs Let_def read_failed_def check_destroy_def shut_and_close_def ws_notify_def
      run_handler_def log_handlers_def ws_inv_def)

lemma sample_gone_fields:
  "ws_user sample_gone = [(bytes_of ''uncleanly'', True), (bytes_of ''uncleanly'', True)]" "ws_removed sample_gone = 2"
  "ws_deleted sample_gone"
  using sample_failed_fields
  by (simp_all add: sample_gone_def on_write_def Let_def check_destroy_def ws_notify_def run_handler_def log_handlers_def)

lemma sample_gone_run:
  "ws_run log_handlers sample_started [Ws_read_done (Some ''eof'') [], Ws_write_done True] sample_gone"
proof -
  have "ws_step log_handlers (Ws_read_done (Some ''eof'') []) sample_started sample_failed"
    unfolding sample_failed_def using sample_fields(1) by (rule read_done) simp
  moreover have "ws_step log_handlers (Ws_write_done True) sample_failed sample_gone"
    unfolding sample_gone_def using sample_failed_fields(2) by (rule write_done)
  ultimately show ?thesis using ws_next [OF ws_next [OF ws_begin]] by fastforce
qed

lemma ws_close_handler_twice:
  "\<exists>s. ws_run log_handlers sample_started [Ws_read_done (Some ''eof'') [], Ws_write_done True] s \<and>
     ws_user s = [(bytes_of ''uncleanly'', True), (bytes_of ''uncleanly'', True)] \<and> ws_removed s = 2"
  using sample_gone_run sample_gone_fields by blast

lemma ws_deleted_untouched_witness:
  "ws_deleted sample_gone \<and> (\<forall>k s'. \<not> ws_step log_handlers k sample_gone s')"
  using ws_deleted_untouched [OF sample_new sample_gone_run sample_gone_fields(3)] sample_gone_fields(3) by blast

text \<open>
  The header is read with \<open>async_read_some\<close>, which may deliver one byte of the two. That byte alone is
  then taken for the header of an unmasked frame without payload.
\<close>

lemma ws_split_header:
  assumes "ws_waiting s" "ws_mini_header s = 0"
  shows "let t = on_read h None [b0] s in
    ws_mini_header t = header_word b0 0 \<and> ws_state t = Payload \<and> \<not> ws_has_mask t \<and> ws_length t = 0 \<and>
    ws_reading t = Some (Read_some 0)"
proof -
  have ov: "htons (le_word (overlay [b0] (le_bytes 2 (0 :: 16 word)))) = header_word b0 0"
    unfolding htons_header [symmetric] by (simp add: overlay_def le_bytes_def upt_rec)
  have b: "header_word b0 0 AND 0x7F = 0" "header_word b0 0 AND 0x80 \<noteq> 0x80"
    by (simp only: header_length, simp) (simp add: header_masked)
  show ?thesis
    using assms by (auto simp: on_read_defs Let_def ws_waiting_def ov b do_read_def)
qed

end
