(* ===== verification/Crow_Query.thy ===== *)
theory Crow_Query
  imports Curl
begin

section \<open>Crow: query strings\<close>

text \<open>
  \<open>query_string.h\<close>. The class keeps the URL and pointers into it, and decodes the values in place: the
  model is the memory of the URL with its terminating NUL, a pointer is an offset. Reading outside that
  memory is undefined, \<open>None\<close>.
\<close>

subsection \<open>Characters\<close>

definition qs_ishex :: "char \<Rightarrow> bool" where
  "qs_ishex x \<longleftrightarrow> 48 \<le> code x \<and> code x \<le> 57 \<or> 65 \<le> code x \<and> code x \<le> 70 \<or> 97 \<le> code x \<and> code x \<le> 102"

definition qs_hex2dec :: "char \<Rightarrow> nat" where
  "qs_hex2dec x =
     (if 48 \<le> code x \<and> code x \<le> 57 then code x - 48
      else if 65 \<le> code x \<and> code x \<le> 70 then code x - 55
      else if 97 \<le> code x \<and> code x \<le> 102 then code x - 87 else 0)"

definition qs_isqschr :: "char \<Rightarrow> bool" where
  "qs_isqschr x \<longleftrightarrow> x \<noteq> CHR ''='' \<and> x \<noteq> CHR ''#'' \<and> x \<noteq> CHR ''&'' \<and> x \<noteq> NUL"

definition rd :: "string \<Rightarrow> nat \<Rightarrow> char option" where
  "rd m p = (if p < length m then Some (m ! p) else None)"

definition strcspn :: "char set \<Rightarrow> string \<Rightarrow> nat \<Rightarrow> nat" where
  "strcspn S m p = length (takeWhile (\<lambda>c. c \<notin> S \<and> c \<noteq> NUL) (drop p m))"

subsection \<open>Comparing a key\<close>

text \<open>The next decoded character and the position behind it; both bytes behind a \<open>%\<close> are read at once.\<close>

definition qs_next :: "string \<Rightarrow> nat \<Rightarrow> (nat \<times> nat) option" where
  "qs_next m p =
     (case rd m p of
        None \<Rightarrow> None
      | Some c \<Rightarrow>
          let u = (if qs_isqschr c then code c else 0); u = (if u = 43 then 32 else u) in
          if u = 37 then
            (case (rd m (p + 1), rd m (p + 2)) of
               (Some a, Some b) \<Rightarrow>
                 Some (if qs_ishex a \<and> qs_ishex b then qs_hex2dec a * 16 + qs_hex2dec b else 0, p + 3)
             | _ \<Rightarrow> None)
          else Some (u, p + 1))"

fun qs_strncmp :: "string \<Rightarrow> nat \<Rightarrow> string \<Rightarrow> nat \<Rightarrow> nat \<Rightarrow> int option" where
  "qs_strncmp s i qs p 0 =
     (case rd qs p of None \<Rightarrow> None | Some c \<Rightarrow> Some (if qs_isqschr c then -1 else 0))"
| "qs_strncmp s i qs p (Suc n) =
     (case (qs_next s i, qs_next qs p) of
        (Some (u1, i'), Some (u2, p')) \<Rightarrow>
          if u1 \<noteq> u2 then Some (int u1 - int u2)
          else if u1 = 0 then Some 0
          else qs_strncmp s i' qs p' n
      | _ \<Rightarrow> None)"

subsection \<open>Decoding and parsing\<close>

text \<open>\<open>qs_decode\<close> at the pointer \<open>q\<close>, with its indexes \<open>i\<close> (written) and \<open>j\<close> (read).\<close>

function qs_decode :: "nat \<Rightarrow> nat \<Rightarrow> nat \<Rightarrow> string \<Rightarrow> string option" where
  "qs_decode q i j m =
     (case rd m (q + j) of
        None \<Rightarrow> None
      | Some c \<Rightarrow>
          if \<not> qs_isqschr c then Some (m[q + i := NUL])
          else if c = CHR ''+'' then qs_decode q (i + 1) (j + 1) (m[q + i := CHR '' ''])
          else if c = CHR ''%'' then
            (case rd m (q + j + 1) of
               None \<Rightarrow> None
             | Some a \<Rightarrow>
                 if \<not> qs_ishex a then Some (m[q + i := NUL])
                 else
                   (case rd m (q + j + 2) of
                      None \<Rightarrow> None
                    | Some b \<Rightarrow>
                        if \<not> qs_ishex b then Some (m[q + i := NUL])
                        else qs_decode q (i + 1) (j + 3) (m[q + i := char_of (qs_hex2dec a * 16 + qs_hex2dec b)])))
          else qs_decode q (i + 1) (j + 1) (m[q + i := c]))"
  by pat_completeness auto
termination
  by (relation "measure (\<lambda>(q, i, j, m). length m - (q + j))") (auto simp: rd_def split: if_splits)

declare qs_decode.simps [simp del]

text \<open>The start of every pair, and whether the last one ended at the end of the text.\<close>

fun qs_starts :: "nat \<Rightarrow> string \<Rightarrow> nat \<Rightarrow> nat list" where
  "qs_starts 0 m p = []"
| "qs_starts (Suc n) m p =
     (let j = strcspn {CHR ''&''} m p in
      if rd m (p + j) = Some NUL \<or> rd m (p + j) = None then [p]
      else p # qs_starts n m (p + j + 1))"

definition qs_decode_pair :: "nat \<Rightarrow> string \<Rightarrow> string option" where
  "qs_decode_pair p m =
     (let e = p + strcspn {CHR ''='', CHR ''&'', CHR ''#''} m p in
      case rd m e of
        None \<Rightarrow> None
      | Some c \<Rightarrow> if c = CHR ''&'' \<or> c = NUL then Some (m[e := NUL]) else qs_decode (e + 1) 0 0 m)"

fun qs_decode_pairs :: "nat list \<Rightarrow> string \<Rightarrow> string option" where
  "qs_decode_pairs [] m = Some m"
| "qs_decode_pairs (p # ps) m =
     (case qs_decode_pair p m of None \<Rightarrow> None | Some m' \<Rightarrow> qs_decode_pairs ps m')"

definition qs_parse :: "nat \<Rightarrow> bool \<Rightarrow> string \<Rightarrow> (nat list \<times> string) option" where
  "qs_parse kv_size parse_url m =
     (let e = strcspn {CHR ''?'', CHR ''#''} m 0 in
      if parse_url \<and> rd m e = Some NUL then Some ([], m)
      else
        (let kv = qs_starts kv_size m (if parse_url then e + 1 else 0) in
         map_option (\<lambda>m'. (kv, m')) (qs_decode_pairs kv m)))"

subsection \<open>Looking up\<close>

fun qs_k2v :: "string \<Rightarrow> nat list \<Rightarrow> string \<Rightarrow> nat \<Rightarrow> nat option option" where
  "qs_k2v key [] m k = Some None"
| "qs_k2v key (p # ps) m k =
     (case qs_strncmp (key @ [NUL]) 0 m p (length key) of
        None \<Rightarrow> None
      | Some r \<Rightarrow>
          if r \<noteq> 0 then qs_k2v key ps m k
          else
            (let skip = strcspn {CHR ''=''} m p;
                 skip = (if rd m (p + skip) = Some (CHR ''='') then skip + 1 else skip) in
             if k = 0 then Some (Some (p + skip)) else qs_k2v key ps m (k - 1)))"

text \<open>The text a pointer stands for.\<close>

definition text_at :: "string \<Rightarrow> nat \<Rightarrow> string" where
  "text_at m p = c_str (drop p m)"

text \<open>
  \<open>qs_dict_name2kv\<close>: the name is compared with \<open>strncmp\<close>, so a prefix is enough; \<open>nth\<close> counts down and
  may pass zero.
\<close>

fun qs_dict_name2kv :: "string \<Rightarrow> nat list \<Rightarrow> string \<Rightarrow> int \<Rightarrow> (string \<times> string) option" where
  "qs_dict_name2kv name [] m k = None"
| "qs_dict_name2kv name (p # ps) m k =
     (if take (length name) (text_at m p) = name then
        (let past = (\<lambda>c. let n = strcspn {c} m p in if rd m (p + n) = Some c then n + 1 else n);
             open_at = past (CHR ''[''); close_at = strcspn {CHR '']''} m p in
         if open_at \<le> close_at \<and> 0 < open_at \<and> 0 < close_at \<and> k = 0
         then Some (take (close_at - open_at) (drop (p + open_at) m), text_at m (p + past (CHR ''='')))
         else qs_dict_name2kv name ps m (k - 1))
      else qs_dict_name2kv name ps m k)"

subsection \<open>The class\<close>

record query_string =
  qs_url :: string
  qs_pairs :: "nat list"

definition MAX_KEY_VALUE_PAIRS_COUNT :: nat where
  "MAX_KEY_VALUE_PAIRS_COUNT = 256"

definition empty_query :: query_string where
  "empty_query = \<lparr>qs_url = [NUL], qs_pairs = []\<rparr>"

definition new_query :: "string \<Rightarrow> bool \<Rightarrow> query_string option" where
  "new_query params url =
     (if params = [] then Some empty_query
      else
        (case qs_parse MAX_KEY_VALUE_PAIRS_COUNT url (params @ [NUL]) of
           None \<Rightarrow> None
         | Some (kv, m) \<Rightarrow> Some \<lparr>qs_url = m, qs_pairs = kv\<rparr>))"

definition qs_clear :: "query_string \<Rightarrow> query_string" where
  "qs_clear q = q\<lparr>qs_pairs := [], qs_url := [NUL]\<rparr>"

definition qs_print :: "query_string \<Rightarrow> string" where
  "qs_print q = ''[ '' @ concat (map (\<lambda>i. (if i \<noteq> 0 then '', '' else '''') @ text_at (qs_url q) (qs_pairs q ! i))
     [0..<length (qs_pairs q)]) @ '' ]''"

text \<open>A result is a pointer; \<open>Some None\<close> is the null pointer.\<close>

definition qs_get :: "string \<Rightarrow> query_string \<Rightarrow> nat option option" where
  "qs_get name q = qs_k2v (c_str name) (qs_pairs q) (qs_url q) 0"

definition qs_pop :: "string \<Rightarrow> query_string \<Rightarrow> (nat option \<times> query_string) option" where
  "qs_pop name q =
     (case qs_get name q of
        None \<Rightarrow> None
      | Some None \<Rightarrow> Some (None, q)
      | Some (Some p) \<Rightarrow>
          Some (Some p,
            (case first_index (\<lambda>e. take (length name + 1) (text_at (qs_url q) e) = name @ ''='') (qs_pairs q) of
               None \<Rightarrow> q
             | Some i \<Rightarrow> q\<lparr>qs_pairs := take i (qs_pairs q) @ drop (Suc i) (qs_pairs q)\<rparr>)))"

lemma qs_k2v_nth: "qs_k2v key ps m k = Some (Some p) \<Longrightarrow> k < length ps"
proof (induction ps arbitrary: k)
  case (Cons x ps)
  then show ?case by (cases k) (auto simp: Let_def split: option.splits if_splits dest: Cons.IH)
qed simp

lemma qs_dict_nth: "qs_dict_name2kv name ps m k = Some e \<Longrightarrow> 0 \<le> k \<Longrightarrow> k < int (length ps)"
proof (induction ps arbitrary: k)
  case (Cons x ps)
  show ?case
  proof (cases "k = 0")
    case False
    with Cons.IH [of k] Cons.IH [of "k - 1"] Cons.prems show ?thesis by (auto simp: Let_def split: if_splits)
  qed simp
qed simp

text \<open>The endless loops of \<open>get_list\<close> and \<open>get_dict\<close> end: there are only so many pairs.\<close>

function list_from :: "string \<Rightarrow> query_string \<Rightarrow> nat \<Rightarrow> nat list option" where
  "list_from key q n =
     (case qs_k2v key (qs_pairs q) (qs_url q) n of
        None \<Rightarrow> None
      | Some None \<Rightarrow> Some []
      | Some (Some p) \<Rightarrow> map_option (Cons p) (list_from key q (n + 1)))"
  by pat_completeness auto
termination
  by (relation "measure (\<lambda>(key, q, n). length (qs_pairs q) - n)") (auto dest: qs_k2v_nth)

function dict_from :: "string \<Rightarrow> query_string \<Rightarrow> nat \<Rightarrow> (string \<times> string) list" where
  "dict_from name q n =
     (case qs_dict_name2kv name (qs_pairs q) (qs_url q) (int n) of
        None \<Rightarrow> []
      | Some e \<Rightarrow> e # dict_from name q (n + 1))"
  by pat_completeness auto
termination
  by (relation "measure (\<lambda>(name, q, n). length (qs_pairs q) - n)") (auto dest: qs_dict_nth)

declare list_from.simps [simp del] dict_from.simps [simp del]

definition get_list :: "string \<Rightarrow> bool \<Rightarrow> query_string \<Rightarrow> nat list option" where
  "get_list name use_brackets q = list_from (c_str (name @ (if use_brackets then ''[]'' else ''''))) q 0"

definition drop_pairs :: "string \<Rightarrow> query_string \<Rightarrow> query_string" where
  "drop_pairs start q =
     q\<lparr>qs_pairs := filter (\<lambda>e. take (length start) (text_at (qs_url q) e) \<noteq> start) (qs_pairs q)\<rparr>"

definition pop_list :: "string \<Rightarrow> bool \<Rightarrow> query_string \<Rightarrow> (nat list \<times> query_string) option" where
  "pop_list name use_brackets q =
     (case get_list name use_brackets q of
        None \<Rightarrow> None
      | Some ret \<Rightarrow>
          Some (ret, if ret \<noteq> [] then drop_pairs (name @ (if use_brackets then ''[]='' else ''='')) q else q))"

text \<open>\<open>insert\<close> of a map keeps the entry that is already there.\<close>

definition get_dict :: "string \<Rightarrow> query_string \<Rightarrow> string \<Rightarrow> string option" where
  "get_dict name q = map_of (dict_from (c_str name) q 0)"

definition pop_dict :: "string \<Rightarrow> query_string \<Rightarrow> (string \<Rightarrow> string option) \<times> query_string" where
  "pop_dict name q =
     (get_dict name q, if dict_from (c_str name) q 0 \<noteq> [] then drop_pairs (name @ ''['') q else q)"

definition qs_keys :: "query_string \<Rightarrow> string list" where
  "qs_keys q = map (\<lambda>e. takeWhile (\<lambda>c. c \<noteq> CHR ''='') (text_at (qs_url q) e)) (qs_pairs q)"

subsection \<open>Keys and values, read back\<close>

text \<open>Characters with no meaning in a query string, and the text a value is sent as.\<close>

definition qs_plain :: "char \<Rightarrow> bool" where
  "qs_plain c \<longleftrightarrow> qs_isqschr c \<and> c \<noteq> CHR ''%'' \<and> c \<noteq> CHR ''+''"

fun url_decode :: "string \<Rightarrow> string option" where
  "url_decode [] = Some []"
| "url_decode (c # r) =
     (if c = CHR ''%'' then
        (case r of
           a # b # r' \<Rightarrow>
             if qs_ishex a \<and> qs_ishex b
             then map_option (Cons (char_of (qs_hex2dec a * 16 + qs_hex2dec b))) (url_decode r') else None
         | _ \<Rightarrow> None)
      else if qs_isqschr c then map_option (Cons (if c = CHR ''+'' then CHR '' '' else c)) (url_decode r)
      else None)"

type_synonym query_entry = "string \<times> string"

definition entry_ok :: "query_entry \<Rightarrow> bool" where
  "entry_ok e \<longleftrightarrow> (\<forall>c \<in> set (fst e). qs_plain c) \<and> url_decode (snd e) \<noteq> None"

definition entry_text :: "query_entry \<Rightarrow> string" where
  "entry_text e = fst e @ CHR ''='' # snd e"

fun query_text :: "query_entry list \<Rightarrow> string" where
  "query_text [] = []"
| "query_text [e] = entry_text e"
| "query_text (e # es) = entry_text e @ CHR ''&'' # query_text es"

lemma rd_middle [simp]: "rd (A @ c # B) (length A) = Some c"
  by (simp add: rd_def)

lemma rd_at: "p = length A \<Longrightarrow> rd (A @ c # B) p = Some c"
  by simp

lemma qs_plain_code: "qs_plain c \<Longrightarrow> code c \<noteq> 0 \<and> code c \<noteq> 37 \<and> code c \<noteq> 43"
  using of_char_eq_iff [of c NUL, where 'a = nat] of_char_eq_iff [of c "CHR ''%''", where 'a = nat]
    of_char_eq_iff [of c "CHR ''+''", where 'a = nat]
  by (auto simp: qs_plain_def qs_isqschr_def)

lemma qs_next_plain: "qs_plain c \<Longrightarrow> qs_next (A @ c # B) (length A) = Some (code c, length A + 1)"
  using qs_plain_code [of c] by (simp add: qs_next_def Let_def qs_plain_def)

lemma qs_next_end: "\<not> qs_isqschr c \<Longrightarrow> qs_next (A @ c # B) (length A) = Some (0, length A + 1)"
  by (simp add: qs_next_def Let_def)

text \<open>A plain key is compared with a whole plain key.\<close>

lemma qs_strncmp_key:
  assumes "\<forall>c \<in> set name. qs_plain c" "\<forall>c \<in> set k. qs_plain c"
  shows "\<exists>r. qs_strncmp (S @ name @ [NUL]) (length S) (A @ k @ CHR ''='' # B) (length A) (length name) = Some r \<and>
    (r = 0 \<longleftrightarrow> k = name)"
  using assms
proof (induction name arbitrary: S A k)
  case Nil
  show ?case
  proof (cases k)
    case (Cons d ds)
    with Nil show ?thesis by (simp add: qs_plain_def)
  qed (simp add: qs_isqschr_def)
next
  case (Cons c name)
  have u1: "qs_next (S @ (c # name) @ [NUL]) (length S) = Some (code c, length S + 1)"
    using Cons.prems(1) qs_next_plain [of c S "name @ [NUL]"] by simp
  show ?case
  proof (cases k)
    case Nil
    have "qs_next (A @ CHR ''='' # B) (length A) = Some (0, length A + 1)"
      by (rule qs_next_end) (simp add: qs_isqschr_def)
    with u1 Nil qs_plain_code [of c] Cons.prems(1) show ?thesis by simp
  next
    case (Cons d ds)
    have "qs_next (A @ k @ CHR ''='' # B) (length A) = Some (code d, length A + 1)"
      using Cons Cons.prems(2) qs_next_plain [of d A "ds @ CHR ''='' # B"] by simp
    moreover have "\<exists>r. qs_strncmp ((S @ [c]) @ name @ [NUL]) (length (S @ [c])) ((A @ [d]) @ ds @ CHR ''='' # B)
        (length (A @ [d])) (length name) = Some r \<and> (r = 0 \<longleftrightarrow> ds = name)"
      using Cons Cons.prems by (intro Cons.IH) simp_all
    ultimately show ?thesis
      using u1 Cons qs_plain_code [of c] Cons.prems(1) by auto
  qed
qed

text \<open>Decoding in place.\<close>

lemma update_gap:
  "(A @ dn @ (x # y) @ R)[length A + length dn := c] = A @ (dn @ [c]) @ y @ R"
  by (simp add: list_update_append)

lemma qs_decode_value:
  assumes "url_decode t = Some d" "\<not> qs_isqschr s"
  shows "\<exists>junk. qs_decode (length A) (length dn) (length dn + length md) (A @ dn @ md @ t @ s # B) =
      Some (A @ dn @ d @ NUL # junk @ B) \<and> length (md @ t) = length (d @ junk)"
  using assms(1)
proof (induction t arbitrary: d dn md rule: url_decode.induct)
  case 1
  obtain x y where xy: "md @ [s] = x # y" by (cases md) auto
  then have m: "A @ dn @ md @ [] @ s # B = A @ dn @ (x # y) @ B" by (metis append.assoc append_Cons append_Nil)
  moreover have "rd (A @ dn @ md @ s # B) (length A + (length dn + length md)) = Some s"
    using rd_at [of _ "A @ dn @ md" s B] by simp
  moreover have "length y = length md" using arg_cong [OF xy, of length] by simp
  moreover have "(A @ dn @ md @ [] @ s # B)[length A + length dn := NUL] = A @ dn @ NUL # y @ B"
    unfolding m using update_gap [of A dn x y B NUL] by simp
  ultimately show ?case using 1 assms(2)
    by (intro exI [of _ y]) (simp add: qs_decode.simps [of "length A"])
next
  case (2 c r)
  let ?m = "A @ dn @ md @ (c # r) @ s # B"
  have c: "rd ?m (length A + (length dn + length md)) = Some c"
    using rd_at [of _ "A @ dn @ md" c "r @ s # B"] by simp
  show ?case
  proof (cases "c = CHR ''%''")
    case True
    with 2(3) obtain a b r' d' where r: "r = a # b # r'" "qs_ishex a" "qs_ishex b" "url_decode r' = Some d'"
      "d = char_of (qs_hex2dec a * 16 + qs_hex2dec b) # d'"
      by (auto split: list.splits if_splits)
    let ?x = "char_of (qs_hex2dec a * 16 + qs_hex2dec b) :: char"
    obtain x y where xy: "md @ [c, a, b] = x # y" by (cases md) auto
    then have m: "?m = A @ dn @ (x # y) @ r' @ s # B" using r(1) by (metis append.assoc append_Cons append_Nil)
    have ab: "rd ?m (length A + (length dn + length md) + 1) = Some a" "rd ?m (length A + (length dn + length md) + 2) = Some b"
      using rd_at [of _ "A @ dn @ md @ [c]" a "b # r' @ s # B"] rd_at [of _ "A @ dn @ md @ [c, a]" b "r' @ s # B"] r(1)
      by simp_all
    have len: "length y = length md + 2" using arg_cong [OF xy, of length] by simp
    obtain junk where junk: "qs_decode (length A) (length (dn @ [?x])) (length (dn @ [?x]) + length y)
        (A @ (dn @ [?x]) @ y @ r' @ s # B) = Some (A @ (dn @ [?x]) @ d' @ NUL # junk @ B)" "length (y @ r') = length (d' @ junk)"
      using 2(1) [OF True r(1) refl conjI [OF r(2,3)] r(4)] by blast
    have "qs_isqschr c" "c \<noteq> CHR ''+''" using True by (simp_all add: qs_isqschr_def)
    then have "qs_decode (length A) (length dn) (length dn + length md) ?m =
        qs_decode (length A) (length dn + 1) (length dn + length md + 3) (?m[length A + length dn := ?x])"
      using c ab r(2,3) True by (subst qs_decode.simps) simp
    also have "?m[length A + length dn := ?x] = A @ (dn @ [?x]) @ y @ r' @ s # B"
      unfolding m by (rule update_gap)
    finally show ?thesis using junk len r by (intro exI [of _ junk]) (simp add: add.commute numeral_3_eq_3)
  next
    case False
    with 2(3) obtain d' where d: "qs_isqschr c" "url_decode r = Some d'" "d = (if c = CHR ''+'' then CHR '' '' else c) # d'"
      by (auto split: if_splits)
    let ?x = "if c = CHR ''+'' then CHR '' '' else c"
    obtain x y where xy: "md @ [c] = x # y" by (cases md) auto
    then have m: "?m = A @ dn @ (x # y) @ r @ s # B" by (metis append.assoc append_Cons append_Nil)
    have len: "length y = length md" using arg_cong [OF xy, of length] by simp
    obtain junk where junk: "qs_decode (length A) (length (dn @ [?x])) (length (dn @ [?x]) + length y)
        (A @ (dn @ [?x]) @ y @ r @ s # B) = Some (A @ (dn @ [?x]) @ d' @ NUL # junk @ B)" "length (y @ r) = length (d' @ junk)"
      using 2(2) [OF False d(1,2)] by blast
    have "qs_decode (length A) (length dn) (length dn + length md) ?m =
        qs_decode (length A) (length dn + 1) (length dn + length md + 1) (?m[length A + length dn := ?x])"
      using c d(1) False by (subst qs_decode.simps) simp
    also have "?m[length A + length dn := ?x] = A @ (dn @ [?x]) @ y @ r @ s # B"
      unfolding m by (rule update_gap)
    finally show ?thesis using junk len d(3) by (intro exI [of _ junk]) (simp add: add.commute)
  qed
qed

text \<open>What a value is made of has no character that ends it.\<close>

lemma url_decode_chars: "url_decode t = Some d \<Longrightarrow> \<forall>c \<in> set t. qs_isqschr c"
proof (induction t arbitrary: d rule: url_decode.induct)
  case (2 c r)
  have hex: "qs_ishex a \<Longrightarrow> qs_isqschr a" for a by (auto simp: qs_ishex_def qs_isqschr_def)
  show ?case
  proof (cases "c = CHR ''%''")
    case True
    with 2(3) obtain a b r' d' where "r = a # b # r'" "qs_ishex a" "qs_ishex b" "url_decode r' = Some d'"
      by (auto split: list.splits if_splits)
    with 2(1) [OF True] hex True show ?thesis by (auto simp: qs_isqschr_def)
  next
    case False
    with 2 show ?thesis by (auto split: if_splits)
  qed
qed simp

lemma entry_chars: "entry_ok e \<Longrightarrow> CHR ''&'' \<notin> set (entry_text e) \<and> NUL \<notin> set (entry_text e)"
  using url_decode_chars [of "snd e"]
  by (fastforce simp: entry_ok_def entry_text_def qs_plain_def qs_isqschr_def)

lemma strcspn_stop:
  "\<forall>c \<in> set w. c \<notin> S \<and> c \<noteq> NUL \<Longrightarrow> s \<in> S \<or> s = NUL \<Longrightarrow> strcspn S (A @ w @ s # B) (length A) = length w"
  by (simp add: strcspn_def takeWhile_append2 takeWhile_tail)

text \<open>The memory of the pairs, and where they start.\<close>

fun entries_mem :: "query_entry list \<Rightarrow> string" where
  "entries_mem [] = []"
| "entries_mem [e] = entry_text e @ [NUL]"
| "entries_mem (e # es) = entry_text e @ CHR ''&'' # entries_mem es"

fun entry_offsets :: "nat \<Rightarrow> query_entry list \<Rightarrow> nat list" where
  "entry_offsets p [] = []"
| "entry_offsets p (e # es) = p # entry_offsets (p + length (entry_text e) + 1) es"

lemma entries_mem_text: "es \<noteq> [] \<Longrightarrow> entries_mem es = query_text es @ [NUL]"
  by (induction es rule: entries_mem.induct) simp_all

lemma entries_mem_Cons:
  "es \<noteq> [] \<Longrightarrow> entries_mem (e # es) = entry_text e @ CHR ''&'' # entries_mem es"
  by (cases es) simp_all

lemma qs_starts_entries:
  assumes "es \<noteq> []" "length es \<le> n" "\<forall>e \<in> set es. entry_ok e"
  shows "qs_starts n (A @ entries_mem es) (length A) = entry_offsets (length A) es"
  using assms
proof (induction es arbitrary: n A)
  case (Cons e es)
  then obtain n' where n: "n = Suc n'" by (cases n) auto
  have ch: "\<forall>c \<in> set (entry_text e). c \<notin> {CHR ''&''} \<and> c \<noteq> NUL" using entry_chars [of e] Cons.prems(3) by auto
  show ?case
  proof (cases "es = []")
    case True
    then show ?thesis
      using n strcspn_stop [OF ch, of NUL A "[]"] rd_at [of _ "A @ entry_text e" NUL "[]"] by simp
  next
    case False
    have "qs_starts n' ((A @ entry_text e @ [CHR ''&'']) @ entries_mem es) (length (A @ entry_text e @ [CHR ''&''])) =
        entry_offsets (length (A @ entry_text e @ [CHR ''&''])) es"
      using Cons.prems n False by (intro Cons.IH) auto
    moreover have "strcspn {CHR ''&''} (A @ entries_mem (e # es)) (length A) = length (entry_text e)"
      using strcspn_stop [OF ch, of "CHR ''&''" A "entries_mem es"] False by (simp add: entries_mem_Cons)
    moreover have "rd (A @ entries_mem (e # es)) (length A + length (entry_text e)) = Some (CHR ''&'')"
      using rd_at [of _ "A @ entry_text e" "CHR ''&''" "entries_mem es"] False by (simp add: entries_mem_Cons)
    ultimately show ?thesis using n False by (simp add: entries_mem_Cons)
  qed
qed simp

text \<open>The memory after the values have been decoded.\<close>

fun decoded_mem :: "query_entry list \<Rightarrow> string \<Rightarrow> bool" where
  "decoded_mem [] m \<longleftrightarrow> m = []"
| "decoded_mem (e # es) m \<longleftrightarrow> (\<exists>d junk m'. url_decode (snd e) = Some d \<and> length (d @ junk) = length (snd e) \<and>
     m = fst e @ CHR ''='' # d @ NUL # junk @ m' \<and> decoded_mem es m')"

lemma decode_pair:
  assumes "entry_ok e" "\<not> qs_isqschr s"
  shows "\<exists>d junk. qs_decode_pair (length A) (A @ entry_text e @ s # B) = Some (A @ fst e @ CHR ''='' # d @ NUL # junk @ B) \<and>
    url_decode (snd e) = Some d \<and> length (d @ junk) = length (snd e)"
proof -
  obtain d where d: "url_decode (snd e) = Some d" using assms(1) by (auto simp: entry_ok_def)
  have "\<forall>c \<in> set (fst e). c \<notin> {CHR ''='', CHR ''&'', CHR ''#''} \<and> c \<noteq> NUL"
    using assms(1) by (auto simp: entry_ok_def qs_plain_def qs_isqschr_def)
  then have e: "strcspn {CHR ''='', CHR ''&'', CHR ''#''} (A @ fst e @ CHR ''='' # snd e @ s # B) (length A) = length (fst e)"
    by (rule strcspn_stop) simp
  have "rd (A @ fst e @ CHR ''='' # snd e @ s # B) (length A + length (fst e)) = Some (CHR ''='')"
    using rd_at [of _ "A @ fst e" "CHR ''=''" "snd e @ s # B"] by simp
  with e have "qs_decode_pair (length A) (A @ entry_text e @ s # B) =
      qs_decode (length A + length (fst e) + 1) 0 0 (A @ fst e @ CHR ''='' # snd e @ s # B)"
    by (simp add: qs_decode_pair_def entry_text_def Let_def)
  moreover obtain junk where "qs_decode (length (A @ fst e @ [CHR ''=''])) 0 0
      ((A @ fst e @ [CHR ''='']) @ [] @ [] @ snd e @ s # B) = Some ((A @ fst e @ [CHR ''='']) @ [] @ d @ NUL # junk @ B)"
    "length ([] @ snd e) = length (d @ junk)"
    using qs_decode_value [OF d assms(2), of "A @ fst e @ [CHR ''='']" "[]" "[]" B] by auto
  ultimately show ?thesis using d by (intro exI [of _ d] exI [of _ junk]) simp
qed

lemma decode_pairs:
  assumes "\<forall>e \<in> set es. entry_ok e"
  shows "\<exists>m. qs_decode_pairs (entry_offsets (length A) es) (A @ entries_mem es) = Some (A @ m) \<and> decoded_mem es m"
  using assms
proof (induction es arbitrary: A)
  case (Cons e es)
  obtain s where s: "\<not> qs_isqschr s" "entries_mem (e # es) = entry_text e @ s # entries_mem es"
    by (cases es) (auto simp: qs_isqschr_def)
  obtain d junk where d: "qs_decode_pair (length A) (A @ entry_text e @ s # entries_mem es) =
      Some (A @ fst e @ CHR ''='' # d @ NUL # junk @ entries_mem es)"
    "url_decode (snd e) = Some d" "length (d @ junk) = length (snd e)"
    using decode_pair [OF _ s(1), of e A "entries_mem es"] Cons.prems by auto
  let ?A = "A @ fst e @ CHR ''='' # d @ NUL # junk"
  obtain m where m: "qs_decode_pairs (entry_offsets (length ?A) es) (?A @ entries_mem es) = Some (?A @ m)" "decoded_mem es m"
    using Cons.IH [of ?A] Cons.prems by auto
  have "length ?A = length A + length (entry_text e) + 1" using d(3) by (simp add: entry_text_def)
  with m(1) have "qs_decode_pairs (entry_offsets (length A + length (entry_text e) + 1) es)
      (A @ fst e @ CHR ''='' # d @ NUL # junk @ entries_mem es) = Some (?A @ m)" by (simp only: append.assoc append_Cons)
  with d m(2) s(2) show ?case
    by (intro exI [of _ "fst e @ CHR ''='' # d @ NUL # junk @ m"]) auto
qed simp

lemma c_str_through: "c_str (d @ NUL # B) = c_str d"
  by (induction d) (simp_all add: c_str_def)

text \<open>The lookup finds the first pair with the key.\<close>

lemma k2v_decoded:
  assumes "\<forall>e \<in> set es. entry_ok e" "\<forall>c \<in> set name. qs_plain c" "decoded_mem es m"
  shows "\<exists>r. qs_k2v name (entry_offsets (length A) es) (A @ m) 0 = Some r \<and>
    map_option (text_at (A @ m)) r = map_option (\<lambda>t. c_str (the (url_decode t))) (map_of es name)"
  using assms(1,3)
proof (induction es arbitrary: A m)
  case (Cons e es)
  from Cons.prems(2) obtain d junk m' where d: "url_decode (snd e) = Some d" "length (d @ junk) = length (snd e)"
    "m = fst e @ CHR ''='' # d @ NUL # junk @ m'" "decoded_mem es m'" by auto
  have plain: "\<forall>c \<in> set (fst e). qs_plain c" using Cons.prems(1) by (simp add: entry_ok_def)
  obtain r where r: "qs_strncmp (name @ [NUL]) 0 (A @ m) (length A) (length name) = Some r" "r = 0 \<longleftrightarrow> fst e = name"
    using qs_strncmp_key [OF assms(2) plain, of "[]" A] d(3) by auto
  show ?case
  proof (cases "fst e = name")
    case True
    have "\<forall>c \<in> set (fst e). c \<notin> {CHR ''=''} \<and> c \<noteq> NUL" using plain by (auto simp: qs_plain_def qs_isqschr_def)
    then have skip: "strcspn {CHR ''=''} (A @ m) (length A) = length (fst e)"
      unfolding d(3) by (rule strcspn_stop) simp
    have "rd (A @ m) (length A + length (fst e)) = Some (CHR ''='')"
      unfolding d(3) using rd_at [of _ "A @ fst e" "CHR ''=''"] by simp
    with r skip True have "qs_k2v name (entry_offsets (length A) (e # es)) (A @ m) 0 = Some (Some (length A + (length (fst e) + 1)))"
      by (simp add: Let_def)
    moreover have "text_at (A @ m) (length A + (length (fst e) + 1)) = c_str d"
      unfolding text_at_def d(3) using c_str_through [of d] by simp
    ultimately show ?thesis using True d(1) by (cases e) auto
  next
    case False
    let ?A = "A @ fst e @ CHR ''='' # d @ NUL # junk"
    have "length ?A = length A + length (entry_text e) + 1" using d(2) by (simp add: entry_text_def)
    moreover have "?A @ m' = A @ m" using d(3) by simp
    moreover have "\<exists>r. qs_k2v name (entry_offsets (length ?A) es) (?A @ m') 0 = Some r \<and>
        map_option (text_at (?A @ m')) r = map_option (\<lambda>t. c_str (the (url_decode t))) (map_of es name)"
      using Cons.prems(1) d(4) by (intro Cons.IH) auto
    ultimately show ?thesis using r False by (cases e) auto
  qed
qed simp

text \<open>A value sent with every byte escaped.\<close>

definition hex_upper :: "nat \<Rightarrow> char" where
  "hex_upper n = char_of (if n < 10 then 48 + n else 55 + n)"

definition url_encode :: "string \<Rightarrow> string" where
  "url_encode v = concat (map (\<lambda>c. [CHR ''%'', hex_upper (code c div 16), hex_upper (code c mod 16)]) v)"

lemma hex_upper_dec: "n < 16 \<Longrightarrow> qs_ishex (hex_upper n) \<and> qs_hex2dec (hex_upper n) = n"
  by (auto simp: hex_upper_def qs_ishex_def qs_hex2dec_def)

lemma url_encode_decode: "url_decode (url_encode v) = Some v"
proof (induction v)
  case (Cons c v)
  have "code c < 256" by (cases c) simp
  then have "code c div 16 < 16" "code c mod 16 < 16" by (auto intro: less_mult_imp_div_less)
  with hex_upper_dec have "qs_ishex (hex_upper (code c div 16))" "qs_ishex (hex_upper (code c mod 16))"
    "qs_hex2dec (hex_upper (code c div 16)) * 16 + qs_hex2dec (hex_upper (code c mod 16)) = code c"
    by simp_all
  with Cons show ?case by (simp add: url_encode_def)
qed (simp add: url_encode_def)

text \<open>
  C34. Parsing a URL whose query has up to 256 pairs with plain keys and well-formed escaped values, and
  looking a plain name up, gives the decoded value of the first pair with that key (cut at a NUL byte)
  and the null pointer when there is none; no byte outside the URL is read.
\<close>

theorem query_get_value:
  assumes "\<forall>c \<in> set path. c \<noteq> CHR ''?'' \<and> c \<noteq> CHR ''#'' \<and> c \<noteq> NUL"
    "es \<noteq> []" "length es \<le> 256" "\<forall>e \<in> set es. entry_ok e" "\<forall>c \<in> set name. qs_plain c"
  shows "\<exists>q r. new_query (path @ CHR ''?'' # query_text es) True = Some q \<and> qs_get name q = Some r \<and>
    map_option (text_at (qs_url q)) r = map_option (\<lambda>t. c_str (the (url_decode t))) (map_of es name)"
proof -
  let ?A = "path @ [CHR ''?'']"
  obtain m where m: "qs_decode_pairs (entry_offsets (length ?A) es) (?A @ entries_mem es) = Some (?A @ m)" "decoded_mem es m"
    using decode_pairs [OF assms(4), of ?A] by auto
  have mem: "(path @ CHR ''?'' # query_text es) @ [NUL] = ?A @ entries_mem es" using assms(2) by (simp add: entries_mem_text)
  have q: "strcspn {CHR ''?'', CHR ''#''} (?A @ entries_mem es) 0 = length path"
    using strcspn_stop [of path "{CHR ''?'', CHR ''#''}" "CHR ''?''" "[]"] assms(1) by simp
  have "rd (?A @ entries_mem es) (length path) = Some (CHR ''?'')" using rd_at [of _ path] by simp
  moreover have starts: "qs_starts 256 (?A @ entries_mem es) (length path + 1) = entry_offsets (length ?A) es"
    using qs_starts_entries [OF assms(2,3,4), of ?A] by simp
  note calculation_parse = this calculation
  have parse: "new_query (path @ CHR ''?'' # query_text es) True =
      Some \<lparr>qs_url = ?A @ m, qs_pairs = entry_offsets (length ?A) es\<rparr>"
  proof -
    have "new_query ps True = (case qs_parse 256 True (ps @ [NUL]) of None \<Rightarrow> None
        | Some (kv, m) \<Rightarrow> Some \<lparr>qs_url = m, qs_pairs = kv\<rparr>)" if "ps \<noteq> []" for ps
      using that by (simp add: new_query_def MAX_KEY_VALUE_PAIRS_COUNT_def)
    then have "new_query (path @ CHR ''?'' # query_text es) True = (case qs_parse 256 True (?A @ entries_mem es) of None \<Rightarrow> None
        | Some (kv, m) \<Rightarrow> Some \<lparr>qs_url = m, qs_pairs = kv\<rparr>)"
      unfolding mem [symmetric] by blast
    moreover have "qs_parse 256 True (?A @ entries_mem es) = Some (entry_offsets (length ?A) es, ?A @ m)"
      using m(1) calculation_parse q by (simp add: qs_parse_def Let_def)
    ultimately show ?thesis by simp
  qed
  have "NUL \<notin> set name" using assms(5) by (auto simp: qs_plain_def qs_isqschr_def)
  with k2v_decoded [OF assms(4,5) m(2), of ?A] parse show ?thesis
    by (auto simp: qs_get_def c_str_id)
qed

lemma query_get_value_witness:
  "\<exists>q r. new_query ''/find?a=x+y&b=%41%26&a=2'' True = Some q \<and> qs_get ''b'' q = Some r \<and>
     map_option (text_at (qs_url q)) r = Some ''A&''"
proof -
  let ?es = "[(''a'', ''x+y''), (''b'', ''%41%26''), (''a'', ''2'')]"
  have d: "url_decode ''%41%26'' = Some ''A&''"
    by code_simp
  have ok: "\<forall>e \<in> set ?es. entry_ok e"
    using d by (simp add: entry_ok_def qs_plain_def qs_isqschr_def)
  have "\<exists>q r. new_query (''/find'' @ CHR ''?'' # query_text ?es) True = Some q \<and> qs_get ''b'' q = Some r \<and>
      map_option (text_at (qs_url q)) r = map_option (\<lambda>t. c_str (the (url_decode t))) (map_of ?es ''b'')"
    by (rule query_get_value) (use ok in \<open>simp_all add: qs_plain_def qs_isqschr_def\<close>)
  then show ?thesis using d by (simp add: entry_text_def c_str_def del: url_decode.simps)
qed

text \<open>A key that ends in \<open>%\<close> is compared past the end of the memory.\<close>

lemma query_over_read: "new_query ''?%'' True = Some q \<Longrightarrow> qs_get ''x'' q = None"
proof -
  assume "new_query ''?%'' True = Some q"
  moreover have "new_query ''?%'' True = Some \<lparr>qs_url = ''?%'' @ [NUL], qs_pairs = [1]\<rparr>" by code_simp
  moreover have "qs_get ''x'' \<lparr>qs_url = ''?%'' @ [NUL], qs_pairs = [1]\<rparr> = None" by code_simp
  ultimately show ?thesis by simp
qed

end
