(* ===== verification/Http_Parser.thy ===== *)
theory Http_Parser
  imports Crow_Methods
begin

section \<open>Crow: the HTTP parser\<close>

text \<open>
  \<open>http_parser_merged.h\<close>: the parser of requests, a state machine that is fed with buffers. A position
  in the buffer is its offset; a mark is the offset of the first byte of the item that is being read, if
  there is one. The bit field of flags is the set of flags that are on. Callbacks act on the object the parser
  is part of and may not return (\<open>None\<close>). A failed \<open>assert\<close> and a callback that does not return end the run
  (\<open>halt\<close>). The byte counter \<open>nread\<close> is unbounded: it never passes the limit by more than one buffer, and
  buffers are shorter than \<open>2 ^ 31\<close>.
\<close>

unbundle bit_operations_syntax

subsection \<open>Constants\<close>

datatype http_flag =
    F_CHUNKED | F_CONNECTION_KEEP_ALIVE | F_CONNECTION_CLOSE | F_TRAILING | F_UPGRADE | F_SKIPBODY
  | F_CONTENTLENGTH

datatype http_errno =
    CHPE_OK | CHPE_CB_message_begin | CHPE_CB_method | CHPE_CB_url | CHPE_CB_header_field
  | CHPE_CB_header_value | CHPE_CB_headers_complete | CHPE_CB_body | CHPE_CB_message_complete
  | CHPE_CB_status | CHPE_INVALID_EOF_STATE | CHPE_HEADER_OVERFLOW | CHPE_CLOSED_CONNECTION
  | CHPE_INVALID_VERSION | CHPE_INVALID_STATUS | CHPE_INVALID_METHOD | CHPE_INVALID_URL
  | CHPE_INVALID_HOST | CHPE_INVALID_PORT | CHPE_INVALID_PATH | CHPE_INVALID_QUERY_STRING
  | CHPE_INVALID_FRAGMENT | CHPE_LF_EXPECTED | CHPE_INVALID_HEADER_TOKEN
  | CHPE_INVALID_CONTENT_LENGTH | CHPE_UNEXPECTED_CONTENT_LENGTH | CHPE_INVALID_CHUNK_SIZE
  | CHPE_INVALID_CONSTANT | CHPE_INVALID_INTERNAL_STATE | CHPE_STRICT | CHPE_UNKNOWN
  | CHPE_INVALID_TRANSFER_ENCODING

datatype pstate =
    s_dead | s_start_req | s_req_method | s_req_spaces_before_url | s_req_schema | s_req_schema_slash
  | s_req_schema_slash_slash | s_req_server_start | s_req_server | s_req_server_with_at | s_req_path
  | s_req_query_string_start | s_req_query_string | s_req_http_start | s_req_http_H | s_req_http_HT
  | s_req_http_HTT | s_req_http_HTTP | s_req_http_I | s_req_http_IC | s_req_http_major | s_req_http_dot
  | s_req_http_minor | s_req_http_end | s_req_line_almost_done | s_header_field_start | s_header_field
  | s_header_value_discard_ws | s_header_value_discard_ws_almost_done | s_header_value_discard_lws
  | s_header_value_start | s_header_value | s_header_value_lws | s_header_almost_done
  | s_chunk_size_start | s_chunk_size | s_chunk_parameters | s_chunk_size_almost_done
  | s_headers_almost_done | s_headers_done | s_chunk_data | s_chunk_data_almost_done | s_chunk_data_done
  | s_body_identity | s_body_identity_eof | s_message_done

text \<open>The states up to \<open>s_headers_done\<close>.\<close>

definition parsing_header :: "pstate \<Rightarrow> bool" where
  "parsing_header s \<longleftrightarrow>
     s \<notin> {s_chunk_data, s_chunk_data_almost_done, s_chunk_data_done, s_body_identity, s_body_identity_eof,
          s_message_done}"

datatype header_states =
    h_general | h_C | h_CO | h_CON
  | h_matching_connection | h_matching_proxy_connection | h_matching_content_length
  | h_matching_transfer_encoding | h_matching_upgrade
  | h_connection | h_content_length | h_content_length_num | h_content_length_ws | h_transfer_encoding
  | h_upgrade
  | h_matching_transfer_encoding_token_start | h_matching_transfer_encoding_chunked
  | h_matching_transfer_encoding_token
  | h_matching_connection_keep_alive | h_matching_connection_close
  | h_transfer_encoding_chunked | h_connection_keep_alive | h_connection_close

definition max_header_size :: nat where
  "max_header_size = 80 * 1024"

subsection \<open>The parser's state\<close>

record http_parser =
  hp_flags :: "http_flag set"
  hp_state :: pstate
  hp_header_state :: header_states
  hp_index :: nat
  hp_uses_transfer_encoding :: bool
  hp_allow_chunked_length :: bool
  hp_lenient_http_headers :: bool
  hp_nread :: nat
  hp_content_length :: "64 word"
  hp_qs_point :: nat
  hp_http_major :: "8 word"
  hp_http_minor :: "8 word"
  hp_method :: HTTPMethod
  hp_http_errno :: http_errno
  hp_upgrade :: bool

definition ULLONG_MAX :: "64 word" where
  "ULLONG_MAX = - 1"

definition http_parser_init :: "'a http_parser_scheme \<Rightarrow> 'a http_parser_scheme" where
  "http_parser_init s =
     s\<lparr>hp_flags := {}, hp_state := s_start_req, hp_header_state := h_general, hp_index := 0,
       hp_uses_transfer_encoding := False, hp_allow_chunked_length := False,
       hp_lenient_http_headers := False, hp_nread := 0, hp_content_length := 0, hp_qs_point := 0,
       hp_http_major := 0, hp_http_minor := 0, hp_method := Delete, hp_http_errno := CHPE_OK,
       hp_upgrade := False\<rparr>"

text \<open>A callback returns a number and the object as it leaves it.\<close>

record 's settings =
  on_message_begin :: "'s \<Rightarrow> (int \<times> 's) option"
  on_method :: "'s \<Rightarrow> (int \<times> 's) option"
  on_url :: "string \<Rightarrow> 's \<Rightarrow> (int \<times> 's) option"
  on_header_field :: "string \<Rightarrow> 's \<Rightarrow> (int \<times> 's) option"
  on_header_value :: "string \<Rightarrow> 's \<Rightarrow> (int \<times> 's) option"
  on_headers_complete :: "'s \<Rightarrow> (int \<times> 's) option"
  on_body :: "string \<Rightarrow> 's \<Rightarrow> (int \<times> 's) option"
  on_message_complete :: "'s \<Rightarrow> (int \<times> 's) option"

text \<open>The local variables of \<open>http_parser_execute\<close>.\<close>

record locals =
  lv_p :: nat
  lv_nread :: nat
  lv_header_field_mark :: "nat option"
  lv_header_value_mark :: "nat option"
  lv_url_mark :: "nat option"
  lv_url_start_mark :: "nat option"
  lv_body_mark :: "nat option"

text \<open>
  How the body of the switch is left: by \<open>break\<close>, by \<open>goto reexecute\<close>, by a \<open>return\<close>, or by a failure.
\<close>

datatype halt = Assertion_failed | Callback_stuck

datatype 's control =
    Break locals 's
  | Reexecute locals 's
  | Return nat 's
  | Failed halt

subsection \<open>Macros\<close>

definition set_errno :: "http_errno \<Rightarrow> locals \<Rightarrow> 'a http_parser_scheme \<Rightarrow> 'a http_parser_scheme" where
  "set_errno e l s = s\<lparr>hp_nread := lv_nread l, hp_http_errno := e\<rparr>"

definition goto_error :: "locals \<Rightarrow> 'a http_parser_scheme \<Rightarrow> 'a http_parser_scheme control" where
  "goto_error l s =
     (let s = (if hp_http_errno s = CHPE_OK then set_errno CHPE_UNKNOWN l s else s)
      in Return (lv_p l) (s\<lparr>hp_nread := lv_nread l\<rparr>))"

definition fail_with :: "http_errno \<Rightarrow> locals \<Rightarrow> 'a http_parser_scheme \<Rightarrow> 'a http_parser_scheme control" where
  "fail_with e l s = goto_error l (set_errno e l s)"

definition asserting :: "bool \<Rightarrow> 's control \<Rightarrow> 's control" where
  "asserting b k = (if b then k else Failed Assertion_failed)"

text \<open>
  What follows a callback: an error is recorded when it did not return 0, and execution ends when there is
  an error now, whoever set it.
\<close>

definition after_callback ::
  "http_errno \<Rightarrow> nat \<Rightarrow> locals \<Rightarrow> (int \<times> 'a http_parser_scheme) option
   \<Rightarrow> ('a http_parser_scheme \<Rightarrow> 'a http_parser_scheme control) \<Rightarrow> 'a http_parser_scheme control" where
  "after_callback err er l r k =
     (case r of
        None \<Rightarrow> Failed Callback_stuck
      | Some (v, s) \<Rightarrow>
          let s = (if v \<noteq> 0 then set_errno err l s else s)
          in if hp_http_errno s \<noteq> CHPE_OK then Return er s else k s)"

definition callback_notify ::
  "('a http_parser_scheme \<Rightarrow> (int \<times> 'a http_parser_scheme) option) \<Rightarrow> http_errno \<Rightarrow> nat \<Rightarrow> locals
   \<Rightarrow> 'a http_parser_scheme \<Rightarrow> ('a http_parser_scheme \<Rightarrow> 'a http_parser_scheme control)
   \<Rightarrow> 'a http_parser_scheme control" where
  "callback_notify cb err er l s k =
     asserting (hp_http_errno s = CHPE_OK) (after_callback err er l (cb s) k)"

definition callback_data ::
  "(string \<Rightarrow> 'a http_parser_scheme \<Rightarrow> (int \<times> 'a http_parser_scheme) option) \<Rightarrow> http_errno
   \<Rightarrow> string \<Rightarrow> nat option \<Rightarrow> nat \<Rightarrow> nat \<Rightarrow> locals
   \<Rightarrow> 'a http_parser_scheme \<Rightarrow> ('a http_parser_scheme \<Rightarrow> 'a http_parser_scheme control)
   \<Rightarrow> 'a http_parser_scheme control" where
  "callback_data cb err data mk stop er l s k =
     asserting (hp_http_errno s = CHPE_OK)
       (case mk of
          None \<Rightarrow> k s
        | Some m \<Rightarrow> after_callback err er l (cb (take (stop - m) (drop m data)) s) k)"

definition mark_at :: "nat \<Rightarrow> nat option \<Rightarrow> nat option" where
  "mark_at p mk = (case mk of None \<Rightarrow> Some p | Some m \<Rightarrow> Some m)"

definition count_header_size ::
  "nat \<Rightarrow> locals \<Rightarrow> 'a http_parser_scheme \<Rightarrow> (locals \<Rightarrow> 'a http_parser_scheme control)
   \<Rightarrow> 'a http_parser_scheme control" where
  "count_header_size v l s k =
     (let l = l\<lparr>lv_nread := lv_nread l + v\<rparr>
      in if lv_nread l > max_header_size then fail_with CHPE_HEADER_OVERFLOW l s else k l)"

definition strict_check ::
  "bool \<Rightarrow> locals \<Rightarrow> 'a http_parser_scheme \<Rightarrow> 'a http_parser_scheme control \<Rightarrow> 'a http_parser_scheme control" where
  "strict_check bad l s k = (if bad then fail_with CHPE_STRICT l s else k)"

subsection \<open>Character classes\<close>

definition lower :: "char \<Rightarrow> char" where
  "lower c = char_of (code c OR 32)"

definition is_alpha :: "char \<Rightarrow> bool" where
  "is_alpha c \<longleftrightarrow> 97 \<le> code (lower c) \<and> code (lower c) \<le> 122"

definition is_num :: "char \<Rightarrow> bool" where
  "is_num c \<longleftrightarrow> 48 \<le> code c \<and> code c \<le> 57"

definition is_alphanum :: "char \<Rightarrow> bool" where
  "is_alphanum c \<longleftrightarrow> is_alpha c \<or> is_num c"

definition is_mark :: "char \<Rightarrow> bool" where
  "is_mark c \<longleftrightarrow> c \<in> set ''-_.!~*()'' \<or> code c = 39"

definition is_userinfo_char :: "char \<Rightarrow> bool" where
  "is_userinfo_char c \<longleftrightarrow> is_alphanum c \<or> is_mark c \<or> c \<in> set ''%;:&=+$,''"

definition is_header_char :: "char \<Rightarrow> bool" where
  "is_header_char c \<longleftrightarrow> c = CR \<or> c = LF \<or> code c = 9 \<or> code c > 31 \<and> code c \<noteq> 127"

text \<open>A bit per character, eight characters a byte; the second half of the table is 0.\<close>

definition normal_url_char :: "nat list" where
  "normal_url_char =
     map (\<lambda>bits. foldr (OR) bits 0)
      [[0, 0, 0, 0, 0, 0, 0, 0],
       [0, 0, 0, 0, 0, 0, 0, 0],
       [0, 0, 0, 0, 0, 0, 0, 0],
       [0, 0, 0, 0, 0, 0, 0, 0],
       [0, 2, 4, 0, 16, 32, 64, 128],
       [1, 2, 4, 8, 16, 32, 64, 128],
       [1, 2, 4, 8, 16, 32, 64, 128],
       [1, 2, 4, 8, 16, 32, 64, 0],
       [1, 2, 4, 8, 16, 32, 64, 128],
       [1, 2, 4, 8, 16, 32, 64, 128],
       [1, 2, 4, 8, 16, 32, 64, 128],
       [1, 2, 4, 8, 16, 32, 64, 128],
       [1, 2, 4, 8, 16, 32, 64, 128],
       [1, 2, 4, 8, 16, 32, 64, 128],
       [1, 2, 4, 8, 16, 32, 64, 128],
       [1, 2, 4, 8, 16, 32, 64, 0]] @ replicate 16 0"

definition bit_at :: "nat list \<Rightarrow> nat \<Rightarrow> bool" where
  "bit_at a i \<longleftrightarrow> (a ! (i div 8)) AND 2 ^ (i mod 8) \<noteq> 0"

definition is_url_char :: "char \<Rightarrow> bool" where
  "is_url_char c \<longleftrightarrow> bit_at normal_url_char (code c)"

text \<open>The characters of a token in lower case, and 0 for the others; the second half is 0.\<close>

definition tokens :: "nat list" where
  "tokens =
     [0, 0, 0, 0, 0, 0, 0, 0,
      0, 0, 0, 0, 0, 0, 0, 0,
      0, 0, 0, 0, 0, 0, 0, 0,
      0, 0, 0, 0, 0, 0, 0, 0,
      0, 33, 0, 35, 36, 37, 38, 39,
      0, 0, 42, 43, 0, 45, 46, 0,
      48, 49, 50, 51, 52, 53, 54, 55,
      56, 57, 0, 0, 0, 0, 0, 0,
      0, 97, 98, 99, 100, 101, 102, 103,
      104, 105, 106, 107, 108, 109, 110, 111,
      112, 113, 114, 115, 116, 117, 118, 119,
      120, 121, 122, 0, 0, 0, 94, 95,
      96, 97, 98, 99, 100, 101, 102, 103,
      104, 105, 106, 107, 108, 109, 110, 111,
      112, 113, 114, 115, 116, 117, 118, 119,
      120, 121, 122, 0, 124, 0, 126, 0]
     @ replicate 128 0"

definition token :: "char \<Rightarrow> char" where
  "token c = char_of (tokens ! code c)"

text \<open>The initialiser lists the first 128 entries only: the others are 0, not -1.\<close>

definition unhex :: "int list" where
  "unhex =
     [-1, -1, -1, -1, -1, -1, -1, -1, -1, -1, -1, -1, -1, -1, -1, -1,
      -1, -1, -1, -1, -1, -1, -1, -1, -1, -1, -1, -1, -1, -1, -1, -1,
      -1, -1, -1, -1, -1, -1, -1, -1, -1, -1, -1, -1, -1, -1, -1, -1,
      0, 1, 2, 3, 4, 5, 6, 7, 8, 9, -1, -1, -1, -1, -1, -1,
      -1, 10, 11, 12, 13, 14, 15, -1, -1, -1, -1, -1, -1, -1, -1, -1,
      -1, -1, -1, -1, -1, -1, -1, -1, -1, -1, -1, -1, -1, -1, -1, -1,
      -1, 10, 11, 12, 13, 14, 15, -1, -1, -1, -1, -1, -1, -1, -1, -1,
      -1, -1, -1, -1, -1, -1, -1, -1, -1, -1, -1, -1, -1, -1, -1, -1]
     @ replicate 128 0"

definition unhex_val :: "char \<Rightarrow> int" where
  "unhex_val c = unhex ! code c"

subsection \<open>URLs\<close>

text \<open>
  The offset of the question mark is the difference of two pointers. When the URL began in an earlier
  buffer the second one is null, and the difference is the address of the byte: \<open>addr\<close> is the address of
  the buffer.
\<close>

definition qs_offset :: "nat \<Rightarrow> nat option \<Rightarrow> nat \<Rightarrow> nat" where
  "qs_offset addr url_mark p = (case url_mark of Some m \<Rightarrow> p - m | None \<Rightarrow> addr + p)"

definition parse_url_char ::
  "nat \<Rightarrow> pstate \<Rightarrow> char \<Rightarrow> nat option \<Rightarrow> nat \<Rightarrow> 'a http_parser_scheme \<Rightarrow> pstate \<times> 'a http_parser_scheme" where
  "parse_url_char addr st ch url_mark p s =
     (let query = (s_req_query_string_start, s\<lparr>hp_qs_point := qs_offset addr url_mark p\<rparr>);
          server =
            (if ch = CHR ''/'' then (s_req_path, s)
             else if ch = CHR ''?'' then query
             else if ch = CHR ''@'' then (s_req_server_with_at, s)
             else if is_userinfo_char ch \<or> ch = CHR ''['' \<or> ch = CHR '']'' then (s_req_server, s)
             else (s_dead, s))
      in if ch = CHR '' '' \<or> ch = CR \<or> ch = LF then (s_dead, s)
         else if ch = TAB \<or> ch = CHR 0x0C then (s_dead, s)
         else
           (case st of
              s_req_spaces_before_url \<Rightarrow>
                if ch = CHR ''/'' \<or> ch = CHR ''*'' then (s_req_path, s)
                else if is_alpha ch then (s_req_schema, s) else (s_dead, s)
            | s_req_schema \<Rightarrow>
                if is_alpha ch then (st, s)
                else if ch = CHR '':'' then (s_req_schema_slash, s) else (s_dead, s)
            | s_req_schema_slash \<Rightarrow>
                if ch = CHR ''/'' then (s_req_schema_slash_slash, s) else (s_dead, s)
            | s_req_schema_slash_slash \<Rightarrow>
                if ch = CHR ''/'' then (s_req_server_start, s) else (s_dead, s)
            | s_req_server_with_at \<Rightarrow> if ch = CHR ''@'' then (s_dead, s) else server
            | s_req_server_start \<Rightarrow> server
            | s_req_server \<Rightarrow> server
            | s_req_path \<Rightarrow>
                if is_url_char ch then (st, s) else if ch = CHR ''?'' then query else (s_dead, s)
            | s_req_query_string_start \<Rightarrow>
                if is_url_char ch \<or> ch = CHR ''?'' then (s_req_query_string, s) else (s_dead, s)
            | s_req_query_string \<Rightarrow>
                if is_url_char ch \<or> ch = CHR ''?'' then (s_req_query_string, s) else (s_dead, s)
            | _ \<Rightarrow> (s_dead, s)))"

text \<open>The states in which a buffer that begins belongs to the URL from its first byte.\<close>

definition url_state :: "pstate \<Rightarrow> bool" where
  "url_state s \<longleftrightarrow>
     s \<in> {s_req_path, s_req_schema, s_req_schema_slash, s_req_schema_slash_slash, s_req_server_start, s_req_server,
          s_req_server_with_at, s_req_query_string_start, s_req_query_string}"

subsection \<open>The request line\<close>

definition on_dead ::
  "char \<Rightarrow> locals \<Rightarrow> 'a http_parser_scheme \<Rightarrow> 'a http_parser_scheme control" where
  "on_dead ch l s = (if ch = CR \<or> ch = LF then Break l s else fail_with CHPE_CLOSED_CONNECTION l s)"

definition first_method :: "char \<Rightarrow> HTTPMethod option" where
  "first_method ch =
     (if ch = CHR ''A'' then Some Acl
      else if ch = CHR ''B'' then Some Bind
      else if ch = CHR ''C'' then Some Connect
      else if ch = CHR ''D'' then Some Delete
      else if ch = CHR ''G'' then Some Get
      else if ch = CHR ''H'' then Some Head
      else if ch = CHR ''L'' then Some Lock
      else if ch = CHR ''M'' then Some MkCol
      else if ch = CHR ''N'' then Some Notify
      else if ch = CHR ''O'' then Some Options
      else if ch = CHR ''P'' then Some Post
      else if ch = CHR ''R'' then Some Report
      else if ch = CHR ''S'' then Some Subscribe
      else if ch = CHR ''T'' then Some Trace
      else if ch = CHR ''U'' then Some Unlock
      else None)"

definition on_start_req ::
  "'a http_parser_scheme settings \<Rightarrow> char \<Rightarrow> locals \<Rightarrow> 'a http_parser_scheme \<Rightarrow> 'a http_parser_scheme control" where
  "on_start_req cbs ch l s =
     (if ch = CR \<or> ch = LF then Break l s
      else
        (let s = s\<lparr>hp_flags := {}, hp_uses_transfer_encoding := False, hp_content_length := ULLONG_MAX\<rparr>
         in if \<not> is_alpha ch then fail_with CHPE_INVALID_METHOD l s
            else
              (let s = s\<lparr>hp_method := Delete, hp_index := 1\<rparr>
               in case first_method ch of
                    None \<Rightarrow> fail_with CHPE_INVALID_METHOD l s
                  | Some m \<Rightarrow>
                      callback_notify (on_message_begin cbs) CHPE_CB_message_begin (lv_p l + 1) l
                        (s\<lparr>hp_method := m, hp_state := s_req_method\<rparr>) (\<lambda>s. Break l s))))"

text \<open>The character of a string that ends with a NUL.\<close>

definition c_at :: "string \<Rightarrow> nat \<Rightarrow> char" where
  "c_at w i = (w @ [NUL]) ! i"

text \<open>The table of the places where the name of a method turns into that of another.\<close>

definition method_switch :: "(HTTPMethod \<times> nat \<times> char \<times> HTTPMethod) list" where
  "method_switch =
     [(Post, 1, CHR ''U'', Put), (Post, 1, CHR ''A'', Patch), (Post, 1, CHR ''R'', Propfind),
      (Put, 2, CHR ''R'', Purge), (Connect, 1, CHR ''H'', Checkout), (Connect, 2, CHR ''P'', Copy),
      (MkCol, 1, CHR ''O'', Move), (MkCol, 1, CHR ''E'', Merge), (MkCol, 1, CHR ''-'', MSearch),
      (MkCol, 2, CHR ''A'', MkActivity), (MkCol, 3, CHR ''A'', MkCalendar),
      (Subscribe, 1, CHR ''E'', Search), (Subscribe, 1, CHR ''O'', Source), (Report, 2, CHR ''B'', Rebind),
      (Propfind, 4, CHR ''P'', Proppatch), (Lock, 1, CHR ''I'', Link), (Unlock, 2, CHR ''S'', Unsubscribe),
      (Unlock, 2, CHR ''B'', Unbind), (Unlock, 3, CHR ''I'', Unlink)]"

definition find_switch :: "HTTPMethod \<Rightarrow> nat \<Rightarrow> char \<Rightarrow> HTTPMethod option" where
  "find_switch m i ch =
     map_option (\<lambda>e. snd (snd (snd e)))
       (find (\<lambda>e. fst e = m \<and> fst (snd e) = i \<and> fst (snd (snd e)) = ch) method_switch)"

definition on_req_method ::
  "'a http_parser_scheme settings \<Rightarrow> char \<Rightarrow> locals \<Rightarrow> 'a http_parser_scheme \<Rightarrow> 'a http_parser_scheme control" where
  "on_req_method cbs ch l s =
     (if ch = NUL then fail_with CHPE_INVALID_METHOD l s
      else
        (let at = c_at (method_name (hp_method s)) (hp_index s);
             go = (\<lambda>s. callback_notify (on_method cbs) CHPE_CB_method (lv_p l) l s
                       (\<lambda>s. Break l (s\<lparr>hp_index := (hp_index s + 1) mod 32\<rparr>)))
         in if ch = CHR '' '' \<and> at = NUL then go (s\<lparr>hp_state := s_req_spaces_before_url\<rparr>)
            else if ch = at then go s
            else if 65 \<le> code ch \<and> code ch \<le> 90 \<or> ch = CHR ''-'' then
              (case find_switch (hp_method s) (hp_index s) ch of
                 Some m \<Rightarrow> go (s\<lparr>hp_method := m\<rparr>)
               | None \<Rightarrow> fail_with CHPE_INVALID_METHOD l s)
            else fail_with CHPE_INVALID_METHOD l s))"

definition url_step ::
  "nat \<Rightarrow> char \<Rightarrow> locals \<Rightarrow> 'a http_parser_scheme \<Rightarrow> 'a http_parser_scheme control" where
  "url_step addr ch l s =
     (case parse_url_char addr (hp_state s) ch (lv_url_start_mark l) (lv_p l) s of
        (st, s) \<Rightarrow>
          let s = s\<lparr>hp_state := st\<rparr>
          in if st = s_dead then fail_with CHPE_INVALID_URL l s else Break l s)"

definition on_spaces_before_url ::
  "nat \<Rightarrow> char \<Rightarrow> locals \<Rightarrow> 'a http_parser_scheme \<Rightarrow> 'a http_parser_scheme control" where
  "on_spaces_before_url addr ch l s =
     (if ch = CHR '' '' then Break l s
      else
        (let l = l\<lparr>lv_url_mark := mark_at (lv_p l) (lv_url_mark l),
                   lv_url_start_mark := mark_at (lv_p l) (lv_url_start_mark l)\<rparr>;
             s = (if hp_method s = Connect then s\<lparr>hp_state := s_req_server_start\<rparr> else s)
         in url_step addr ch l s))"

definition on_schema ::
  "nat \<Rightarrow> char \<Rightarrow> locals \<Rightarrow> 'a http_parser_scheme \<Rightarrow> 'a http_parser_scheme control" where
  "on_schema addr ch l s =
     (if ch = CHR '' '' \<or> ch = CR \<or> ch = LF then fail_with CHPE_INVALID_URL l s else url_step addr ch l s)"

text \<open>\<open>CROW_CALLBACK_DATA(url)\<close>, then \<open>break\<close>.\<close>

definition url_done ::
  "'a http_parser_scheme settings \<Rightarrow> string \<Rightarrow> locals \<Rightarrow> 'a http_parser_scheme \<Rightarrow> 'a http_parser_scheme control" where
  "url_done cbs data l s =
     callback_data (on_url cbs) CHPE_CB_url data (lv_url_mark l) (lv_p l) (lv_p l + 1) l s
       (\<lambda>s. Break (l\<lparr>lv_url_mark := None\<rparr>) s)"

definition on_server_or_path ::
  "'a http_parser_scheme settings \<Rightarrow> nat \<Rightarrow> string \<Rightarrow> char \<Rightarrow> locals \<Rightarrow> 'a http_parser_scheme
   \<Rightarrow> 'a http_parser_scheme control" where
  "on_server_or_path cbs addr data ch l s =
     (if ch = CHR '' '' then url_done cbs data l (s\<lparr>hp_state := s_req_http_start\<rparr>)
      else if ch = CR \<or> ch = LF then
        (if hp_method s \<noteq> Get then fail_with CHPE_INVALID_VERSION l (s\<lparr>hp_state := s_dead\<rparr>)
         else
           url_done cbs data l
             (s\<lparr>hp_http_major := 0, hp_http_minor := 9,
                hp_state := (if ch = CR then s_req_line_almost_done else s_header_field_start)\<rparr>))
      else url_step addr ch l s)"

definition on_http_start ::
  "char \<Rightarrow> locals \<Rightarrow> 'a http_parser_scheme \<Rightarrow> 'a http_parser_scheme control" where
  "on_http_start ch l s =
     (if ch = CHR '' '' then Break l s
      else if ch = CHR ''H'' then Break l (s\<lparr>hp_state := s_req_http_H\<rparr>)
      else if ch = CHR ''I'' \<and> hp_method s = Source then Break l (s\<lparr>hp_state := s_req_http_I\<rparr>)
      else fail_with CHPE_INVALID_CONSTANT l s)"

text \<open>The states that expect one character.\<close>

definition expect_char ::
  "char \<Rightarrow> pstate \<Rightarrow> char \<Rightarrow> locals \<Rightarrow> 'a http_parser_scheme \<Rightarrow> 'a http_parser_scheme control" where
  "expect_char want st ch l s = strict_check (ch \<noteq> want) l s (Break l (s\<lparr>hp_state := st\<rparr>))"

definition digit_value :: "char \<Rightarrow> 8 word" where
  "digit_value ch = word_of_nat (code ch - 48)"

definition on_http_major ::
  "char \<Rightarrow> locals \<Rightarrow> 'a http_parser_scheme \<Rightarrow> 'a http_parser_scheme control" where
  "on_http_major ch l s =
     (if \<not> is_num ch then fail_with CHPE_INVALID_VERSION l s
      else Break l (s\<lparr>hp_http_major := digit_value ch, hp_state := s_req_http_dot\<rparr>))"

definition on_http_dot ::
  "char \<Rightarrow> locals \<Rightarrow> 'a http_parser_scheme \<Rightarrow> 'a http_parser_scheme control" where
  "on_http_dot ch l s =
     (if ch \<noteq> CHR ''.'' then fail_with CHPE_INVALID_VERSION l s
      else Break l (s\<lparr>hp_state := s_req_http_minor\<rparr>))"

definition on_http_minor ::
  "char \<Rightarrow> locals \<Rightarrow> 'a http_parser_scheme \<Rightarrow> 'a http_parser_scheme control" where
  "on_http_minor ch l s =
     (if \<not> is_num ch then fail_with CHPE_INVALID_VERSION l s
      else Break l (s\<lparr>hp_http_minor := digit_value ch, hp_state := s_req_http_end\<rparr>))"

definition on_http_end ::
  "char \<Rightarrow> locals \<Rightarrow> 'a http_parser_scheme \<Rightarrow> 'a http_parser_scheme control" where
  "on_http_end ch l s =
     (if ch = CR then Break l (s\<lparr>hp_state := s_req_line_almost_done\<rparr>)
      else if ch = LF then Break l (s\<lparr>hp_state := s_header_field_start\<rparr>)
      else fail_with CHPE_INVALID_VERSION l s)"

definition on_line_almost_done ::
  "char \<Rightarrow> locals \<Rightarrow> 'a http_parser_scheme \<Rightarrow> 'a http_parser_scheme control" where
  "on_line_almost_done ch l s =
     (if ch \<noteq> LF then fail_with CHPE_LF_EXPECTED l s
      else Break l (s\<lparr>hp_state := s_header_field_start\<rparr>))"

subsection \<open>Header names\<close>

definition on_header_field_start ::
  "char \<Rightarrow> locals \<Rightarrow> 'a http_parser_scheme \<Rightarrow> 'a http_parser_scheme control" where
  "on_header_field_start ch l s =
     (if ch = CR then Break l (s\<lparr>hp_state := s_headers_almost_done\<rparr>)
      else if ch = LF then Reexecute l (s\<lparr>hp_state := s_headers_almost_done\<rparr>)
      else
        (let c = token ch
         in if c = NUL then fail_with CHPE_INVALID_HEADER_TOKEN l s
            else
              Break (l\<lparr>lv_header_field_mark := mark_at (lv_p l) (lv_header_field_mark l)\<rparr>)
                (s\<lparr>hp_index := 0, hp_state := s_header_field,
                   hp_header_state :=
                     (if c = CHR ''c'' then h_C
                      else if c = CHR ''p'' then h_matching_proxy_connection
                      else if c = CHR ''t'' then h_matching_transfer_encoding
                      else if c = CHR ''u'' then h_matching_upgrade
                      else h_general)\<rparr>)))"

text \<open>
  One more character of a word that is being recognised: the new index, and what the comparison says.
\<close>

definition match_char :: "string \<Rightarrow> nat \<Rightarrow> char \<Rightarrow> 'h \<Rightarrow> 'h \<Rightarrow> 'h \<Rightarrow> 'h" where
  "match_char word i c stay fail found =
     (if i > length word \<or> c \<noteq> c_at word i then fail
      else if i = length word - 1 then found else stay)"

text \<open>
  A character of a header name; \<open>None\<close> is the failed assertion. The flag of the transfer encoding is set when the
  last character of the name has matched.
\<close>

definition field_char ::
  "char \<Rightarrow> char \<Rightarrow> 'a http_parser_scheme \<Rightarrow> 'a http_parser_scheme option" where
  "field_char ch c s =
     (let i = (hp_index s + 1) mod 32;
          next = (\<lambda>h. Some (s\<lparr>hp_index := i, hp_header_state := h\<rparr>))
      in case hp_header_state s of
           h_C \<Rightarrow> next (if c = CHR ''o'' then h_CO else h_general)
         | h_CO \<Rightarrow> next (if c = CHR ''n'' then h_CON else h_general)
         | h_CON \<Rightarrow>
             next (if c = CHR ''n'' then h_matching_connection
                   else if c = CHR ''t'' then h_matching_content_length else h_general)
         | h_matching_connection \<Rightarrow>
             next (match_char ''connection'' i c h_matching_connection h_general h_connection)
         | h_matching_proxy_connection \<Rightarrow>
             next (match_char ''proxy-connection'' i c h_matching_proxy_connection h_general h_connection)
         | h_matching_content_length \<Rightarrow>
             next (match_char ''content-length'' i c h_matching_content_length h_general h_content_length)
         | h_matching_transfer_encoding \<Rightarrow>
             (let h = match_char ''transfer-encoding'' i c h_matching_transfer_encoding h_general
                        h_transfer_encoding
              in Some (s\<lparr>hp_index := i, hp_header_state := h,
                         hp_uses_transfer_encoding :=
                           (h = h_transfer_encoding \<or> hp_uses_transfer_encoding s)\<rparr>))
         | h_matching_upgrade \<Rightarrow> next (match_char ''upgrade'' i c h_matching_upgrade h_general h_upgrade)
         | h_connection \<Rightarrow> Some (if ch \<noteq> CHR '' '' then s\<lparr>hp_header_state := h_general\<rparr> else s)
         | h_content_length \<Rightarrow> Some (if ch \<noteq> CHR '' '' then s\<lparr>hp_header_state := h_general\<rparr> else s)
         | h_transfer_encoding \<Rightarrow> Some (if ch \<noteq> CHR '' '' then s\<lparr>hp_header_state := h_general\<rparr> else s)
         | h_upgrade \<Rightarrow> Some (if ch \<noteq> CHR '' '' then s\<lparr>hp_header_state := h_general\<rparr> else s)
         | _ \<Rightarrow> None)"

text \<open>
  The loop over the characters of a name, on the rest of the buffer: where it stops, and the parser
  then. In the state \<open>h_general\<close> it runs ahead over all characters of a token.
\<close>

function field_scan ::
  "string \<Rightarrow> nat \<Rightarrow> 'a http_parser_scheme \<Rightarrow> (nat \<times> 'a http_parser_scheme) option" where
  "field_scan [] p s = Some (p, s)"
| "field_scan (ch # r) p s =
     (let c = token ch
      in if c = NUL then Some (p, s)
         else if hp_header_state s = h_general then
           (let k = length (takeWhile (\<lambda>x. token x \<noteq> NUL) (take (min (length r + 1) max_header_size - 1) r))
            in field_scan (drop k r) (p + k + 1) s)
         else
           (case field_char ch c s of
              None \<Rightarrow> None
            | Some s \<Rightarrow> field_scan r (p + 1) s))"
  by pat_completeness auto
termination by (relation "measure (\<lambda>(r, _). length r)") auto

definition on_header_field_state ::
  "'a http_parser_scheme settings \<Rightarrow> string \<Rightarrow> locals \<Rightarrow> 'a http_parser_scheme \<Rightarrow> 'a http_parser_scheme control" where
  "on_header_field_state cbs data l s =
     (let start = lv_p l
      in case field_scan (drop start data) start s of
           None \<Rightarrow> Failed Assertion_failed
         | Some (p, s) \<Rightarrow>
             if p = length data then
               (let p = p - 1
                in count_header_size (p - start) (l\<lparr>lv_p := p\<rparr>) s (\<lambda>l. Break l s))
             else
               count_header_size (p - start) (l\<lparr>lv_p := p\<rparr>) s
                 (\<lambda>l. if data ! p = CHR '':'' then
                        callback_data (on_header_field cbs) CHPE_CB_header_field data
                          (lv_header_field_mark l) p (p + 1) l (s\<lparr>hp_state := s_header_value_discard_ws\<rparr>)
                          (\<lambda>s. Break (l\<lparr>lv_header_field_mark := None\<rparr>) s)
                      else fail_with CHPE_INVALID_HEADER_TOKEN l s))"
subsection \<open>Header values\<close>

text \<open>\<open>s_header_value_start\<close>, which \<open>s_header_value_discard_ws\<close> falls through to.\<close>

definition on_header_value_start ::
  "char \<Rightarrow> locals \<Rightarrow> 'a http_parser_scheme \<Rightarrow> 'a http_parser_scheme control" where
  "on_header_value_start ch l s =
     (let l = l\<lparr>lv_header_value_mark := mark_at (lv_p l) (lv_header_value_mark l)\<rparr>;
          s = s\<lparr>hp_state := s_header_value, hp_index := 0\<rparr>;
          c = lower ch;
          goto = (\<lambda>h. Break l (s\<lparr>hp_header_state := h\<rparr>))
      in case hp_header_state s of
           h_upgrade \<Rightarrow> Break l (s\<lparr>hp_flags := insert F_UPGRADE (hp_flags s), hp_header_state := h_general\<rparr>)
         | h_transfer_encoding \<Rightarrow>
             goto (if c = CHR ''c'' then h_matching_transfer_encoding_chunked
                   else h_matching_transfer_encoding_token)
         | h_matching_transfer_encoding_token_start \<Rightarrow> Break l s
         | h_content_length \<Rightarrow>
             if \<not> is_num ch then fail_with CHPE_INVALID_CONTENT_LENGTH l s
             else if F_CONTENTLENGTH \<in> hp_flags s then fail_with CHPE_UNEXPECTED_CONTENT_LENGTH l s
             else
               Break l
                 (s\<lparr>hp_flags := insert F_CONTENTLENGTH (hp_flags s),
                    hp_content_length := word_of_nat (code ch - 48), hp_header_state := h_content_length_num\<rparr>)
         | h_content_length_ws \<Rightarrow> Break l s
         | h_connection \<Rightarrow>
             (if c = CHR ''k'' then goto h_matching_connection_keep_alive
              else if c = CHR ''c'' then goto h_matching_connection_close
              else if c = CHR '' '' \<or> c = TAB then Break l s
              else goto h_general)
         | _ \<Rightarrow> goto h_general)"

definition on_header_value_discard_ws ::
  "char \<Rightarrow> locals \<Rightarrow> 'a http_parser_scheme \<Rightarrow> 'a http_parser_scheme control" where
  "on_header_value_discard_ws ch l s =
     (if ch = CHR '' '' \<or> ch = TAB then Break l s
      else if ch = CR then Break l (s\<lparr>hp_state := s_header_value_discard_ws_almost_done\<rparr>)
      else if ch = LF then Break l (s\<lparr>hp_state := s_header_value_discard_lws\<rparr>)
      else on_header_value_start ch l s)"

text \<open>One more digit of a number: \<open>None\<close> when it might not fit.\<close>

definition add_digit :: "64 word \<Rightarrow> 64 word \<Rightarrow> 64 word \<Rightarrow> 64 word option" where
  "add_digit radix n d = (if (ULLONG_MAX - radix) div radix < n then None else Some (n * radix + d))"

text \<open>
  A character of a value outside \<open>h_general\<close>: the next header state, index and content length. An
  error comes with the header state the source stores for it, a failed assertion is its own case.
\<close>

datatype value_step =
    Value_next header_states nat "64 word"
  | Value_error http_errno header_states
  | Value_assert

definition content_length_digit :: "char \<Rightarrow> nat \<Rightarrow> 64 word \<Rightarrow> value_step" where
  "content_length_digit ch i n =
     (if ch = CHR '' '' then Value_next h_content_length_ws i n
      else if \<not> is_num ch then Value_error CHPE_INVALID_CONTENT_LENGTH h_content_length_num
      else
        (case add_digit 10 n (word_of_nat (code ch - 48)) of
           None \<Rightarrow> Value_error CHPE_INVALID_CONTENT_LENGTH h_content_length_num
         | Some n \<Rightarrow> Value_next h_content_length_num i n))"

definition value_char :: "char \<Rightarrow> header_states \<Rightarrow> nat \<Rightarrow> 64 word \<Rightarrow> value_step" where
  "value_char ch h i n =
     (let c = lower ch; j = (i + 1) mod 32
      in case h of
           h_connection \<Rightarrow> Value_assert
         | h_transfer_encoding \<Rightarrow> Value_assert
         | h_content_length \<Rightarrow> if ch = CHR '' '' then Value_next h i n else content_length_digit ch i n
         | h_content_length_num \<Rightarrow> content_length_digit ch i n
         | h_content_length_ws \<Rightarrow>
             if ch = CHR '' '' then Value_next h i n else Value_error CHPE_INVALID_CONTENT_LENGTH h
         | h_matching_transfer_encoding_token_start \<Rightarrow>
             Value_next
               (if c = CHR ''c'' then h_matching_transfer_encoding_chunked
                else if token c \<noteq> NUL then h_matching_transfer_encoding_token
                else if c = CHR '' '' \<or> c = TAB then h
                else h_general) i n
         | h_matching_transfer_encoding_chunked \<Rightarrow>
             Value_next
               (match_char ''chunked'' j c h h_matching_transfer_encoding_token h_transfer_encoding_chunked) j n
         | h_matching_transfer_encoding_token \<Rightarrow>
             if ch = CHR '','' then Value_next h_matching_transfer_encoding_token_start 0 n else Value_next h i n
         | h_matching_connection_keep_alive \<Rightarrow>
             Value_next (match_char ''keep-alive'' j c h h_general h_connection_keep_alive) j n
         | h_matching_connection_close \<Rightarrow>
             Value_next (match_char ''close'' j c h h_general h_connection_close) j n
         | h_transfer_encoding_chunked \<Rightarrow>
             Value_next (if ch \<noteq> CHR '' '' then h_matching_transfer_encoding_token else h) i n
         | h_connection_keep_alive \<Rightarrow> Value_next (if ch \<noteq> CHR '' '' then h_general else h) i n
         | h_connection_close \<Rightarrow> Value_next (if ch \<noteq> CHR '' '' then h_general else h) i n
         | _ \<Rightarrow> Value_next h_general i n)"

text \<open>
  The loop over the characters of a value, on the rest of the buffer: why it stops, where, and the
  header state, index and content length then. In the state \<open>h_general\<close> it runs ahead to the end of the line,
  over at most as many bytes as a header may have; had it not reached the end of the buffer by then it
  would go on behind the next byte.
\<close>

datatype value_end =
    At_end | At_cr | At_lf
  | Bad http_errno "header_states option"
  | Bad_assert

definition plain_value_char :: "bool \<Rightarrow> char \<Rightarrow> bool" where
  "plain_value_char lenient ch \<longleftrightarrow> lenient \<or> is_header_char ch"

function value_scan ::
  "bool \<Rightarrow> string \<Rightarrow> nat \<Rightarrow> header_states \<Rightarrow> nat \<Rightarrow> 64 word
   \<Rightarrow> value_end \<times> nat \<times> header_states \<times> nat \<times> 64 word" where
  "value_scan lenient [] p h i n = (At_end, p, h, i, n)"
| "value_scan lenient (ch # r) p h i n =
     (if ch = CR then (At_cr, p, h, i, n)
      else if ch = LF then (At_lf, p, h, i, n)
      else if \<not> plain_value_char lenient ch then (Bad CHPE_INVALID_HEADER_TOKEN None, p, h, i, n)
      else if h = h_general then
        (let t = take (min (length r + 1) max_header_size) (ch # r);
             k = length (takeWhile (\<lambda>x. x \<noteq> CR \<and> x \<noteq> LF \<and> plain_value_char lenient x) t)
         in if k < length t then
              (if t ! k = CR \<or> t ! k = LF then value_scan lenient (drop (k - 1) r) (p + k) h i n
               else (Bad CHPE_INVALID_HEADER_TOKEN None, p + k, h, i, n))
            else if k = length r + 1 then (At_end, p + k, h, i, n)
            else value_scan lenient (drop k r) (p + k + 1) h i n)
      else
        (case value_char ch h i n of
           Value_assert \<Rightarrow> (Bad_assert, p, h, i, n)
         | Value_error e h' \<Rightarrow> (Bad e (Some h'), p, h', i, n)
         | Value_next h' j n' \<Rightarrow> value_scan lenient r (p + 1) h' j n'))"
  by pat_completeness auto
termination by (relation "measure (\<lambda>(_, r, _). length r)") auto

definition on_header_value_state ::
  "'a http_parser_scheme settings \<Rightarrow> string \<Rightarrow> locals \<Rightarrow> 'a http_parser_scheme \<Rightarrow> 'a http_parser_scheme control" where
  "on_header_value_state cbs data l s =
     (let start = lv_p l
      in case value_scan (hp_lenient_http_headers s) (drop start data) start (hp_header_state s) (hp_index s)
                (hp_content_length s) of
           (why, p, h, i, n) \<Rightarrow>
             let l = l\<lparr>lv_p := p\<rparr>;
                 s = s\<lparr>hp_index := i, hp_content_length := n\<rparr>;
                 flush = (\<lambda>er l s k. callback_data (on_header_value cbs) CHPE_CB_header_value data
                            (lv_header_value_mark l) p er l s (k (l\<lparr>lv_header_value_mark := None\<rparr>)))
             in case why of
                  At_cr \<Rightarrow>
                    flush (p + 1) l (s\<lparr>hp_state := s_header_almost_done, hp_header_state := h\<rparr>)
                      (\<lambda>l s. let s = s\<lparr>hp_header_state := h\<rparr>
                             in count_header_size (p - start) l s (\<lambda>l. Break l s))
                | At_lf \<Rightarrow>
                    (let s = s\<lparr>hp_state := s_header_almost_done\<rparr>
                     in count_header_size (p - start) l s
                          (\<lambda>l. flush p l (s\<lparr>hp_header_state := h\<rparr>) (\<lambda>l s. Reexecute l s)))
                | At_end \<Rightarrow>
                    (let s = s\<lparr>hp_header_state := h\<rparr>; l = l\<lparr>lv_p := p - 1\<rparr>
                     in count_header_size (p - 1 - start) l s (\<lambda>l. Break l s))
                | Bad e ho \<Rightarrow>
                    fail_with e l (case ho of None \<Rightarrow> s | Some h \<Rightarrow> s\<lparr>hp_header_state := h\<rparr>)
                | Bad_assert \<Rightarrow> Failed Assertion_failed)"

definition on_header_almost_done ::
  "char \<Rightarrow> locals \<Rightarrow> 'a http_parser_scheme \<Rightarrow> 'a http_parser_scheme control" where
  "on_header_almost_done ch l s =
     (if ch \<noteq> LF then fail_with CHPE_LF_EXPECTED l s else Break l (s\<lparr>hp_state := s_header_value_lws\<rparr>))"

definition on_header_value_lws ::
  "char \<Rightarrow> locals \<Rightarrow> 'a http_parser_scheme \<Rightarrow> 'a http_parser_scheme control" where
  "on_header_value_lws ch l s =
     (if ch = CHR '' '' \<or> ch = TAB then
        Reexecute l
          (s\<lparr>hp_header_state :=
               (if hp_header_state s = h_content_length_num then h_content_length_ws else hp_header_state s),
             hp_state := s_header_value_start\<rparr>)
      else
        (let flag = (\<lambda>f. insert f (hp_flags s))
         in Reexecute l
              (s\<lparr>hp_flags :=
                   (case hp_header_state s of
                      h_connection_keep_alive \<Rightarrow> flag F_CONNECTION_KEEP_ALIVE
                    | h_connection_close \<Rightarrow> flag F_CONNECTION_CLOSE
                    | h_transfer_encoding_chunked \<Rightarrow> flag F_CHUNKED
                    | _ \<Rightarrow> hp_flags s),
                 hp_state := s_header_field_start\<rparr>)))"

definition on_header_value_discard_lws ::
  "'a http_parser_scheme settings \<Rightarrow> string \<Rightarrow> char \<Rightarrow> locals \<Rightarrow> 'a http_parser_scheme
   \<Rightarrow> 'a http_parser_scheme control" where
  "on_header_value_discard_lws cbs data ch l s =
     (if ch = CHR '' '' \<or> ch = TAB then Break l (s\<lparr>hp_state := s_header_value_discard_ws\<rparr>)
      else
        (let l = l\<lparr>lv_header_value_mark := mark_at (lv_p l) (lv_header_value_mark l)\<rparr>
         in callback_data (on_header_value cbs) CHPE_CB_header_value data (lv_header_value_mark l) (lv_p l) (lv_p l) l
              (s\<lparr>hp_state := s_header_field_start\<rparr>)
              (\<lambda>s. Reexecute (l\<lparr>lv_header_value_mark := None\<rparr>) s)))"

subsection \<open>The end of the headers\<close>

definition on_headers_almost_done ::
  "'a http_parser_scheme settings \<Rightarrow> char \<Rightarrow> locals \<Rightarrow> 'a http_parser_scheme \<Rightarrow> 'a http_parser_scheme control" where
  "on_headers_almost_done cbs ch l s =
     strict_check (ch \<noteq> LF) l s
       (if F_TRAILING \<in> hp_flags s then
          callback_notify (on_message_complete cbs) CHPE_CB_message_complete (lv_p l + 1) l s (\<lambda>s. Break l s)
        else if hp_uses_transfer_encoding s \<and> F_CONTENTLENGTH \<in> hp_flags s \<and>
                (if F_CHUNKED \<in> hp_flags s then \<not> hp_allow_chunked_length s else \<not> hp_lenient_http_headers s)
        then fail_with CHPE_UNEXPECTED_CONTENT_LENGTH l s
        else
          (let s = s\<lparr>hp_state := s_headers_done,
                     hp_upgrade := (F_UPGRADE \<in> hp_flags s \<or> hp_method s = Connect)\<rparr>
           in case on_headers_complete cbs s of
                None \<Rightarrow> Failed Callback_stuck
              | Some (v, s) \<Rightarrow>
                  if v \<notin> {0, 1, 2} then
                    Return (lv_p l) ((set_errno CHPE_CB_headers_complete l s)\<lparr>hp_nread := lv_nread l\<rparr>)
                  else
                    (let s = (if v = 2 then s\<lparr>hp_upgrade := True\<rparr> else s);
                         s = (if v = 1 \<or> v = 2 then s\<lparr>hp_flags := insert F_SKIPBODY (hp_flags s)\<rparr> else s)
                     in if hp_http_errno s \<noteq> CHPE_OK then Return (lv_p l) (s\<lparr>hp_nread := lv_nread l\<rparr>)
                        else Reexecute l s)))"

text \<open>\<open>CROW_CALLBACK_NOTIFY(message_complete)\<close>, then \<open>break\<close>.\<close>

definition message_done ::
  "'a http_parser_scheme settings \<Rightarrow> locals \<Rightarrow> 'a http_parser_scheme \<Rightarrow> 'a http_parser_scheme control" where
  "message_done cbs l s =
     callback_notify (on_message_complete cbs) CHPE_CB_message_complete (lv_p l + 1) l s (\<lambda>s. Break l s)"

definition on_headers_done ::
  "'a http_parser_scheme settings \<Rightarrow> char \<Rightarrow> locals \<Rightarrow> 'a http_parser_scheme \<Rightarrow> 'a http_parser_scheme control" where
  "on_headers_done cbs ch l s =
     strict_check (ch \<noteq> LF) l s
       (let s = s\<lparr>hp_nread := 0\<rparr>; l = l\<lparr>lv_nread := 0\<rparr>
        in if hp_upgrade s then
             callback_notify (on_message_complete cbs) CHPE_CB_message_complete (lv_p l + 1) l s
               (\<lambda>s. Return (lv_p l + 1) (s\<lparr>hp_nread := lv_nread l\<rparr>))
           else if F_SKIPBODY \<in> hp_flags s then message_done cbs l s
           else if F_CHUNKED \<in> hp_flags s then Break l (s\<lparr>hp_state := s_chunk_size_start\<rparr>)
           else if hp_uses_transfer_encoding s then
             (if \<not> hp_lenient_http_headers s then
                Return (lv_p l) ((set_errno CHPE_INVALID_TRANSFER_ENCODING l s)\<lparr>hp_nread := lv_nread l\<rparr>)
              else Break l (s\<lparr>hp_state := s_body_identity_eof\<rparr>))
           else if hp_content_length s = 0 then message_done cbs l s
           else if hp_content_length s \<noteq> ULLONG_MAX then Break l (s\<lparr>hp_state := s_body_identity\<rparr>)
           else message_done cbs l s)"

subsection \<open>Bodies\<close>

text \<open>The number of bytes of the body that the buffer holds from \<open>p\<close> on.\<close>

definition to_read :: "string \<Rightarrow> nat \<Rightarrow> 64 word \<Rightarrow> nat" where
  "to_read data p n = min (unat n) (length data - p)"

definition on_body_identity ::
  "'a http_parser_scheme settings \<Rightarrow> string \<Rightarrow> locals \<Rightarrow> 'a http_parser_scheme \<Rightarrow> 'a http_parser_scheme control" where
  "on_body_identity cbs data l s =
     asserting (hp_content_length s \<noteq> 0 \<and> hp_content_length s \<noteq> ULLONG_MAX)
       (let k = to_read data (lv_p l) (hp_content_length s);
            s = s\<lparr>hp_content_length := hp_content_length s - word_of_nat k\<rparr>;
            l = l\<lparr>lv_body_mark := mark_at (lv_p l) (lv_body_mark l), lv_p := lv_p l + k - 1\<rparr>
        in if hp_content_length s = 0 then
             callback_data (on_body cbs) CHPE_CB_body data (lv_body_mark l) (lv_p l + 1) (lv_p l) l
               (s\<lparr>hp_state := s_message_done\<rparr>) (\<lambda>s. Reexecute (l\<lparr>lv_body_mark := None\<rparr>) s)
           else Break l s)"

definition on_body_identity_eof ::
  "string \<Rightarrow> locals \<Rightarrow> 'a http_parser_scheme \<Rightarrow> 'a http_parser_scheme control" where
  "on_body_identity_eof data l s =
     Break (l\<lparr>lv_body_mark := mark_at (lv_p l) (lv_body_mark l), lv_p := length data - 1\<rparr>) s"

definition on_chunk_size_start ::
  "char \<Rightarrow> locals \<Rightarrow> 'a http_parser_scheme \<Rightarrow> 'a http_parser_scheme control" where
  "on_chunk_size_start ch l s =
     asserting (lv_nread l = 1 \<and> F_CHUNKED \<in> hp_flags s)
       (if unhex_val ch = -1 then fail_with CHPE_INVALID_CHUNK_SIZE l s
        else Break l (s\<lparr>hp_content_length := word_of_int (unhex_val ch), hp_state := s_chunk_size\<rparr>))"

definition on_chunk_size ::
  "char \<Rightarrow> locals \<Rightarrow> 'a http_parser_scheme \<Rightarrow> 'a http_parser_scheme control" where
  "on_chunk_size ch l s =
     asserting (F_CHUNKED \<in> hp_flags s)
       (if ch = CR then Break l (s\<lparr>hp_state := s_chunk_size_almost_done\<rparr>)
        else if unhex_val ch = -1 then
          (if ch = CHR '';'' \<or> ch = CHR '' '' then Break l (s\<lparr>hp_state := s_chunk_parameters\<rparr>)
           else fail_with CHPE_INVALID_CHUNK_SIZE l s)
        else
          (case add_digit 16 (hp_content_length s) (word_of_int (unhex_val ch)) of
             None \<Rightarrow> fail_with CHPE_INVALID_CONTENT_LENGTH l s
           | Some n \<Rightarrow> Break l (s\<lparr>hp_content_length := n\<rparr>)))"

definition on_chunk_parameters ::
  "char \<Rightarrow> locals \<Rightarrow> 'a http_parser_scheme \<Rightarrow> 'a http_parser_scheme control" where
  "on_chunk_parameters ch l s =
     asserting (F_CHUNKED \<in> hp_flags s)
       (if ch = CR then Break l (s\<lparr>hp_state := s_chunk_size_almost_done\<rparr>) else Break l s)"

definition on_chunk_size_almost_done ::
  "char \<Rightarrow> locals \<Rightarrow> 'a http_parser_scheme \<Rightarrow> 'a http_parser_scheme control" where
  "on_chunk_size_almost_done ch l s =
     asserting (F_CHUNKED \<in> hp_flags s)
       (strict_check (ch \<noteq> LF) l s
         (let s = s\<lparr>hp_nread := 0\<rparr>; l = l\<lparr>lv_nread := 0\<rparr>
          in if hp_content_length s = 0 then
               Break l (s\<lparr>hp_flags := insert F_TRAILING (hp_flags s), hp_state := s_header_field_start\<rparr>)
             else Break l (s\<lparr>hp_state := s_chunk_data\<rparr>)))"

definition on_chunk_data ::
  "string \<Rightarrow> locals \<Rightarrow> 'a http_parser_scheme \<Rightarrow> 'a http_parser_scheme control" where
  "on_chunk_data data l s =
     asserting (F_CHUNKED \<in> hp_flags s \<and> hp_content_length s \<noteq> 0 \<and> hp_content_length s \<noteq> ULLONG_MAX)
       (let k = to_read data (lv_p l) (hp_content_length s);
            n = hp_content_length s - word_of_nat k
        in Break (l\<lparr>lv_body_mark := mark_at (lv_p l) (lv_body_mark l), lv_p := lv_p l + k - 1\<rparr>)
             (s\<lparr>hp_content_length := n, hp_state := (if n = 0 then s_chunk_data_almost_done else hp_state s)\<rparr>))"

definition on_chunk_data_almost_done ::
  "'a http_parser_scheme settings \<Rightarrow> string \<Rightarrow> char \<Rightarrow> locals \<Rightarrow> 'a http_parser_scheme
   \<Rightarrow> 'a http_parser_scheme control" where
  "on_chunk_data_almost_done cbs data ch l s =
     asserting (F_CHUNKED \<in> hp_flags s \<and> hp_content_length s = 0)
       (strict_check (ch \<noteq> CR) l s
         (callback_data (on_body cbs) CHPE_CB_body data (lv_body_mark l) (lv_p l) (lv_p l + 1) l
            (s\<lparr>hp_state := s_chunk_data_done\<rparr>) (\<lambda>s. Break (l\<lparr>lv_body_mark := None\<rparr>) s)))"

definition on_chunk_data_done ::
  "char \<Rightarrow> locals \<Rightarrow> 'a http_parser_scheme \<Rightarrow> 'a http_parser_scheme control" where
  "on_chunk_data_done ch l s =
     asserting (F_CHUNKED \<in> hp_flags s)
       (strict_check (ch \<noteq> LF) l s
         (Break (l\<lparr>lv_nread := 0\<rparr>) (s\<lparr>hp_nread := 0, hp_state := s_chunk_size_start\<rparr>)))"

subsection \<open>\<open>http_parser_execute\<close>\<close>

text \<open>The switch over the states.\<close>

definition execute_byte ::
  "'a http_parser_scheme settings \<Rightarrow> nat \<Rightarrow> string \<Rightarrow> locals \<Rightarrow> 'a http_parser_scheme
   \<Rightarrow> 'a http_parser_scheme control" where
  "execute_byte cbs addr data l s =
     (let ch = data ! lv_p l
      in case hp_state s of
           s_dead \<Rightarrow> on_dead ch l s
         | s_start_req \<Rightarrow> on_start_req cbs ch l s
         | s_req_method \<Rightarrow> on_req_method cbs ch l s
         | s_req_spaces_before_url \<Rightarrow> on_spaces_before_url addr ch l s
         | s_req_schema \<Rightarrow> on_schema addr ch l s
         | s_req_schema_slash \<Rightarrow> on_schema addr ch l s
         | s_req_schema_slash_slash \<Rightarrow> on_schema addr ch l s
         | s_req_server_start \<Rightarrow> on_schema addr ch l s
         | s_req_server \<Rightarrow> on_server_or_path cbs addr data ch l s
         | s_req_server_with_at \<Rightarrow> on_server_or_path cbs addr data ch l s
         | s_req_path \<Rightarrow> on_server_or_path cbs addr data ch l s
         | s_req_query_string_start \<Rightarrow> on_server_or_path cbs addr data ch l s
         | s_req_query_string \<Rightarrow> on_server_or_path cbs addr data ch l s
         | s_req_http_start \<Rightarrow> on_http_start ch l s
         | s_req_http_H \<Rightarrow> expect_char (CHR ''T'') s_req_http_HT ch l s
         | s_req_http_HT \<Rightarrow> expect_char (CHR ''T'') s_req_http_HTT ch l s
         | s_req_http_HTT \<Rightarrow> expect_char (CHR ''P'') s_req_http_HTTP ch l s
         | s_req_http_I \<Rightarrow> expect_char (CHR ''C'') s_req_http_IC ch l s
         | s_req_http_IC \<Rightarrow> expect_char (CHR ''E'') s_req_http_HTTP ch l s
         | s_req_http_HTTP \<Rightarrow> expect_char (CHR ''/'') s_req_http_major ch l s
         | s_req_http_major \<Rightarrow> on_http_major ch l s
         | s_req_http_dot \<Rightarrow> on_http_dot ch l s
         | s_req_http_minor \<Rightarrow> on_http_minor ch l s
         | s_req_http_end \<Rightarrow> on_http_end ch l s
         | s_req_line_almost_done \<Rightarrow> on_line_almost_done ch l s
         | s_header_field_start \<Rightarrow> on_header_field_start ch l s
         | s_header_field \<Rightarrow> on_header_field_state cbs data l s
         | s_header_value_discard_ws \<Rightarrow> on_header_value_discard_ws ch l s
         | s_header_value_start \<Rightarrow> on_header_value_start ch l s
         | s_header_value \<Rightarrow> on_header_value_state cbs data l s
         | s_header_almost_done \<Rightarrow> on_header_almost_done ch l s
         | s_header_value_lws \<Rightarrow> on_header_value_lws ch l s
         | s_header_value_discard_ws_almost_done \<Rightarrow> expect_char LF s_header_value_discard_lws ch l s
         | s_header_value_discard_lws \<Rightarrow> on_header_value_discard_lws cbs data ch l s
         | s_headers_almost_done \<Rightarrow> on_headers_almost_done cbs ch l s
         | s_headers_done \<Rightarrow> on_headers_done cbs ch l s
         | s_body_identity \<Rightarrow> on_body_identity cbs data l s
         | s_body_identity_eof \<Rightarrow> on_body_identity_eof data l s
         | s_message_done \<Rightarrow> message_done cbs l s
         | s_chunk_size_start \<Rightarrow> on_chunk_size_start ch l s
         | s_chunk_size \<Rightarrow> on_chunk_size ch l s
         | s_chunk_parameters \<Rightarrow> on_chunk_parameters ch l s
         | s_chunk_size_almost_done \<Rightarrow> on_chunk_size_almost_done ch l s
         | s_chunk_data \<Rightarrow> on_chunk_data data l s
         | s_chunk_data_almost_done \<Rightarrow> on_chunk_data_almost_done cbs data ch l s
         | s_chunk_data_done \<Rightarrow> on_chunk_data_done ch l s)"

text \<open>The head of the loop, for a byte that is there.\<close>

definition loop_head ::
  "'a http_parser_scheme settings \<Rightarrow> nat \<Rightarrow> string \<Rightarrow> locals \<Rightarrow> 'a http_parser_scheme
   \<Rightarrow> 'a http_parser_scheme control" where
  "loop_head cbs addr data l s =
     (if parsing_header (hp_state s) then
        count_header_size 1 l s (\<lambda>l. execute_byte cbs addr data l s)
      else execute_byte cbs addr data l s)"

text \<open>What is left in the buffer of an item that goes on in the next one.\<close>

definition loop_end ::
  "'a http_parser_scheme settings \<Rightarrow> string \<Rightarrow> locals \<Rightarrow> 'a http_parser_scheme \<Rightarrow> 'a http_parser_scheme control" where
  "loop_end cbs data l s =
     (let one = (\<lambda>m. if m = None then 0 else 1 :: nat); p = lv_p l
      in asserting (one (lv_header_field_mark l) + one (lv_header_value_mark l) + one (lv_url_mark l) +
                    one (lv_body_mark l) \<le> 1)
           (callback_data (on_header_field cbs) CHPE_CB_header_field data (lv_header_field_mark l) p p l s (\<lambda>s.
            callback_data (on_header_value cbs) CHPE_CB_header_value data (lv_header_value_mark l) p p l s (\<lambda>s.
            callback_data (on_url cbs) CHPE_CB_url data (lv_url_mark l) p p l s (\<lambda>s.
            callback_data (on_body cbs) CHPE_CB_body data (lv_body_mark l) p p l s (\<lambda>s.
            Return (length data) (s\<lparr>hp_nread := lv_nread l\<rparr>)))))))"

text \<open>\<open>None\<close>: the loop does not end; otherwise a failure, or what is returned.\<close>

partial_function (option) execute_loop ::
  "'a http_parser_scheme settings \<Rightarrow> nat \<Rightarrow> string \<Rightarrow> bool \<Rightarrow> locals \<Rightarrow> 'a http_parser_scheme
   \<Rightarrow> (halt + nat \<times> 'a http_parser_scheme) option" where
  "execute_loop cbs addr data again l s =
     (case (if again then execute_byte cbs addr data l s
            else if lv_p l < length data then loop_head cbs addr data l s
            else loop_end cbs data l s) of
        Break l s \<Rightarrow> execute_loop cbs addr data False (l\<lparr>lv_p := lv_p l + 1\<rparr>) s
      | Reexecute l s \<Rightarrow> execute_loop cbs addr data True l s
      | Return n s \<Rightarrow> Some (Inr (n, s))
      | Failed h \<Rightarrow> Some (Inl h))"

definition start_locals :: "'a http_parser_scheme \<Rightarrow> locals" where
  "start_locals s =
     \<lparr>lv_p = 0, lv_nread = hp_nread s,
      lv_header_field_mark = (if hp_state s = s_header_field then Some 0 else None),
      lv_header_value_mark = (if hp_state s = s_header_value then Some 0 else None),
      lv_url_mark = (if url_state (hp_state s) then Some 0 else None),
      lv_url_start_mark = None, lv_body_mark = None\<rparr>"

text \<open>An empty buffer is the end of the stream.\<close>

definition execute_eof ::
  "('a http_parser_scheme \<Rightarrow> (int \<times> 'a http_parser_scheme) option) \<Rightarrow> 'a http_parser_scheme
   \<Rightarrow> halt + nat \<times> 'a http_parser_scheme" where
  "execute_eof message_complete s =
     (if hp_state s = s_body_identity_eof then
        (case message_complete s of
           None \<Rightarrow> Inl Callback_stuck
         | Some (v, s') \<Rightarrow>
             Inr (0, if v \<noteq> 0 then s'\<lparr>hp_nread := hp_nread s, hp_http_errno := CHPE_CB_message_complete\<rparr> else s'))
      else if hp_state s = s_dead \<or> hp_state s = s_start_req then Inr (0, s)
      else Inr (1, s\<lparr>hp_http_errno := CHPE_INVALID_EOF_STATE\<rparr>))"

definition http_parser_execute ::
  "'a http_parser_scheme settings \<Rightarrow> nat \<Rightarrow> string \<Rightarrow> 'a http_parser_scheme
   \<Rightarrow> (halt + nat \<times> 'a http_parser_scheme) option" where
  "http_parser_execute cbs addr data s =
     (if hp_http_errno s \<noteq> CHPE_OK then Some (Inr (0, s))
      else if data = [] then Some (execute_eof (on_message_complete cbs) s)
      else execute_loop cbs addr data False (start_locals s) s)"

definition http_body_is_final :: "'a http_parser_scheme \<Rightarrow> bool" where
  "http_body_is_final s \<longleftrightarrow> hp_state s = s_message_done"

subsection \<open>Names of errors\<close>

definition http_strerror_tab :: "(http_errno \<times> string \<times> string) list" where
  "http_strerror_tab =
     [(CHPE_OK, ''CHPE_OK'', ''success''),
      (CHPE_CB_message_begin, ''CHPE_CB_message_begin'', ''the on_message_begin callback failed''),
      (CHPE_CB_method, ''CHPE_CB_method'', ''the on_method callback failed''),
      (CHPE_CB_url, ''CHPE_CB_url'', ''the \"on_url\" callback failed''),
      (CHPE_CB_header_field, ''CHPE_CB_header_field'', ''the \"on_header_field\" callback failed''),
      (CHPE_CB_header_value, ''CHPE_CB_header_value'', ''the \"on_header_value\" callback failed''),
      (CHPE_CB_headers_complete, ''CHPE_CB_headers_complete'', ''the \"on_headers_complete\" callback failed''),
      (CHPE_CB_body, ''CHPE_CB_body'', ''the \"on_body\" callback failed''),
      (CHPE_CB_message_complete, ''CHPE_CB_message_complete'', ''the \"on_message_complete\" callback failed''),
      (CHPE_CB_status, ''CHPE_CB_status'', ''the \"on_status\" callback failed''),
      (CHPE_INVALID_EOF_STATE, ''CHPE_INVALID_EOF_STATE'', ''stream ended at an unexpected time''),
      (CHPE_HEADER_OVERFLOW, ''CHPE_HEADER_OVERFLOW'', ''too many header bytes seen; overflow detected''),
      (CHPE_CLOSED_CONNECTION, ''CHPE_CLOSED_CONNECTION'', ''data received after completed connection: close message''),
      (CHPE_INVALID_VERSION, ''CHPE_INVALID_VERSION'', ''invalid HTTP version''),
      (CHPE_INVALID_STATUS, ''CHPE_INVALID_STATUS'', ''invalid HTTP status code''),
      (CHPE_INVALID_METHOD, ''CHPE_INVALID_METHOD'', ''invalid HTTP method''),
      (CHPE_INVALID_URL, ''CHPE_INVALID_URL'', ''invalid URL''),
      (CHPE_INVALID_HOST, ''CHPE_INVALID_HOST'', ''invalid host''),
      (CHPE_INVALID_PORT, ''CHPE_INVALID_PORT'', ''invalid port''),
      (CHPE_INVALID_PATH, ''CHPE_INVALID_PATH'', ''invalid path''),
      (CHPE_INVALID_QUERY_STRING, ''CHPE_INVALID_QUERY_STRING'', ''invalid query string''),
      (CHPE_INVALID_FRAGMENT, ''CHPE_INVALID_FRAGMENT'', ''invalid fragment''),
      (CHPE_LF_EXPECTED, ''CHPE_LF_EXPECTED'', ''LF character expected''),
      (CHPE_INVALID_HEADER_TOKEN, ''CHPE_INVALID_HEADER_TOKEN'', ''invalid character in header''),
      (CHPE_INVALID_CONTENT_LENGTH, ''CHPE_INVALID_CONTENT_LENGTH'', ''invalid character in content-length header''),
      (CHPE_UNEXPECTED_CONTENT_LENGTH, ''CHPE_UNEXPECTED_CONTENT_LENGTH'', ''unexpected content-length header''),
      (CHPE_INVALID_CHUNK_SIZE, ''CHPE_INVALID_CHUNK_SIZE'', ''invalid character in chunk size header''),
      (CHPE_INVALID_CONSTANT, ''CHPE_INVALID_CONSTANT'', ''invalid constant string''),
      (CHPE_INVALID_INTERNAL_STATE, ''CHPE_INVALID_INTERNAL_STATE'', ''encountered unexpected internal state''),
      (CHPE_STRICT, ''CHPE_STRICT'', ''strict mode assertion failed''),
      (CHPE_UNKNOWN, ''CHPE_UNKNOWN'', ''an unknown error occurred''),
      (CHPE_INVALID_TRANSFER_ENCODING, ''CHPE_INVALID_TRANSFER_ENCODING'', ''request has invalid transfer-encoding'')]"

definition strerror_entry :: "http_errno \<Rightarrow> (string \<times> string) option" where
  "strerror_entry e = map_option snd (find (\<lambda>r. fst r = e) http_strerror_tab)"

definition http_errno_name :: "http_errno \<Rightarrow> string option" where
  "http_errno_name e = map_option fst (strerror_entry e)"

definition http_errno_description :: "http_errno \<Rightarrow> string option" where
  "http_errno_description e = map_option snd (strerror_entry e)"

end
