(* ===== verification/Http_Parser_Props.thy ===== *)
theory Http_Parser_Props
  imports Http_Parser
begin

section \<open>The HTTP parser: its loop ends, and no assertion fails\<close>

text \<open>
  What the callbacks have to leave alone is the interface \<open>parser_callbacks\<close>; the object around the parser
  is theirs. Under it a run over a buffer returns, keeps the invariant that the parser relies on in its next
  buffer, and fails an assertion on a NUL byte only.
\<close>

subsection \<open>The invariant\<close>

definition field_hs :: "header_states \<Rightarrow> bool" where
  "field_hs h \<longleftrightarrow>
     h \<in> {h_general, h_C, h_CO, h_CON, h_matching_connection, h_matching_proxy_connection,
          h_matching_content_length, h_matching_transfer_encoding, h_matching_upgrade, h_connection,
          h_content_length, h_transfer_encoding, h_upgrade}"

definition value_hs :: "header_states \<Rightarrow> bool" where
  "value_hs h \<longleftrightarrow> h \<noteq> h_connection \<and> h \<noteq> h_transfer_encoding"

text \<open>\<open>nul\<close>: a NUL byte has been read.\<close>

definition core :: "bool \<Rightarrow> 'a http_parser_scheme \<Rightarrow> bool" where
  "core nul s \<longleftrightarrow>
     (hp_state s = s_header_field \<longrightarrow> field_hs (hp_header_state s)) \<and>
     (hp_state s \<in> {s_header_value, s_header_value_start, s_header_almost_done, s_header_value_lws}
        \<longrightarrow> value_hs (hp_header_state s) \<or> nul) \<and>
     (hp_state s \<in> {s_chunk_size_start, s_chunk_size, s_chunk_parameters, s_chunk_size_almost_done, s_chunk_data,
                     s_chunk_data_almost_done, s_chunk_data_done} \<longrightarrow> F_CHUNKED \<in> hp_flags s) \<and>
     (hp_state s \<in> {s_chunk_size, s_chunk_parameters, s_chunk_size_almost_done, s_chunk_data, s_body_identity}
        \<longrightarrow> hp_content_length s \<noteq> ULLONG_MAX) \<and>
     (hp_state s \<in> {s_chunk_data, s_body_identity} \<longrightarrow> hp_content_length s \<noteq> 0) \<and>
     (hp_state s = s_chunk_data_almost_done \<longrightarrow> hp_content_length s = 0)"

text \<open>The byte counter where the size of a chunk begins; \<open>n\<close> bytes have been counted.\<close>

definition fresh :: "nat \<Rightarrow> nat \<Rightarrow> 'a http_parser_scheme \<Rightarrow> bool" where
  "fresh k n s \<longleftrightarrow> (hp_state s = s_chunk_size_start \<longrightarrow> n = k)"

text \<open>The invariant between two buffers, and the one for the marks within a buffer.\<close>

definition parser_inv :: "bool \<Rightarrow> 'a http_parser_scheme \<Rightarrow> bool" where
  "parser_inv nul s \<longleftrightarrow> hp_http_errno s = CHPE_OK \<longrightarrow> core nul s \<and> fresh 0 (hp_nread s) s"

definition body_state :: "pstate \<Rightarrow> bool" where
  "body_state s \<longleftrightarrow> s \<in> {s_body_identity, s_body_identity_eof, s_chunk_data, s_chunk_data_almost_done}"

definition marks_ok :: "locals \<Rightarrow> pstate \<Rightarrow> bool" where
  "marks_ok l st \<longleftrightarrow>
     (lv_header_field_mark l \<noteq> None \<longrightarrow> st = s_header_field) \<and>
     (lv_header_value_mark l \<noteq> None \<longrightarrow> st = s_header_value) \<and>
     (lv_url_mark l \<noteq> None \<longrightarrow> url_state st) \<and>
     (lv_body_mark l \<noteq> None \<longrightarrow> body_state st)"

text \<open>What a callback does to the parser it is called from, unless it stops it by an error.\<close>

definition settled :: "'a http_parser_scheme \<Rightarrow> 'a http_parser_scheme \<Rightarrow> bool" where
  "settled s s' \<longleftrightarrow>
     hp_http_errno s' \<noteq> CHPE_OK \<or>
     hp_state s' = hp_state s \<and> hp_header_state s' = hp_header_state s \<and> hp_flags s' = hp_flags s \<and>
     hp_content_length s' = hp_content_length s"

text \<open>A message that is complete may also be cleared away at once.\<close>

definition completed :: "'a http_parser_scheme \<Rightarrow> 'a http_parser_scheme \<Rightarrow> bool" where
  "completed s s' \<longleftrightarrow> settled s s' \<or> hp_state s' = s_start_req"

text \<open>How far a state is from the end of a chain of \<open>goto reexecute\<close>.\<close>

definition rank :: "pstate \<Rightarrow> nat" where
  "rank st =
     (case st of
        s_header_value_lws \<Rightarrow> 5 | s_header_value_discard_lws \<Rightarrow> 5 | s_header_value \<Rightarrow> 5
      | s_header_field_start \<Rightarrow> 4 | s_headers_almost_done \<Rightarrow> 3 | s_headers_done \<Rightarrow> 2 | s_body_identity \<Rightarrow> 1
      | _ \<Rightarrow> 0)"

text \<open>The invariant within a buffer; \<open>k\<close> is the count of header bytes where a chunk begins.\<close>

definition within :: "bool \<Rightarrow> string \<Rightarrow> nat \<Rightarrow> nat \<Rightarrow> locals \<Rightarrow> 'a http_parser_scheme \<Rightarrow> bool" where
  "within nul data k p0 l s \<longleftrightarrow>
     p0 \<le> lv_p l \<and> lv_p l < length data \<and> hp_http_errno s = CHPE_OK \<and> core nul s \<and> fresh k (lv_nread l) s \<and>
     marks_ok l (hp_state s) \<and> (NUL \<in> set data \<longrightarrow> nul)"

text \<open>
  What every way to leave the switch has to establish, when it is entered at the position \<open>p0\<close> in the
  state \<open>st\<close>: only a NUL byte may fail an assertion.
\<close>

definition leaves ::
  "bool \<Rightarrow> string \<Rightarrow> nat \<Rightarrow> pstate \<Rightarrow> 'a http_parser_scheme control \<Rightarrow> bool" where
  "leaves nul data p0 st c \<longleftrightarrow>
     (case c of
        Break l s \<Rightarrow> within nul data 0 p0 l s
      | Reexecute l s \<Rightarrow> within nul data 1 p0 l s \<and> rank (hp_state s) < rank st
      | Return n s \<Rightarrow> n \<le> length data \<and> parser_inv nul s
      | Failed h \<Rightarrow> h = Callback_stuck \<or> nul)"

lemma leaves_simps [simp]:
  "leaves nul data p0 st (Break l s) \<longleftrightarrow> within nul data 0 p0 l s"
  "leaves nul data p0 st (Reexecute l s) \<longleftrightarrow> within nul data 1 p0 l s \<and> rank (hp_state s) < rank st"
  "leaves nul data p0 st (Return n s) \<longleftrightarrow> n \<le> length data \<and> parser_inv nul s"
  "leaves nul data p0 st (Failed h) \<longleftrightarrow> h = Callback_stuck \<or> nul"
  by (simp_all add: leaves_def)

lemma leaves_fail_with [simp]:
  "e \<noteq> CHPE_OK \<Longrightarrow> leaves nul data p0 st (fail_with e l s) \<longleftrightarrow> lv_p l \<le> length data"
  by (simp add: fail_with_def goto_error_def set_errno_def parser_inv_def Let_def)

lemma leaves_strict_check [simp]:
  "leaves nul data p0 st (strict_check b l s k) \<longleftrightarrow> (if b then lv_p l \<le> length data else leaves nul data p0 st k)"
  by (simp add: strict_check_def)

lemma leaves_count [simp]:
  "leaves nul data p0 st (count_header_size v l s k) \<longleftrightarrow>
     (if lv_nread l + v > max_header_size then lv_p l \<le> length data
      else leaves nul data p0 st (k (l\<lparr>lv_nread := lv_nread l + v\<rparr>)))"
  by (simp add: count_header_size_def Let_def)

lemma leaves_asserting [simp]:
  "leaves nul data p0 st (asserting b k) \<longleftrightarrow> (if b then leaves nul data p0 st k else nul)"
  by (simp add: asserting_def)

lemma leaves_after_callback:
  assumes "r \<noteq> None \<Longrightarrow> \<exists>v s'. r = Some (v, s') \<and> (hp_http_errno s' = CHPE_OK \<longrightarrow> leaves nul data p0 st (k s'))"
    and "er \<le> length data" and "err \<noteq> CHPE_OK"
  shows "leaves nul data p0 st (after_callback err er l r k)"
proof (cases r)
  case None
  then show ?thesis by (simp add: after_callback_def)
next
  case (Some x)
  with assms(1) obtain v s' where "r = Some (v, s')" "hp_http_errno s' = CHPE_OK \<longrightarrow> leaves nul data p0 st (k s')"
    by auto
  then show ?thesis using assms(2,3)
    by (auto simp: after_callback_def set_errno_def Let_def parser_inv_def)
qed

lemma settledD:
  assumes "settled s s'" "hp_http_errno s' = CHPE_OK"
  shows "core nul s' = core nul s" "hp_state s' = hp_state s" "fresh k n s' = fresh k n s"
  using assms unfolding settled_def core_def fresh_def by simp_all

lemma within_settled:
  "settled s s' \<Longrightarrow> hp_http_errno s' = CHPE_OK \<Longrightarrow> hp_http_errno s = CHPE_OK \<Longrightarrow>
   within nul data k p0 l s' \<longleftrightarrow> within nul data k p0 l s"
  by (simp add: within_def settledD)

lemma settled_refl [simp]: "settled s s"
  by (simp add: settled_def)

lemmas within_simps = within_def core_def fresh_def marks_ok_def Let_def url_state_def body_state_def

subsection \<open>Steps without a callback\<close>

lemma parse_url_char_fst:
  "fst (parse_url_char addr st ch mk p s) = s_dead \<or> url_state (fst (parse_url_char addr st ch mk p s))"
  unfolding parse_url_char_def Let_def by (cases st) (simp_all add: url_state_def)

lemma parse_url_char_cases:
  assumes "P s" "P (s\<lparr>hp_qs_point := qs_offset addr mk p\<rparr>)"
  shows "P (snd (parse_url_char addr st ch mk p s))"
  unfolding parse_url_char_def Let_def using assms by (cases st) simp_all

lemma parse_url_char_snd: "\<exists>q. snd (parse_url_char addr st ch mk p s) = s\<lparr>hp_qs_point := q\<rparr>"
  by (rule parse_url_char_cases) (rule exI [of _ "hp_qs_point s"], simp, blast)

lemma url_step_leaves:
  assumes "lv_p l < length data" "p0 \<le> lv_p l" "hp_http_errno s = CHPE_OK"
    "lv_header_field_mark l = None" "lv_header_value_mark l = None" "lv_body_mark l = None"
    "NUL \<in> set data \<longrightarrow> nul"
  shows "leaves nul data p0 st (url_step addr ch l s)"
proof -
  obtain st' s' where p: "parse_url_char addr (hp_state s) ch (lv_url_start_mark l) (lv_p l) s = (st', s')"
    by fastforce
  then obtain q where q: "s' = s\<lparr>hp_qs_point := q\<rparr>" "st' = s_dead \<or> url_state st'"
    using parse_url_char_fst [of addr "hp_state s" ch "lv_url_start_mark l" "lv_p l" s]
      parse_url_char_snd [of addr "hp_state s" ch "lv_url_start_mark l" "lv_p l" s] by auto
  then show ?thesis using assms
    by (cases "st' = s_dead") (auto simp: url_step_def p within_simps)
qed

text \<open>The steps that change the state only.\<close>

lemma small_steps_leave:
  assumes "within nul data 1 (lv_p l) l s"
  shows "hp_state s = s_dead \<Longrightarrow> leaves nul data (lv_p l) st (on_dead ch l s)"
    "hp_state s = s_req_http_start \<Longrightarrow> leaves nul data (lv_p l) st (on_http_start ch l s)"
    "hp_state s = s_req_http_major \<Longrightarrow> leaves nul data (lv_p l) st (on_http_major ch l s)"
    "hp_state s = s_req_http_dot \<Longrightarrow> leaves nul data (lv_p l) st (on_http_dot ch l s)"
    "hp_state s = s_req_http_minor \<Longrightarrow> leaves nul data (lv_p l) st (on_http_minor ch l s)"
    "hp_state s = s_req_http_end \<Longrightarrow> leaves nul data (lv_p l) st (on_http_end ch l s)"
    "hp_state s = s_req_line_almost_done \<Longrightarrow> leaves nul data (lv_p l) st (on_line_almost_done ch l s)"
    "hp_state s = s_header_almost_done \<Longrightarrow> leaves nul data (lv_p l) st (on_header_almost_done ch l s)"
    "hp_state s = s_chunk_parameters \<Longrightarrow> leaves nul data (lv_p l) st (on_chunk_parameters ch l s)"
    "hp_state s = s_chunk_size_almost_done \<Longrightarrow> leaves nul data (lv_p l) st (on_chunk_size_almost_done ch l s)"
    "hp_state s = s_chunk_data_done \<Longrightarrow> leaves nul data (lv_p l) st (on_chunk_data_done ch l s)"
    "hp_state s = s_body_identity_eof \<Longrightarrow> leaves nul data (lv_p l) st (on_body_identity_eof data l s)"
  using assms
  by (simp_all add: within_simps on_dead_def on_http_start_def on_http_major_def on_http_dot_def on_http_minor_def
      on_http_end_def on_line_almost_done_def on_header_almost_done_def on_chunk_parameters_def
      on_chunk_size_almost_done_def on_chunk_data_done_def on_body_identity_eof_def, linarith)

text \<open>States that the invariant says nothing about.\<close>

definition quiet_state :: "pstate \<Rightarrow> bool" where
  "quiet_state st \<longleftrightarrow>
     st \<notin> {s_header_field, s_header_value, s_header_value_start, s_header_almost_done, s_header_value_lws,
            s_chunk_size_start, s_chunk_size, s_chunk_parameters, s_chunk_size_almost_done, s_chunk_data,
            s_chunk_data_almost_done, s_chunk_data_done, s_body_identity}"

lemma core_quiet: "quiet_state (hp_state s) \<Longrightarrow> core nul s \<and> fresh k n s"
  by (simp add: quiet_state_def core_def fresh_def)

definition no_marks :: "locals \<Rightarrow> bool" where
  "no_marks l \<longleftrightarrow> lv_header_field_mark l = None \<and> lv_header_value_mark l = None \<and> lv_url_mark l = None \<and>
     lv_body_mark l = None"

lemma no_marks_ok: "no_marks l \<Longrightarrow> marks_ok l st"
  by (simp add: no_marks_def marks_ok_def)

lemma marks_ok_none: "marks_ok l st \<Longrightarrow> \<not> url_state st \<Longrightarrow> \<not> body_state st \<Longrightarrow> st \<noteq> s_header_field \<Longrightarrow>
   st \<noteq> s_header_value \<Longrightarrow> no_marks l"
  by (simp add: no_marks_def marks_ok_def)

lemma expect_char_leaves:
  assumes "within nul data 1 (lv_p l) l s" and "no_marks l" and "quiet_state st'"
  shows "leaves nul data (lv_p l) st (expect_char c st' ch l s)"
  using assms by (simp add: within_def expect_char_def core_quiet no_marks_ok)

lemma or_32: "(n::nat) OR 32 = (if odd (n div 32) then n else n + 32)"
proof -
  have "n OR 32 = set_bit 5 n" by (simp add: set_bit_eq_or push_bit_eq_mult)
  also have "\<dots> = n + of_bool (\<not> bit n 5) * 2 ^ 5" by (rule set_bit_eq)
  finally show ?thesis by (simp add: bit_iff_odd)
qed

lemma code_lower: "code (lower c) = (if odd (code c div 32) then code c else code c + 32)"
proof -
  have "code c < 256" by simp
  moreover have "224 \<le> n \<Longrightarrow> n < 256 \<Longrightarrow> n div 32 = 7" for n :: nat by (rule div_nat_eqI) simp_all
  ultimately have "224 \<le> code c \<Longrightarrow> code c div 32 = 7" by blast
  then have "(if odd (code c div 32) then code c else code c + 32) < 256"
    using \<open>code c < 256\<close> by (cases "224 \<le> code c") auto
  then show ?thesis by (simp add: lower_def or_32)
qed

lemma lower_space: "lower ch = CHR '' '' \<longleftrightarrow> ch = NUL \<or> ch = CHR '' ''"
proof -
  have "lower ch = CHR '' '' \<longleftrightarrow> code (lower ch) = 32"
    using of_char_eq_iff [of "lower ch" "CHR '' ''", where 'a = nat] by simp
  also have "\<dots> \<longleftrightarrow> code ch = 0 \<or> code ch = 32" by (auto simp: code_lower)
  finally show ?thesis
    using of_char_eq_iff [of ch "CHR '' ''", where 'a = nat] of_char_eq_iff [of ch NUL, where 'a = nat] by simp
qed

lemma lower_not_tab: "lower ch \<noteq> TAB"
proof
  assume "lower ch = TAB"
  then have "code (lower ch) = 9" by simp
  then show False by (simp add: code_lower split: if_splits)
qed

lemma unat_max: "unat ULLONG_MAX = 18446744073709551615"
  by (simp add: ULLONG_MAX_def unsigned_minus_1_eq_mask mask_eq_exp_minus_1)

lemma on_header_field_start_leaves:
  assumes "within nul data 1 (lv_p l) l s" "hp_state s = s_header_field_start"
  shows "leaves nul data (lv_p l) s_header_field_start (on_header_field_start ch l s)"
  using assms by (simp add: on_header_field_start_def within_simps rank_def field_hs_def)

lemma on_header_value_start_leaves:
  assumes "lv_p l < length data" "hp_http_errno s = CHPE_OK"
    "lv_header_field_mark l = None" "lv_url_mark l = None" "lv_body_mark l = None"
    "hp_header_state s = h_connection \<Longrightarrow> lower ch = CHR '' '' \<Longrightarrow> nul" "NUL \<in> set data \<longrightarrow> nul"
  shows "leaves nul data (lv_p l) st (on_header_value_start ch l s)"
  using assms unfolding on_header_value_start_def Let_def
  by (cases "hp_header_state s") (simp_all add: within_simps value_hs_def lower_not_tab)

lemma on_header_value_discard_ws_leaves:
  assumes "within nul data 1 (lv_p l) l s" "hp_state s = s_header_value_discard_ws" "ch = data ! lv_p l"
  shows "leaves nul data (lv_p l) st (on_header_value_discard_ws ch l s)"
proof -
  have "NUL = ch \<Longrightarrow> NUL \<in> set data" using assms by (simp add: within_def)
  then have "ch = NUL \<Longrightarrow> nul" using assms(1) by (simp add: within_def)
  then show ?thesis using assms(1,2) unfolding on_header_value_discard_ws_def
    by (auto intro!: on_header_value_start_leaves simp: lower_space within_simps)
qed

lemma on_header_value_lws_leaves:
  assumes "within nul data 1 (lv_p l) l s" "hp_state s = s_header_value_lws"
  shows "leaves nul data (lv_p l) s_header_value_lws (on_header_value_lws ch l s)"
  using assms by (simp add: on_header_value_lws_def within_simps rank_def value_hs_def)

lemma add_digit_bound:
  assumes "add_digit r n d = Some m" "r = 10 \<and> unat d < 10 \<or> r = 16 \<and> unat d < 16"
  shows "unat m = unat n * unat r + unat d \<and> m \<noteq> ULLONG_MAX"
proof -
  have le: "n \<le> (ULLONG_MAX - r) div r" and m: "m = n * r + d"
    using assms(1) by (simp_all add: add_digit_def split: if_splits)
  have "unat n \<le> unat ((ULLONG_MAX - r) div r)" using le by (simp add: word_le_nat_alt)
  moreover have "unat ((ULLONG_MAX - r) div r) * unat r \<le> 2 ^ 64 - 1 - unat r"
    using assms(2) by (elim disjE conjE) (simp_all add: unat_div unat_sub_if_size unat_max word_size)
  ultimately have b: "unat n * unat r + unat d < 2 ^ 64 - 1"
    using assms(2) unat_max by auto
  have "unat m = unat n * unat r + unat d"
    using b by (simp add: m unat_word_ariths)
  moreover from this b have "unat m \<noteq> unat ULLONG_MAX" by (simp add: unat_max)
  ultimately show ?thesis by auto
qed

lemma unhex_range: "unhex_val ch \<noteq> -1 \<Longrightarrow> 0 \<le> unhex_val ch \<and> unhex_val ch < 16"
proof -
  have "\<forall>x \<in> set unhex. x = -1 \<or> 0 \<le> x \<and> x < 16" by (simp add: unhex_def)
  moreover have "unhex_val ch \<in> set unhex" unfolding unhex_val_def by (rule nth_mem) (simp add: unhex_def)
  ultimately show "unhex_val ch \<noteq> -1 \<Longrightarrow> ?thesis" by blast
qed

lemma unat_unhex: "unhex_val ch \<noteq> -1 \<Longrightarrow> unat (word_of_int (unhex_val ch) :: 64 word) = nat (unhex_val ch)"
  using unhex_range [of ch] by (simp add: unat_eq_nat_uint uint_word_of_int_eq take_bit_int_eq_self)

lemma on_chunk_size_leaves:
  assumes "within nul data 1 (lv_p l) l s" "hp_state s = s_chunk_size"
  shows "leaves nul data (lv_p l) st (on_chunk_size ch l s)"
proof (cases "add_digit 16 (hp_content_length s) (word_of_int (unhex_val ch))")
  case None
  then show ?thesis using assms by (simp add: on_chunk_size_def within_simps)
next
  case (Some m)
  then have "unhex_val ch \<noteq> -1 \<Longrightarrow> m \<noteq> ULLONG_MAX"
    using add_digit_bound [OF Some] unhex_range [of ch] by (simp add: unat_unhex nat_less_iff)
  then show ?thesis using assms Some by (simp add: on_chunk_size_def within_simps)
qed

lemma on_chunk_size_start_leaves:
  assumes "within nul data 1 (lv_p l) l s" "hp_state s = s_chunk_size_start"
  shows "leaves nul data (lv_p l) st (on_chunk_size_start ch l s)"
proof -
  have "unhex_val ch \<noteq> -1 \<Longrightarrow> (word_of_int (unhex_val ch) :: 64 word) \<noteq> ULLONG_MAX"
    using unhex_range [of ch] unat_unhex [of ch] unat_max by (auto simp: nat_less_iff)
  then show ?thesis using assms by (simp add: on_chunk_size_start_def within_simps)
qed

lemma to_read_bounds:
  assumes "p < length data" "n \<noteq> 0"
  shows "1 \<le> to_read data p n" "p + to_read data p n \<le> length data" "to_read data p n \<le> unat n"
proof -
  have "unat n \<noteq> 0" using assms(2) by (simp add: unat_eq_0)
  then show "1 \<le> to_read data p n" using assms(1) by (simp add: to_read_def)
qed (use assms in \<open>auto simp: to_read_def\<close>)

lemma read_rest: "n \<noteq> ULLONG_MAX \<Longrightarrow> k \<le> unat n \<Longrightarrow> n - word_of_nat k \<noteq> ULLONG_MAX"
proof -
  assume n: "n \<noteq> ULLONG_MAX" and k: "k \<le> unat n"
  have "unat n < unat ULLONG_MAX" using n unfolding ULLONG_MAX_def
    by (metis max_word_max word_less_nat_alt order_le_imp_less_or_eq)
  moreover have "unat (word_of_nat k :: 64 word) = k" using k by (metis le_unat_uoi)
  ultimately have "unat (n - word_of_nat k) < unat ULLONG_MAX"
    using k by (metis diff_le_self le_less_trans unat_sub word_le_nat_alt)
  then show ?thesis by auto
qed

lemma on_chunk_data_leaves:
  assumes "within nul data 1 (lv_p l) l s" "hp_state s = s_chunk_data"
  shows "leaves nul data (lv_p l) st (on_chunk_data data l s)"
proof -
  have w: "lv_p l < length data" "hp_content_length s \<noteq> 0" "hp_content_length s \<noteq> ULLONG_MAX"
    using assms by (auto simp: within_simps)
  note b = to_read_bounds [OF w(1,2)]
  have "lv_p l + to_read data (lv_p l) (hp_content_length s) - 1 < length data"
     "lv_p l \<le> lv_p l + to_read data (lv_p l) (hp_content_length s) - 1" using b by linarith+
  then show ?thesis using assms w read_rest [OF w(3) b(3)] by (simp add: on_chunk_data_def within_simps)
qed

subsection \<open>Scans\<close>

lemma hs_simps [simp]:
  "field_hs h_general" "field_hs h_C" "field_hs h_CO" "field_hs h_CON" "field_hs h_matching_connection"
    "field_hs h_matching_proxy_connection" "field_hs h_matching_content_length"
    "field_hs h_matching_transfer_encoding" "field_hs h_matching_upgrade" "field_hs h_connection"
    "field_hs h_content_length" "field_hs h_transfer_encoding" "field_hs h_upgrade"
    "\<not> field_hs h_content_length_num" "\<not> field_hs h_content_length_ws"
    "\<not> field_hs h_matching_transfer_encoding_token_start"
    "\<not> field_hs h_matching_transfer_encoding_chunked"
    "\<not> field_hs h_matching_transfer_encoding_token" "\<not> field_hs h_matching_connection_keep_alive"
    "\<not> field_hs h_matching_connection_close" "\<not> field_hs h_transfer_encoding_chunked"
    "\<not> field_hs h_connection_keep_alive" "\<not> field_hs h_connection_close" "value_hs h_general"
    "value_hs h_C" "value_hs h_CO" "value_hs h_CON" "value_hs h_matching_connection"
    "value_hs h_matching_proxy_connection" "value_hs h_matching_content_length"
    "value_hs h_matching_transfer_encoding" "value_hs h_matching_upgrade" "\<not> value_hs h_connection"
    "value_hs h_content_length" "\<not> value_hs h_transfer_encoding" "value_hs h_upgrade"
    "value_hs h_content_length_num" "value_hs h_content_length_ws"
    "value_hs h_matching_transfer_encoding_token_start" "value_hs h_matching_transfer_encoding_chunked"
    "value_hs h_matching_transfer_encoding_token" "value_hs h_matching_connection_keep_alive"
    "value_hs h_matching_connection_close" "value_hs h_transfer_encoding_chunked"
    "value_hs h_connection_keep_alive" "value_hs h_connection_close"
  by (simp_all add: field_hs_def value_hs_def)

lemma match_char_hs [simp]:
  "field_hs a \<Longrightarrow> field_hs b \<Longrightarrow> field_hs d \<Longrightarrow> field_hs (match_char w i c a b d)"
  "value_hs a \<Longrightarrow> value_hs b \<Longrightarrow> value_hs d \<Longrightarrow> value_hs (match_char w i c a b d)"
  by (simp_all add: match_char_def)

lemma field_char_keeps:
  assumes "field_hs (hp_header_state s)" "hp_header_state s \<noteq> h_general"
  shows "\<exists>s'. field_char ch c s = Some s' \<and> field_hs (hp_header_state s') \<and> hp_state s' = hp_state s \<and>
    hp_flags s' = hp_flags s \<and> hp_http_errno s' = hp_http_errno s"
  using assms unfolding field_char_def Let_def by (cases "hp_header_state s") simp_all

lemma field_scan_keeps:
  assumes "field_hs (hp_header_state s)"
  shows "\<exists>p' s'. field_scan r p s = Some (p', s') \<and> p \<le> p' \<and> p' \<le> p + length r \<and> field_hs (hp_header_state s') \<and>
    hp_state s' = hp_state s \<and> hp_flags s' = hp_flags s \<and> hp_http_errno s' = hp_http_errno s"
  using assms
proof (induction r p s rule: field_scan.induct)
  case (1 p s)
  then show ?case by simp
next
  case (2 ch r p s)
  show ?case
  proof (cases "token ch = NUL \<or> hp_header_state s = h_general")
    case True
    let ?k = "length (takeWhile (\<lambda>x. token x \<noteq> NUL) (take (min (length r + 1) max_header_size - 1) r))"
    have "?k \<le> length r" by (rule order_trans [OF length_takeWhile_le]) simp
    then show ?thesis using True 2(1) [OF refl _ _ refl] 2(3) by (fastforce simp: Let_def)
  next
    case False
    obtain s' where s': "field_char ch (token ch) s = Some s'" "field_hs (hp_header_state s')"
      "hp_state s' = hp_state s" "hp_flags s' = hp_flags s" "hp_http_errno s' = hp_http_errno s"
      using field_char_keeps [OF 2(3), of ch "token ch"] False by blast
    then show ?thesis using False 2(2) [OF refl _ _ s'(1) s'(2)] by (fastforce simp: Let_def)
  qed
qed

lemma value_char_keeps:
  "(case value_char ch h i n of Value_assert \<Rightarrow> \<not> value_hs h | Value_next h' j n' \<Rightarrow> value_hs h \<longrightarrow> value_hs h'
     | Value_error e h' \<Rightarrow> e \<noteq> CHPE_OK \<and> (value_hs h \<longrightarrow> value_hs h'))"
  unfolding value_char_def content_length_digit_def Let_def by (cases h) (simp_all split: option.split)

lemma value_scan_keeps:
  assumes "value_scan len r p h i n = (why, p', h', i', n')"
  shows "p \<le> p' \<and> p' \<le> p + length r \<and> (why = At_end \<longrightarrow> p' = p + length r) \<and>
    (why \<in> {At_cr, At_lf} \<longrightarrow> p' < p + length r) \<and> (value_hs h \<longrightarrow> value_hs h' \<and> why \<noteq> Bad_assert) \<and>
    (\<forall>e ho. why = Bad e ho \<longrightarrow> e \<noteq> CHPE_OK)"
  using assms
proof (induction len r p h i n rule: value_scan.induct)
  case (1 len p h i n)
  then show ?case by auto
next
  case (2 len ch r p h i n)
  show ?case
  proof (cases "ch = CR \<or> ch = LF \<or> \<not> plain_value_char len ch")
    case True
    then show ?thesis using 2(4) by (auto split: if_splits)
  next
    case plain: False
    show ?thesis
    proof (cases "h = h_general")
      case True
      let ?t = "take (min (length r + 1) max_header_size) (ch # r)"
      let ?k = "length (takeWhile (\<lambda>x. x \<noteq> CR \<and> x \<noteq> LF \<and> plain_value_char len x) ?t)"
      have k: "?k \<le> length ?t" "length ?t \<le> length r + 1" by (rule length_takeWhile_le) simp
      note step = 2(4) [unfolded value_scan.simps(2) Let_def]
      have pl: "ch = CR \<longleftrightarrow> False" "ch = LF \<longleftrightarrow> False" "plain_value_char len ch \<longleftrightarrow> True" using plain by auto
      have k1: "1 \<le> ?k" using plain by (simp add: max_header_size_def)
      consider "?k < length ?t" "?t ! ?k = CR \<or> ?t ! ?k = LF" | "?k < length ?t" "\<not> (?t ! ?k = CR \<or> ?t ! ?k = LF)"
        | "\<not> ?k < length ?t" "?k = length r + 1" | "\<not> ?k < length ?t" "?k \<noteq> length r + 1" by blast
      then show ?thesis
      proof cases
        case 1
        then have e: "value_scan len (drop (?k - 1) r) (p + ?k) h i n = (why, p', h', i', n')"
          using step unfolding pl True by (simp only: simp_thms if_True if_False)
        have "p + ?k + length (drop (?k - 1) r) = p + length (ch # r)" using k k1 1(1) by simp
        then show ?thesis using 2(1) [OF _ _ _ True refl refl 1(1,2) e] plain by auto
      next
        case 2
        then have "(why, p', h', i', n') = (Bad CHPE_INVALID_HEADER_TOKEN None, p + ?k, h, i, n)"
          using step unfolding pl True by (simp only: simp_thms if_True if_False)
        then show ?thesis using k by simp
      next
        case 3
        then have "(why, p', h', i', n') = (At_end, p + ?k, h, i, n)"
          using step unfolding pl True by (simp only: simp_thms if_True if_False)
        then show ?thesis using 3(2) by simp
      next
        case 4
        then have e: "value_scan len (drop ?k r) (p + ?k + 1) h i n = (why, p', h', i', n')"
          using step unfolding pl True by (simp only: simp_thms if_True if_False)
        have "p + ?k + 1 + length (drop ?k r) = p + length (ch # r)" using k 4(2) by simp
        then show ?thesis using 2(2) [OF _ _ _ True refl refl 4(1,2) e] plain by auto
      qed
    next
      case False
      note v = value_char_keeps [of h ch i n]
      show ?thesis
      proof (cases "value_char ch h i n")
        case (Value_next h1 j n1)
        then have e: "value_scan len r (p + 1) h1 j n1 = (why, p', h', i', n')"
          using 2(4) plain False by simp
        show ?thesis using 2(3) [OF _ _ _ False Value_next e] plain v Value_next by auto
      qed (use 2(4) plain False v in \<open>auto\<close>)
    qed
  qed
qed

subsection \<open>Steps with callbacks\<close>

lemma url_marks:
  "url_state st \<Longrightarrow> marks_ok l st \<Longrightarrow>
     lv_header_field_mark l = None \<and> lv_header_value_mark l = None \<and> lv_body_mark l = None"
  by (cases st) (simp_all add: marks_ok_def url_state_def body_state_def)

text \<open>The invariant at the head of the loop, where the buffer may be at its end.\<close>

definition at_head :: "bool \<Rightarrow> string \<Rightarrow> locals \<Rightarrow> 'b http_parser_scheme \<Rightarrow> bool" where
  "at_head nul data l s \<longleftrightarrow>
     lv_p l \<le> length data \<and> hp_http_errno s = CHPE_OK \<and> core nul s \<and> fresh 0 (lv_nread l) s \<and>
     marks_ok l (hp_state s) \<and> (NUL \<in> set data \<longrightarrow> nul)"

lemma one_mark:
  "marks_ok l st \<Longrightarrow>
     (if lv_header_field_mark l = None then 0 else 1 :: nat) + (if lv_header_value_mark l = None then 0 else 1) +
     (if lv_url_mark l = None then 0 else 1) + (if lv_body_mark l = None then 0 else 1) \<le> 1"
  by (cases st) (simp_all add: marks_ok_def url_state_def body_state_def)

definition run_ok :: "bool \<Rightarrow> string \<Rightarrow> halt + nat \<times> 'b http_parser_scheme \<Rightarrow> bool" where
  "run_ok nul data r \<longleftrightarrow>
     (case r of Inl h \<Rightarrow> h = Callback_stuck \<or> nul | Inr (n, s) \<Rightarrow> n \<le> max 1 (length data) \<and> parser_inv nul s)"

locale parser_callbacks =
  fixes cbs :: "'a http_parser_scheme settings"
  assumes settles:
      "on_message_begin cbs s = Some (v, s') \<Longrightarrow> settled s s'"
      "on_method cbs s = Some (v, s') \<Longrightarrow> settled s s'"
      "on_header_field cbs t s = Some (v, s') \<Longrightarrow> settled s s'"
      "on_header_value cbs t s = Some (v, s') \<Longrightarrow> settled s s'"
      "on_headers_complete cbs s = Some (v, s') \<Longrightarrow> settled s s'"
      "on_body cbs t s = Some (v, s') \<Longrightarrow> settled s s'"
    and completes: "on_message_complete cbs s = Some (v, s') \<Longrightarrow> completed s s'"
      "on_url cbs t s = Some (v, s') \<Longrightarrow> completed s s'"
begin

lemma notify_settled:
  assumes "\<And>v s'. cb s = Some (v, s') \<Longrightarrow> settled s s'"
    and "hp_http_errno s = CHPE_OK" and "er \<le> length data" and "err \<noteq> CHPE_OK"
    and "\<And>s'. settled s s' \<Longrightarrow> hp_http_errno s' = CHPE_OK \<Longrightarrow> leaves nul data p0 st (k s')"
  shows "leaves nul data p0 st (callback_notify cb err er l s k)"
  unfolding callback_notify_def using assms
  by (auto intro!: leaves_after_callback simp: asserting_def)

lemma data_settled:
  assumes "\<And>t v s'. cb t s = Some (v, s') \<Longrightarrow> settled s s'"
    and "hp_http_errno s = CHPE_OK" and "er \<le> length data" and "err \<noteq> CHPE_OK"
    and "\<And>s'. settled s s' \<Longrightarrow> hp_http_errno s' = CHPE_OK \<Longrightarrow> leaves nul data p0 st (k s')"
  shows "leaves nul data p0 st (callback_data cb err data mk stop er l s k)"
proof (cases mk)
  case None
  then show ?thesis using assms(2,5) by (simp add: callback_data_def asserting_def)
next
  case (Some m)
  then show ?thesis
    unfolding callback_data_def using assms by (auto intro!: leaves_after_callback simp: asserting_def)
qed

lemma data_completed:
  assumes "\<And>t v s'. cb t s = Some (v, s') \<Longrightarrow> completed s s'"
    and "hp_http_errno s = CHPE_OK" and "er \<le> length data" and "err \<noteq> CHPE_OK"
    and "\<And>s'. completed s s' \<Longrightarrow> hp_http_errno s' = CHPE_OK \<Longrightarrow> leaves nul data p0 st (k s')"
  shows "leaves nul data p0 st (callback_data cb err data mk stop er l s k)"
proof (cases mk)
  case None
  have "completed s s" by (simp add: completed_def settled_def)
  then show ?thesis using None assms(2,5) by (simp add: callback_data_def asserting_def)
next
  case (Some m)
  then show ?thesis
    unfolding callback_data_def using assms by (auto intro!: leaves_after_callback simp: asserting_def)
qed

lemma complete_leaves:
  assumes "within nul data k p0 l s" "no_marks l" "quiet_state (hp_state s)" "er \<le> length data"
    and "\<And>s'. hp_http_errno s' = CHPE_OK \<Longrightarrow> quiet_state (hp_state s') \<Longrightarrow> leaves nul data p0 st (f s')"
  shows "leaves nul data p0 st (callback_notify (on_message_complete cbs) CHPE_CB_message_complete er l s f)"
proof -
  have "hp_http_errno s' = CHPE_OK \<Longrightarrow> completed s s' \<Longrightarrow> quiet_state (hp_state s')" for s'
    using assms(3) by (auto simp: completed_def settledD quiet_state_def)
  then show ?thesis unfolding callback_notify_def using assms completes
    by (fastforce intro!: leaves_after_callback simp: asserting_def within_def)
qed

lemma within_quiet:
  assumes "within nul data k p0 l s" "no_marks l" "hp_http_errno s' = CHPE_OK" "quiet_state (hp_state s')"
  shows "within nul data k' p0 l s'"
  using assms by (simp add: within_def core_quiet no_marks_ok)

lemma message_done_leaves:
  assumes "within nul data k p0 l s" "no_marks l" "quiet_state (hp_state s)"
  shows "leaves nul data p0 st (message_done cbs l s)"
  unfolding message_done_def
  by (rule complete_leaves [OF assms]) (use assms in \<open>auto simp: within_def core_quiet no_marks_ok\<close>)

lemma on_start_req_leaves:
  assumes "within nul data 1 (lv_p l) l s" "hp_state s = s_start_req"
  shows "leaves nul data (lv_p l) st (on_start_req cbs ch l s)"
proof -
  have "no_marks l" "lv_p l < length data" "hp_http_errno s = CHPE_OK" "NUL \<in> set data \<longrightarrow> nul"
    using assms by (auto simp: within_def marks_ok_none url_state_def body_state_def)
  moreover from this have go: "hp_http_errno t = CHPE_OK \<Longrightarrow> hp_state t = s_req_method \<Longrightarrow>
      leaves nul data (lv_p l) st (callback_notify (on_message_begin cbs) CHPE_CB_message_begin (lv_p l + 1) l t
        (\<lambda>s. Break l s))" for t
    by (intro notify_settled) (auto dest: settles simp: settledD within_def no_marks_ok core_quiet quiet_state_def)
  moreover have "within nul data 0 (lv_p l) l s" using assms calculation
    by (simp add: within_def core_quiet quiet_state_def)
  ultimately show ?thesis unfolding on_start_req_def Let_def
    by (cases "first_method ch") (simp_all add: go [simplified])
qed

lemma on_req_method_leaves:
  assumes "within nul data 1 (lv_p l) l s" "hp_state s = s_req_method"
  shows "leaves nul data (lv_p l) st (on_req_method cbs ch l s)"
proof -
  have w: "no_marks l" "lv_p l < length data" "hp_http_errno s = CHPE_OK" "NUL \<in> set data \<longrightarrow> nul"
    using assms by (auto simp: within_def marks_ok_none url_state_def body_state_def)
  have go: "hp_http_errno t = CHPE_OK \<Longrightarrow> hp_state t \<in> {s_req_method, s_req_spaces_before_url} \<Longrightarrow>
      leaves nul data (lv_p l) st (callback_notify (on_method cbs) CHPE_CB_method (lv_p l) l t
                       (\<lambda>s. Break l (s\<lparr>hp_index := (hp_index s + 1) mod 32\<rparr>)))" for t
    using w by (auto intro!: notify_settled dest: settles
        simp: settledD within_def no_marks_ok core_quiet quiet_state_def)
  show ?thesis using w assms(2) unfolding on_req_method_def Let_def
    by (cases "find_switch (hp_method s) (hp_index s) ch") (simp_all add: go [simplified])
qed

lemma url_done_leaves:
  assumes "lv_p l < length data" "hp_http_errno s = CHPE_OK" "lv_header_field_mark l = None"
    "lv_header_value_mark l = None" "lv_body_mark l = None" "NUL \<in> set data \<longrightarrow> nul" "quiet_state (hp_state s)"
  shows "leaves nul data (lv_p l) st (url_done cbs data l s)"
  unfolding url_done_def
proof (rule data_completed)
  fix s' assume s': "completed s s'" "hp_http_errno s' = CHPE_OK"
  then have "quiet_state (hp_state s')" using assms(7) by (auto simp: completed_def settledD quiet_state_def)
  then show "leaves nul data (lv_p l) st (Break (l\<lparr>lv_url_mark := None\<rparr>) s')"
    using assms s' by (simp add: within_def core_quiet no_marks_ok no_marks_def)
qed (use assms completes(2) in auto)

lemma on_server_or_path_leaves:
  assumes "within nul data 1 (lv_p l) l s" "url_state (hp_state s)"
  shows "leaves nul data (lv_p l) st (on_server_or_path cbs addr data ch l s)"
proof -
  have "lv_p l < length data" "hp_http_errno s = CHPE_OK" "lv_header_field_mark l = None"
    "lv_header_value_mark l = None" "lv_body_mark l = None" "NUL \<in> set data \<longrightarrow> nul"
    using assms url_marks [of "hp_state s" l] by (simp_all add: within_def)
  then show ?thesis unfolding on_server_or_path_def
    by (auto intro!: url_done_leaves url_step_leaves simp: quiet_state_def)
qed

lemma on_header_field_state_leaves:
  assumes "within nul data 1 (lv_p l) l s" "hp_state s = s_header_field"
  shows "leaves nul data (lv_p l) st (on_header_field_state cbs data l s)"
proof -
  let ?p = "lv_p l"
  have w: "?p < length data" "hp_http_errno s = CHPE_OK" "field_hs (hp_header_state s)" "lv_header_value_mark l = None"
    "lv_url_mark l = None" "lv_body_mark l = None" "NUL \<in> set data \<longrightarrow> nul"
    using assms by (auto simp: within_def marks_ok_def core_def url_state_def body_state_def)
  obtain p' s' where f: "field_scan (drop ?p data) ?p s = Some (p', s')" "?p \<le> p'" "p' \<le> length data"
    "field_hs (hp_header_state s')" "hp_state s' = s_header_field" "hp_http_errno s' = CHPE_OK"
    using field_scan_keeps [OF w(3), of "drop ?p data" ?p] w(1,2) assms(2) by auto
  show ?thesis
  proof (cases "p' = length data")
    case True
    then have "?p \<le> p' - 1" "p' - 1 < length data" using w(1) by auto
    then show ?thesis using f w True
      by (simp add: on_header_field_state_def Let_def within_def core_def fresh_def marks_ok_def)
  next
    case False
    then show ?thesis using f w settles
      by (auto intro!: data_settled simp: on_header_field_state_def Let_def settledD within_def core_quiet quiet_state_def
          no_marks_ok no_marks_def)
  qed
qed

lemma on_header_value_state_leaves:
  assumes "within nul data 1 (lv_p l) l s" "hp_state s = s_header_value"
  shows "leaves nul data (lv_p l) s_header_value (on_header_value_state cbs data l s)"
proof -
  let ?p = "lv_p l"
  have w: "?p < length data" "hp_http_errno s = CHPE_OK" "value_hs (hp_header_state s) \<or> nul" "lv_header_field_mark l = None"
    "lv_url_mark l = None" "lv_body_mark l = None" "NUL \<in> set data \<longrightarrow> nul"
    using assms by (auto simp: within_def marks_ok_def core_def url_state_def body_state_def)
  obtain why p' h i n where v: "value_scan (hp_lenient_http_headers s) (drop ?p data) ?p (hp_header_state s) (hp_index s)
      (hp_content_length s) = (why, p', h, i, n)" by (metis prod_cases5)
  note k = value_scan_keeps [OF this]
  show ?thesis
  proof (cases why)
    case At_end
    then have "?p \<le> p' - 1" "p' - 1 < length data" using k w(1) by auto
    then show ?thesis using At_end k w assms(2)
      by (auto simp: on_header_value_state_def v Let_def within_def core_def fresh_def marks_ok_def)
  next
      case At_cr
    then have q: "p' < length data" "?p \<le> p'" "value_hs h \<or> nul" using k w(1,3) by auto
    show ?thesis unfolding on_header_value_state_def Let_def v At_cr prod.case value_end.case
      by (rule data_settled) (use q w settles in
        \<open>auto simp: settled_def within_def core_def fresh_def no_marks_ok no_marks_def\<close>)
  next
    case At_lf
    then have q: "p' < length data" "?p \<le> p'" "value_hs h \<or> nul" using k w(1,3) by auto
    then have r: "leaves nul data ?p s_header_value
        (callback_data (on_header_value cbs) CHPE_CB_header_value data mk p' p' l1 t
          (\<lambda>s. Reexecute (l1\<lparr>lv_header_value_mark := None\<rparr>) s))"
      if "hp_http_errno t = CHPE_OK" "hp_state t = s_header_almost_done" "hp_header_state t = h"
        "lv_p l1 = p'" "lv_header_field_mark l1 = None" "lv_url_mark l1 = None" "lv_body_mark l1 = None" for l1 t mk
      by (rule_tac data_settled) (use that w settles in
        \<open>auto simp: settled_def within_def core_def fresh_def no_marks_ok no_marks_def rank_def\<close>)
    show ?thesis unfolding on_header_value_state_def Let_def v At_lf prod.case value_end.case
      using q w by (auto intro!: r)
  next
    case (Bad e ho)
    then show ?thesis using k w(1) by (auto simp: on_header_value_state_def v Let_def)
  next
    case Bad_assert
    then show ?thesis using k w(3) by (auto simp: on_header_value_state_def v Let_def)
  qed
qed

lemma on_header_value_discard_lws_leaves:
  assumes "within nul data 1 (lv_p l) l s" "hp_state s = s_header_value_discard_lws"
  shows "leaves nul data (lv_p l) s_header_value_discard_lws (on_header_value_discard_lws cbs data ch l s)"
proof -
  have w: "no_marks l" "lv_p l < length data" "hp_http_errno s = CHPE_OK" "NUL \<in> set data \<longrightarrow> nul"
    using assms by (auto simp: within_def marks_ok_none url_state_def body_state_def)
  have "leaves nul data (lv_p l) s_header_value_discard_lws
     (callback_data (on_header_value cbs) CHPE_CB_header_value data mk (lv_p l) (lv_p l) l1 t (Reexecute l2))"
    if "hp_http_errno t = CHPE_OK" "hp_state t = s_header_field_start" "lv_p l2 = lv_p l" "no_marks l2" for l1 l2 t mk
    by (rule data_settled) (use that w settles in
      \<open>auto simp: settledD within_def core_quiet quiet_state_def no_marks_ok rank_def\<close>)
  moreover have "no_marks (l\<lparr>lv_header_value_mark := None\<rparr>)" using w(1) by (simp add: no_marks_def)
  moreover have "within nul data 0 (lv_p l) l (s\<lparr>hp_state := s_header_value_discard_ws\<rparr>)"
    using w by (simp add: within_def core_quiet quiet_state_def no_marks_ok)
  ultimately show ?thesis using w(3) unfolding on_header_value_discard_lws_def Let_def by simp
qed

lemma on_headers_done_leaves:
  assumes "within nul data 1 (lv_p l) l s" "hp_state s = s_headers_done"
  shows "leaves nul data (lv_p l) st (on_headers_done cbs ch l s)"
proof -
  let ?s = "s\<lparr>hp_nread := 0\<rparr>" and ?l = "l\<lparr>lv_nread := 0\<rparr>"
  have w: "no_marks ?l" "lv_p l < length data" "hp_http_errno s = CHPE_OK" "NUL \<in> set data \<longrightarrow> nul"
    using assms by (auto simp: within_def marks_ok_none url_state_def body_state_def no_marks_def marks_ok_def)
  have i: "within nul data 0 (lv_p l) ?l ?s" "quiet_state (hp_state ?s)" using w assms(2)
    by (simp_all add: within_def core_quiet quiet_state_def no_marks_ok)
  note c = complete_leaves [OF i(1) w(1) i(2)] and m = message_done_leaves [OF i(1) w(1) i(2)]
  have u: "leaves nul data (lv_p l) st
     (callback_notify (on_message_complete cbs) CHPE_CB_message_complete (lv_p l + 1) ?l ?s
       (\<lambda>s. Return (lv_p l + 1) (s\<lparr>hp_nread := 0\<rparr>)))"
    by (rule c) (use w(2) in \<open>auto simp: parser_inv_def core_quiet\<close>)
  show ?thesis using w assms(2) m u unfolding on_headers_done_def Let_def
    by (simp add: within_def core_def fresh_def no_marks_ok set_errno_def parser_inv_def)
qed

lemma on_headers_almost_done_leaves:
  assumes "within nul data 1 (lv_p l) l s" "hp_state s = s_headers_almost_done"
  shows "leaves nul data (lv_p l) s_headers_almost_done (on_headers_almost_done cbs ch l s)"
proof -
  have w: "no_marks l" "lv_p l < length data" "hp_http_errno s = CHPE_OK" "NUL \<in> set data \<longrightarrow> nul"
    using assms by (auto simp: within_def marks_ok_none url_state_def body_state_def)
  have i: "quiet_state (hp_state s)" using assms(2) by (simp add: quiet_state_def)
  have m: "leaves nul data (lv_p l) s_headers_almost_done
     (callback_notify (on_message_complete cbs) CHPE_CB_message_complete (lv_p l + 1) l s (\<lambda>s. Break l s))"
    using message_done_leaves [OF assms(1) w(1) i] unfolding message_done_def .
  let ?s = "s\<lparr>hp_state := s_headers_done, hp_upgrade := (F_UPGRADE \<in> hp_flags s \<or> hp_method s = Connect)\<rparr>"
  have r: "hp_http_errno s' = CHPE_OK \<Longrightarrow> hp_state s' = s_headers_done" if "on_headers_complete cbs ?s = Some (v, s')" for v s'
    using settles(5) [OF that] by (auto simp: settled_def)
  show ?thesis
  proof (cases "on_headers_complete cbs ?s")
    case None
    then show ?thesis using w m by (simp add: on_headers_almost_done_def Let_def)
  next
    case (Some x)
    then obtain v s' where x: "on_headers_complete cbs ?s = Some (v, s')" by fastforce
    show ?thesis using w m r [OF x] unfolding on_headers_almost_done_def Let_def x
      by (simp add: within_def core_quiet quiet_state_def no_marks_ok rank_def set_errno_def parser_inv_def)
  qed
qed

lemma on_body_identity_leaves:
  assumes "within nul data 1 (lv_p l) l s" "hp_state s = s_body_identity"
  shows "leaves nul data (lv_p l) s_body_identity (on_body_identity cbs data l s)"
proof -
  have w: "lv_p l < length data" "hp_content_length s \<noteq> 0" "hp_content_length s \<noteq> ULLONG_MAX" "hp_http_errno s = CHPE_OK"
      "lv_header_field_mark l = None" "lv_header_value_mark l = None" "lv_url_mark l = None" "NUL \<in> set data \<longrightarrow> nul"
    using assms by (auto simp: within_def core_def marks_ok_def url_state_def)
  let ?k = "to_read data (lv_p l) (hp_content_length s)"
  note b = to_read_bounds [OF w(1,2)]
  have p: "lv_p l + ?k - 1 < length data" "lv_p l \<le> lv_p l + ?k - 1" using b by linarith+
  have "leaves nul data (lv_p l) s_body_identity
     (callback_data (on_body cbs) CHPE_CB_body data mk stop (lv_p l + ?k - 1) l1 t (Reexecute l2))"
    if "hp_http_errno t = CHPE_OK" "hp_state t = s_message_done" "lv_p l2 = lv_p l + ?k - 1" "no_marks l2"
    for l1 l2 t mk stop
    by (rule data_settled) (use that w p settles in
      \<open>auto simp: settledD within_def core_quiet quiet_state_def no_marks_ok rank_def\<close>)
  moreover have "no_marks (l\<lparr>lv_p := lv_p l + ?k - 1, lv_body_mark := None\<rparr>)" using w by (simp add: no_marks_def)
  moreover have "hp_content_length s - word_of_nat ?k \<noteq> 0 \<Longrightarrow>
      within nul data 0 (lv_p l) (l\<lparr>lv_body_mark := mk, lv_p := lv_p l + ?k - 1\<rparr>)
        (s\<lparr>hp_content_length := hp_content_length s - word_of_nat ?k\<rparr>)" for mk
    using w p assms(2) read_rest [OF w(3) b(3)] by (simp add: within_def core_def fresh_def marks_ok_def body_state_def)
  ultimately show ?thesis using w unfolding on_body_identity_def Let_def by (simp add: no_marks_def)
qed

lemma on_chunk_data_almost_done_leaves:
  assumes "within nul data 1 (lv_p l) l s" "hp_state s = s_chunk_data_almost_done"
  shows "leaves nul data (lv_p l) st (on_chunk_data_almost_done cbs data ch l s)"
proof -
  have w: "lv_p l < length data" "hp_content_length s = 0" "F_CHUNKED \<in> hp_flags s" "hp_http_errno s = CHPE_OK"
      "lv_header_field_mark l = None" "lv_header_value_mark l = None" "lv_url_mark l = None" "NUL \<in> set data \<longrightarrow> nul"
    using assms by (auto simp: within_def core_def marks_ok_def url_state_def)
  have "leaves nul data (lv_p l) st
     (callback_data (on_body cbs) CHPE_CB_body data mk (lv_p l) (lv_p l + 1) l t
        (\<lambda>s. Break (l\<lparr>lv_body_mark := None\<rparr>) s))"
    if "hp_http_errno t = CHPE_OK" "hp_state t = s_chunk_data_done" "F_CHUNKED \<in> hp_flags t" for t mk
    by (rule data_settled) (use that w settles in
      \<open>auto simp: settled_def within_def core_def fresh_def no_marks_ok no_marks_def\<close>)
  then show ?thesis using w unfolding on_chunk_data_almost_done_def by simp
qed

lemma execute_byte_leaves:
  assumes "within nul data 1 (lv_p l) l s"
  shows "leaves nul data (lv_p l) (hp_state s) (execute_byte cbs addr data l s)"
proof -
  have w: "lv_p l < length data" "hp_http_errno s = CHPE_OK" "NUL \<in> set data \<longrightarrow> nul" "marks_ok l (hp_state s)"
    using assms by (auto simp: within_def)
  note small = small_steps_leave [OF assms]
  note expect = expect_char_leaves [OF assms]
  have n: "no_marks l" if "\<not> url_state (hp_state s)" "\<not> body_state (hp_state s)" "hp_state s \<noteq> s_header_field"
      "hp_state s \<noteq> s_header_value" using that w(4) marks_ok_none by blast
  have u: "leaves nul data (lv_p l) st (on_schema addr ch l s)" if "url_state (hp_state s)" for st ch
    using w that url_marks [OF that w(4)] unfolding on_schema_def by (auto intro!: url_step_leaves)
  have sp: "leaves nul data (lv_p l) st (on_spaces_before_url addr ch l s)" if "hp_state s = s_req_spaces_before_url" for st ch
    using w that n by (auto intro!: url_step_leaves simp: on_spaces_before_url_def Let_def no_marks_def url_state_def
      body_state_def within_def core_quiet quiet_state_def no_marks_ok)
  have e: "leaves nul data (lv_p l) st (expect_char c st' ch l s)"
    if "hp_state s \<in> {s_req_http_H, s_req_http_HT, s_req_http_HTT, s_req_http_I, s_req_http_IC, s_req_http_HTTP,
           s_header_value_discard_ws_almost_done}" "quiet_state st'" for st c st' ch
    by (rule expect) (use that n in \<open>auto simp: url_state_def body_state_def\<close>)
  have m: "leaves nul data (lv_p l) st (message_done cbs l s)" if "hp_state s = s_message_done" for st
    by (rule message_done_leaves [OF assms]) (use that n in \<open>auto simp: url_state_def body_state_def quiet_state_def\<close>)
  have v: "leaves nul data (lv_p l) st (on_header_value_start ch l s)" if "hp_state s = s_header_value_start" for st ch
    using assms that n by (intro on_header_value_start_leaves)
      (auto simp: within_def core_def no_marks_def url_state_def body_state_def value_hs_def)
  note steps = small u e m v sp on_start_req_leaves [OF assms] on_req_method_leaves [OF assms]
    on_server_or_path_leaves [OF assms] on_header_field_start_leaves [OF assms] on_header_field_state_leaves [OF assms]
    on_header_value_discard_ws_leaves [OF assms _ refl] on_header_value_state_leaves [OF assms]
    on_header_value_lws_leaves [OF assms] on_header_value_discard_lws_leaves [OF assms]
    on_headers_almost_done_leaves [OF assms] on_headers_done_leaves [OF assms] on_body_identity_leaves [OF assms]
    on_chunk_size_start_leaves [OF assms] on_chunk_size_leaves [OF assms] on_chunk_data_leaves [OF assms]
    on_chunk_data_almost_done_leaves [OF assms]
  show ?thesis
    unfolding execute_byte_def Let_def
    by (cases "hp_state s") (simp_all add: steps url_state_def quiet_state_def)
qed

lemma loop_head_leaves:
  assumes "at_head nul data l s" "lv_p l < length data"
  shows "leaves nul data (lv_p l) (hp_state s) (loop_head cbs addr data l s)"
proof (cases "parsing_header (hp_state s)")
  case True
  let ?l = "l\<lparr>lv_nread := lv_nread l + 1\<rparr>"
  have "within nul data 1 (lv_p ?l) ?l s" using assms
    by (simp add: at_head_def within_def fresh_def marks_ok_def)
  then have "leaves nul data (lv_p l) (hp_state s) (execute_byte cbs addr data ?l s)"
    using execute_byte_leaves by fastforce
  then show ?thesis using True assms(2) by (simp add: loop_head_def)
next
  case False
  then have "within nul data 1 (lv_p l) l s" using assms
    by (auto simp: at_head_def within_def fresh_def parsing_header_def)
  then show ?thesis using False execute_byte_leaves by (simp add: loop_head_def)
qed

lemma loop_end_leaves:
  assumes "at_head nul data l s"
  shows "leaves nul data p0 st (loop_end cbs data l s)"
proof -
  define J where "J t \<longleftrightarrow> hp_http_errno t = CHPE_OK \<and> core nul t \<and> fresh 0 (lv_nread l) t"
    for t :: "'a http_parser_scheme"
  have p: "lv_p l \<le> length data" and j: "J s" and marks: "marks_ok l (hp_state s)"
    using assms by (simp_all add: at_head_def J_def)
  have step: "J t \<Longrightarrow> completed t t' \<Longrightarrow> hp_http_errno t' = CHPE_OK \<Longrightarrow> J t'" for t t'
    by (auto simp: J_def completed_def settledD core_quiet quiet_state_def)
  have data: "J t \<Longrightarrow> (\<And>u v s s'. cb u s = Some (v, s') \<Longrightarrow> completed s s') \<Longrightarrow> err \<noteq> CHPE_OK \<Longrightarrow>
      (\<And>t'. J t' \<Longrightarrow> leaves nul data p0 st (k t')) \<Longrightarrow>
      leaves nul data p0 st (callback_data cb err data mk (lv_p l) (lv_p l) l t k)" for t cb err mk k
    using p step [of t] by (rule_tac data_completed) (auto simp: J_def)
  have r: "J t \<Longrightarrow> leaves nul data p0 st (Return (length data) (t\<lparr>hp_nread := lv_nread l\<rparr>))" for t
    by (simp add: J_def parser_inv_def core_def fresh_def)
  have c: "settled t t' \<Longrightarrow> completed t t'" for t t' :: "'a http_parser_scheme"
    by (simp add: completed_def)
  show ?thesis
    unfolding loop_end_def Let_def leaves_asserting if_P [OF one_mark [OF marks]]
    by (rule data [OF j c [OF settles(3)]], assumption, simp, rule data [OF _ c [OF settles(4)]], assumption, assumption,
        simp, rule data [OF _ completes(2)], assumption, assumption, simp, rule data [OF _ c [OF settles(6)]], assumption,
        assumption, simp, rule r)
qed

lemma execute_loop_ends:
  assumes "if again then within nul data 1 0 l s else at_head nul data l s"
  shows "\<exists>r. execute_loop cbs addr data again l s = Some r \<and> run_ok nul data r"
  using assms
proof (induction "7 * (length data - lv_p l) + (if again then rank (hp_state s) else 6)" arbitrary: again l s
    rule: less_induct)
  case less
  let ?c = "if again then execute_byte cbs addr data l s
            else if lv_p l < length data then loop_head cbs addr data l s else loop_end cbs data l s"
  have rank: "rank st < 6" for st by (cases st) (simp_all add: rank_def)
  have start: "lv_p l < length data \<Longrightarrow> again \<Longrightarrow> within nul data 1 (lv_p l) l s"
    using less(2) by (simp add: within_def)
  have c: "leaves nul data (lv_p l) (hp_state s) ?c"
    using less(2) execute_byte_leaves [OF start] loop_head_leaves loop_end_leaves by (auto simp: within_def)
  show ?case
  proof (cases ?c)
    case (Break l' s')
    then have w: "within nul data 0 (lv_p l) l' s'" using c by simp
    then have "at_head nul data (l'\<lparr>lv_p := lv_p l' + 1\<rparr>) s'"
      by (simp add: within_def at_head_def marks_ok_def)
    moreover have "lv_p l \<le> lv_p l'" "lv_p l' < length data" using w by (simp_all add: within_def)
    ultimately have "\<exists>r. execute_loop cbs addr data False (l'\<lparr>lv_p := lv_p l' + 1\<rparr>) s' = Some r \<and> run_ok nul data r"
      by (intro less(1)) auto
    then show ?thesis by (subst execute_loop.simps) (simp only: Break control.case)
  next
    case (Reexecute l' s')
    then have w: "within nul data 1 (lv_p l) l' s'" "rank (hp_state s') < rank (hp_state s)" using c by simp_all
    then have "within nul data 1 0 l' s'" "lv_p l \<le> lv_p l'" by (simp_all add: within_def)
    then have "\<exists>r. execute_loop cbs addr data True l' s' = Some r \<and> run_ok nul data r"
      using w(2) rank [of "hp_state s'"] by (intro less(1)) auto
    then show ?thesis by (subst execute_loop.simps) (simp only: Reexecute control.case)
  next
    case (Return n s')
    then show ?thesis using c by (subst execute_loop.simps) (simp only: Return control.case, auto simp: run_ok_def)
  next
    case (Failed h)
    then show ?thesis using c by (subst execute_loop.simps) (simp only: Failed control.case, simp add: run_ok_def)
  qed
qed

lemma start_locals_head:
  assumes "parser_inv nul s" "hp_http_errno s = CHPE_OK" "NUL \<in> set data \<longrightarrow> nul"
  shows "at_head nul data (start_locals s) s"
  using assms by (simp add: at_head_def parser_inv_def start_locals_def marks_ok_def)

lemma http_parser_execute_ends:
  assumes "parser_inv nul s" "NUL \<in> set data \<Longrightarrow> nul"
  shows "\<exists>r. http_parser_execute cbs addr data s = Some r \<and> run_ok nul data r"
proof (cases "hp_http_errno s = CHPE_OK \<and> data \<noteq> []")
  case True
  then show ?thesis using execute_loop_ends [of False nul data "start_locals s" s] start_locals_head [of nul s data] assms
    by (simp add: http_parser_execute_def)
next
  case False
  have "on_message_complete cbs s = Some (v, s') \<Longrightarrow> parser_inv nul s'"
    if "hp_state s = s_body_identity_eof" "hp_http_errno s = CHPE_OK" for v s'
    using completes(1) [of s v s'] that
    by (auto simp: completed_def parser_inv_def settledD core_quiet quiet_state_def)
  then show ?thesis using False assms(1)
    by (auto simp: http_parser_execute_def execute_eof_def run_ok_def parser_inv_def split: option.split)
qed

end

end
