(* ===== verification/Http_Request.thy ===== *)
theory Http_Request
  imports Http_Parser_Props Crow_Query Crow_Response
begin

section \<open>Crow: from parser callbacks to a request\<close>

text \<open>
  \<open>parser.h\<close>: \<open>HTTPParser\<close> is an \<open>http_parser\<close> with the request it builds. Its handler is the connection
  that owns it; what the handler does to the object is an argument here and defined for connections. A
  string that was moved from is empty.
\<close>

record crow_parser = http_parser +
  cp_req :: crow_request
  cp_url_params :: query_string
  cp_header_building_state :: nat
  cp_message_complete :: bool
  cp_header_field :: string
  cp_header_value :: string

record 's handler =
  h_handle_url :: "'s \<Rightarrow> 's option"
  h_handle_header :: "'s \<Rightarrow> 's option"
  h_handle :: "'s \<Rightarrow> 's option"

text \<open>\<open>request()\<close>; the members it leaves uninitialised are set before anything reads them.\<close>

definition empty_request :: crow_request where
  "empty_request =
     \<lparr>rq_method = Get, rq_raw_url = '''', rq_url = '''', rq_headers = [], rq_body = '''', rq_remote_ip = '''',
      rq_ver_major = 0, rq_ver_minor = 0, rq_keep_alive = False, rq_close_connection = False,
      rq_upgrade = False\<rparr>"

text \<open>A callback that returns 0.\<close>

definition returns0 :: "'s option \<Rightarrow> (int \<times> 's) option" where
  "returns0 r = map_option (\<lambda>s. (0, s)) r"

definition cp_on_message_begin :: "'a crow_parser_scheme \<Rightarrow> (int \<times> 'a crow_parser_scheme) option" where
  "cp_on_message_begin s = Some (0, s)"

definition cp_on_method :: "'a crow_parser_scheme \<Rightarrow> (int \<times> 'a crow_parser_scheme) option" where
  "cp_on_method s = Some (0, s\<lparr>cp_req := (cp_req s)\<lparr>rq_method := hp_method s\<rparr>\<rparr>)"

definition cp_on_url ::
  "'a crow_parser_scheme handler \<Rightarrow> string \<Rightarrow> 'a crow_parser_scheme \<Rightarrow> (int \<times> 'a crow_parser_scheme) option" where
  "cp_on_url hl at s =
     (let raw = rq_raw_url (cp_req s) @ at
      in case new_query raw True of
           None \<Rightarrow> None
         | Some q \<Rightarrow>
             returns0 (h_handle_url hl
               (s\<lparr>cp_req := (cp_req s)\<lparr>rq_raw_url := raw,
                    rq_url := (if hp_qs_point s \<noteq> 0 then take (hp_qs_point s) raw else raw)\<rparr>,
                  cp_url_params := q\<rparr>)))"

definition emplace_header :: "string \<Rightarrow> string \<Rightarrow> 'a crow_parser_scheme \<Rightarrow> 'a crow_parser_scheme" where
  "emplace_header f v s = s\<lparr>cp_req := (cp_req s)\<lparr>rq_headers := ci_emplace (rq_headers (cp_req s)) f v\<rparr>\<rparr>"

definition cp_on_header_field ::
  "string \<Rightarrow> 'a crow_parser_scheme \<Rightarrow> (int \<times> 'a crow_parser_scheme) option" where
  "cp_on_header_field at s =
     Some (0,
       if cp_header_building_state s = 0 then
         (let s = (if cp_header_value s \<noteq> [] then
                     (emplace_header (cp_header_field s) (cp_header_value s) s)
                       \<lparr>cp_header_field := [], cp_header_value := []\<rparr>
                   else s)
          in s\<lparr>cp_header_field := at, cp_header_building_state := 1\<rparr>)
       else if cp_header_building_state s = 1 then s\<lparr>cp_header_field := cp_header_field s @ at\<rparr>
       else s)"

definition cp_on_header_value ::
  "string \<Rightarrow> 'a crow_parser_scheme \<Rightarrow> (int \<times> 'a crow_parser_scheme) option" where
  "cp_on_header_value at s =
     Some (0,
       if cp_header_building_state s = 0 then s\<lparr>cp_header_value := cp_header_value s @ at\<rparr>
       else if cp_header_building_state s = 1 then s\<lparr>cp_header_building_state := 0, cp_header_value := at\<rparr>
       else s)"

text \<open>Whether to keep the connection, and whether to close it, by the version and the flags.\<close>

definition set_connection_parameters :: "'a crow_parser_scheme \<Rightarrow> 'a crow_parser_scheme" where
  "set_connection_parameters s =
     (let v10 = (hp_http_major s = 1 \<and> hp_http_minor s = 0); v11 = (hp_http_major s = 1 \<and> hp_http_minor s = 1)
      in s\<lparr>cp_req := (cp_req s)
             \<lparr>rq_ver_major := hp_http_major s, rq_ver_minor := hp_http_minor s,
              rq_keep_alive :=
                (if v10 then F_CONNECTION_KEEP_ALIVE \<in> hp_flags s else v11),
              rq_close_connection :=
                (if v10 then F_CONNECTION_KEEP_ALIVE \<notin> hp_flags s
                 else v11 \<and> F_CONNECTION_CLOSE \<in> hp_flags s),
              rq_upgrade := hp_upgrade s\<rparr>\<rparr>)"

definition cp_on_headers_complete ::
  "'a crow_parser_scheme handler \<Rightarrow> 'a crow_parser_scheme \<Rightarrow> (int \<times> 'a crow_parser_scheme) option" where
  "cp_on_headers_complete hl s =
     (let s = (if cp_header_field s \<noteq> [] then
                 (emplace_header (cp_header_field s) (cp_header_value s) s)
                   \<lparr>cp_header_field := [], cp_header_value := []\<rparr>
               else s)
      in returns0 (h_handle_header hl (set_connection_parameters s)))"

definition cp_on_body ::
  "string \<Rightarrow> 'a crow_parser_scheme \<Rightarrow> (int \<times> 'a crow_parser_scheme) option" where
  "cp_on_body at s = Some (0, s\<lparr>cp_req := (cp_req s)\<lparr>rq_body := rq_body (cp_req s) @ at\<rparr>\<rparr>)"

definition cp_on_message_complete ::
  "'a crow_parser_scheme handler \<Rightarrow> 'a crow_parser_scheme \<Rightarrow> (int \<times> 'a crow_parser_scheme) option" where
  "cp_on_message_complete hl s = returns0 (h_handle hl (s\<lparr>cp_message_complete := True\<rparr>))"

definition crow_settings :: "'a crow_parser_scheme handler \<Rightarrow> 'a crow_parser_scheme settings" where
  "crow_settings hl =
     \<lparr>on_message_begin = cp_on_message_begin, on_method = cp_on_method, on_url = cp_on_url hl,
      on_header_field = cp_on_header_field, on_header_value = cp_on_header_value,
      on_headers_complete = cp_on_headers_complete hl, on_body = cp_on_body,
      on_message_complete = cp_on_message_complete hl\<rparr>"

text \<open>The value of \<open>feed\<close>: \<open>false\<close> on error, and when a part of the buffer was not parsed.\<close>

definition feed_value :: "nat \<Rightarrow> nat \<times> 'a crow_parser_scheme \<Rightarrow> bool \<times> 'a crow_parser_scheme" where
  "feed_value len r = (hp_http_errno (snd r) = CHPE_OK \<and> fst r = len, snd r)"

definition feed ::
  "'a crow_parser_scheme handler \<Rightarrow> nat \<Rightarrow> string \<Rightarrow> 'a crow_parser_scheme
   \<Rightarrow> (halt + bool \<times> 'a crow_parser_scheme) option" where
  "feed hl addr data s =
     (if cp_message_complete s then Some (Inr (True, s))
      else map_option (map_sum id (feed_value (length data)))
             (http_parser_execute (crow_settings hl) addr data s))"

text \<open>\<open>done()\<close> is \<open>feed(nullptr, 0)\<close>.\<close>

definition feed_done ::
  "('a crow_parser_scheme \<Rightarrow> 'a crow_parser_scheme option) \<Rightarrow> 'a crow_parser_scheme
   \<Rightarrow> halt + bool \<times> 'a crow_parser_scheme" where
  "feed_done hdl s =
     (if cp_message_complete s then Inr (True, s)
      else if hp_http_errno s \<noteq> CHPE_OK then Inr (False, s)
      else map_sum id (feed_value 0)
             (execute_eof (\<lambda>s. returns0 (hdl (s\<lparr>cp_message_complete := True\<rparr>))) s))"

definition clear_parser :: "'a crow_parser_scheme \<Rightarrow> 'a crow_parser_scheme" where
  "clear_parser s =
     s\<lparr>cp_req := empty_request, cp_url_params := empty_query, cp_header_field := [], cp_header_value := [],
       cp_header_building_state := 0, hp_qs_point := 0, cp_message_complete := False, hp_state := s_start_req\<rparr>"

definition new_parser :: crow_parser where
  "new_parser =
     http_parser_init
       \<lparr>hp_flags = {}, hp_state = s_start_req, hp_header_state = h_general, hp_index = 0,
        hp_uses_transfer_encoding = False, hp_allow_chunked_length = False,
        hp_lenient_http_headers = False, hp_nread = 0, hp_content_length = 0, hp_qs_point = 0,
        hp_http_major = 0, hp_http_minor = 0, hp_method = Delete, hp_http_errno = CHPE_OK,
        hp_upgrade = False, cp_req = empty_request, cp_url_params = empty_query, cp_header_building_state = 0,
        cp_message_complete = False, cp_header_field = [], cp_header_value = []\<rparr>"

subsection \<open>Every run of a parser\<close>

text \<open>
  What the parser relies on in its owner, who is called from three callbacks; \<open>HTTPParser\<close> then gives the
  callbacks what \<open>http_parser_execute\<close> relies on.
\<close>

definition handler_ok :: "'a crow_parser_scheme handler \<Rightarrow> bool" where
  "handler_ok hl \<longleftrightarrow>
     (\<forall>s s'. h_handle_url hl s = Some s' \<longrightarrow> completed s s') \<and>
     (\<forall>s s'. h_handle_header hl s = Some s' \<longrightarrow> settled s s') \<and>
     (\<forall>s s'. h_handle hl s = Some s' \<longrightarrow> completed s s')"

text \<open>Objects whose parsers agree on what matters to the parser.\<close>

definition same_parser :: "'a http_parser_scheme \<Rightarrow> 'a http_parser_scheme \<Rightarrow> bool" where
  "same_parser s t \<longleftrightarrow>
     hp_state s = hp_state t \<and> hp_header_state s = hp_header_state t \<and> hp_flags s = hp_flags t \<and>
     hp_content_length s = hp_content_length t"

lemma settled_same: "same_parser s t \<Longrightarrow> settled t s' \<Longrightarrow> settled s s'"
  by (auto simp: same_parser_def settled_def)

lemma same_parser_update [simp]: "same_parser s (s\<lparr>cp_req := r, cp_url_params := q\<rparr>)"
  "same_parser s (s\<lparr>cp_message_complete := b\<rparr>)"
  by (simp_all add: same_parser_def)

lemma complete_same:
  "same_parser s (set_connection_parameters
     (if cp_header_field s \<noteq> [] then
        (emplace_header (cp_header_field s) (cp_header_value s) s)\<lparr>cp_header_field := [], cp_header_value := []\<rparr>
      else s))"
  by (simp add: same_parser_def set_connection_parameters_def emplace_header_def Let_def)

locale crow_client =
  fixes hl :: "'a crow_parser_scheme handler"
  assumes client: "handler_ok hl"
begin

lemma handler_keeps:
  "h_handle_url hl s = Some s' \<Longrightarrow> completed s s'"
  "h_handle_header hl s = Some s' \<Longrightarrow> settled s s'"
  "h_handle hl s = Some s' \<Longrightarrow> completed s s'"
  using client by (simp_all add: handler_ok_def)

end

sublocale crow_client \<subseteq> http: parser_callbacks "crow_settings hl"
proof
  fix s s' :: "'a crow_parser_scheme" and v t
  show "on_message_begin (crow_settings hl) s = Some (v, s') \<Longrightarrow> settled s s'"
    by (simp add: crow_settings_def cp_on_message_begin_def)
  show "on_method (crow_settings hl) s = Some (v, s') \<Longrightarrow> settled s s'"
    by (auto simp: crow_settings_def cp_on_method_def settled_def)
  show "on_url (crow_settings hl) t s = Some (v, s') \<Longrightarrow> completed s s'"
    by (cases "new_query (rq_raw_url (cp_req s) @ t) True")
      (auto simp: crow_settings_def cp_on_url_def Let_def returns0_def completed_def
        intro: settled_same [OF same_parser_update(1)] dest!: handler_keeps(1))
  show "on_header_field (crow_settings hl) t s = Some (v, s') \<Longrightarrow> settled s s'"
    by (clarsimp simp: crow_settings_def cp_on_header_field_def settled_def emplace_header_def Let_def)
  show "on_header_value (crow_settings hl) t s = Some (v, s') \<Longrightarrow> settled s s'"
    by (clarsimp simp: crow_settings_def cp_on_header_value_def settled_def)
  show "on_headers_complete (crow_settings hl) s = Some (v, s') \<Longrightarrow> settled s s'"
    using handler_keeps(2) settled_same [OF complete_same]
    by (auto simp only: crow_settings_def cp_on_headers_complete_def returns0_def Let_def settings.simps option.map
        map_option_eq_Some prod.inject)
  show "on_body (crow_settings hl) t s = Some (v, s') \<Longrightarrow> settled s s'"
    by (auto simp: crow_settings_def cp_on_body_def settled_def)
  show "on_message_complete (crow_settings hl) s = Some (v, s') \<Longrightarrow> completed s s'"
    by (auto simp: crow_settings_def cp_on_message_complete_def returns0_def completed_def
        intro: settled_same [OF same_parser_update(2)] dest!: handler_keeps(3))
qed

text \<open>
  What happens to a parser in its life: a buffer is fed to it, or its owner clears it for the next message. The
  owner stops at the first buffer that is refused.
\<close>

datatype parser_event = Buffer nat string | Cleared

fun run_parser ::
  "'a crow_parser_scheme handler \<Rightarrow> parser_event list \<Rightarrow> 'a crow_parser_scheme
   \<Rightarrow> (halt + 'a crow_parser_scheme) option" where
  "run_parser hl [] s = Some (Inr s)"
| "run_parser hl (Cleared # es) s = run_parser hl es (clear_parser s)"
| "run_parser hl (Buffer addr data # es) s =
     (case feed hl addr data s of
        None \<Rightarrow> None
      | Some (Inl h) \<Rightarrow> Some (Inl h)
      | Some (Inr (ok, s)) \<Rightarrow> if ok then run_parser hl es s else Some (Inr s))"

context crow_client
begin

lemma feed_ends:
  assumes "parser_inv nul s" "NUL \<in> set data \<Longrightarrow> nul"
  shows "\<exists>r. feed hl addr data s = Some r \<and>
    (case r of Inl h \<Rightarrow> h = Callback_stuck \<or> nul | Inr (b, s') \<Rightarrow> parser_inv nul s')"
proof (cases "cp_message_complete s")
  case True
  then show ?thesis using assms by (simp add: feed_def)
next
  case False
  obtain r where "http_parser_execute (crow_settings hl) addr data s = Some r" "run_ok nul data r"
    using http.http_parser_execute_ends [OF assms] by blast
  then show ?thesis using False
    by (cases r) (auto simp: feed_def run_ok_def feed_value_def)
qed

lemma run_parser_ends:
  assumes "parser_inv nul s" "\<forall>a d. Buffer a d \<in> set es \<longrightarrow> NUL \<in> set d \<longrightarrow> nul"
  shows "\<exists>r. run_parser hl es s = Some r \<and> (r = Inl Assertion_failed \<longrightarrow> nul)"
  using assms
proof (induction es arbitrary: s)
  case (Cons e es)
  show ?case
  proof (cases e)
    case (Buffer addr data)
    obtain r where r: "feed hl addr data s = Some r"
      "case r of Inl h \<Rightarrow> h = Callback_stuck \<or> nul | Inr (b, s') \<Rightarrow> parser_inv nul s'"
      using feed_ends [OF Cons.prems(1), of data addr] Cons.prems(2) Buffer by auto
    then show ?thesis using Cons.IH Cons.prems(2) Buffer by (cases r) auto
  next
    case Cleared
    have "parser_inv nul (clear_parser s)"
      by (simp add: parser_inv_def clear_parser_def core_quiet quiet_state_def)
    then show ?thesis using Cleared Cons by auto
  qed
qed simp

end

text \<open>
  C35. A parser, from its construction on, handles every sequence of buffers without a NUL byte and of
  clearings between messages: each call returns, and no assertion of the parser fails. What its owner does
  in its callbacks may be anything that leaves the parser's own fields alone.
\<close>

theorem parser_never_aborts:
  assumes "handler_ok hl" and "\<forall>a d. Buffer a d \<in> set es \<longrightarrow> NUL \<notin> set d"
  shows "run_parser hl es (http_parser_init s) \<notin> {None, Some (Inl Assertion_failed)}"
proof -
  have c: "crow_client hl" using assms(1) by unfold_locales
  have "parser_inv False (http_parser_init s)"
    by (simp add: parser_inv_def http_parser_init_def core_quiet quiet_state_def)
  then show ?thesis using crow_client.run_parser_ends [OF c, of False "http_parser_init s" es] assms(2) by auto
qed

definition idle_handler :: "'a crow_parser_scheme handler" where
  "idle_handler = \<lparr>h_handle_url = Some, h_handle_header = Some, h_handle = Some\<rparr>"

lemma idle_handler_ok: "handler_ok idle_handler"
  by (simp add: handler_ok_def idle_handler_def completed_def)

interpretation idle: crow_client idle_handler
  by unfold_locales (rule idle_handler_ok)

lemma parser_never_aborts_witness:
  "run_parser idle_handler [Buffer 4096 ''GET /x HT'', Buffer 4096 (''TP/1.1'' @ [CR, LF, CR, LF]), Cleared]
     (http_parser_init new_parser) \<notin> {None, Some (Inl Assertion_failed)}"
  by (rule parser_never_aborts [OF idle_handler_ok]) auto

text \<open>
  A NUL byte does fail one: it passes for a blank where a value starts, so the value of a \<open>Connection\<close> header is
  entered in a state that asserts that it is not reached.
\<close>

lemma nul_aborts:
  assumes "hp_state s = s_header_value_discard_ws" "hp_header_state s = h_connection" "hp_http_errno s = CHPE_OK"
    "hp_nread s + 2 \<le> max_header_size" "ch \<noteq> CR" "ch \<noteq> LF" "is_header_char ch" "\<not> cp_message_complete s"
  shows "feed hl addr [NUL, ch] s = Some (Inl Assertion_failed)"
proof -
  have [simp]: "lower NUL = CHR '' ''" by (simp add: lower_space)
  have "http_parser_execute cbs addr [NUL, ch] s = Some (Inl Assertion_failed)" for cbs
    using assms unfolding http_parser_execute_def
    by (simp add: execute_loop.simps [of cbs] start_locals_def url_state_def loop_head_def parsing_header_def
        count_header_size_def execute_byte_def on_header_value_discard_ws_def on_header_value_start_def Let_def
        on_header_value_state_def plain_value_char_def value_char_def)
  then show ?thesis using assms(8) by (simp add: feed_def)
qed

text \<open>
  A header with an empty value is lost when another follows it: the name that comes next takes its place.
\<close>

lemma empty_header_dropped:
  "cp_header_building_state s = 0 \<Longrightarrow> cp_header_value s = [] \<Longrightarrow> cp_on_header_field t s = Some (v, s') \<Longrightarrow>
   rq_headers (cp_req s') = rq_headers (cp_req s) \<and> cp_header_field s' = t"
  by (auto simp: cp_on_header_field_def)

text \<open>
  The owner is asked to decide on a target at the end of every buffer the target is in, on what has come of it
  so far.
\<close>

lemma target_decided_early:
  "cp_on_url hl t s = Some (v, s') \<Longrightarrow>
   \<exists>u. h_handle_url hl u = Some s' \<and> rq_raw_url (cp_req u) = rq_raw_url (cp_req s) @ t"
  by (auto simp: cp_on_url_def Let_def returns0_def split: option.splits intro!: exI)

end
