(* ===== verification/Http_Wellformed.thy ===== *)
theory Http_Wellformed
  imports Http_Request
begin

section \<open>The HTTP parser: a request is read as it was written\<close>

text \<open>
  Runs of the parser over the parts of a well-formed request that a buffer holds, and the request that
  comes out at its end.
\<close>

subsection \<open>One byte\<close>

definition run ::
  "'a http_parser_scheme settings \<Rightarrow> nat \<Rightarrow> string \<Rightarrow> locals \<Rightarrow> 'a http_parser_scheme
   \<Rightarrow> (halt + nat \<times> 'a http_parser_scheme) option" where
  "run cbs addr data l s = execute_loop cbs addr data False l s"

lemma run_cong: "l = l' \<Longrightarrow> s = s' \<Longrightarrow> run cbs addr data l s = run cbs addr data l' s'"
  by simp

lemma drop_ConsD:
  assumes "drop p data = c # r"
  shows "p < length data" "data ! p = c" "drop (p + 1) data = r" "drop (Suc p) data = r"
proof -
  show p: "p < length data" using assms by (metis drop_eq_Nil2 leI list.simps(3))
  then have "drop p data = data ! p # drop (Suc p) data" by (simp add: Cons_nth_drop_Suc)
  then show "data ! p = c" "drop (p + 1) data = r" "drop (Suc p) data = r" using assms by simp_all
qed

lemma drop_appendD: "drop p data = a @ b \<Longrightarrow> drop (p + length a) data = b"
  by (metis append_eq_conv_conj add.commute drop_drop)

text \<open>The locals after a header byte is counted.\<close>

abbreviation counted :: "locals \<Rightarrow> locals" where
  "counted l \<equiv> l\<lparr>lv_nread := lv_nread l + 1\<rparr>"

abbreviation advance :: "locals \<Rightarrow> locals" where
  "advance l \<equiv> l\<lparr>lv_p := lv_p l + 1\<rparr>"

lemma run_byte:
  assumes "drop (lv_p l) data = c # r" "parsing_header (hp_state s)" "lv_nread l < max_header_size"
    "execute_byte cbs addr data (counted l) s = Break l' s'"
  shows "run cbs addr data l s = run cbs addr data (advance l') s'"
  using assms drop_ConsD(1) [OF assms(1)] unfolding run_def
  by (subst execute_loop.simps) (simp add: loop_head_def count_header_size_def)

lemma run_again:
  assumes "drop (lv_p l) data = c # r" "parsing_header (hp_state s)" "lv_nread l < max_header_size"
    "execute_byte cbs addr data (counted l) s = Reexecute l1 s1" "execute_byte cbs addr data l1 s1 = Break l' s'"
  shows "run cbs addr data l s = run cbs addr data (advance l') s'"
  using assms drop_ConsD(1) [OF assms(1)] unfolding run_def
  by (subst execute_loop.simps) (simp add: loop_head_def count_header_size_def execute_loop.simps [of cbs addr data True])

text \<open>Locals with the position and the count of header bytes moved by \<open>k\<close>.\<close>

definition moved_by :: "nat \<Rightarrow> locals \<Rightarrow> locals" where
  "moved_by k l = l\<lparr>lv_p := lv_p l + k, lv_nread := lv_nread l + k\<rparr>"

lemma moved_by_simps [simp]:
  "lv_p (moved_by k l) = lv_p l + k" "lv_nread (moved_by k l) = lv_nread l + k"
  "lv_header_field_mark (moved_by k l) = lv_header_field_mark l"
  "lv_header_value_mark (moved_by k l) = lv_header_value_mark l"
  "lv_url_mark (moved_by k l) = lv_url_mark l" "lv_url_start_mark (moved_by k l) = lv_url_start_mark l"
  "lv_body_mark (moved_by k l) = lv_body_mark l" "moved_by 0 l = l" "moved_by i (moved_by k l) = moved_by (k + i) l"
  by (simp_all add: moved_by_def add.assoc)

lemma advance_counted: "advance (counted l) = moved_by 1 l"
  by (simp add: moved_by_def)

text \<open>A byte that only changes the object.\<close>

lemma run_plain:
  assumes "drop (lv_p l) data = c # r" "parsing_header (hp_state s)" "lv_nread l < max_header_size"
    "execute_byte cbs addr data (counted l) s = Break (counted l) s'"
  shows "run cbs addr data l s = run cbs addr data (moved_by 1 l) s'"
  using run_byte [OF assms] by (simp only: advance_counted)

subsection \<open>Methods\<close>

text \<open>The method and the index after one more character, \<open>None\<close> if it is refused.\<close>

definition method_step :: "(HTTPMethod \<times> nat) option \<Rightarrow> char \<Rightarrow> (HTTPMethod \<times> nat) option" where
  "method_step mi ch =
     (case mi of
        None \<Rightarrow> None
      | Some (m, i) \<Rightarrow>
          if ch = NUL \<or> ch = CHR '' '' then None
          else if ch = c_at (method_name m) i then Some (m, i + 1)
          else if 65 \<le> code ch \<and> code ch \<le> 90 \<or> ch = CHR ''-'' then
            map_option (\<lambda>m'. (m', i + 1)) (find_switch m i ch)
          else None)"

definition method_run :: "string \<Rightarrow> (HTTPMethod \<times> nat) option" where
  "method_run w =
     (case w of
        [] \<Rightarrow> None
      | c # r \<Rightarrow> foldl method_step (map_option (\<lambda>m. (m, 1)) (first_method c)) r)"

lemma method_run_name: "m = InternalMethodCount \<or> method_run (method_name m) = Some (m, length (method_name m))"
  by (induction m; code_simp)

lemma foldl_method_None [simp]: "foldl method_step None w = None"
  by (induction w) (simp_all add: method_step_def)

text \<open>A switch keeps the characters that have been read.\<close>

lemma find_switch_prefix:
  assumes "find_switch m i ch = Some m'"
  shows "take (i + 1) (method_name m') = take i (method_name m) @ [ch] \<and> i < length (method_name m') \<and>
    i \<le> length (method_name m)"
proof -
  obtain e where e: "find (\<lambda>e. fst e = m \<and> fst (snd e) = i \<and> fst (snd (snd e)) = ch) method_switch = Some e"
    "snd (snd (snd e)) = m'" using assms by (auto simp: find_switch_def)
  have "\<forall>(m, i, ch, m') \<in> set method_switch. take (i + 1) (method_name m') = take i (method_name m) @ [ch] \<and>
      i < length (method_name m') \<and> i \<le> length (method_name m)"
    by code_simp
  then show ?thesis using e by (fastforce simp: find_Some_iff in_set_conv_nth split_beta)
qed

lemma method_steps_sound:
  assumes "foldl method_step (Some (m, i)) w = Some (m', i')" "i \<le> length (method_name m)" "i > 0"
  shows "i' \<le> length (method_name m') \<and> take i' (method_name m') = take i (method_name m) @ w"
  using assms
proof (induction w arbitrary: m i)
  case Nil
  then show ?case by simp
next
  case (Cons c w)
  obtain m1 i1 where s: "method_step (Some (m, i)) c = Some (m1, i1)"
    using Cons.prems(1) by (cases "method_step (Some (m, i)) c") auto
  have "i1 = i + 1 \<and> i1 \<le> length (method_name m1) \<and> take i1 (method_name m1) = take i (method_name m) @ [c]"
  proof (cases "c = c_at (method_name m) i")
    case True
    then have "m1 = m" "i1 = i + 1" "c \<noteq> NUL" using s by (auto simp: method_step_def split: if_splits)
    moreover from this True have "i < length (method_name m)"
      using Cons.prems(2) by (cases "i = length (method_name m)") (auto simp: c_at_def)
    ultimately show ?thesis using True by (simp add: c_at_def nth_append take_Suc_conv_app_nth)
  next
    case False
    then have "find_switch m i c = Some m1" "i1 = i + 1"
      using s by (auto simp: method_step_def split: if_splits)
    then show ?thesis using find_switch_prefix [of m i c m1] by simp
  qed
  then show ?case using Cons.IH [of m1 i1] Cons.prems(1) s by (elim conjE) simp
qed

lemma first_method_name: "first_method c = Some m \<Longrightarrow> take 1 (method_name m) = [c] \<and> m \<noteq> InternalMethodCount"
proof -
  have "\<forall>(c, m) \<in> set [(CHR ''A'', Acl), (CHR ''B'', Bind), (CHR ''C'', Connect), (CHR ''D'', Delete), (CHR ''G'', Get),
      (CHR ''H'', Head), (CHR ''L'', Lock), (CHR ''M'', MkCol), (CHR ''N'', Notify), (CHR ''O'', Options),
      (CHR ''P'', Post), (CHR ''R'', Report), (CHR ''S'', Subscribe), (CHR ''T'', Trace), (CHR ''U'', Unlock)].
      take 1 (method_name m) = [c] \<and> m \<noteq> InternalMethodCount"
    by code_simp
  then show "first_method c = Some m \<Longrightarrow> ?thesis" by (auto simp: first_method_def split: if_splits)
qed

text \<open>The words that are recognised are the names of methods, and each as its own method.\<close>

lemma method_run_sound:
  assumes "method_run w = Some (m, i)"
  shows "i \<le> length (method_name m) \<and> take i (method_name m) = w"
proof (cases w)
  case (Cons c r)
  then obtain m0 where m0: "first_method c = Some m0" "foldl method_step (Some (m0, 1)) r = Some (m, i)"
    using assms by (cases "first_method c") (auto simp: method_run_def)
  have "1 \<le> length (method_name m0)" using first_method_name [OF m0(1)] by (cases "method_name m0") auto
  then show ?thesis using method_steps_sound [OF m0(2)] first_method_name [OF m0(1)] Cons by simp
qed (use assms in \<open>simp add: method_run_def\<close>)

lemma on_req_method_step:
  assumes "method_step (Some (hp_method s, hp_index s)) ch = Some (m, i)" "hp_http_errno s = CHPE_OK" "hp_index s < 31"
  shows "on_req_method (crow_settings hl) ch l s =
    Break l (s\<lparr>hp_method := m, hp_index := i, cp_req := (cp_req s)\<lparr>rq_method := m\<rparr>\<rparr>)"
proof -
  let ?at = "c_at (method_name (hp_method s)) (hp_index s)"
  have c: "ch \<noteq> NUL" "ch \<noteq> CHR '' ''" using assms(1) by (auto simp: method_step_def split: if_splits)
  show ?thesis
  proof (cases "ch = ?at")
    case True
    then have "m = hp_method s" "i = hp_index s + 1" using assms(1) c by (auto simp: method_step_def)
    then show ?thesis using assms(2,3) c True
      by (simp add: on_req_method_def Let_def callback_notify_def asserting_def after_callback_def crow_settings_def
          cp_on_method_def)
  next
    case False
    then have "find_switch (hp_method s) (hp_index s) ch = Some m" "i = hp_index s + 1"
      "65 \<le> code ch \<and> code ch \<le> 90 \<or> ch = CHR ''-''"
      using assms(1) c by (auto simp: method_step_def split: if_splits)
    then show ?thesis using assms(2,3) c False
      by (simp add: on_req_method_def Let_def callback_notify_def asserting_def after_callback_def crow_settings_def
          cp_on_method_def)
  qed
qed

lemma method_name_length: "3 \<le> length (method_name m) \<and> length (method_name m) \<le> 11"
proof -
  have "\<forall>m \<in> set all_methods. 3 \<le> length (method_name m) \<and> length (method_name m) \<le> 11" by code_simp
  moreover have "m \<in> set all_methods" by (cases m) (simp_all add: all_methods_def)
  ultimately show ?thesis by blast
qed

lemma run_method_steps:
  assumes "drop (lv_p l) data = w @ r" "foldl method_step (Some (hp_method s, hp_index s)) w = Some (m, i)"
    "hp_state s = s_req_method" "hp_http_errno s = CHPE_OK" "0 < hp_index s" "hp_index s \<le> length (method_name (hp_method s))"
    "lv_nread l + length w \<le> max_header_size" "rq_method (cp_req s) = hp_method s \<or> w \<noteq> []"
  shows "run (crow_settings hl) addr data l s =
    run (crow_settings hl) addr data (moved_by (length w) l)
      (s\<lparr>hp_method := m, hp_index := i, cp_req := (cp_req s)\<lparr>rq_method := m\<rparr>\<rparr>)"
  using assms
proof (induction w arbitrary: l s)
  case Nil
  then have "s\<lparr>hp_method := m, hp_index := i, cp_req := (cp_req s)\<lparr>rq_method := m\<rparr>\<rparr> = s"
    by (auto intro!: crow_parser.equality crow_request.equality)
  then show ?case by simp
next
  case (Cons c w)
  obtain m1 i1 where s: "method_step (Some (hp_method s, hp_index s)) c = Some (m1, i1)"
    using Cons.prems(2) by (cases "method_step (Some (hp_method s, hp_index s)) c") auto
  have i: "i1 \<le> length (method_name m1)" "0 < i1" "i1 = hp_index s + 1"
    using method_steps_sound [of "hp_method s" "hp_index s" "[c]" m1 i1] s Cons.prems(5,6)
    by (auto simp: method_step_def split: if_splits)
  let ?s = "s\<lparr>hp_method := m1, hp_index := i1, cp_req := (cp_req s)\<lparr>rq_method := m1\<rparr>\<rparr>"
  have "hp_index s < 31" using i method_name_length [of m1] by simp
  then have "on_req_method (crow_settings hl) c (counted l) s = Break (counted l) ?s"
    using on_req_method_step [OF s Cons.prems(4)] by blast
  moreover have d: "drop (lv_p l) data = c # (w @ r)" using Cons.prems(1) by simp
  ultimately have "run (crow_settings hl) addr data l s = run (crow_settings hl) addr data (moved_by 1 l) ?s"
    using Cons.prems(3,7) drop_ConsD [OF d]
    by (intro run_plain [OF d]) (simp_all add: parsing_header_def execute_byte_def)
  moreover have "run (crow_settings hl) addr data (moved_by 1 l) ?s =
      run (crow_settings hl) addr data (moved_by (length w) (moved_by 1 l))
        (?s\<lparr>hp_method := m, hp_index := i, cp_req := (cp_req ?s)\<lparr>rq_method := m\<rparr>\<rparr>)"
    using Cons.prems s i drop_ConsD [OF d] by (intro Cons.IH) simp_all
  ultimately show ?case by simp
qed

subsection \<open>The request line\<close>

lemma run_method:
  assumes "drop (lv_p l) data = method_name m @ CHR '' '' # r" "m \<noteq> InternalMethodCount" "hp_state s = s_start_req"
    "hp_http_errno s = CHPE_OK" "lv_nread l + length (method_name m) + 1 \<le> max_header_size"
  shows "run (crow_settings hl) addr data l s =
    run (crow_settings hl) addr data (moved_by (length (method_name m) + 1) l)
      (s\<lparr>hp_flags := {}, hp_uses_transfer_encoding := False, hp_content_length := ULLONG_MAX,
         hp_method := m, hp_index := length (method_name m) + 1, hp_state := s_req_spaces_before_url,
         cp_req := (cp_req s)\<lparr>rq_method := m\<rparr>\<rparr>)"
proof -
  have "method_run (method_name m) = Some (m, length (method_name m))" using method_run_name assms(2) by blast
  then obtain c w m0 where w: "method_name m = c # w" "first_method c = Some m0"
    "foldl method_step (Some (m0, 1)) w = Some (m, length (method_name m))"
    unfolding method_run_def by (cases "method_name m"; cases "first_method (hd (method_name m))") auto
  let ?s1 = "s\<lparr>hp_flags := {}, hp_uses_transfer_encoding := False, hp_content_length := ULLONG_MAX,
      hp_method := m0, hp_index := 1, hp_state := s_req_method\<rparr>"
  let ?s2 = "?s1\<lparr>hp_method := m, hp_index := length (method_name m), cp_req := (cp_req ?s1)\<lparr>rq_method := m\<rparr>\<rparr>"
  have d: "drop (lv_p l) data = c # (w @ CHR '' '' # r)" using assms(1) w(1) by simp
  have c: "c \<noteq> CR" "c \<noteq> LF" "is_alpha c"
    using w(2) by (auto simp: first_method_def is_alpha_def code_lower split: if_splits)
  have "on_start_req (crow_settings hl) c (counted l) s = Break (counted l) ?s1"
    using c w(2) assms(4) by (simp add: on_start_req_def Let_def callback_notify_def asserting_def after_callback_def
        crow_settings_def cp_on_message_begin_def)
  then have 1: "run (crow_settings hl) addr data l s = run (crow_settings hl) addr data (moved_by 1 l) ?s1"
    using assms(3,5) w(1) drop_ConsD [OF d]
    by (intro run_plain [OF d]) (simp_all add: parsing_header_def execute_byte_def)
  have len: "1 \<le> length (method_name m0)" "w \<noteq> []"
    using method_name_length [of m0] method_name_length [of m] w(1) by auto
  have 2: "run (crow_settings hl) addr data (moved_by 1 l) ?s1 =
      run (crow_settings hl) addr data (moved_by (length w) (moved_by 1 l)) ?s2"
    by (rule run_method_steps [OF _ _ _ _ _ _ _ disjI2]) (use assms w len drop_ConsD [OF d] in simp_all)
  have d3: "drop (lv_p (moved_by (length w) (moved_by 1 l))) data = CHR '' '' # r"
    using drop_appendD [of "lv_p l" data "c # w" "CHR '' '' # r"] assms(1) w(1) by simp
  have "on_req_method (crow_settings hl) (CHR '' '') l1 ?s2 = Break l1
     (?s2\<lparr>hp_state := s_req_spaces_before_url, hp_index := length (method_name m) + 1\<rparr>)" for l1
    using assms(4) method_name_length [of m]
    by (simp add: on_req_method_def Let_def callback_notify_def asserting_def after_callback_def crow_settings_def
        cp_on_method_def c_at_def nth_append)
  then have 3: "run (crow_settings hl) addr data (moved_by (length w) (moved_by 1 l)) ?s2 =
      run (crow_settings hl) addr data (moved_by 1 (moved_by (length w) (moved_by 1 l)))
        (?s2\<lparr>hp_state := s_req_spaces_before_url, hp_index := length (method_name m) + 1\<rparr>)"
    using assms(3,5) w(1) drop_ConsD [OF d3]
    by (intro run_plain [OF d3]) (simp_all add: parsing_header_def execute_byte_def)
  show ?thesis unfolding 1 2 3
    by (rule run_cong) (use w(1) in \<open>simp_all add: crow_parser.equality\<close>)
qed

text \<open>A target: a path, and what follows the question mark if there is one.\<close>

definition url_text :: "string \<Rightarrow> string option \<Rightarrow> string" where
  "url_text path q = path @ (case q of None \<Rightarrow> [] | Some q \<Rightarrow> CHR ''?'' # q)"

definition url_ok :: "string \<Rightarrow> string option \<Rightarrow> bool" where
  "url_ok path q \<longleftrightarrow>
     (\<exists>w. path = CHR ''/'' # w) \<and> (\<forall>c \<in> set path. is_url_char c) \<and>
     (\<forall>w. q = Some w \<longrightarrow> (\<forall>c \<in> set w. is_url_char c \<or> c = CHR ''?''))"

lemma is_url_char_not:
  "\<not> is_url_char (CHR '' '')" "\<not> is_url_char CR" "\<not> is_url_char LF" "\<not> is_url_char TAB" "\<not> is_url_char (CHR 0x0C)"
  "\<not> is_url_char (CHR ''?'')"
  by (simp_all add: is_url_char_def bit_at_def normal_url_char_def)

lemma url_char_step:
  assumes "is_url_char c \<or> c = CHR ''?'' \<and> hp_state s \<noteq> s_req_path" "hp_state s \<in> {s_req_path, s_req_query_string_start, s_req_query_string}"
  shows "on_server_or_path cbs addr data c l s =
    Break l (s\<lparr>hp_state := (if hp_state s = s_req_path then s_req_path else s_req_query_string)\<rparr>)"
proof -
  have "c \<noteq> CHR '' ''" "c \<noteq> CR" "c \<noteq> LF" "c \<noteq> TAB" "c \<noteq> CHR 0x0C"
    using assms(1) is_url_char_not by auto
  moreover have "parse_url_char addr (hp_state s) c mk p s =
      (if hp_state s = s_req_path then s_req_path else s_req_query_string, s)" for mk p
    using assms calculation unfolding parse_url_char_def Let_def by (elim insertE) simp_all
  ultimately show ?thesis using assms(2)
    by (cases "hp_state s = s_req_path") (simp_all add: on_server_or_path_def url_step_def)
qed

lemma run_url_chars:
  assumes "drop (lv_p l) data = w @ r" "\<forall>c \<in> set w. is_url_char c \<or> c = CHR ''?'' \<and> hp_state s \<noteq> s_req_path"
    "hp_state s \<in> {s_req_path, s_req_query_string_start, s_req_query_string}" "lv_nread l + length w \<le> max_header_size"
  shows "run cbs addr data l s = run cbs addr data (moved_by (length w) l)
    (s\<lparr>hp_state := (if w = [] \<or> hp_state s = s_req_path then hp_state s else s_req_query_string)\<rparr>)"
  using assms
proof (induction w arbitrary: l s)
  case Nil
  then show ?case by simp
next
  case (Cons c w)
  let ?s = "s\<lparr>hp_state := (if hp_state s = s_req_path then s_req_path else s_req_query_string)\<rparr>"
  have d: "drop (lv_p l) data = c # (w @ r)" using Cons.prems(1) by simp
  have "on_server_or_path cbs addr data c (counted l) s = Break (counted l) ?s"
    using Cons.prems(2,3) by (intro url_char_step) auto
  then have "run cbs addr data l s = run cbs addr data (moved_by 1 l) ?s"
    using Cons.prems(3,4) drop_ConsD [OF d]
    by (intro run_plain [OF d]) (auto simp: parsing_header_def execute_byte_def)
  also have "\<dots> = run cbs addr data (moved_by (length w) (moved_by 1 l))
      (?s\<lparr>hp_state := (if w = [] \<or> hp_state ?s = s_req_path then hp_state ?s else s_req_query_string)\<rparr>)"
    using Cons.prems drop_ConsD [OF d] by (intro Cons.IH) auto
  finally show ?case by (simp split: if_splits)
qed

text \<open>The locals behind the first byte of the target.\<close>

definition url_locals :: "nat \<Rightarrow> locals \<Rightarrow> locals" where
  "url_locals k l = (moved_by k l)\<lparr>lv_url_mark := Some (lv_p l), lv_url_start_mark := Some (lv_p l)\<rparr>"

lemma moved_url_locals: "moved_by k (url_locals i l) = url_locals (i + k) l"
  by (simp add: url_locals_def moved_by_def add.assoc)

lemma run_url:
  assumes "drop (lv_p l) data = url_text path q @ CHR '' '' # r" "url_ok path q" "hp_state s = s_req_spaces_before_url"
    "hp_method s \<noteq> Connect" "hp_http_errno s = CHPE_OK" "lv_url_mark l = None" "lv_url_start_mark l = None"
    "lv_nread l + length (url_text path q) + 1 \<le> max_header_size"
    "on_url cbs (url_text path q)
       (s\<lparr>hp_qs_point := (if q = None then hp_qs_point s else length path), hp_state := s_req_http_start\<rparr>) = Some (0, s')"
    "hp_http_errno s' = CHPE_OK"
  shows "run cbs addr data l s =
    run cbs addr data ((moved_by (length (url_text path q) + 1) l)\<lparr>lv_url_start_mark := Some (lv_p l)\<rparr>) s'"
proof -
  obtain w where w: "path = CHR ''/'' # w" "\<forall>c \<in> set w. is_url_char c" using assms(2) by (auto simp: url_ok_def)
  let ?s1 = "s\<lparr>hp_state := s_req_path\<rparr>"
  let ?r1 = "(case q of None \<Rightarrow> [] | Some q \<Rightarrow> CHR ''?'' # q) @ CHR '' '' # r"
  have len: "length (url_text path q) = 1 + length w + (case q of None \<Rightarrow> 0 | Some q \<Rightarrow> 1 + length q)"
    by (simp add: url_text_def w(1) split: option.split)
  have d: "drop (lv_p l) data = CHR ''/'' # (w @ ?r1)" using assms(1) w(1) by (simp add: url_text_def)
  have "run cbs addr data l s = run cbs addr data
      (advance ((counted l)\<lparr>lv_url_mark := Some (lv_p l), lv_url_start_mark := Some (lv_p l)\<rparr>)) ?s1"
    using assms(3-8) drop_ConsD [OF d]
    by (intro run_byte [OF d]) (simp_all add: parsing_header_def execute_byte_def on_spaces_before_url_def Let_def mark_at_def
        url_step_def parse_url_char_def)
  also have "\<dots> = run cbs addr data (url_locals 1 l) ?s1"
    by (rule run_cong) (simp_all add: url_locals_def moved_by_def)
  also have "\<dots> = run cbs addr data (url_locals (1 + length w) l) ?s1"
    using run_url_chars [of "url_locals 1 l" data w ?r1 ?s1 cbs addr] drop_ConsD [OF d] w(2) assms(8) len
    by (simp add: url_locals_def moved_url_locals [unfolded url_locals_def])
  finally have 1: "run cbs addr data l s = run cbs addr data (url_locals (1 + length w) l) ?s1" .
  let ?k = "length (url_text path q)"
  have 2: "\<exists>st. st \<in> {s_req_path, s_req_query_string_start, s_req_query_string} \<and>
    run cbs addr data (url_locals (1 + length w) l) ?s1 = run cbs addr data (url_locals ?k l)
      (s\<lparr>hp_qs_point := (if q = None then hp_qs_point s else length path), hp_state := st\<rparr>)"
  proof (cases q)
    case None
    then show ?thesis using len by (intro exI [of _ s_req_path]) simp
  next
    case (Some u)
    have d2: "drop (lv_p (url_locals (1 + length w) l)) data = CHR ''?'' # (u @ CHR '' '' # r)"
      using drop_appendD [of "lv_p l" data "CHR ''/'' # w" ?r1] d Some by (simp add: url_locals_def)
    let ?s2 = "s\<lparr>hp_qs_point := length path, hp_state := s_req_query_string_start\<rparr>"
    have "on_server_or_path cbs addr data (CHR ''?'') (counted (url_locals (1 + length w) l)) ?s1
        = Break (counted (url_locals (1 + length w) l)) ?s2"
      using is_url_char_not
      by (simp add: on_server_or_path_def url_step_def parse_url_char_def Let_def qs_offset_def url_locals_def w(1))
    then have "run cbs addr data (url_locals (1 + length w) l) ?s1 =
        run cbs addr data (moved_by 1 (url_locals (1 + length w) l)) ?s2"
      using drop_ConsD [OF d2] assms(8) len Some
      by (intro run_plain [OF d2]) (simp_all add: parsing_header_def execute_byte_def url_locals_def)
    also have "\<dots> = run cbs addr data (moved_by (length u) (moved_by 1 (url_locals (1 + length w) l)))
       (?s2\<lparr>hp_state := (if u = [] \<or> hp_state ?s2 = s_req_path then hp_state ?s2 else s_req_query_string)\<rparr>)"
      using drop_ConsD [OF d2] assms(2,8) len Some
      by (intro run_url_chars) (auto simp: url_ok_def url_locals_def)
    finally show ?thesis using len Some
      by (intro exI [of _ "if u = [] then s_req_query_string_start else s_req_query_string"])
        (simp add: moved_url_locals del: moved_by_simps)
  qed
  then obtain st where st: "st \<in> {s_req_path, s_req_query_string_start, s_req_query_string}"
    "run cbs addr data (url_locals (1 + length w) l) ?s1 = run cbs addr data (url_locals ?k l)
      (s\<lparr>hp_qs_point := (if q = None then hp_qs_point s else length path), hp_state := st\<rparr>)" by blast
  let ?s3 = "s\<lparr>hp_qs_point := (if q = None then hp_qs_point s else length path), hp_state := st\<rparr>"
  let ?l3 = "url_locals ?k l"
  have d3: "drop (lv_p ?l3) data = CHR '' '' # r"
    using drop_appendD [OF assms(1)] by (simp add: url_locals_def)
  have "take ?k (drop (lv_p l) data) = url_text path q" using assms(1) by simp
  then have "execute_byte cbs addr data (counted ?l3) ?s3 = Break ((counted ?l3)\<lparr>lv_url_mark := None\<rparr>) s'"
    using st(1) assms(5,9,10) drop_ConsD [OF d3]
    by (auto simp: execute_byte_def Let_def on_server_or_path_def url_done_def callback_data_def asserting_def
        after_callback_def url_locals_def)
  then have "run cbs addr data ?l3 ?s3 = run cbs addr data (advance ((counted ?l3)\<lparr>lv_url_mark := None\<rparr>)) s'"
    using st(1) assms(8) by (intro run_byte [OF d3]) (auto simp: parsing_header_def url_locals_def)
  then have 3: "run cbs addr data ?l3 ?s3 = run cbs addr data (advance ((counted ?l3)\<lparr>lv_url_mark := None\<rparr>)) s'" .
  show ?thesis unfolding 1 st(2) 3
    by (rule run_cong) (simp_all add: locals.equality url_locals_def assms(6))
qed


text \<open>The rest of the request line, for the version 1.1.\<close>

lemma run_version:
  assumes "drop (lv_p l) data = ''HTTP/1.1'' @ CR # LF # r" "hp_state s = s_req_http_start"
    "lv_nread l + 10 \<le> max_header_size"
  shows "run cbs addr data l s = run cbs addr data (moved_by 10 l)
    (s\<lparr>hp_http_major := 1, hp_http_minor := 1, hp_state := s_header_field_start\<rparr>)"
proof -
  have d: "drop (lv_p l + i) data = drop i (''HTTP/1.1'' @ CR # LF # r)" for i
    using assms(1) by (metis add.commute drop_drop)
  have b: "run cbs addr data (moved_by i l) t = run cbs addr data (moved_by j l) t'"
    if "\<And>l. data ! lv_p l = c \<Longrightarrow> execute_byte cbs addr data l t = Break l t'" "parsing_header (hp_state t)" "i < 10"
      "(''HTTP/1.1'' @ CR # LF # r) ! i = c" "i + 1 = j" for i j t t' c
  proof -
    have "drop i (''HTTP/1.1'' @ CR # LF # r) = (''HTTP/1.1'' @ CR # LF # r) ! i # drop (Suc i) (''HTTP/1.1'' @ CR # LF # r)"
      by (rule Cons_nth_drop_Suc [symmetric]) (use that(3) in simp)
    then have e: "drop (lv_p (moved_by i l)) data = c # drop (Suc i) (''HTTP/1.1'' @ CR # LF # r)"
      using that(4) d by simp
    have "execute_byte cbs addr data (counted (moved_by i l)) t = Break (counted (moved_by i l)) t'"
      using that(1) drop_ConsD [OF e] by simp
    then show ?thesis using run_plain [OF e that(2)] that(3) assms(3) by (simp add: that(5) [symmetric])
  qed
  note defs = Let_def execute_byte_def on_http_start_def expect_char_def strict_check_def on_http_major_def on_http_dot_def
    on_http_minor_def on_http_end_def on_line_almost_done_def is_num_def digit_value_def parsing_header_def
  have 0: "run cbs addr data (moved_by 0 l) s = run cbs addr data (moved_by 1 l) (s\<lparr>hp_state := s_req_http_H\<rparr>)"
    by (rule b [where c = "CHR ''H''"]) (simp_all add: defs assms(2))
  have 1: "run cbs addr data (moved_by 1 l) (s\<lparr>hp_state := s_req_http_H\<rparr>) = run cbs addr data (moved_by 2 l) (s\<lparr>hp_state := s_req_http_HT\<rparr>)"
    by (rule b [where c = "CHR ''T''"]) (simp_all add: defs)
  have 2: "run cbs addr data (moved_by 2 l) (s\<lparr>hp_state := s_req_http_HT\<rparr>) = run cbs addr data (moved_by 3 l) (s\<lparr>hp_state := s_req_http_HTT\<rparr>)"
    by (rule b [where c = "CHR ''T''"]) (simp_all add: defs)
  have 3: "run cbs addr data (moved_by 3 l) (s\<lparr>hp_state := s_req_http_HTT\<rparr>) = run cbs addr data (moved_by 4 l) (s\<lparr>hp_state := s_req_http_HTTP\<rparr>)"
    by (rule b [where c = "CHR ''P''"]) (simp_all add: defs)
  have 4: "run cbs addr data (moved_by 4 l) (s\<lparr>hp_state := s_req_http_HTTP\<rparr>) = run cbs addr data (moved_by 5 l) (s\<lparr>hp_state := s_req_http_major\<rparr>)"
    by (rule b [where c = "CHR ''/''"]) (simp_all add: defs)
  have 5: "run cbs addr data (moved_by 5 l) (s\<lparr>hp_state := s_req_http_major\<rparr>) = run cbs addr data (moved_by 6 l) (s\<lparr>hp_http_major := 1, hp_state := s_req_http_dot\<rparr>)"
    by (rule b [where c = "CHR ''1''"]) (simp_all add: defs)
  have 6: "run cbs addr data (moved_by 6 l) (s\<lparr>hp_http_major := 1, hp_state := s_req_http_dot\<rparr>) = run cbs addr data (moved_by 7 l) (s\<lparr>hp_http_major := 1, hp_state := s_req_http_minor\<rparr>)"
    by (rule b [where c = "CHR ''.''"]) (simp_all add: defs)
  have 7: "run cbs addr data (moved_by 7 l) (s\<lparr>hp_http_major := 1, hp_state := s_req_http_minor\<rparr>) = run cbs addr data (moved_by 8 l) (s\<lparr>hp_http_major := 1, hp_http_minor := 1, hp_state := s_req_http_end\<rparr>)"
    by (rule b [where c = "CHR ''1''"]) (simp_all add: defs)
  have 8: "run cbs addr data (moved_by 8 l) (s\<lparr>hp_http_major := 1, hp_http_minor := 1, hp_state := s_req_http_end\<rparr>) = run cbs addr data (moved_by 9 l) (s\<lparr>hp_http_major := 1, hp_http_minor := 1, hp_state := s_req_line_almost_done\<rparr>)"
    by (rule b [where c = "CR"]) (simp_all add: defs)
  have 9: "run cbs addr data (moved_by 9 l) (s\<lparr>hp_http_major := 1, hp_http_minor := 1, hp_state := s_req_line_almost_done\<rparr>) = run cbs addr data (moved_by 10 l) (s\<lparr>hp_http_major := 1, hp_http_minor := 1, hp_state := s_header_field_start\<rparr>)"
    by (rule b [where c = "LF"]) (simp_all add: defs)
  have "run cbs addr data l s = run cbs addr data (moved_by 0 l) s" by simp
  then show ?thesis by (simp only: 0 1 2 3 4 5 6 7 8 9)
qed

subsection \<open>Header names\<close>

text \<open>The names the parser knows, in lower case, and what it is when it has read a part of one.\<close>

definition name_inv :: "string \<Rightarrow> header_states \<Rightarrow> nat \<Rightarrow> bool" where
  "name_inv w h i \<longleftrightarrow>
     (case h of
        h_general \<Rightarrow> True
      | h_C \<Rightarrow> w = ''c'' \<and> i = 0
      | h_CO \<Rightarrow> w = ''co'' \<and> i = 1
      | h_CON \<Rightarrow> w = ''con'' \<and> i = 2
      | h_matching_connection \<Rightarrow> w = take (i + 1) ''connection'' \<and> 3 \<le> i \<and> i < 9
      | h_matching_proxy_connection \<Rightarrow> w = take (i + 1) ''proxy-connection'' \<and> i < 15
      | h_matching_content_length \<Rightarrow> w = take (i + 1) ''content-length'' \<and> 3 \<le> i \<and> i < 13
      | h_matching_transfer_encoding \<Rightarrow> w = take (i + 1) ''transfer-encoding'' \<and> i < 16
      | h_matching_upgrade \<Rightarrow> w = take (i + 1) ''upgrade'' \<and> i < 6
      | h_connection \<Rightarrow> w = ''connection'' \<or> w = ''proxy-connection''
      | h_content_length \<Rightarrow> w = ''content-length''
      | h_transfer_encoding \<Rightarrow> w = ''transfer-encoding''
      | h_upgrade \<Rightarrow> w = ''upgrade''
      | _ \<Rightarrow> False)"

lemma match_char_next:
  assumes "w = take (i + 1) X" "i + 1 < length X" "NUL \<notin> set X"
  shows "match_char X (i + 1) c stay h_general found = h_general \<or>
    (match_char X (i + 1) c stay h_general found = stay \<and> w @ [c] = take (i + 2) X \<and> i + 2 < length X) \<or>
    (match_char X (i + 1) c stay h_general found = found \<and> w @ [c] = X)"
proof (cases "c = X ! (i + 1)")
  case True
  then have "w @ [c] = take (i + 2) X" using assms(1,2) by (simp add: take_Suc_conv_app_nth)
  then show ?thesis using True assms(2,3)
    by (cases "i + 2 = length X") (auto simp: match_char_def c_at_def nth_append)
qed (use assms in \<open>simp add: match_char_def c_at_def nth_append\<close>)

text \<open>What reading a name may change.\<close>

definition name_framed :: "'a http_parser_scheme \<Rightarrow> 'a http_parser_scheme \<Rightarrow> bool" where
  "name_framed s s' \<longleftrightarrow>
     (\<exists>i h u. s' = s\<lparr>hp_index := i, hp_header_state := h, hp_uses_transfer_encoding := u\<rparr>)"

lemma name_framedI:
  "s' = s\<lparr>hp_index := hp_index s', hp_header_state := hp_header_state s',
     hp_uses_transfer_encoding := hp_uses_transfer_encoding s'\<rparr> \<Longrightarrow> name_framed s s'"
  unfolding name_framed_def by blast

lemma name_framed_trans: "name_framed s t \<Longrightarrow> name_framed t u \<Longrightarrow> name_framed s u"
  by (auto simp: name_framed_def, blast)

lemma name_framed_refl [simp]: "name_framed s s"
  by (rule name_framedI) simp

lemma field_char_frame: "field_char ch c s = Some s' \<Longrightarrow> name_framed s s'"
  by (rule name_framedI, cases "hp_header_state s") (auto simp: field_char_def Let_def)

lemma name_inv_match:
  assumes "w = take (hp_index s + 1) X" "hp_index s + 1 < length X" "NUL \<notin> set X" "length X < 30"
    and "hp_header_state s' = match_char X (hp_index s + 1) c stay h_general found" "hp_index s' = (hp_index s + 1) mod 32"
    and "\<And>j. w @ [c] = take (j + 1) X \<Longrightarrow> j + 1 < length X \<Longrightarrow> hp_index s < j \<Longrightarrow> name_inv (w @ [c]) stay j"
    and "\<And>j. w @ [c] = X \<Longrightarrow> name_inv (w @ [c]) found j"
  shows "name_inv (w @ [c]) (hp_header_state s') (hp_index s')"
proof -
  have i: "hp_index s' = hp_index s + 1" using assms(2,4,6) by simp
  have g: "name_inv v h_general j" for v j by (simp add: name_inv_def)
  from match_char_next [OF assms(1-3), of c stay found] show ?thesis
    unfolding assms(5) i using assms(7) [of "hp_index s + 1"] assms(8) g by auto
qed

lemma name_inv_step:
  assumes "name_inv w (hp_header_state s) (hp_index s)" "field_char ch c s = Some s'" "ch \<noteq> CHR '' ''"
  shows "name_inv (w @ [c]) (hp_header_state s') (hp_index s')"
proof (cases "hp_header_state s")
  case h_matching_connection
  show ?thesis
    by (rule name_inv_match [where X = "''connection''" and stay = h_matching_connection and found = h_connection])
      (use assms h_matching_connection in \<open>auto simp: name_inv_def field_char_def\<close>)
next
  case h_matching_proxy_connection
  show ?thesis
    by (rule name_inv_match [where X = "''proxy-connection''" and stay = h_matching_proxy_connection and found = h_connection])
      (use assms h_matching_proxy_connection in \<open>auto simp: name_inv_def field_char_def\<close>)
next
  case h_matching_content_length
  show ?thesis
    by (rule name_inv_match [where X = "''content-length''" and stay = h_matching_content_length and found = h_content_length])
      (use assms h_matching_content_length in \<open>auto simp: name_inv_def field_char_def\<close>)
next
  case h_matching_transfer_encoding
  show ?thesis
    by (rule name_inv_match [where X = "''transfer-encoding''" and stay = h_matching_transfer_encoding and found = h_transfer_encoding])
      (use assms h_matching_transfer_encoding in \<open>auto simp: name_inv_def field_char_def Let_def\<close>)
next
  case h_matching_upgrade
  show ?thesis
    by (rule name_inv_match [where X = "''upgrade''" and stay = h_matching_upgrade and found = h_upgrade])
      (use assms h_matching_upgrade in \<open>auto simp: name_inv_def field_char_def\<close>)
qed (use assms in \<open>auto simp: name_inv_def field_char_def\<close>)

lemma match_char_not: "a \<noteq> x \<Longrightarrow> b \<noteq> x \<Longrightarrow> d \<noteq> x \<Longrightarrow> match_char X i c a b d \<noteq> x"
  by (simp add: match_char_def)

lemma field_char_encoding:
  assumes "field_char ch c s = Some s'" "ch \<noteq> CHR '' ''" "hp_header_state s \<noteq> h_general"
  shows "hp_uses_transfer_encoding s' = (hp_uses_transfer_encoding s \<or> hp_header_state s' = h_transfer_encoding)"
  using assms
  by (cases "hp_header_state s") (auto simp: field_char_def Let_def match_char_not split: if_splits)

lemma name_inv_field: "name_inv w h i \<Longrightarrow> field_hs h"
  by (cases h) (simp_all add: name_inv_def)

lemma length_takeWhile_stop: "\<not> P d \<Longrightarrow> length (takeWhile P (take n (w @ d # r))) \<le> length w"
  by (induction w arbitrary: n) (auto simp: take_Cons split: nat.split)

lemma token_blank: "token (CHR '' '') = NUL" "token (CHR '':'') = NUL" "token TAB = NUL" "token CR = NUL" "token LF = NUL"
  by (simp_all add: token_def tokens_def char_of_def)

text \<open>The scan over a name that ends at a byte that belongs to no token.\<close>

lemma field_scan_name:
  assumes "\<forall>c \<in> set w. token c \<noteq> NUL" "token d = NUL" "name_inv v (hp_header_state s) (hp_index s)"
  shows "\<exists>s'. field_scan (w @ d # r) p s = Some (p + length w, s') \<and> name_framed s s' \<and>
    name_inv (v @ map token w) (hp_header_state s') (hp_index s') \<and>
    (hp_uses_transfer_encoding s' = hp_uses_transfer_encoding s \<or>
     (\<exists>k. take k (v @ map token w) = ''transfer-encoding''))"
  using assms
proof (induction w arbitrary: s p v rule: length_induct)
  case (1 w)
  show ?case
  proof (cases w)
    case Nil
    then show ?thesis using 1(3,4) by simp
  next
    case (Cons c w')
    have c: "token c \<noteq> NUL" using 1(2) Cons by simp
    show ?thesis
    proof (cases "hp_header_state s = h_general")
      case True
      let ?t = "take (min (length (w' @ d # r) + 1) max_header_size - 1) (w' @ d # r)"
      define k where "k = length (takeWhile (\<lambda>x. token x \<noteq> NUL) ?t)"
      have "k \<le> length w'" unfolding k_def by (rule length_takeWhile_stop) (use 1(3) in simp)
      then have d: "drop k (w' @ d # r) = drop k w' @ d # r" by simp
      have l: "length (drop k w') < length w" using Cons by simp
      have "name_inv (v @ map token (c # take k w')) (hp_header_state s) (hp_index s)" using True by (simp add: name_inv_def)
      then obtain s' where s': "field_scan (drop k w' @ d # r) (p + k + 1) s = Some (p + k + 1 + length (drop k w'), s')"
        "name_framed s s'"
        "name_inv ((v @ map token (c # take k w')) @ map token (drop k w')) (hp_header_state s') (hp_index s')"
        "hp_uses_transfer_encoding s' = hp_uses_transfer_encoding s \<or>
         (\<exists>j. take j ((v @ map token (c # take k w')) @ map token (drop k w')) = ''transfer-encoding'')"
        using 1(1) [rule_format, OF l, of "v @ map token (c # take k w')" s "p + k + 1"] 1(2,3) Cons
        by (auto dest: in_set_dropD)
      have "map token (take k w') @ map token (drop k w') = map token w'" by (metis append_take_drop_id map_append)
      then have v: "(v @ map token (c # take k w')) @ map token (drop k w') = v @ map token w" by (simp add: Cons)
      have "field_scan (c # (w' @ d # r)) p s = field_scan (drop k (w' @ d # r)) (p + k + 1) s"
        by (simp only: field_scan.simps Let_def k_def c True if_False if_True simp_thms)
      then have "field_scan (w @ d # r) p s = Some (p + length w, s')"
        using s'(1) d \<open>k \<le> length w'\<close> by (simp add: Cons)
      then show ?thesis using s'(2-4) unfolding v by blast
    next
      case False
      obtain s1 where s1: "field_char c (token c) s = Some s1"
        using field_char_keeps [OF name_inv_field [OF 1(4)] False] by blast
      have sp: "c \<noteq> CHR '' ''" using c token_blank by auto
      note i = name_inv_step [OF 1(4) s1 sp] and e = field_char_encoding [OF s1 sp False] and f = field_char_frame [OF s1]
      have l: "length w' < length w" using Cons by simp
      obtain s' where s': "field_scan (w' @ d # r) (p + 1) s1 = Some (p + 1 + length w', s')" "name_framed s1 s'"
        "name_inv ((v @ [token c]) @ map token w') (hp_header_state s') (hp_index s')"
        "hp_uses_transfer_encoding s' = hp_uses_transfer_encoding s1 \<or>
         (\<exists>j. take j ((v @ [token c]) @ map token w') = ''transfer-encoding'')"
        using 1(1) [rule_format, OF l, of "v @ [token c]" s1 "p + 1"] 1(2,3) Cons i by auto
      have "hp_header_state s1 = h_transfer_encoding \<Longrightarrow> take (length v + 1) (v @ map token w) = ''transfer-encoding''"
        using i Cons by (simp add: name_inv_def)
      then have "hp_uses_transfer_encoding s' = hp_uses_transfer_encoding s \<or>
         (\<exists>j. take j (v @ map token w) = ''transfer-encoding'')"
        using s'(4) e Cons by fastforce
      then show ?thesis using s' c False s1 name_framed_trans [OF f s'(2)] unfolding Cons
        by (intro exI [of _ s']) (simp add: Let_def)
    qed
  qed
qed

text \<open>The states that the name \<open>content-length\<close> takes the parser through.\<close>

definition length_state :: "nat \<Rightarrow> header_states" where
  "length_state k =
     (if k = 1 then h_C else if k = 2 then h_CO else if k = 3 then h_CON
      else if k < 14 then h_matching_content_length else h_content_length)"

lemma length_state_step:
  assumes "hp_header_state s = length_state k" "hp_index s = k - 1" "1 \<le> k" "k < 14" "c = ''content-length'' ! k"
  shows "field_char ch c s = Some (s\<lparr>hp_index := k, hp_header_state := length_state (k + 1)\<rparr>)"
proof -
  have "k = 1 \<or> k = 2 \<or> k = 3 \<or> k = 4 \<or> k = 5 \<or> k = 6 \<or> k = 7 \<or> k = 8 \<or> k = 9 \<or> k = 10 \<or> k = 11 \<or>
    k = 12 \<or> k = 13" using assms(3,4) by presburger
  then show ?thesis using assms(1,2,5)
    by (elim disjE) (simp_all add: field_char_def length_state_def match_char_def c_at_def)
qed

lemma field_scan_length:
  assumes "map token w = drop k ''content-length''" "1 \<le> k" "k \<le> 14" "hp_header_state s = length_state k" "hp_index s = k - 1"
  shows "field_scan (w @ CHR '':'' # r) p s =
    Some (p + length w, s\<lparr>hp_index := 13, hp_header_state := h_content_length\<rparr>)"
  using assms
proof (induction w arbitrary: k p s)
  case Nil
  then have "k = 14" by simp
  then show ?case using Nil token_blank by (simp add: length_state_def)
next
  case (Cons c w)
  have k: "k < 14"
  proof (rule ccontr)
    assume "\<not> k < 14"
    then show False using Cons.prems(1) by simp
  qed
  have "drop k ''content-length'' = ''content-length'' ! k # drop (Suc k) ''content-length''"
    using k by (intro Cons_nth_drop_Suc [symmetric]) simp
  then have c: "token c = ''content-length'' ! k" "map token w = drop (k + 1) ''content-length''"
    using Cons.prems(1) by simp_all
  have "''content-length'' ! k \<in> set ''content-length''" using k by (intro nth_mem) simp
  then have t: "token c \<noteq> NUL" unfolding c(1) by auto
  have g: "hp_header_state s \<noteq> h_general" using Cons.prems(4) by (simp add: length_state_def)
  let ?s = "s\<lparr>hp_index := k, hp_header_state := length_state (k + 1)\<rparr>"
  have "field_char c (token c) s = Some ?s" using Cons.prems k c(1) by (intro length_state_step) auto
  moreover have "field_scan (w @ CHR '':'' # r) (p + 1) ?s =
      Some (p + 1 + length w, ?s\<lparr>hp_index := 13, hp_header_state := h_content_length\<rparr>)"
    using Cons.IH [OF c(2), of ?s "p + 1"] k by simp
  ultimately show ?case using t g by (simp add: Let_def)
qed

subsection \<open>A header\<close>

text \<open>
  Header names the parser passes over, and the one it reads. A name that begins like \<open>transfer-encoding\<close>
  counts as one for a part of the parser.
\<close>

definition plain_name :: "string \<Rightarrow> bool" where
  "plain_name n \<longleftrightarrow>
     n \<noteq> [] \<and> (\<forall>c \<in> set n. token c \<noteq> NUL) \<and>
     map token n \<notin> {''connection'', ''proxy-connection'', ''content-length'', ''upgrade''} \<and>
     (\<forall>k. take k (map token n) \<noteq> ''transfer-encoding'')"

definition length_name :: "string \<Rightarrow> bool" where
  "length_name n \<longleftrightarrow> map token n = ''content-length''"

definition value_ok :: "string \<Rightarrow> bool" where
  "value_ok v \<longleftrightarrow>
     (\<exists>c w. v = c # w \<and> c \<noteq> CHR '' '' \<and> c \<noteq> TAB) \<and> (\<forall>c \<in> set v. is_header_char c \<and> c \<noteq> CR \<and> c \<noteq> LF)"

definition header_text :: "string \<times> string \<Rightarrow> string" where
  "header_text h = fst h @ '': '' @ snd h @ [CR, LF]"

text \<open>The header states in which a value's end changes nothing.\<close>

definition calm :: "header_states \<Rightarrow> bool" where
  "calm h \<longleftrightarrow> h \<notin> {h_connection_keep_alive, h_connection_close, h_transfer_encoding_chunked}"

text \<open>
  The parser where a header line may begin. Behind the first line the decision whether that line goes on is
  still open, and the next byte closes it.
\<close>

definition at_line :: "'a http_parser_scheme \<Rightarrow> bool" where
  "at_line s \<longleftrightarrow>
     hp_http_errno s = CHPE_OK \<and>
     (hp_state s = s_header_field_start \<or> hp_state s = s_header_value_lws \<and> calm (hp_header_state s))"

lemma run_line_start:
  assumes "drop (lv_p l) data = c # r" "at_line s" "c \<noteq> CHR '' ''" "c \<noteq> TAB" "lv_nread l < max_header_size"
    "on_header_field_start c (counted l) (s\<lparr>hp_state := s_header_field_start\<rparr>) = Break l' s'"
  shows "run cbs addr data l s = run cbs addr data (advance l') s'"
proof (cases "hp_state s = s_header_field_start")
  case True
  then have "s\<lparr>hp_state := s_header_field_start\<rparr> = s" by simp
  then have "on_header_field_start c (counted l) s = Break l' s'" using assms(6) by simp
  then show ?thesis using assms(5) True drop_ConsD [OF assms(1)]
    by (intro run_byte [OF assms(1)]) (simp_all add: parsing_header_def execute_byte_def)
next
  case False
  then have s: "hp_state s = s_header_value_lws" "calm (hp_header_state s)" using assms(2) by (simp_all add: at_line_def)
  have "on_header_value_lws c (counted l) s = Reexecute (counted l) (s\<lparr>hp_state := s_header_field_start\<rparr>)"
    using s(2) assms(3,4) by (cases "hp_header_state s") (simp_all add: on_header_value_lws_def calm_def)
  then show ?thesis using assms s drop_ConsD [OF assms(1)]
    by (intro run_again [OF assms(1), where ?l1.0 = "counted l" and ?s1.0 = "s\<lparr>hp_state := s_header_field_start\<rparr>"])
      (simp_all add: parsing_header_def execute_byte_def)
qed

text \<open>The callbacks for names and values, between two lines.\<close>

definition flush_header :: "'a crow_parser_scheme \<Rightarrow> ci_map" where
  "flush_header s =
     (if cp_header_value s \<noteq> [] then ci_emplace (rq_headers (cp_req s)) (cp_header_field s) (cp_header_value s)
      else rq_headers (cp_req s))"

lemma cp_on_header_field_first:
  assumes "cp_header_building_state s = 0"
  shows "\<exists>v. cp_on_header_field n s = Some (0, s\<lparr>cp_req := (cp_req s)\<lparr>rq_headers := flush_header s\<rparr>,
    cp_header_building_state := 1, cp_header_field := n, cp_header_value := v\<rparr>)"
  using assms
  by (cases "cp_header_value s = []")
    (auto simp: cp_on_header_field_def emplace_header_def flush_header_def Let_def intro!: exI [of _ "[]"] crow_parser.equality
      crow_request.equality)

lemma run_name:
  assumes "drop (lv_p l) data = n @ CHR '':'' # r" "n \<noteq> []" "\<forall>c \<in> set n. token c \<noteq> NUL" "at_line s"
    "lv_nread l + length n + 1 \<le> max_header_size" "no_marks l" "cp_header_building_state s = 0"
    "plain_name n \<or> length_name n"
  shows "\<exists>i h v. run (crow_settings hl) addr data l s = run (crow_settings hl) addr data (moved_by (length n + 1) l)
     (s\<lparr>hp_index := i, hp_header_state := h, hp_state := s_header_value_discard_ws,
        cp_req := (cp_req s)\<lparr>rq_headers := flush_header s\<rparr>,
        cp_header_building_state := 1, cp_header_field := n, cp_header_value := v\<rparr>) \<and>
     (if length_name n then h = h_content_length
      else h \<notin> {h_connection, h_content_length, h_transfer_encoding, h_upgrade, h_content_length_ws,
             h_matching_transfer_encoding_token_start})"
proof -
  obtain c w where n: "n = c # w" using assms(2) by (cases n) auto
  have d: "drop (lv_p l) data = c # (w @ CHR '':'' # r)" using assms(1) n by simp
  have t: "token c \<noteq> NUL" using assms(3) n by simp
  have c: "c \<noteq> CHR '' ''" "c \<noteq> TAB" "c \<noteq> CR" "c \<noteq> LF" using t token_blank by auto
  obtain h0 where h0: "on_header_field_start c (counted l) (s\<lparr>hp_state := s_header_field_start\<rparr>) =
      Break ((counted l)\<lparr>lv_header_field_mark := Some (lv_p l)\<rparr>)
        (s\<lparr>hp_index := 0, hp_state := s_header_field, hp_header_state := h0\<rparr>)"
    "name_inv [token c] h0 0" "length_name n \<Longrightarrow> h0 = h_C"
    using t c assms(6)
    by (auto simp: on_header_field_start_def Let_def mark_at_def no_marks_def name_inv_def length_name_def n)
  let ?l1 = "advance ((counted l)\<lparr>lv_header_field_mark := Some (lv_p l)\<rparr>)"
  let ?s1 = "s\<lparr>hp_index := 0, hp_state := s_header_field, hp_header_state := h0\<rparr>"
  let ?p = "lv_p l + 1 + length w"
  have 1: "run (crow_settings hl) addr data l s = run (crow_settings hl) addr data ?l1 ?s1"
    by (rule run_line_start [OF d assms(4) c(1,2) _ h0(1)]) (use assms(5) in simp)
  have d1: "drop (lv_p ?l1) data = w @ CHR '':'' # r" using drop_ConsD [OF d] by simp
  have scan: "\<exists>i h. field_scan (w @ CHR '':'' # r) (lv_p l + 1) ?s1 = Some (?p, ?s1\<lparr>hp_index := i, hp_header_state := h\<rparr>) \<and>
     (if length_name n then h = h_content_length
      else h \<notin> {h_connection, h_content_length, h_transfer_encoding, h_upgrade, h_content_length_ws,
             h_matching_transfer_encoding_token_start})"
  proof (cases "length_name n")
    case True
    then have "map token w = drop 1 ''content-length''" by (simp add: length_name_def n)
    then show ?thesis using field_scan_length [of w 1 ?s1 r "lv_p l + 1"] True h0(3)
      by (intro exI [of _ 13] exI [of _ h_content_length]) (simp add: length_state_def)
  next
    case False
    then have pl: "plain_name n" using assms(8) by simp
    obtain s2 where s2: "field_scan (w @ CHR '':'' # r) (lv_p l + 1) ?s1 = Some (?p, s2)" "name_framed ?s1 s2"
      "name_inv ([token c] @ map token w) (hp_header_state s2) (hp_index s2)"
      "hp_uses_transfer_encoding s2 = hp_uses_transfer_encoding ?s1 \<or> (\<exists>k. take k ([token c] @ map token w) = ''transfer-encoding'')"
      using field_scan_name [of w "CHR '':''" "[token c]" ?s1 r "lv_p l + 1"] assms(3) n token_blank h0(2) by auto
    have m: "[token c] @ map token w = map token n" by (simp add: n)
    have u: "hp_uses_transfer_encoding s2 = hp_uses_transfer_encoding ?s1"
      using s2(4) pl unfolding m plain_name_def by blast
    have "s2 = ?s1\<lparr>hp_index := hp_index s2, hp_header_state := hp_header_state s2\<rparr>"
      using s2(2) u by (auto simp: name_framed_def)
    moreover have "take 17 ''transfer-encoding'' = ''transfer-encoding''" by simp
    then have "map token n \<noteq> ''transfer-encoding''" using pl unfolding plain_name_def by metis
    then have "hp_header_state s2 \<notin> {h_connection, h_content_length, h_transfer_encoding, h_upgrade, h_content_length_ws,
             h_matching_transfer_encoding_token_start}"
      using s2(3) pl unfolding m by (auto simp: name_inv_def plain_name_def)
    ultimately show ?thesis using s2(1) False by metis
  qed
  then obtain i h where ih: "field_scan (w @ CHR '':'' # r) (lv_p l + 1) ?s1 = Some (?p, ?s1\<lparr>hp_index := i, hp_header_state := h\<rparr>)"
     "if length_name n then h = h_content_length
      else h \<notin> {h_connection, h_content_length, h_transfer_encoding, h_upgrade, h_content_length_ws,
             h_matching_transfer_encoding_token_start}" by blast
  let ?s2 = "?s1\<lparr>hp_index := i, hp_header_state := h, hp_state := s_header_value_discard_ws\<rparr>"
  obtain v where v: "cp_on_header_field n ?s2 = Some (0, ?s2\<lparr>cp_req := (cp_req ?s2)\<lparr>rq_headers := flush_header ?s2\<rparr>,
    cp_header_building_state := 1, cp_header_field := n, cp_header_value := v\<rparr>)"
    using cp_on_header_field_first [of ?s2 n] assms(7) by auto
  have dc: "drop ?p data = CHR '':'' # r" using drop_appendD [OF d1] by simp
  note dc' = drop_ConsD [OF dc]
  have tk: "take (?p - lv_p l) (drop (lv_p l) data) = n" using assms(1) n by simp
  obtain x y where xy: "w @ CHR '':'' # r = x # y" by (cases w) auto
  let ?s3 = "?s2\<lparr>cp_req := (cp_req ?s2)\<lparr>rq_headers := flush_header ?s2\<rparr>,
    cp_header_building_state := 1, cp_header_field := n, cp_header_value := v\<rparr>"
  let ?l2 = "(counted ?l1)\<lparr>lv_p := ?p, lv_nread := lv_nread l + 2 + length w, lv_header_field_mark := None\<rparr>"
  have ok: "hp_http_errno s = CHPE_OK" using assms(4) by (simp add: at_line_def)
  have "execute_byte (crow_settings hl) addr data (counted ?l1) ?s1 = Break ?l2 ?s3"
    using assms(5) n ok d1 ih(1) dc' tk v
    by (simp add: execute_byte_def Let_def on_header_field_state_def count_header_size_def callback_data_def asserting_def
        after_callback_def crow_settings_def)
  then have 2: "run (crow_settings hl) addr data ?l1 ?s1 = run (crow_settings hl) addr data (advance ?l2) ?s3"
    using assms(5) n by (intro run_byte [OF d1 [unfolded xy]]) (simp_all add: parsing_header_def)
  have 3: "advance ?l2 = moved_by (length n + 1) l"
    using assms(6) by (intro locals.equality) (simp_all add: n no_marks_def)
  have 4: "?s3 = s\<lparr>hp_index := i, hp_header_state := h, hp_state := s_header_value_discard_ws,
        cp_req := (cp_req s)\<lparr>rq_headers := flush_header s\<rparr>,
        cp_header_building_state := 1, cp_header_field := n, cp_header_value := v\<rparr>"
    by (intro crow_parser.equality) (simp_all add: flush_header_def)
  show ?thesis using 1 2 ih(2) unfolding 3 4 by metis
qed

subsection \<open>Header values\<close>

lemma header_char_plain: "is_header_char c \<Longrightarrow> plain_value_char len c"
  by (simp add: plain_value_char_def)

lemma value_scan_plain:
  assumes "\<forall>c \<in> set w. is_header_char c \<and> c \<noteq> CR \<and> c \<noteq> LF" "length w < max_header_size"
  shows "value_scan len (w @ CR # r) p h_general i n = (At_cr, p + length w, h_general, i, n)"
proof (cases w)
  case (Cons c w')
  let ?P = "\<lambda>x. x \<noteq> CR \<and> x \<noteq> LF \<and> plain_value_char len x"
  let ?t = "take (min (length (w' @ CR # r) + 1) max_header_size) (w @ CR # r)"
  have t: "?t = w @ CR # take (min (length (w' @ CR # r) + 1) max_header_size - length w - 1) r"
    using assms(2) Cons by (auto simp: take_Cons' min_def)
  have k: "takeWhile ?P ?t = w" unfolding t using assms(1) header_char_plain by (simp add: takeWhile_append2)
  have c: "c \<noteq> CR" "c \<noteq> LF" "plain_value_char len c" using assms(1) header_char_plain Cons by auto
  have "?t ! length w = CR" unfolding t by simp
  moreover have "length w < length ?t" unfolding t by simp
  ultimately have "value_scan len (c # (w' @ CR # r)) p h_general i n =
      value_scan len (drop (length w - 1) (w' @ CR # r)) (p + length w) h_general i n"
    unfolding value_scan.simps(2) Let_def using c k Cons by simp
  then show ?thesis using Cons by simp
qed simp

definition LENGTH_LIMIT :: nat where
  "LENGTH_LIMIT = 1000000000000000000"

lemma digits_val_ge: "a \<le> digits_val a w"
proof (induction w arbitrary: a)
  case (Cons c w)
  show ?case using Cons [of "10 * a + digit_val c"] by simp
qed simp

lemma add_digit_nat:
  assumes "a * 10 + d \<le> LENGTH_LIMIT" "d < 10"
  shows "add_digit 10 (word_of_nat a) (word_of_nat d) = Some (word_of_nat (10 * a + d))"
proof -
  have a: "a \<le> 100000000000000000" using assms(1) by (simp add: LENGTH_LIMIT_def)
  have "unat (word_of_nat a :: 64 word) = a" using a by (simp add: unat_of_nat)
  moreover have "unat ((ULLONG_MAX - 10) div 10) = 1844674407370955160"
    by (simp add: unat_div unat_sub_if_size unat_max word_size)
  ultimately have "\<not> (ULLONG_MAX - 10) div 10 < word_of_nat a"
    using a by (simp add: word_less_nat_alt)
  then show ?thesis by (simp add: add_digit_def mult.commute)
qed

lemma value_scan_digits:
  assumes "\<forall>c \<in> set w. is_digit c" "digits_val a w \<le> LENGTH_LIMIT"
  shows "value_scan len (w @ CR # r) p h_content_length_num i (word_of_nat a) =
    (At_cr, p + length w, h_content_length_num, i, word_of_nat (digits_val a w))"
  using assms
proof (induction w arbitrary: a p)
  case (Cons c w)
  have c: "is_num c" "c \<noteq> CR" "c \<noteq> LF" "c \<noteq> CHR '' ''" "is_header_char c"
    using Cons.prems(1) by (auto simp: is_digit_def is_num_def is_header_char_def)
  have "a * 10 + digit_val c \<le> LENGTH_LIMIT"
    using digits_val_ge [of "10 * a + digit_val c" w] Cons.prems(2) by simp
  moreover have "digit_val c < 10" using c(1) by (auto simp: is_num_def digit_val_def)
  ultimately have "add_digit 10 (word_of_nat a) (word_of_nat (code c - 48)) = Some (word_of_nat (10 * a + digit_val c))"
    using add_digit_nat by (simp add: digit_val_def)
  then show ?case using Cons.prems Cons.IH [of "10 * a + digit_val c" "p + 1"] c header_char_plain
    by (simp add: value_char_def content_length_digit_def)
qed simp

text \<open>What a value does to the flags and to the length of the body.\<close>

definition length_value :: "string \<Rightarrow> bool" where
  "length_value v \<longleftrightarrow> v \<noteq> [] \<and> (\<forall>c \<in> set v. is_digit c) \<and> digits_val 0 v \<le> LENGTH_LIMIT"

definition header_ok :: "string \<times> string \<Rightarrow> bool" where
  "header_ok h \<longleftrightarrow>
     plain_name (fst h) \<and> value_ok (snd h) \<or> length_name (fst h) \<and> length_value (snd h)"

lemma run_value:
  assumes "drop (lv_p l) data = CHR '' '' # v @ CR # LF # r" "value_ok v \<and> \<not> cl \<or> length_value v \<and> cl"
    "hp_state s = s_header_value_discard_ws" "hp_http_errno s = CHPE_OK"
    "if cl then hp_header_state s = h_content_length \<and> F_CONTENTLENGTH \<notin> hp_flags s
     else hp_header_state s \<notin> {h_connection, h_content_length, h_transfer_encoding, h_upgrade, h_content_length_ws,
             h_matching_transfer_encoding_token_start}"
    "lv_nread l + length v + 3 \<le> max_header_size" "no_marks l" "cp_header_building_state s = 1"
  shows "\<exists>h. calm h \<and> run (crow_settings hl) addr data l s = run (crow_settings hl) addr data (moved_by (length v + 3) l)
     (s\<lparr>hp_index := 0, hp_header_state := h, hp_state := s_header_value_lws,
        hp_flags := (if cl then insert F_CONTENTLENGTH (hp_flags s) else hp_flags s),
        hp_content_length := (if cl then word_of_nat (digits_val 0 v) else hp_content_length s),
        cp_header_building_state := 0, cp_header_value := v\<rparr>)"
proof -
  obtain c w where v: "v = c # w" using assms(2) by (cases v) (auto simp: value_ok_def length_value_def)
  have d: "drop (lv_p l) data = CHR '' '' # (v @ CR # LF # r)" using assms(1) by simp
  have 1: "run (crow_settings hl) addr data l s = run (crow_settings hl) addr data (moved_by 1 l) s"
    using assms(3,6) drop_ConsD [OF d]
    by (intro run_plain [OF d]) (simp_all add: parsing_header_def execute_byte_def on_header_value_discard_ws_def Let_def)
  have d2: "drop (lv_p (moved_by 1 l)) data = c # (w @ CR # LF # r)" using drop_ConsD [OF d] v by simp
  have c: "c \<noteq> CHR '' ''" "c \<noteq> TAB" "c \<noteq> CR" "c \<noteq> LF" "cl \<Longrightarrow> is_num c"
    using assms(2) v by (auto simp: value_ok_def length_value_def is_digit_def is_num_def)
  let ?h = "if cl then h_content_length_num else h_general"
  let ?fl = "if cl then insert F_CONTENTLENGTH (hp_flags s) else hp_flags s"
  let ?s2 = "s\<lparr>hp_state := s_header_value, hp_index := 0, hp_flags := ?fl,
      hp_content_length := (if cl then word_of_nat (digit_val c) else hp_content_length s), hp_header_state := ?h\<rparr>"
  let ?l2 = "advance ((counted (moved_by 1 l))\<lparr>lv_header_value_mark := Some (lv_p l + 1)\<rparr>)"
  have m: "lv_header_value_mark l = None" using assms(7) by (simp add: no_marks_def)
  have "on_header_value_start c (counted (moved_by 1 l)) s =
      Break ((counted (moved_by 1 l))\<lparr>lv_header_value_mark := Some (lv_p l + 1)\<rparr>) ?s2"
  proof (cases cl)
    case True
    then show ?thesis using assms(5) c(5) m
      by (simp add: on_header_value_start_def Let_def mark_at_def digit_val_def crow_parser.equality)
  next
    case False
    then have h: "hp_header_state s \<notin> {h_connection, h_content_length, h_transfer_encoding, h_upgrade, h_content_length_ws,
             h_matching_transfer_encoding_token_start}" using assms(5) by simp
    have "?s2 = s\<lparr>hp_state := s_header_value, hp_index := 0, hp_header_state := h_general\<rparr>" using False by simp
    then show ?thesis using h m False
      by (cases "hp_header_state s") (simp_all add: on_header_value_start_def Let_def mark_at_def)
  qed
  then have "on_header_value_discard_ws c (counted (moved_by 1 l)) s =
      Break ((counted (moved_by 1 l))\<lparr>lv_header_value_mark := Some (lv_p l + 1)\<rparr>) ?s2"
    using c by (simp add: on_header_value_discard_ws_def)
  then have 2: "run (crow_settings hl) addr data (moved_by 1 l) s = run (crow_settings hl) addr data ?l2 ?s2"
    using assms(3,6) drop_ConsD [OF d2]
    by (intro run_byte [OF d2]) (simp_all add: parsing_header_def execute_byte_def)
  have d3: "drop (lv_p ?l2) data = w @ CR # LF # r" using drop_ConsD [OF d2] by simp
  let ?p = "lv_p l + 2 + length w"
  let ?n = "if cl then word_of_nat (digits_val 0 v) else hp_content_length s"
  have lw: "length w < max_header_size" using assms(6) v by simp
  have scan: "value_scan len (w @ CR # LF # r) (lv_p l + 2) ?h 0 (hp_content_length ?s2) = (At_cr, ?p, ?h, 0, ?n)" for len
    using assms(2) v lw value_scan_plain [of w len "LF # r" "lv_p l + 2" 0 "hp_content_length s"]
      value_scan_digits [of w "digit_val c" len "LF # r" "lv_p l + 2" 0]
    by (auto simp: value_ok_def length_value_def)
  have dc: "drop ?p data = CR # LF # r" using drop_appendD [OF d3] by simp
  note dc' = drop_ConsD [OF dc]
  have tk: "take (?p - (lv_p l + 1)) (drop (lv_p l + 1) data) = v" using drop_ConsD(3) [OF d] v by simp
  obtain x y where xy: "w @ CR # LF # r = x # y" by (cases w) auto
  let ?s3 = "?s2\<lparr>hp_content_length := ?n, hp_state := s_header_almost_done, cp_header_building_state := 0, cp_header_value := v\<rparr>"
  let ?l3 = "(counted ?l2)\<lparr>lv_p := ?p, lv_nread := lv_nread l + 3 + length w, lv_header_value_mark := None\<rparr>"
  have "execute_byte (crow_settings hl) addr data (counted ?l2) ?s2 = Break ?l3 ?s3"
    using assms(4,6,8) v d3 scan dc' tk
    by (simp add: execute_byte_def Let_def on_header_value_state_def count_header_size_def callback_data_def asserting_def
        after_callback_def crow_settings_def cp_on_header_value_def crow_parser.equality)
  then have 3: "run (crow_settings hl) addr data ?l2 ?s2 = run (crow_settings hl) addr data (advance ?l3) ?s3"
    using assms(6) v by (intro run_byte [OF d3 [unfolded xy]]) (simp_all add: parsing_header_def)
  have d4: "drop (lv_p (advance ?l3)) data = LF # r" using dc' by simp
  let ?s4 = "?s3\<lparr>hp_state := s_header_value_lws\<rparr>"
  have 4: "run (crow_settings hl) addr data (advance ?l3) ?s3 = run (crow_settings hl) addr data (moved_by 1 (advance ?l3)) ?s4"
    using assms(6) v drop_ConsD [OF d4]
    by (intro run_plain [OF d4]) (simp_all add: parsing_header_def execute_byte_def on_header_almost_done_def Let_def)
  have 5: "moved_by 1 (advance ?l3) = moved_by (length v + 3) l"
    using assms(7) by (intro locals.equality) (simp_all add: v no_marks_def)
  have 6: "?s4 = s\<lparr>hp_index := 0, hp_header_state := ?h, hp_state := s_header_value_lws,
        hp_flags := ?fl, hp_content_length := ?n, cp_header_building_state := 0, cp_header_value := v\<rparr>"
    by (intro crow_parser.equality) simp_all
  have "calm ?h" by (simp add: calm_def)
  moreover have "run (crow_settings hl) addr data l s = run (crow_settings hl) addr data (moved_by (length v + 3) l) ?s4"
    unfolding 1 2 3 4 5 ..
  ultimately show ?thesis unfolding 6 by blast
qed

subsection \<open>The headers\<close>

text \<open>A header line, and what it leaves: the one before it is entered, and it waits to be.\<close>

definition after_header :: "string \<times> string \<Rightarrow> 'a crow_parser_scheme \<Rightarrow> 'a crow_parser_scheme" where
  "after_header h s =
     s\<lparr>hp_flags := (if length_name (fst h) then insert F_CONTENTLENGTH (hp_flags s) else hp_flags s),
       hp_content_length := (if length_name (fst h) then word_of_nat (digits_val 0 (snd h)) else hp_content_length s),
       cp_req := (cp_req s)\<lparr>rq_headers := flush_header s\<rparr>,
       cp_header_field := fst h, cp_header_value := snd h\<rparr>"

lemma length_name_not_plain: "length_name n \<Longrightarrow> \<not> plain_name n"
  by (simp add: length_name_def plain_name_def)

lemma length_name_tokens: "length_name n \<Longrightarrow> n \<noteq> [] \<and> (\<forall>c \<in> set n. token c \<noteq> NUL)"
proof -
  assume n: "length_name n"
  have "NUL \<notin> set (map token n)" using n by (simp add: length_name_def)
  then show ?thesis using n by (auto simp: length_name_def)
qed

lemma run_header:
  assumes "drop (lv_p l) data = header_text h @ r" "header_ok h" "at_line s" "no_marks l" "cp_header_building_state s = 0"
    "length_name (fst h) \<Longrightarrow> F_CONTENTLENGTH \<notin> hp_flags s" "lv_nread l + length (header_text h) \<le> max_header_size"
  shows "\<exists>i hs. calm hs \<and>
    run (crow_settings hl) addr data l s = run (crow_settings hl) addr data (moved_by (length (header_text h)) l)
      ((after_header h s)\<lparr>hp_index := i, hp_header_state := hs, hp_state := s_header_value_lws\<rparr>)"
proof -
  obtain n v where h: "h = (n, v)" by (cases h)
  have d: "drop (lv_p l) data = n @ CHR '':'' # (CHR '' '' # v @ CR # LF # r)"
    using assms(1) by (simp add: h header_text_def)
  have n: "n \<noteq> []" "\<forall>c \<in> set n. token c \<noteq> NUL" "plain_name n \<or> length_name n"
    using assms(2) length_name_tokens by (auto simp: header_ok_def h plain_name_def)
  have len: "length (header_text h) = length n + 1 + (length v + 3)" by (simp add: h header_text_def)
  have b: "lv_nread l + length n + 1 \<le> max_header_size" using assms(7) len by simp
  obtain i hs v0 where 1: "run (crow_settings hl) addr data l s = run (crow_settings hl) addr data (moved_by (length n + 1) l)
     (s\<lparr>hp_index := i, hp_header_state := hs, hp_state := s_header_value_discard_ws,
        cp_req := (cp_req s)\<lparr>rq_headers := flush_header s\<rparr>,
        cp_header_building_state := 1, cp_header_field := n, cp_header_value := v0\<rparr>)"
     "if length_name n then hs = h_content_length
      else hs \<notin> {h_connection, h_content_length, h_transfer_encoding, h_upgrade, h_content_length_ws,
             h_matching_transfer_encoding_token_start}"
    using run_name [OF d n(1,2) assms(3) b assms(4,5) n(3), of hl addr] by blast
  let ?s1 = "s\<lparr>hp_index := i, hp_header_state := hs, hp_state := s_header_value_discard_ws,
        cp_req := (cp_req s)\<lparr>rq_headers := flush_header s\<rparr>,
        cp_header_building_state := 1, cp_header_field := n, cp_header_value := v0\<rparr>"
  have d1: "drop (lv_p (moved_by (length n + 1) l)) data = CHR '' '' # v @ CR # LF # r"
    using drop_appendD [of "lv_p l" data "n @ '':''" "CHR '' '' # v @ CR # LF # r"] d by (simp add: add.assoc)
  have ok: "value_ok v \<and> \<not> length_name n \<or> length_value v \<and> length_name n"
    using assms(2) length_name_not_plain by (auto simp: header_ok_def h)
  obtain h2 where 2: "calm h2" "run (crow_settings hl) addr data (moved_by (length n + 1) l) ?s1 =
     run (crow_settings hl) addr data (moved_by (length v + 3) (moved_by (length n + 1) l))
     (?s1\<lparr>hp_index := 0, hp_header_state := h2, hp_state := s_header_value_lws,
        hp_flags := (if length_name n then insert F_CONTENTLENGTH (hp_flags ?s1) else hp_flags ?s1),
        hp_content_length := (if length_name n then word_of_nat (digits_val 0 v) else hp_content_length ?s1),
        cp_header_building_state := 0, cp_header_value := v\<rparr>)"
    using run_value [OF d1 ok, of ?s1 hl addr] assms(3,4,6,7) len 1(2)
    by (auto simp: at_line_def no_marks_def h split: if_splits)
  have 3: "?s1\<lparr>hp_index := 0, hp_header_state := h2, hp_state := s_header_value_lws,
        hp_flags := (if length_name n then insert F_CONTENTLENGTH (hp_flags ?s1) else hp_flags ?s1),
        hp_content_length := (if length_name n then word_of_nat (digits_val 0 v) else hp_content_length ?s1),
        cp_header_building_state := 0, cp_header_value := v\<rparr> =
      (after_header h s)\<lparr>hp_index := 0, hp_header_state := h2, hp_state := s_header_value_lws\<rparr>"
    using assms(5) by (intro crow_parser.equality) (simp_all add: after_header_def h)
  show ?thesis using 2(1) unfolding 1(1) 2(2) 3 len by (intro exI [of _ 0] exI [of _ h2]) simp
qed

text \<open>The fields that say where in its line the parser is.\<close>

definition placed :: "nat \<Rightarrow> header_states \<Rightarrow> pstate \<Rightarrow> 'a http_parser_scheme \<Rightarrow> 'a http_parser_scheme" where
  "placed i hs st s = s\<lparr>hp_index := i, hp_header_state := hs, hp_state := st\<rparr>"

lemma placed_simps [simp]:
  "hp_state (placed i hs st s) = st" "hp_header_state (placed i hs st s) = hs" "hp_flags (placed i hs st s) = hp_flags s"
  "hp_http_errno (placed i hs st s) = hp_http_errno s" "hp_content_length (placed i hs st s) = hp_content_length s"
  "hp_uses_transfer_encoding (placed i hs st s) = hp_uses_transfer_encoding s" "hp_method (placed i hs st s) = hp_method s"
  "hp_http_major (placed i hs st s) = hp_http_major s" "hp_http_minor (placed i hs st s) = hp_http_minor s"
  "placed i hs st (placed j ht su s) = placed i hs st s"
  by (simp_all add: placed_def)

lemma placed_crow [simp]:
  "cp_req (placed i hs st s) = cp_req s" "cp_header_field (placed i hs st s) = cp_header_field s"
  "cp_header_value (placed i hs st s) = cp_header_value s" "cp_header_building_state (placed i hs st s) = cp_header_building_state s"
  "cp_message_complete (placed i hs st s) = cp_message_complete s" "crow_parser.more (placed i hs st s) = crow_parser.more s"
  by (simp_all add: placed_def)

lemma after_header_placed: "after_header h (placed i hs st s) = placed i hs st (after_header h s)"
  by (intro crow_parser.equality) (simp_all add: after_header_def placed_def flush_header_def)

lemma after_header_simps [simp]:
  "hp_http_errno (after_header h s) = hp_http_errno s" "cp_header_building_state (after_header h s) = cp_header_building_state s"
  "hp_uses_transfer_encoding (after_header h s) = hp_uses_transfer_encoding s" "hp_method (after_header h s) = hp_method s"
  "hp_http_major (after_header h s) = hp_http_major s" "hp_http_minor (after_header h s) = hp_http_minor s"
  "cp_message_complete (after_header h s) = cp_message_complete s" "crow_parser.more (after_header h s) = crow_parser.more s"
  "cp_header_field (after_header h s) = fst h" "cp_header_value (after_header h s) = snd h"
  by (simp_all add: after_header_def)

definition headers_text :: "(string \<times> string) list \<Rightarrow> string" where
  "headers_text hs = concat (map header_text hs)"

definition headers_ok :: "(string \<times> string) list \<Rightarrow> bool" where
  "headers_ok hs \<longleftrightarrow> (\<forall>h \<in> set hs. header_ok h) \<and> length (filter (\<lambda>h. length_name (fst h)) hs) \<le> 1"

lemma run_headers:
  assumes "drop (lv_p l) data = headers_text hs @ r" "headers_ok hs" "at_line s" "no_marks l" "cp_header_building_state s = 0"
    "(\<exists>h \<in> set hs. length_name (fst h)) \<Longrightarrow> F_CONTENTLENGTH \<notin> hp_flags s"
    "lv_nread l + length (headers_text hs) \<le> max_header_size"
  shows "\<exists>i h st. run (crow_settings hl) addr data l s =
      run (crow_settings hl) addr data (moved_by (length (headers_text hs)) l) (placed i h st (fold after_header hs s)) \<and>
    at_line (placed i h st (fold after_header hs s))"
  using assms
proof (induction hs arbitrary: l s)
  case Nil
  then show ?case
    by (intro exI [of _ "hp_index s"] exI [of _ "hp_header_state s"] exI [of _ "hp_state s"])
      (simp add: headers_text_def placed_def at_line_def)
next
  case (Cons h hs)
  have d: "drop (lv_p l) data = header_text h @ (headers_text hs @ r)" using Cons.prems(1) by (simp add: headers_text_def)
  have len: "length (headers_text (h # hs)) = length (header_text h) + length (headers_text hs)" by (simp add: headers_text_def)
  obtain i ht where 1: "calm ht" "run (crow_settings hl) addr data l s =
      run (crow_settings hl) addr data (moved_by (length (header_text h)) l) (placed i ht s_header_value_lws (after_header h s))"
    using run_header [OF d _ Cons.prems(3-5), of hl addr] Cons.prems(2,6,7) len
    by (auto simp: headers_ok_def placed_def)
  let ?s = "placed i ht s_header_value_lws (after_header h s)"
  have "at_line ?s" using 1(1) Cons.prems(3) by (simp add: at_line_def)
  moreover have "headers_ok hs" using Cons.prems(2) by (auto simp: headers_ok_def split: if_splits)
  moreover have "drop (lv_p (moved_by (length (header_text h)) l)) data = headers_text hs @ r"
    using drop_appendD [OF d] by simp
  moreover have "F_CONTENTLENGTH \<notin> hp_flags ?s" if "\<exists>h \<in> set hs. length_name (fst h)"
  proof -
    have "filter (\<lambda>h. length_name (fst h)) hs \<noteq> []" using that by (auto simp: filter_empty_conv)
    then have "\<not> length_name (fst h)" using Cons.prems(2)
      by (cases "filter (\<lambda>h. length_name (fst h)) hs") (auto simp: headers_ok_def)
    then show ?thesis using Cons.prems(6) that by (auto simp: after_header_def)
  qed
  moreover have "no_marks (moved_by (length (header_text h)) l)" using Cons.prems(4) by (simp add: no_marks_def)
  ultimately obtain j hu st where 2: "run (crow_settings hl) addr data (moved_by (length (header_text h)) l) ?s =
      run (crow_settings hl) addr data (moved_by (length (headers_text hs)) (moved_by (length (header_text h)) l))
        (placed j hu st (fold after_header hs ?s)) \<and> at_line (placed j hu st (fold after_header hs ?s))"
    using Cons.IH [of "moved_by (length (header_text h)) l" ?s] Cons.prems(5,7) len by auto
  have 3: "fold after_header hs (placed i ht s_header_value_lws t) = placed i ht s_header_value_lws (fold after_header hs t)" for t
    by (induction hs arbitrary: t) (simp_all add: after_header_placed)
  show ?case using 2 unfolding 1(2) len 3 by (intro exI [of _ j] exI [of _ hu] exI [of _ st]) simp
qed

text \<open>The headers that are entered, with the one that waits.\<close>

definition pending_headers :: "'a crow_parser_scheme \<Rightarrow> ci_map" where
  "pending_headers s =
     (if cp_header_field s \<noteq> [] then ci_emplace (rq_headers (cp_req s)) (cp_header_field s) (cp_header_value s)
      else rq_headers (cp_req s))"

lemma pending_after_header:
  assumes "header_ok h" "cp_header_field s = [] \<longleftrightarrow> cp_header_value s = []"
  shows "pending_headers (after_header h s) = h # pending_headers s"
    "cp_header_field (after_header h s) = [] \<longleftrightarrow> cp_header_value (after_header h s) = []"
proof -
  have h: "fst h \<noteq> []" "snd h \<noteq> []" using assms(1) length_name_tokens
    by (auto simp: header_ok_def plain_name_def value_ok_def length_value_def)
  show "pending_headers (after_header h s) = h # pending_headers s"
    using h assms(2) by (simp add: pending_headers_def after_header_def flush_header_def ci_emplace_def)
  show "cp_header_field (after_header h s) = [] \<longleftrightarrow> cp_header_value (after_header h s) = []" using h by simp
qed

lemma pending_fold:
  assumes "\<forall>h \<in> set hs. header_ok h" "cp_header_field s = [] \<longleftrightarrow> cp_header_value s = []"
  shows "pending_headers (fold after_header hs s) = rev hs @ pending_headers s"
  using assms
proof (induction hs arbitrary: s)
  case (Cons h hs)
  then show ?case using pending_after_header [of h s] by (simp del: after_header_simps)
qed simp

text \<open>What header lines may change.\<close>

definition header_framed :: "'a crow_parser_scheme \<Rightarrow> 'a crow_parser_scheme \<Rightarrow> bool" where
  "header_framed s s' \<longleftrightarrow>
     (\<exists>f n hd fd v. s' = s\<lparr>hp_flags := f, hp_content_length := n, cp_req := (cp_req s)\<lparr>rq_headers := hd\<rparr>,
        cp_header_field := fd, cp_header_value := v\<rparr>)"

lemma header_framed_trans: "header_framed s t \<Longrightarrow> header_framed t u \<Longrightarrow> header_framed s u"
  by (clarsimp simp: header_framed_def, blast)

lemma header_framed_refl: "header_framed s s"
  unfolding header_framed_def
  by (intro exI [of _ "hp_flags s"] exI [of _ "hp_content_length s"] exI [of _ "rq_headers (cp_req s)"]
      exI [of _ "cp_header_field s"] exI [of _ "cp_header_value s"]) (simp add: crow_parser.equality)

lemma header_framed_fold: "header_framed s (fold after_header hs s)"
proof (induction hs arbitrary: s)
  case (Cons h hs)
  have "header_framed s (after_header h s)" unfolding header_framed_def after_header_def by blast
  then show ?case using header_framed_trans [OF _ Cons] by simp
qed (simp add: header_framed_refl)

lemma fold_content_length:
  "hp_content_length (fold after_header hs s) =
     (case find (\<lambda>h. length_name (fst h)) (rev hs) of
        None \<Rightarrow> hp_content_length s | Some h \<Rightarrow> word_of_nat (digits_val 0 (snd h)))"
  by (induction hs rule: rev_induct) (simp_all add: after_header_def)

lemma fold_flags: "hp_flags (fold after_header hs s) \<subseteq> insert F_CONTENTLENGTH (hp_flags s)"
  by (induction hs rule: rev_induct) (auto simp: after_header_def)

subsection \<open>The end of the headers, and the body\<close>

text \<open>What the end of the headers makes of the object, up to what its owner does.\<close>

definition headers_closed :: "'a crow_parser_scheme \<Rightarrow> 'a crow_parser_scheme" where
  "headers_closed s =
     set_connection_parameters
       (s\<lparr>hp_state := s_headers_done, hp_upgrade := False, cp_req := (cp_req s)\<lparr>rq_headers := pending_headers s\<rparr>,
          cp_header_field := [], cp_header_value := (if cp_header_field s \<noteq> [] then [] else cp_header_value s)\<rparr>)"

lemma cp_on_headers_complete_eq:
  "cp_on_headers_complete hl (s\<lparr>hp_state := s_headers_done, hp_upgrade := False\<rparr>) =
     returns0 (h_handle_header hl (headers_closed s))"
proof -
  have "(let s = s\<lparr>hp_state := s_headers_done, hp_upgrade := False\<rparr> in
          if cp_header_field s \<noteq> [] then
                 (emplace_header (cp_header_field s) (cp_header_value s) s)\<lparr>cp_header_field := [], cp_header_value := []\<rparr>
               else s) =
     s\<lparr>hp_state := s_headers_done, hp_upgrade := False, cp_req := (cp_req s)\<lparr>rq_headers := pending_headers s\<rparr>,
          cp_header_field := [], cp_header_value := (if cp_header_field s \<noteq> [] then [] else cp_header_value s)\<rparr>"
    by (intro crow_parser.equality) (simp_all add: emplace_header_def pending_headers_def Let_def)
  then show ?thesis by (simp add: cp_on_headers_complete_def headers_closed_def Let_def)
qed

lemma headers_closed_state: "headers_closed (s\<lparr>hp_state := st\<rparr>) = headers_closed s"
  by (simp add: headers_closed_def pending_headers_def)

lemma run_headers_end:
  assumes "drop (lv_p l) data = CR # LF # r" "at_line s" "hp_method s \<noteq> Connect" "hp_flags s \<subseteq> {F_CONTENTLENGTH}"
    "\<not> hp_uses_transfer_encoding s" "lv_nread l + 2 \<le> max_header_size" "no_marks l"
    "h_handle_header hl (headers_closed s) = Some s1"
    "hp_http_errno s1 = CHPE_OK" "hp_upgrade s1 = False" "hp_flags s1 = hp_flags s" "hp_state s1 = s_headers_done"
    "hp_uses_transfer_encoding s1 = hp_uses_transfer_encoding s"
  shows "run (crow_settings hl) addr data l s =
    (if hp_content_length s1 = 0 \<or> hp_content_length s1 = ULLONG_MAX then
       (case h_handle hl (s1\<lparr>hp_nread := 0, cp_message_complete := True\<rparr>) of
          None \<Rightarrow> Some (Inl Callback_stuck)
        | Some s2 \<Rightarrow>
            if hp_http_errno s2 \<noteq> CHPE_OK then Some (Inr (lv_p l + 2, s2))
            else run (crow_settings hl) addr data (l\<lparr>lv_nread := 0, lv_p := lv_p l + 2\<rparr>) s2)
     else run (crow_settings hl) addr data (l\<lparr>lv_nread := 0, lv_p := lv_p l + 2\<rparr>)
            (s1\<lparr>hp_nread := 0, hp_state := s_body_identity\<rparr>))"
proof -
  let ?t = "s\<lparr>hp_state := s_headers_almost_done\<rparr>"
  have "on_header_field_start CR (counted l) (s\<lparr>hp_state := s_header_field_start\<rparr>) = Break (counted l) ?t"
    by (simp add: on_header_field_start_def)
  then have 1: "run (crow_settings hl) addr data l s = run (crow_settings hl) addr data (advance (counted l)) ?t"
    using assms(6) by (intro run_line_start [OF assms(1,2)]) simp_all
  let ?l = "advance (counted l)"
  have d: "drop (lv_p ?l) data = LF # r" using drop_ConsD [OF assms(1)] by simp
  have fl: "F_TRAILING \<notin> hp_flags s" "F_UPGRADE \<notin> hp_flags s" "F_SKIPBODY \<notin> hp_flags s" "F_CHUNKED \<notin> hp_flags s"
    using assms(4) by auto
  have "execute_byte (crow_settings hl) addr data (counted ?l) ?t = Reexecute (counted ?l) s1"
    using drop_ConsD [OF d] fl assms(3,5,8-13) cp_on_headers_complete_eq [of hl ?t] headers_closed_state [of _ s]
    by (simp add: execute_byte_def on_headers_almost_done_def strict_check_def Let_def crow_settings_def returns0_def)
  moreover have "execute_byte (crow_settings hl) addr data (counted ?l) s1 =
     (let s = s1\<lparr>hp_nread := 0\<rparr>; l = (counted ?l)\<lparr>lv_nread := 0\<rparr>
      in if hp_content_length s1 = 0 \<or> hp_content_length s1 = ULLONG_MAX then message_done (crow_settings hl) l s
         else Break l (s\<lparr>hp_state := s_body_identity\<rparr>))"
    using drop_ConsD [OF d] fl assms(5,9-13)
    by (simp add: execute_byte_def on_headers_done_def strict_check_def Let_def)
  moreover have "run (crow_settings hl) addr data ?l ?t =
     (case execute_byte (crow_settings hl) addr data (counted ?l) ?t of
        Break l s \<Rightarrow> run (crow_settings hl) addr data (advance l) s
      | Reexecute l s \<Rightarrow> execute_loop (crow_settings hl) addr data True l s
      | Return n s \<Rightarrow> Some (Inr (n, s)) | Failed h \<Rightarrow> Some (Inl h))"
    unfolding run_def using drop_ConsD [OF d] assms(6)
    by (subst execute_loop.simps) (simp add: loop_head_def parsing_header_def count_header_size_def)
  ultimately have 2: "run (crow_settings hl) addr data ?l ?t =
     (case (let s = s1\<lparr>hp_nread := 0\<rparr>; l = (counted ?l)\<lparr>lv_nread := 0\<rparr>
      in if hp_content_length s1 = 0 \<or> hp_content_length s1 = ULLONG_MAX then message_done (crow_settings hl) l s
         else Break l (s\<lparr>hp_state := s_body_identity\<rparr>)) of
        Break l s \<Rightarrow> run (crow_settings hl) addr data (advance l) s
      | Reexecute l s \<Rightarrow> execute_loop (crow_settings hl) addr data True l s
      | Return n s \<Rightarrow> Some (Inr (n, s)) | Failed h \<Rightarrow> Some (Inl h))"
    unfolding run_def by (simp add: execute_loop.simps [of _ _ _ True])
  show ?thesis unfolding 1 2 Let_def
    using assms(9)
    by (simp add: message_done_def callback_notify_def asserting_def after_callback_def crow_settings_def
        cp_on_message_complete_def returns0_def split: option.split)
qed

text \<open>What follows the completion of a message, when \<open>k\<close> is the position behind it.\<close>

definition handled ::
  "'a crow_parser_scheme handler \<Rightarrow> nat \<Rightarrow> string \<Rightarrow> nat \<Rightarrow> locals \<Rightarrow> 'a crow_parser_scheme
   \<Rightarrow> (halt + nat \<times> 'a crow_parser_scheme) option" where
  "handled hl addr data k l s =
     (case h_handle hl (s\<lparr>cp_message_complete := True\<rparr>) of
        None \<Rightarrow> Some (Inl Callback_stuck)
      | Some s2 \<Rightarrow>
          if hp_http_errno s2 \<noteq> CHPE_OK then Some (Inr (k, s2))
          else run (crow_settings hl) addr data (l\<lparr>lv_p := k\<rparr>) s2)"

lemma run_body:
  assumes "drop (lv_p l) data = b @ r" "hp_state s = s_body_identity" "unat (hp_content_length s) = length b" "b \<noteq> []"
    "hp_content_length s \<noteq> ULLONG_MAX" "hp_http_errno s = CHPE_OK" "no_marks l"
  shows "run (crow_settings hl) addr data l s =
    handled hl addr data (lv_p l + length b) l
      (s\<lparr>hp_content_length := 0, hp_state := s_message_done,
         cp_req := (cp_req s)\<lparr>rq_body := rq_body (cp_req s) @ b\<rparr>\<rparr>)"
proof -
  obtain c w where b: "b = c # w" using assms(4) by (cases b) auto
  have d: "drop (lv_p l) data = c # (w @ r)" using assms(1) b by simp
  have len: "length data - lv_p l = length b + length r" using assms(1) by (metis length_append length_drop)
  have k: "to_read data (lv_p l) (hp_content_length s) = length b" by (simp add: to_read_def assms(3) len)
  have n: "hp_content_length s \<noteq> 0" using assms(3,4) by auto
  have z: "hp_content_length s - word_of_nat (length b) = 0" by (simp add: assms(3) [symmetric])
  let ?s1 = "s\<lparr>hp_content_length := 0, hp_state := s_message_done,
      cp_req := (cp_req s)\<lparr>rq_body := rq_body (cp_req s) @ b\<rparr>\<rparr>"
  let ?l1 = "l\<lparr>lv_p := lv_p l + length b - 1\<rparr>"
  have m: "lv_body_mark l = None" using assms(7) by (simp add: no_marks_def)
  have tk: "take (lv_p l + length b - 1 + 1 - lv_p l) (drop (lv_p l) data) = b" using assms(1) b by simp
  have "execute_byte (crow_settings hl) addr data l s = on_body_identity (crow_settings hl) data l s"
    by (simp add: execute_byte_def assms(2))
  also have "\<dots> = Reexecute ?l1 ?s1"
    unfolding on_body_identity_def k Let_def z asserting_def if_P [OF conjI [OF n assms(5)]]
    using assms(6) m tk
    by (simp add: mark_at_def callback_data_def asserting_def after_callback_def crow_settings_def cp_on_body_def
        locals.equality)
  finally have e: "execute_byte (crow_settings hl) addr data l s = Reexecute ?l1 ?s1" .
  have "run (crow_settings hl) addr data l s = execute_loop (crow_settings hl) addr data True ?l1 ?s1"
    unfolding run_def using drop_ConsD [OF d] assms(2)
    by (subst execute_loop.simps) (simp add: loop_head_def parsing_header_def e)
  also have "\<dots> = handled hl addr data (lv_p l + length b) l ?s1"
    using assms(6) b
    by (subst execute_loop.simps)
      (simp add: execute_byte_def message_done_def callback_notify_def asserting_def after_callback_def crow_settings_def
        cp_on_message_complete_def returns0_def handled_def run_def split: option.split)
  finally show ?thesis .
qed

lemma run_end:
  assumes "lv_p l = length data" "no_marks l" "hp_http_errno s = CHPE_OK"
  shows "run cbs addr data l s = Some (Inr (length data, s\<lparr>hp_nread := lv_nread l\<rparr>))"
  unfolding run_def using assms
  by (subst execute_loop.simps) (simp add: loop_end_def no_marks_def callback_data_def asserting_def)

subsection \<open>Requests\<close>

record request_parts =
  w_method :: HTTPMethod
  w_path :: string
  w_query :: "string option"
  w_headers :: "(string \<times> string) list"
  w_body :: string

definition head_text :: "request_parts \<Rightarrow> string" where
  "head_text q =
     method_name (w_method q) @ CHR '' '' # url_text (w_path q) (w_query q) @ CHR '' '' # ''HTTP/1.1'' @ CR # LF #
     headers_text (w_headers q) @ [CR, LF]"

definition request_text :: "request_parts \<Rightarrow> string" where
  "request_text q = head_text q @ w_body q"

text \<open>
  A request whose length, when there is a body, is announced and is the length of the body, and whose head is
  within the limit of the parser.
\<close>

definition request_ok :: "request_parts \<Rightarrow> bool" where
  "request_ok q \<longleftrightarrow>
     w_method q \<notin> {InternalMethodCount, Connect} \<and> url_ok (w_path q) (w_query q) \<and> headers_ok (w_headers q) \<and>
     (\<forall>h \<in> set (w_headers q). length_name (fst h) \<longrightarrow> digits_val 0 (snd h) = length (w_body q)) \<and>
     (w_body q \<noteq> [] \<longrightarrow> (\<exists>h \<in> set (w_headers q). length_name (fst h))) \<and>
     length (head_text q) \<le> max_header_size"

definition parsed_request :: "request_parts \<Rightarrow> crow_request" where
  "parsed_request q =
     \<lparr>rq_method = w_method q, rq_raw_url = url_text (w_path q) (w_query q), rq_url = w_path q,
      rq_headers = rev (w_headers q), rq_body = w_body q, rq_remote_ip = '''', rq_ver_major = 1, rq_ver_minor = 1,
      rq_keep_alive = True, rq_close_connection = False, rq_upgrade = False\<rparr>"

definition parser_ready :: "'a crow_parser_scheme \<Rightarrow> bool" where
  "parser_ready s \<longleftrightarrow>
     hp_state s = s_start_req \<and> hp_http_errno s = CHPE_OK \<and> hp_nread s = 0 \<and> hp_qs_point s = 0 \<and>
     cp_req s = empty_request \<and> cp_header_field s = [] \<and> cp_header_value s = [] \<and> cp_header_building_state s = 0 \<and>
     \<not> cp_message_complete s"

lemma clear_parser_ready: "hp_http_errno s = CHPE_OK \<Longrightarrow> hp_nread s = 0 \<Longrightarrow> parser_ready (clear_parser s)"
  by (simp add: parser_ready_def clear_parser_def)

text \<open>What the owner does at the target and at the end of the headers of a request: it changes its own state only.\<close>

definition url_taken :: "'a crow_parser_scheme handler \<Rightarrow> request_parts \<Rightarrow> ('a \<Rightarrow> 'a) \<Rightarrow> bool" where
  "url_taken hl q f \<longleftrightarrow>
     (\<forall>t. rq_method (cp_req t) = w_method q \<and> rq_raw_url (cp_req t) = url_text (w_path q) (w_query q) \<and>
          rq_url (cp_req t) = w_path q \<longrightarrow> h_handle_url hl t = Some (crow_parser.more_update f t))"

definition headers_taken :: "'a crow_parser_scheme handler \<Rightarrow> request_parts \<Rightarrow> ('a \<Rightarrow> 'a) \<Rightarrow> bool" where
  "headers_taken hl q f \<longleftrightarrow>
     (\<forall>t. rq_headers (cp_req t) = rev (w_headers q) \<longrightarrow> h_handle_header hl t = Some (crow_parser.more_update f t))"

lemma cp_on_url_taken:
  assumes "rq_raw_url (cp_req s) = []" "new_query u True = Some qp"
    "(if hp_qs_point s \<noteq> 0 then take (hp_qs_point s) u else u) = path"
    "h_handle_url hl (s\<lparr>cp_req := (cp_req s)\<lparr>rq_raw_url := u, rq_url := path\<rparr>, cp_url_params := qp\<rparr>) = Some s2"
  shows "on_url (crow_settings hl) u s = Some (0, s2)"
proof -
  have "[] @ u = u" by simp
  then show ?thesis
    unfolding crow_settings_def settings.simps cp_on_url_def Let_def assms(1) \<open>[] @ u = u\<close> assms(2) assms(3)
    by (simp only: option.case assms(4) returns0_def option.map)
qed

lemma run_request_line:
  assumes "request_ok q" "parser_ready s" "new_query (url_text (w_path q) (w_query q)) True = Some qp" "url_taken hl q fu"
    "data = request_text q"
  shows "\<exists>l t. run (crow_settings hl) addr data (start_locals s) s = run (crow_settings hl) addr data l t \<and>
    drop (lv_p l) data = headers_text (w_headers q) @ CR # LF # w_body q \<and> no_marks l \<and>
    lv_nread l + length (headers_text (w_headers q)) + 2 \<le> max_header_size \<and>
    hp_http_errno t = CHPE_OK \<and> hp_state t = s_header_field_start \<and> hp_method t = w_method q \<and> hp_flags t = {} \<and>
    \<not> hp_uses_transfer_encoding t \<and> hp_content_length t = ULLONG_MAX \<and> hp_http_major t = 1 \<and> hp_http_minor t = 1 \<and>
    cp_req t = empty_request\<lparr>rq_method := w_method q, rq_raw_url := url_text (w_path q) (w_query q), rq_url := w_path q\<rparr> \<and>
    cp_header_field t = [] \<and> cp_header_value t = [] \<and> cp_header_building_state t = 0 \<and>
    cp_url_params t = qp \<and> crow_parser.more t = fu (crow_parser.more s)"
proof -
  let ?u = "url_text (w_path q) (w_query q)"
  let ?m = "w_method q"
  let ?l0 = "start_locals s"
  note s = assms(2) [unfolded parser_ready_def]
  have l0: "lv_p ?l0 = 0" "lv_nread ?l0 = 0" "no_marks ?l0" "lv_url_start_mark ?l0 = None"
    using s by (simp_all add: start_locals_def no_marks_def url_state_def)
  have m: "?m \<noteq> InternalMethodCount" "?m \<noteq> Connect" "url_ok (w_path q) (w_query q)"
    using assms(1) by (simp_all add: request_ok_def)
  let ?r1 = "headers_text (w_headers q) @ CR # LF # w_body q"
  have d0: "drop (lv_p ?l0) data = method_name ?m @ CHR '' '' # (?u @ CHR '' '' # (''HTTP/1.1'' @ CR # LF # ?r1))"
    by (simp add: l0 assms(5) request_text_def head_text_def)
  have size: "length (method_name ?m) + 1 + (length ?u + 1) + 10 + length (headers_text (w_headers q)) + 2 \<le> max_header_size"
    using assms(1) by (simp add: request_ok_def head_text_def)
  let ?s1 = "s\<lparr>hp_flags := {}, hp_uses_transfer_encoding := False, hp_content_length := ULLONG_MAX,
         hp_method := ?m, hp_index := length (method_name ?m) + 1, hp_state := s_req_spaces_before_url,
         cp_req := (cp_req s)\<lparr>rq_method := ?m\<rparr>\<rparr>"
  let ?l1 = "moved_by (length (method_name ?m) + 1) ?l0"
  have 1: "run (crow_settings hl) addr data ?l0 s = run (crow_settings hl) addr data ?l1 ?s1"
    using s size by (intro run_method [OF d0 m(1)]) (simp_all add: l0)
  have d1: "drop (lv_p ?l1) data = ?u @ CHR '' '' # (''HTTP/1.1'' @ CR # LF # ?r1)"
    using drop_appendD [of "lv_p ?l0" data "method_name ?m @ '' ''" "?u @ CHR '' '' # (''HTTP/1.1'' @ CR # LF # ?r1)"] d0
    by (simp add: add.assoc)
  let ?s1' = "?s1\<lparr>hp_qs_point := (if w_query q = None then hp_qs_point ?s1 else length (w_path q)), hp_state := s_req_http_start\<rparr>"
  let ?t = "?s1'\<lparr>cp_req := (cp_req ?s1')\<lparr>rq_raw_url := ?u, rq_url := w_path q\<rparr>, cp_url_params := qp\<rparr>"
  let ?s2 = "crow_parser.more_update fu ?t"
  have "w_path q \<noteq> []" using m(3) by (auto simp: url_ok_def)
  then have url: "(if hp_qs_point ?s1' \<noteq> 0 then take (hp_qs_point ?s1') ?u else ?u) = w_path q"
    using s by (cases "w_query q") (simp_all add: url_text_def)
  have "h_handle_url hl ?t = Some ?s2" using assms(4) s by (simp add: url_taken_def)
  then have cb: "on_url (crow_settings hl) ?u ?s1' = Some (0, ?s2)"
    by (intro cp_on_url_taken [OF _ assms(3) url]) (use s in \<open>simp_all add: empty_request_def\<close>)
  let ?l2 = "(moved_by (length ?u + 1) ?l1)\<lparr>lv_url_start_mark := Some (lv_p ?l1)\<rparr>"
  have 2: "run (crow_settings hl) addr data ?l1 ?s1 = run (crow_settings hl) addr data ?l2 ?s2"
    using s m(2) l0 size by (intro run_url [OF d1 m(3) _ _ _ _ _ _ cb]) (simp_all add: no_marks_def)
  have d2: "drop (lv_p ?l2) data = ''HTTP/1.1'' @ CR # LF # ?r1"
    using drop_appendD [of "lv_p ?l1" data "?u @ '' ''" "''HTTP/1.1'' @ CR # LF # ?r1"] d1 by (simp add: add.assoc)
  let ?s3 = "?s2\<lparr>hp_http_major := 1, hp_http_minor := 1, hp_state := s_header_field_start\<rparr>"
  let ?l3 = "moved_by 10 ?l2"
  have 3: "run (crow_settings hl) addr data ?l2 ?s2 = run (crow_settings hl) addr data ?l3 ?s3"
    using size by (intro run_version [OF d2]) (simp_all add: l0)
  have d3: "drop (lv_p ?l3) data = ?r1"
    using drop_appendD [of "lv_p ?l2" data "''HTTP/1.1'' @ [CR, LF]" ?r1] d2 by (simp add: eval_nat_numeral)
  show ?thesis
    by (rule exI [of _ ?l3], rule exI [of _ ?s3])
      (use 1 2 3 d3 s size l0 in \<open>simp add: no_marks_def\<close>)
qed


lemma unat_length: "n \<le> LENGTH_LIMIT \<Longrightarrow> unat (word_of_nat n :: 64 word) = n"
  by (simp add: unat_of_nat LENGTH_LIMIT_def)

lemma length_not_max: "n \<le> LENGTH_LIMIT \<Longrightarrow> (word_of_nat n :: 64 word) \<noteq> ULLONG_MAX"
  using unat_length [of n] by (auto simp: LENGTH_LIMIT_def unat_max)

text \<open>The length of the body that the headers of a request announce.\<close>

lemma announced_length:
  assumes "request_ok q" "hp_content_length t = ULLONG_MAX"
  shows "hp_content_length (fold after_header (w_headers q) t) =
    (if \<exists>h \<in> set (w_headers q). length_name (fst h) then word_of_nat (length (w_body q)) else ULLONG_MAX)"
proof -
  have l: "\<forall>h \<in> set (w_headers q). length_name (fst h) \<longrightarrow> digits_val 0 (snd h) = length (w_body q)"
    using assms(1) by (simp add: request_ok_def)
  show ?thesis
  proof (cases "find (\<lambda>h. length_name (fst h)) (rev (w_headers q))")
    case None
    then have "\<not> (\<exists>h \<in> set (w_headers q). length_name (fst h))" by (auto simp: find_None_iff)
    then show ?thesis using None assms(2) by (simp only: fold_content_length option.case if_False)
  next
    case (Some h)
    then have "h \<in> set (w_headers q)" "length_name (fst h)" by (metis (mono_tags) find_Some_iff nth_mem set_rev)+
    then show ?thesis using l Some by (auto simp: fold_content_length)
  qed
qed

lemma body_limit:
  assumes "request_ok q" "\<exists>h \<in> set (w_headers q). length_name (fst h)"
  shows "length (w_body q) \<le> LENGTH_LIMIT"
proof -
  obtain h where "h \<in> set (w_headers q)" "length_name (fst h)" using assms(2) by blast
  then show ?thesis using assms(1) length_name_not_plain
    by (force simp: request_ok_def headers_ok_def header_ok_def length_value_def)
qed

text \<open>What the parser holds when the headers of a request have been read.\<close>

lemma headers_closed_request:
  assumes "request_ok q" "hp_flags t = {}" "hp_http_major t = 1" "hp_http_minor t = 1"
    "cp_req t = empty_request\<lparr>rq_method := w_method q, rq_raw_url := url_text (w_path q) (w_query q), rq_url := w_path q\<rparr>"
    "cp_header_field t = []" "cp_header_value t = []"
  shows "cp_req (headers_closed (placed i h st (fold after_header (w_headers q) t))) =
    (parsed_request q)\<lparr>rq_body := []\<rparr>"
proof -
  let ?u = "fold after_header (w_headers q) t"
  have fr: "header_framed t ?u" by (rule header_framed_fold)
  have p: "pending_headers ?u = rev (w_headers q)"
    using pending_fold [of "w_headers q" t] assms by (simp add: request_ok_def headers_ok_def pending_headers_def empty_request_def)
  have fl: "F_CONNECTION_CLOSE \<notin> hp_flags ?u" using fold_flags [of "w_headers q" t] assms(2) by auto
  have v: "hp_http_major ?u = 1" "hp_http_minor ?u = 1" using fr assms(3,4) by (auto simp: header_framed_def)
  obtain hd where r: "cp_req ?u = (cp_req t)\<lparr>rq_headers := hd\<rparr>" using fr by (auto simp: header_framed_def)
  have pp: "pending_headers (placed i h st ?u) = rev (w_headers q)" using p by (simp only: pending_headers_def placed_crow)
  show ?thesis
    using fl v by (simp add: headers_closed_def set_connection_parameters_def pp r assms(5) parsed_request_def
        empty_request_def Let_def)
qed

lemma handled_end:
  assumes "\<forall>t t'. h_handle hl t = Some t' \<longrightarrow> hp_http_errno t' = hp_http_errno t" "hp_http_errno s = CHPE_OK" "no_marks l"
  shows "handled hl addr data (length data) l s =
    Some (case h_handle hl (s\<lparr>cp_message_complete := True\<rparr>) of
            None \<Rightarrow> Inl Callback_stuck | Some u \<Rightarrow> Inr (length data, u\<lparr>hp_nread := lv_nread l\<rparr>))"
proof (cases "h_handle hl (s\<lparr>cp_message_complete := True\<rparr>)")
  case (Some u)
  then have "hp_http_errno u = CHPE_OK" using assms(1) [rule_format, OF Some] assms(2) by simp
  then show ?thesis using Some assms(3) by (simp add: handled_def run_end no_marks_def)
qed (simp add: handled_def)

lemma handled_move: "handled hl addr data k (l\<lparr>lv_p := j\<rparr>) s = handled hl addr data k l s"
proof -
  have "l\<lparr>lv_p := j, lv_p := k\<rparr> = l\<lparr>lv_p := k\<rparr>" by simp
  then show ?thesis by (simp only: handled_def)
qed

text \<open>From the blank line to the end of the request.\<close>

lemma run_tail:
  assumes "drop (lv_p l) data = CR # LF # b" "at_line s" "hp_method s \<noteq> Connect" "hp_flags s \<subseteq> {F_CONTENTLENGTH}"
    "\<not> hp_uses_transfer_encoding s" "lv_nread l + 2 \<le> max_header_size" "no_marks l"
    "h_handle_header hl (headers_closed s) = Some s1"
    "hp_http_errno s1 = CHPE_OK" "hp_upgrade s1 = False" "hp_flags s1 = hp_flags s" "hp_state s1 = s_headers_done"
    "hp_uses_transfer_encoding s1 = hp_uses_transfer_encoding s"
    "hp_content_length s1 = ULLONG_MAX \<and> b = [] \<or> hp_content_length s1 \<noteq> ULLONG_MAX \<and> unat (hp_content_length s1) = length b"
  shows "\<exists>n st. run (crow_settings hl) addr data l s =
    handled hl addr data (length data) (l\<lparr>lv_nread := 0\<rparr>)
      (s1\<lparr>hp_nread := 0, hp_content_length := n, hp_state := st, cp_req := (cp_req s1)\<lparr>rq_body := rq_body (cp_req s1) @ b\<rparr>\<rparr>)"
proof (cases b)
  note r = run_headers_end [OF assms(1-13), of addr]
  have at: "length data = lv_p l + 2 + length b" using arg_cong [OF assms(1), of length] by simp
  {
    case Nil
    then have c: "hp_content_length s1 = 0 \<or> hp_content_length s1 = ULLONG_MAX" using assms(14) unat_eq_0 by auto
    have e: "s1\<lparr>hp_nread := 0\<rparr> = s1\<lparr>hp_nread := 0, hp_content_length := hp_content_length s1, hp_state := hp_state s1,
        cp_req := (cp_req s1)\<lparr>rq_body := rq_body (cp_req s1) @ b\<rparr>\<rparr>"
      using Nil by (intro crow_parser.equality) simp_all
    have "run (crow_settings hl) addr data l s = handled hl addr data (length data) (l\<lparr>lv_nread := 0\<rparr>) (s1\<lparr>hp_nread := 0\<rparr>)"
      unfolding r handled_def if_P [OF c] using Nil by (simp only: at list.size add_0_right)
    then show ?thesis by (intro exI) (erule trans, rule arg_cong [OF e])
  next
    case (Cons c w)
    let ?s2 = "s1\<lparr>hp_nread := 0, hp_state := s_body_identity\<rparr>"
    let ?l2 = "l\<lparr>lv_nread := 0, lv_p := lv_p l + 2\<rparr>"
    have n: "hp_content_length s1 \<noteq> ULLONG_MAX" "unat (hp_content_length s1) = length b" using assms(14) Cons by auto
    then have z: "\<not> (hp_content_length s1 = 0 \<or> hp_content_length s1 = ULLONG_MAX)" using Cons by auto
    have "drop (lv_p ?l2) data = b @ []"
      using drop_appendD [of "lv_p l" data "[CR, LF]" b] assms(1) by (simp add: eval_nat_numeral)
    then have "run (crow_settings hl) addr data ?l2 ?s2 = handled hl addr data (lv_p ?l2 + length b) ?l2
      (?s2\<lparr>hp_content_length := 0, hp_state := s_message_done, cp_req := (cp_req ?s2)\<lparr>rq_body := rq_body (cp_req ?s2) @ b\<rparr>\<rparr>)"
      using n Cons assms(7,9) by (intro run_body) (simp_all add: no_marks_def)
    then have "run (crow_settings hl) addr data l s = handled hl addr data (length data) (l\<lparr>lv_nread := 0\<rparr>)
      (s1\<lparr>hp_nread := 0, hp_content_length := 0, hp_state := s_message_done, cp_req := (cp_req s1)\<lparr>rq_body := rq_body (cp_req s1) @ b\<rparr>\<rparr>)"
      unfolding r if_not_P [OF z] by (simp add: at handled_move)
    then show ?thesis by blast
  }
qed

text \<open>
  C36. A request that is written as HTTP prescribes, with its target, its headers and a body of the announced
  length, is read as it was written, when it arrives in one buffer at a parser that waits for one: the
  owner sees the target before the headers and the headers before the body, the query is split, the whole
  buffer is taken, and the message is complete. The headers are those that do not steer the parser, and a
  \<open>Content-Length\<close>: none is called \<open>Connection\<close>, \<open>Proxy-Connection\<close>, \<open>Upgrade\<close> or \<open>Transfer-Encoding\<close>, none has an
  empty value (\<open>empty_header_dropped\<close> says what happens to one that has), and the method is not \<open>CONNECT\<close>. The
  query can be split without reading past its end, the head is within the limit of the parser, and the owner
  takes the target and the headers as \<open>fu\<close> and \<open>fh\<close> say.
\<close>

theorem request_parsed:
  assumes "request_ok q" "parser_ready s" "new_query (url_text (w_path q) (w_query q)) True = Some qp"
    "url_taken hl q fu" "headers_taken hl q fh"
    "\<forall>t t'. h_handle hl t = Some t' \<longrightarrow> hp_http_errno t' = hp_http_errno t"
  shows "\<exists>t. cp_req t = parsed_request q \<and> cp_url_params t = qp \<and> cp_message_complete t \<and>
    crow_parser.more t = fh (fu (crow_parser.more s)) \<and>
    feed hl addr (request_text q) s =
      Some (case h_handle hl t of None \<Rightarrow> Inl Callback_stuck | Some u \<Rightarrow> Inr (True, u\<lparr>hp_nread := 0\<rparr>))"
proof -
  let ?data = "request_text q"
  let ?run = "run (crow_settings hl) addr ?data"
  let ?hs = "w_headers q"
  obtain l t where r1: "?run (start_locals s) s = ?run l t"
    "drop (lv_p l) ?data = headers_text ?hs @ CR # LF # w_body q" "no_marks l"
    "lv_nread l + length (headers_text ?hs) + 2 \<le> max_header_size"
    and t: "hp_http_errno t = CHPE_OK" "hp_state t = s_header_field_start" "hp_method t = w_method q" "hp_flags t = {}"
    "\<not> hp_uses_transfer_encoding t" "hp_content_length t = ULLONG_MAX" "hp_http_major t = 1" "hp_http_minor t = 1"
    "cp_req t = empty_request\<lparr>rq_method := w_method q, rq_raw_url := url_text (w_path q) (w_query q), rq_url := w_path q\<rparr>"
    "cp_header_field t = []" "cp_header_value t = []" "cp_header_building_state t = 0" "cp_url_params t = qp"
    "crow_parser.more t = fu (crow_parser.more s)"
    using run_request_line [OF assms(1-4) refl, of addr] by blast
  have "at_line t" using t by (simp add: at_line_def)
  then obtain i h st where r2: "?run l t = ?run (moved_by (length (headers_text ?hs)) l) (placed i h st (fold after_header ?hs t))"
    "at_line (placed i h st (fold after_header ?hs t))"
    using run_headers [OF r1(2) _ _ r1(3) t(12), of hl addr] assms(1) r1(4) t(4) by (auto simp: request_ok_def)
  let ?u = "placed i h st (fold after_header ?hs t)"
  let ?l = "moved_by (length (headers_text ?hs)) l"
  let ?s1 = "crow_parser.more_update fh (headers_closed ?u)"
  have fr: "header_framed t (fold after_header ?hs t)" by (rule header_framed_fold)
  have u: "hp_method ?u = w_method q" "\<not> hp_uses_transfer_encoding ?u" "hp_http_errno ?u = CHPE_OK" "cp_url_params ?u = qp"
    "crow_parser.more ?u = fu (crow_parser.more s)" "hp_flags ?u \<subseteq> {F_CONTENTLENGTH}"
    using fr t fold_flags [of ?hs t] by (auto simp: header_framed_def placed_def)
  have req: "cp_req ?s1 = (parsed_request q)\<lparr>rq_body := []\<rparr>" using headers_closed_request [OF assms(1)] t by simp
  have s1: "hp_http_errno ?s1 = CHPE_OK" "hp_upgrade ?s1 = False" "hp_flags ?s1 = hp_flags ?u" "hp_state ?s1 = s_headers_done"
    "hp_uses_transfer_encoding ?s1 = hp_uses_transfer_encoding ?u" "hp_content_length ?s1 = hp_content_length ?u"
    "cp_url_params ?s1 = qp" "crow_parser.more ?s1 = fh (fu (crow_parser.more s))"
    using u by (simp_all add: headers_closed_def set_connection_parameters_def Let_def)
  have hh: "h_handle_header hl (headers_closed ?u) = Some ?s1"
    using assms(5) req by (simp add: headers_taken_def parsed_request_def)
  have d2: "drop (lv_p ?l) ?data = CR # LF # w_body q" using drop_appendD [OF r1(2)] by simp
  have m: "hp_method ?u \<noteq> Connect" "no_marks ?l" "lv_nread ?l + 2 \<le> max_header_size"
    using assms(1) r1(3,4) u(1) by (simp_all add: request_ok_def no_marks_def)
  have len: "hp_content_length ?s1 = ULLONG_MAX \<and> w_body q = [] \<or>
      hp_content_length ?s1 \<noteq> ULLONG_MAX \<and> unat (hp_content_length ?s1) = length (w_body q)"
    using announced_length [OF assms(1) t(6)] s1(6) assms(1) unat_length length_not_max body_limit [OF assms(1)]
    by (auto simp: request_ok_def)
  obtain n su where r3: "?run ?l ?u = handled hl addr ?data (length ?data) (?l\<lparr>lv_nread := 0\<rparr>)
      (?s1\<lparr>hp_nread := 0, hp_content_length := n, hp_state := su,
        cp_req := (cp_req ?s1)\<lparr>rq_body := rq_body (cp_req ?s1) @ w_body q\<rparr>\<rparr>)" (is "_ = handled _ _ _ _ ?k ?g")
    using run_tail [OF d2 r2(2) m(1) u(6,2) m(3,2) hh s1(1-5) len, of addr] by blast
  have k: "no_marks ?k" using m(2) by (simp add: no_marks_def)
  have "cp_req ?g = parsed_request q" "hp_http_errno ?g = CHPE_OK" "cp_url_params ?g = qp"
    "crow_parser.more ?g = fh (fu (crow_parser.more s))"
    using req s1 by (simp_all add: parsed_request_def)
  then obtain g where g: "?run ?l ?u = handled hl addr ?data (length ?data) ?k g" "lv_nread ?k = 0" "hp_http_errno g = CHPE_OK"
    "cp_req g = parsed_request q" "cp_url_params g = qp" "crow_parser.more g = fh (fu (crow_parser.more s))" using r3 by auto
  have ready: "\<not> cp_message_complete s" "hp_http_errno s = CHPE_OK" "?data \<noteq> []"
    using assms(2) d2 by (auto simp: parser_ready_def)
  have "feed hl addr ?data s = map_option (map_sum id (feed_value (length ?data))) (?run ?l ?u)"
    using ready r1(1) r2(1) by (simp add: feed_def http_parser_execute_def run_def)
  also have "\<dots> = Some (case h_handle hl (g\<lparr>cp_message_complete := True\<rparr>) of
      None \<Rightarrow> Inl Callback_stuck | Some u \<Rightarrow> Inr (True, u\<lparr>hp_nread := 0\<rparr>))"
    using g(1) handled_end [OF assms(6) g(3) k] assms(6) g(2,3)
    by (cases "h_handle hl (g\<lparr>cp_message_complete := True\<rparr>)") (auto simp: feed_value_def)
  finally show ?thesis using g by (intro exI [of _ "g\<lparr>cp_message_complete := True\<rparr>"]) simp
qed

definition sample_post :: request_parts where
  "sample_post = \<lparr>w_method = Post, w_path = ''/tasks'', w_query = Some ''id=7'',
     w_headers = [(''Host'', ''a''), (''Content-Length'', ''2'')], w_body = ''hi''\<rparr>"

lemma sample_post_ok: "request_ok sample_post"
proof -
  have t: "map token ''Host'' = ''host''" by code_simp
  have "take k ''host'' \<noteq> ''transfer-encoding''" for k
  proof
    assume "take k ''host'' = ''transfer-encoding''"
    from arg_cong [OF this, of length] show False by simp
  qed
  moreover have "\<forall>c \<in> set ''Host''. token c \<noteq> NUL" by code_simp
  ultimately have "plain_name ''Host''" unfolding plain_name_def t by simp
  moreover have "length_name ''Content-Length''" by code_simp
  moreover have "length_value ''2''" "value_ok ''a''" by (simp_all add: length_value_def value_ok_def LENGTH_LIMIT_def is_digit_def digit_val_def is_header_char_def)
  moreover have "url_ok ''/tasks'' (Some ''id=7'')" 
  proof -
    have "\<forall>c \<in> set ''/tasks''. is_url_char c" "\<forall>c \<in> set ''id=7''. is_url_char c"
      by (simp_all add: is_url_char_def bit_at_def normal_url_char_def)
    then show ?thesis by (simp add: url_ok_def)
  qed
  moreover have "\<not> length_name ''Host''" by code_simp
  moreover have "method_name Post = ''POST''" by code_simp
  ultimately show ?thesis
    by (simp add: request_ok_def sample_post_def headers_ok_def header_ok_def digit_val_def head_text_def headers_text_def
        header_text_def url_text_def max_header_size_def)
qed

lemma sample_post_query:
  "new_query (url_text (w_path sample_post) (w_query sample_post)) True = Some \<lparr>qs_url = ''/tasks?id=7'' @ [NUL], qs_pairs = [7]\<rparr>"
  by code_simp

lemma request_parsed_witness:
  "\<exists>t. cp_req t = parsed_request sample_post \<and> cp_message_complete t \<and>
    feed idle_handler 4096 (request_text sample_post) (http_parser_init new_parser) = Some (Inr (True, t\<lparr>hp_nread := 0\<rparr>))"
proof -
  have "parser_ready (http_parser_init new_parser)"
    by (simp add: parser_ready_def http_parser_init_def new_parser_def)
  moreover have "url_taken idle_handler sample_post id" "headers_taken idle_handler sample_post id"
    by (simp_all add: url_taken_def headers_taken_def idle_handler_def crow_parser.equality)
  ultimately show ?thesis
    using request_parsed [OF sample_post_ok _ sample_post_query, of "http_parser_init new_parser" idle_handler id id 4096]
    by (auto simp: idle_handler_def)
qed

end
