(* ===== verification/Crow_Connection.thy ===== *)
theory Crow_Connection
  imports Http_Wellformed Crow_Dispatch_Props
begin

section \<open>Crow: HTTP connections\<close>

text \<open>
  \<open>http_connection.h\<close>: the class \<open>Connection\<close> of an application without middleware, compression and SSL. It
  is the owner of an \<open>HTTPParser\<close>: what its three callbacks and the completion handlers of its socket do is
  a definition each.

  The record has the members of the class, with the socket and the timer as what is outstanding on them:
  whether the socket is open, how many reads and asynchronous writes are under way, what was handed to the
  socket so far, whether a deadline is set (that another connection can cancel it by a stale identifier is
  \<open>stale_cancel\<close> of \<open>Crow_Timer\<close>). An asynchronous write takes its buffers when it is started. A
  synchronous one throws when it fails; whether it does is a parameter, like the date, the peer's address,
  the files and what a WebSocket rule does with an upgrade. A callback that throws or never returns is
  \<open>None\<close>. A handler that ends the response does so as its last action on it; one that ends it twice is
  outside the model (\<open>None\<close>).
\<close>

record ('d, 'w) http_app =
  ap_double :: "string \<Rightarrow> ('d \<times> nat) option"
  ap_router :: "('d, 'w) router"
  ap_upgrade :: "('d, 'w) rule \<Rightarrow> crow_request \<Rightarrow> crow_response \<times> 'w \<Rightarrow> 'w outcome"
  ap_server_name :: string
  ap_threshold :: nat
  ap_date :: "'w \<Rightarrow> string"
  ap_remote :: string
  ap_file :: "string \<Rightarrow> string option"
  ap_write_fails :: "'w \<Rightarrow> bool"

record ('d, 'w) connection = crow_parser +
  cn_route :: "'d found_route option"
  cn_res :: crow_response
  cn_close :: bool
  cn_buffers :: "string list"
  cn_body_copy :: string
  cn_after :: bool
  cn_restart :: bool
  cn_keep_alive :: bool
  cn_open :: bool
  cn_timer :: bool
  cn_reading :: nat
  cn_writing :: nat
  cn_sent :: "string list"
  cn_world :: 'w

subsection \<open>The socket and the timer\<close>

definition start_deadline :: "('d, 'w) connection \<Rightarrow> ('d, 'w) connection" where
  "start_deadline s = s\<lparr>cn_timer := True\<rparr>"

definition cancel_deadline_timer :: "('d, 'w) connection \<Rightarrow> ('d, 'w) connection" where
  "cancel_deadline_timer s = s\<lparr>cn_timer := False\<rparr>"

definition close_adaptor :: "('d, 'w) connection \<Rightarrow> ('d, 'w) connection" where
  "close_adaptor s = s\<lparr>cn_open := False\<rparr>"

definition cn_do_read :: "('d, 'w) connection \<Rightarrow> ('d, 'w) connection" where
  "cn_do_read s = s\<lparr>cn_reading := cn_reading s + 1\<rparr>"

definition cn_do_write :: "('d, 'w) connection \<Rightarrow> ('d, 'w) connection" where
  "cn_do_write s =
     s\<lparr>cn_sent := (if cn_open s then cn_sent s @ [concat (cn_buffers s)] else cn_sent s),
       cn_writing := cn_writing s + 1\<rparr>"

definition do_write_sync :: "('d, 'w) http_app \<Rightarrow> string \<Rightarrow> ('d, 'w) connection \<Rightarrow> ('d, 'w) connection option" where
  "do_write_sync app b s =
     (if cn_open s \<and> \<not> ap_write_fails app (cn_world s) then Some (s\<lparr>cn_sent := cn_sent s @ [b]\<rparr>) else None)"

text \<open>Pieces of 16 KB.\<close>

definition CHUNK :: nat where
  "CHUNK = 16384"

function chunks :: "string \<Rightarrow> string list" where
  "chunks b =
     (if CHUNK < length b then take CHUNK b # chunks (drop CHUNK b) else if b = [] then [] else [b])"
  by pat_completeness auto
termination
  by (relation "measure length") (auto simp: CHUNK_def)

declare chunks.simps [simp del]

lemma concat_chunks: "concat (chunks b) = b"
  by (induction b rule: chunks.induct) (subst chunks.simps, simp)

fun write_chunks :: "('d, 'w) http_app \<Rightarrow> string list \<Rightarrow> ('d, 'w) connection \<Rightarrow> ('d, 'w) connection option" where
  "write_chunks app [] s = Some s"
| "write_chunks app (b # bs) s =
     (case do_write_sync app b s of None \<Rightarrow> None | Some s \<Rightarrow> write_chunks app bs s)"

subsection \<open>The text of a response\<close>

definition statusCodes :: "(int \<times> string) list" where
  "statusCodes =
     map (\<lambda>(c, t). (c, ''HTTP/1.1 '' @ t @ [CR, LF]))
       [(100, ''100 Continue''), (101, ''101 Switching Protocols''),
        (200, ''200 OK''), (201, ''201 Created''), (202, ''202 Accepted''),
        (203, ''203 Non-Authoritative Information''), (204, ''204 No Content''), (205, ''205 Reset Content''),
        (206, ''206 Partial Content''),
        (300, ''300 Multiple Choices''), (301, ''301 Moved Permanently''), (302, ''302 Found''),
        (303, ''303 See Other''), (304, ''304 Not Modified''), (307, ''307 Temporary Redirect''),
        (308, ''308 Permanent Redirect''),
        (400, ''400 Bad Request''), (401, ''401 Unauthorized''), (403, ''403 Forbidden''),
        (404, ''404 Not Found''), (405, ''405 Method Not Allowed''), (407, ''407 Proxy Authentication Required''),
        (409, ''409 Conflict''), (410, ''410 Gone''), (413, ''413 Payload Too Large''),
        (415, ''415 Unsupported Media Type''), (416, ''416 Range Not Satisfiable''),
        (417, ''417 Expectation Failed''), (428, ''428 Precondition Required''), (429, ''429 Too Many Requests''),
        (451, ''451 Unavailable For Legal Reasons''),
        (500, ''500 Internal Server Error''), (501, ''501 Not Implemented''), (502, ''502 Bad Gateway''),
        (503, ''503 Service Unavailable''), (504, ''504 Gateway Timeout''), (506, ''506 Variant Also Negotiates'')]"

text \<open>The code that is sent, its line, and the body that stands in for an empty one.\<close>

definition known_status :: "int \<Rightarrow> int" where
  "known_status c = (if map_of statusCodes c = None then 500 else c)"

definition status_line :: "int \<Rightarrow> string" where
  "status_line c = (case map_of statusCodes (known_status c) of Some t \<Rightarrow> t | None \<Rightarrow> [])"

definition checked_response :: "crow_response \<Rightarrow> crow_response" where
  "checked_response r =
     r\<lparr>rs_code := known_status (rs_code r),
       rs_body := (if 400 \<le> known_status (rs_code r) \<and> rs_body r = [] then drop 9 (status_line (rs_code r))
                   else rs_body r)\<rparr>"

definition header_buffers :: "string \<times> string \<Rightarrow> string list" where
  "header_buffers h = [fst h, '': '', snd h, [CR, LF]]"

definition head_buffers :: "string \<Rightarrow> string \<Rightarrow> bool \<Rightarrow> crow_response \<Rightarrow> string list" where
  "head_buffers server_name date keep_alive r =
     status_line (rs_code r) # concat (map header_buffers (rs_headers r)) @
     (if \<not> rs_manual_length r \<and> ci_count (rs_headers r) ''content-length'' = 0
      then [''Content-Length: '', dec_nat (length (rs_body r)), [CR, LF]] else []) @
     (if ci_count (rs_headers r) ''server'' = 0 then [''Server: '', server_name, [CR, LF]] else []) @
     (if ci_count (rs_headers r) ''date'' = 0 then [''Date: '', date, [CR, LF]] else []) @
     (if keep_alive then [''Connection: Keep-Alive'', [CR, LF]] else []) @
     [[CR, LF]]"

definition prepare_buffers :: "('d, 'w) http_app \<Rightarrow> ('d, 'w) connection \<Rightarrow> ('d, 'w) connection" where
  "prepare_buffers app s =
     (let r = (cn_res s)\<lparr>rs_handler := False\<rparr>; r1 = checked_response r
      in if \<not> cn_open s then s\<lparr>cn_res := r\<rparr>
         else s\<lparr>cn_res := r1,
                cn_buffers := head_buffers (ap_server_name app) (ap_date app (cn_world s)) (cn_keep_alive s) r1\<rparr>)"

subsection \<open>Sending a response\<close>

text \<open>What the synchronous ways of writing end with.\<close>

definition after_write_sync :: "('d, 'w) connection \<Rightarrow> ('d, 'w) connection" where
  "after_write_sync s =
     (let s = (if cn_close s then close_adaptor s else s)
      in clear_parser (s\<lparr>cn_res := clear_response (end_response (cn_res s)), cn_buffers := []\<rparr>))"

definition do_write_static :: "('d, 'w) http_app \<Rightarrow> ('d, 'w) connection \<Rightarrow> ('d, 'w) connection option" where
  "do_write_static app s =
     (case do_write_sync app (concat (cn_buffers s)) s of
        None \<Rightarrow> None
      | Some s \<Rightarrow>
          map_option after_write_sync
            (write_chunks app (case ap_file app (rs_file (cn_res s)) of None \<Rightarrow> [] | Some b \<Rightarrow> chunks b) s))"

definition do_write_general :: "('d, 'w) http_app \<Rightarrow> ('d, 'w) connection \<Rightarrow> ('d, 'w) connection option" where
  "do_write_general app s =
     (if length (rs_body (cn_res s)) < ap_threshold app then
        (let b = rs_body (cn_res s);
             s = cn_do_write (s\<lparr>cn_body_copy := b, cn_res := (cn_res s)\<lparr>rs_body := cn_body_copy s\<rparr>,
                                cn_buffers := cn_buffers s @ [b]\<rparr>)
         in Some (if cn_restart s then cn_do_read (start_deadline (s\<lparr>cn_restart := False\<rparr>)) else s))
      else
        (case do_write_sync app (concat (cn_buffers s)) s of
           None \<Rightarrow> None
         | Some s \<Rightarrow>
             (case write_chunks app (chunks (rs_body (cn_res s))) (cancel_deadline_timer s) of
                None \<Rightarrow> None
              | Some s \<Rightarrow> Some (after_write_sync (s\<lparr>cn_res := (cn_res s)\<lparr>rs_body := []\<rparr>\<rparr>)))))"

text \<open>A redirection to a path is made one to the host of the request.\<close>

definition contains_text :: "string \<Rightarrow> string \<Rightarrow> bool" where
  "contains_text w t \<longleftrightarrow> list_ex (\<lambda>i. take (length w) (drop i t) = w) [0..<length t]"

definition complete_location :: "crow_request \<Rightarrow> crow_response \<Rightarrow> crow_response" where
  "complete_location req r =
     (let location = rs_get_header_value r ''Location''
      in if location \<noteq> [] \<and> \<not> contains_text ''://'' location
         then set_header ''location'' (''http://'' @ rq_get_header_value req ''Host'' @ location) r
         else r)"

definition complete_request :: "('d, 'w) http_app \<Rightarrow> ('d, 'w) connection \<Rightarrow> ('d, 'w) connection option" where
  "complete_request app s =
     (let s = prepare_buffers app (s\<lparr>cn_after := False, cn_res := complete_location (cp_req s) (cn_res s)\<rparr>)
      in if is_static_type (cn_res s) then do_write_static app s else do_write_general app s)"

subsection \<open>The callbacks of the parser\<close>

text \<open>
  What a step of the router leaves: the response, the state of the application, and whether the response was
  ended with the completion handler in place.
\<close>

definition routed_step ::
  "'w outcome \<Rightarrow> ('d, 'w) connection \<Rightarrow> (bool \<times> ('d, 'w) connection) option" where
  "routed_step out s =
     (case out of
        Some (None, res, w) \<Rightarrow>
          if rs_calls res \<le> rs_calls (cn_res s) + 1
          then Some (rs_calls (cn_res s) < rs_calls res, s\<lparr>cn_res := res, cn_world := w\<rparr>)
          else None
      | _ \<Rightarrow> None)"

text \<open>Whether an upgrade ends in a rule that takes the socket.\<close>

definition upgrade_takes :: "('d, 'w) http_app \<Rightarrow> crow_request \<Rightarrow> bool" where
  "upgrade_takes app req =
     (let m = method_index (rq_method req);
          i = rr_rule_index (method_find (ap_double app) (ap_router app) (rq_url req) m);
          rules = pm_rules (ro_per_methods (ap_router app) ! m)
      in m < method_index InternalMethodCount \<and> i \<noteq> 0 \<and> i \<noteq> RULE_SPECIAL_REDIRECT_SLASH \<and> unat i < length rules \<and>
         (case rules ! unat i of None \<Rightarrow> False | Some r \<Rightarrow> ru_kind r = WebSocketRule))"

definition run_handlers :: "('d, 'w) http_app \<Rightarrow> ('d, 'w) connection \<Rightarrow> ('d, 'w) connection option" where
  "run_handlers app s =
     (case cn_route s of
        None \<Rightarrow> None
      | Some f \<Rightarrow>
          (let s = s\<lparr>cn_res := (cn_res s)\<lparr>rs_handler := True\<rparr>, cn_after := True\<rparr>
           in case routed_step (Crow_Dispatch.handle (ap_router app) f (cp_req s) (cn_res s) (cn_world s)) s of
                None \<Rightarrow> None
              | Some (ended, s) \<Rightarrow>
                  map_option
                    (\<lambda>s. if cn_keep_alive s then s\<lparr>cn_res := set_header ''connection'' ''Keep-Alive'' (cn_res s)\<rparr> else s)
                    (if ended then complete_request app s else Some s)))"

text \<open>What \<open>handle\<close> notes of the request before it decides.\<close>

definition received :: "('d, 'w) http_app \<Rightarrow> ('d, 'w) connection \<Rightarrow> ('d, 'w) connection" where
  "received app s =
     (cancel_deadline_timer s)\<lparr>cp_req := (cp_req s)\<lparr>rq_remote_ip := ap_remote app\<rparr>,
       cn_keep_alive := rq_keep_alive (cp_req s), cn_close := rq_close_connection (cp_req s)\<rparr>"

definition cn_handle :: "('d, 'w) http_app \<Rightarrow> ('d, 'w) connection \<Rightarrow> ('d, 'w) connection option" where
  "cn_handle app s =
     (if \<not> cn_open s then None
      else
        (let s = received app s; req = cp_req s
         in if check_version req 1 1 \<and> ci_count (rq_headers req) ''host'' = 0 then
              complete_request app (s\<lparr>cn_after := False, cn_res := assign_response (response_code 400) (cn_res s)\<rparr>)
            else if check_version req 1 1 \<and> rq_upgrade req \<and> take 2 (rq_get_header_value req ''upgrade'') \<noteq> ''h2'' then
              (case routed_step
                  (handle_upgrade (ap_double app) (ap_upgrade app) (ap_router app) req (cn_res s) (cn_world s))
                  (s\<lparr>cn_close := True\<rparr>) of
                 Some (False, s) \<Rightarrow> Some (if upgrade_takes app req then close_adaptor s else s)
               | Some (True, s) \<Rightarrow> complete_request app s
               | None \<Rightarrow> None)
            else
              (let s = s\<lparr>cn_after := False, cn_res := (cn_res s)\<lparr>rs_handler := False\<rparr>\<rparr>
               in if rs_completed (cn_res s) then complete_request app s else run_handlers app s)))"

definition cn_handle_url :: "('d, 'w) http_app \<Rightarrow> ('d, 'w) connection \<Rightarrow> ('d, 'w) connection option" where
  "cn_handle_url app s =
     (case handle_initial (ap_double app) (ap_router app) (cp_req s) (cn_res s) (cn_world s) of
        (f, out) \<Rightarrow>
          (case routed_step out (s\<lparr>cn_route := Some f\<rparr>) of
             None \<Rightarrow> None
           | Some (ended, s) \<Rightarrow>
               (case (if ended then complete_request app s else Some s) of
                  None \<Rightarrow> None
                | Some s \<Rightarrow>
                    if rr_rule_index (fr_result f) \<noteq> 0 then Some s
                    else (case feed_done (cn_handle app) s of
                            Inl h \<Rightarrow> None
                          | Inr (b, s) \<Rightarrow> complete_request app s))))"

definition cn_handle_header :: "('d, 'w) connection \<Rightarrow> ('d, 'w) connection option" where
  "cn_handle_header s =
     Some
       (if check_version (cp_req s) 1 1 \<and> rq_get_header_value (cp_req s) ''expect'' = ''100-continue''
        then cn_do_write (s\<lparr>cn_buffers := [''HTTP/1.1 100 Continue'' @ [CR, LF, CR, LF]]\<rparr>)
        else s)"

definition connection_handler :: "('d, 'w) http_app \<Rightarrow> ('d, 'w) connection handler" where
  "connection_handler app =
     \<lparr>h_handle_url = cn_handle_url app, h_handle_header = cn_handle_header, h_handle = cn_handle app\<rparr>"

subsection \<open>The life of a connection\<close>

definition cn_done :: "('d, 'w) http_app \<Rightarrow> ('d, 'w) connection \<Rightarrow> ('d, 'w) connection option" where
  "cn_done app s = (case feed_done (cn_handle app) s of Inl h \<Rightarrow> None | Inr (b, s) \<Rightarrow> Some s)"

definition new_connection :: "'w \<Rightarrow> ('d, 'w) connection" where
  "new_connection w =
     crow_parser.extend new_parser
       (connection.fields None response False [] [] False False False True False 0 0 [] w)"

definition cn_start :: "('d, 'w) connection \<Rightarrow> ('d, 'w) connection" where
  "cn_start s = cn_do_read (clear_parser (start_deadline s))"

text \<open>The completion of a read that failed, or brought bytes that were not taken.\<close>

definition read_failed :: "('d, 'w) http_app \<Rightarrow> ('d, 'w) connection \<Rightarrow> ('d, 'w) connection option" where
  "read_failed app s = map_option close_adaptor (cn_done app (cancel_deadline_timer s))"

definition read_completed ::
  "('d, 'w) http_app \<Rightarrow> nat \<Rightarrow> string option \<Rightarrow> ('d, 'w) connection \<Rightarrow> ('d, 'w) connection option" where
  "read_completed app addr data s =
     (let s = s\<lparr>cn_reading := cn_reading s - 1\<rparr>
      in case data of
           None \<Rightarrow> read_failed app s
         | Some b \<Rightarrow>
             (case feed (connection_handler app) addr b s of
                Some (Inr (ret, s)) \<Rightarrow>
                  if \<not> (ret \<and> cn_open s) then read_failed app s
                  else if cn_close s then cn_done app (cancel_deadline_timer s)
                  else if \<not> cn_after s then Some (cn_do_read (start_deadline s))
                  else Some (s\<lparr>cn_restart := True\<rparr>)
              | _ \<Rightarrow> None))"

definition write_completed :: "bool \<Rightarrow> ('d, 'w) connection \<Rightarrow> ('d, 'w) connection" where
  "write_completed ok s =
     (let s = clear_parser (s\<lparr>cn_writing := cn_writing s - 1, cn_res := clear_response (cn_res s), cn_body_copy := []\<rparr>)
      in if ok \<and> cn_close s then close_adaptor s else s)"

definition timed_out :: "('d, 'w) connection \<Rightarrow> ('d, 'w) connection" where
  "timed_out s = (if cn_open s then close_adaptor s else s)\<lparr>cn_timer := False\<rparr>"

text \<open>The application ends, later, a response its handler has left open.\<close>

definition user_ends ::
  "('d, 'w) http_app \<Rightarrow> crow_response \<Rightarrow> ('d, 'w) connection \<Rightarrow> ('d, 'w) connection option" where
  "user_ends app r s =
     (let res = end_response (r\<lparr>rs_handler := rs_handler (cn_res s), rs_calls := rs_calls (cn_res s)\<rparr>)
      in if rs_calls (cn_res s) < rs_calls res then complete_request app (s\<lparr>cn_res := res\<rparr>)
         else Some (s\<lparr>cn_res := res\<rparr>))"

datatype cn_event =
    Read_completed nat "string option"
  | Write_completed bool
  | Timed_out
  | User_ends crow_response

fun cn_enabled :: "cn_event \<Rightarrow> ('d, 'w) connection \<Rightarrow> bool" where
  "cn_enabled (Read_completed addr data) s \<longleftrightarrow>
     0 < cn_reading s \<and> (case data of None \<Rightarrow> True | Some b \<Rightarrow> b \<noteq> [] \<and> length b \<le> 4096)"
| "cn_enabled (Write_completed ok) s \<longleftrightarrow> 0 < cn_writing s"
| "cn_enabled Timed_out s \<longleftrightarrow> cn_timer s"
| "cn_enabled (User_ends r) s \<longleftrightarrow> rs_handler (cn_res s)"

fun cn_step :: "('d, 'w) http_app \<Rightarrow> cn_event \<Rightarrow> ('d, 'w) connection \<Rightarrow> ('d, 'w) connection option" where
  "cn_step app (Read_completed addr data) s = read_completed app addr data s"
| "cn_step app (Write_completed ok) s = Some (write_completed ok s)"
| "cn_step app Timed_out s = Some (timed_out s)"
| "cn_step app (User_ends r) s = user_ends app r s"

inductive cn_reachable :: "('d, 'w) http_app \<Rightarrow> ('d, 'w) connection \<Rightarrow> bool" for app where
  cn_started: "cn_reachable app (cn_start (new_connection w))"
| cn_stepped: "cn_reachable app s \<Longrightarrow> cn_enabled e s \<Longrightarrow> cn_step app e s = Some s' \<Longrightarrow> cn_reachable app s'"

end
