(* ===== verification/Http_Observer.thy ===== *)
theory Http_Observer
  imports Http_Parser
begin

section \<open>The HTTP parser: what its owner's fields go through\<close>

text \<open>
  A property of the object that does not depend on the parser's own fields and that every callback keeps is
  kept by a whole run of \<open>http_parser_execute\<close>.
\<close>

locale parser_observer =
  fixes cbs :: "'a http_parser_scheme settings"
    and P :: "'a http_parser_scheme \<Rightarrow> bool"
  assumes blind [simp]:
      "P (s\<lparr>hp_flags := v1\<rparr>) = P s" "P (s\<lparr>hp_state := v2\<rparr>) = P s" "P (s\<lparr>hp_header_state := v3\<rparr>) = P s"
      "P (s\<lparr>hp_index := v4\<rparr>) = P s" "P (s\<lparr>hp_uses_transfer_encoding := v5\<rparr>) = P s" "P (s\<lparr>hp_nread := v6\<rparr>) = P s"
      "P (s\<lparr>hp_content_length := v7\<rparr>) = P s" "P (s\<lparr>hp_qs_point := v8\<rparr>) = P s" "P (s\<lparr>hp_http_major := v9\<rparr>) = P s"
      "P (s\<lparr>hp_http_minor := v10\<rparr>) = P s" "P (s\<lparr>hp_method := v11\<rparr>) = P s" "P (s\<lparr>hp_http_errno := v12\<rparr>) = P s"
      "P (s\<lparr>hp_upgrade := v13\<rparr>) = P s"
    and keeps:
      "on_message_begin cbs s = Some (v, s') \<Longrightarrow> P s \<Longrightarrow> P s'"
      "on_method cbs s = Some (v, s') \<Longrightarrow> P s \<Longrightarrow> P s'"
      "on_url cbs t s = Some (v, s') \<Longrightarrow> P s \<Longrightarrow> P s'"
      "on_header_field cbs t s = Some (v, s') \<Longrightarrow> P s \<Longrightarrow> P s'"
      "on_header_value cbs t s = Some (v, s') \<Longrightarrow> P s \<Longrightarrow> P s'"
      "on_headers_complete cbs s = Some (v, s') \<Longrightarrow> P s \<Longrightarrow> P s'"
      "on_body cbs t s = Some (v, s') \<Longrightarrow> P s \<Longrightarrow> P s'"
      "on_message_complete cbs s = Some (v, s') \<Longrightarrow> P s \<Longrightarrow> P s'"
begin

fun after :: "'a http_parser_scheme control \<Rightarrow> bool" where
  "after (Break l s) = P s"
| "after (Reexecute l s) = P s"
| "after (Return n s) = P s"
| "after (Failed h) = True"

lemma set_errno_P [simp]: "P (set_errno e l s) = P s"
  by (simp add: set_errno_def)

lemma fail_P [simp]: "after (fail_with e l s) = P s" "after (goto_error l s) = P s"
  by (simp_all add: fail_with_def goto_error_def Let_def)

lemma asserting_P: "(b \<Longrightarrow> after k) \<Longrightarrow> after (asserting b k)"
  by (simp add: asserting_def)

lemma after_callback_P:
  assumes "\<And>v s'. r = Some (v, s') \<Longrightarrow> P s'" "\<And>s'. P s' \<Longrightarrow> after (k s')"
  shows "after (after_callback err er l r k)"
  using assms by (auto simp: after_callback_def Let_def split: option.split)

lemma notify_P:
  "(\<And>v s'. cb s = Some (v, s') \<Longrightarrow> P s') \<Longrightarrow> (\<And>s'. P s' \<Longrightarrow> after (k s')) \<Longrightarrow> after (callback_notify cb err er l s k)"
  by (auto simp: callback_notify_def intro!: asserting_P after_callback_P)

lemma data_P:
  "(\<And>t v s'. cb t s = Some (v, s') \<Longrightarrow> P s') \<Longrightarrow> P s \<Longrightarrow> (\<And>s'. P s' \<Longrightarrow> after (k s')) \<Longrightarrow>
   after (callback_data cb err data mk stop er l s k)"
  by (auto simp: callback_data_def intro!: asserting_P after_callback_P split: option.split)

lemma count_P: "P s \<Longrightarrow> (\<And>l. after (k l)) \<Longrightarrow> after (count_header_size v l s k)"
  by (simp add: count_header_size_def Let_def)

lemma strict_P: "P s \<Longrightarrow> after k \<Longrightarrow> after (strict_check b l s k)"
  by (simp add: strict_check_def)

lemma parse_url_char_P: "P s \<Longrightarrow> P (snd (parse_url_char addr st ch m p s))"
  by (cases st) (simp_all add: parse_url_char_def Let_def)

lemma url_step_P: "P s \<Longrightarrow> after (url_step addr ch l s)"
  using parse_url_char_P [of s addr "hp_state s" ch "lv_url_start_mark l" "lv_p l"]
  by (simp add: url_step_def Let_def split_beta)

lemma field_char_P: "P s \<Longrightarrow> pred_option P (field_char ch c s)"
  by (cases "hp_header_state s") (simp_all add: field_char_def Let_def)

lemma field_scan_P: "P s \<Longrightarrow> pred_option (\<lambda>(q, t). P t) (field_scan w p s)"
proof (induction w p s rule: field_scan.induct)
  case (2 ch r p s)
  then show ?case using field_char_P [OF 2(3), of ch "token ch"]
    by (cases "field_char ch (token ch) s") (simp_all add: Let_def)
qed simp

lemma url_done_P: "P s \<Longrightarrow> after (url_done cbs data l s)"
  by (auto simp: url_done_def intro!: data_P dest: keeps)

lemma message_done_P: "P s \<Longrightarrow> after (message_done cbs l s)"
  by (auto simp: message_done_def intro!: notify_P dest: keeps)

lemma request_line_P:
  assumes "P s"
  shows "after (on_start_req cbs ch l s)" "after (on_req_method cbs ch l s)" "after (on_spaces_before_url addr ch l s)"
    "after (on_schema addr ch l s)" "after (on_server_or_path cbs addr data ch l s)" "after (on_http_start ch l s)"
    "after (expect_char want st ch l s)" "after (on_http_major ch l s)" "after (on_http_dot ch l s)"
    "after (on_http_minor ch l s)" "after (on_http_end ch l s)" "after (on_line_almost_done ch l s)"
    "after (on_dead ch l s)"
proof -
  show "after (on_start_req cbs ch l s)" using assms
    by (auto simp: on_start_req_def Let_def intro!: notify_P dest: keeps split: option.split)
  show "after (on_req_method cbs ch l s)" using assms
    by (auto simp: on_req_method_def Let_def intro!: notify_P dest: keeps split: option.split)
  show "after (on_spaces_before_url addr ch l s)" using assms
    by (auto simp: on_spaces_before_url_def Let_def intro!: url_step_P)
  show "after (on_schema addr ch l s)" using assms by (auto simp: on_schema_def intro!: url_step_P)
  show "after (on_server_or_path cbs addr data ch l s)" using assms
    by (auto simp: on_server_or_path_def intro!: url_step_P url_done_P)
  show "after (expect_char want st ch l s)" using assms by (auto simp: expect_char_def intro!: strict_P)
qed (use assms in \<open>simp_all add: on_http_start_def on_http_major_def on_http_dot_def on_http_minor_def on_http_end_def
      on_line_almost_done_def on_dead_def\<close>)

lemma on_header_field_state_P: "P s \<Longrightarrow> after (on_header_field_state cbs data l s)"
  using field_scan_P [of s "drop (lv_p l) data" "lv_p l"]
  by (cases "field_scan (drop (lv_p l) data) (lv_p l) s")
    (auto simp: on_header_field_state_def Let_def intro!: count_P data_P dest!: keeps(4))

lemma on_header_value_state_P: "P s \<Longrightarrow> after (on_header_value_state cbs data l s)"
  by (auto simp: on_header_value_state_def Let_def intro!: count_P data_P dest: keeps
      split: prod.split value_end.split option.split)

lemma header_P:
  assumes "P s"
  shows "after (on_header_field_start ch l s)" "after (on_header_value_start ch l s)"
    "after (on_header_value_discard_ws ch l s)" "after (on_header_almost_done ch l s)" "after (on_header_value_lws ch l s)"
    "after (on_header_value_discard_lws cbs data ch l s)" "after (on_headers_almost_done cbs ch l s)"
    "after (on_headers_done cbs ch l s)"
proof -
  show start: "after (on_header_value_start ch l s)" using assms
    by (cases "hp_header_state s") (auto simp: on_header_value_start_def Let_def)
  show "after (on_header_value_discard_ws ch l s)" using assms start by (auto simp: on_header_value_discard_ws_def)
  show "after (on_header_value_discard_lws cbs data ch l s)" using assms
    by (auto simp: on_header_value_discard_lws_def Let_def intro!: data_P dest: keeps)
  show "after (on_headers_almost_done cbs ch l s)" using assms
    by (auto simp: on_headers_almost_done_def Let_def intro!: strict_P notify_P dest: keeps split: option.split)
  show "after (on_headers_done cbs ch l s)" using assms
    by (auto simp: on_headers_done_def Let_def intro!: strict_P notify_P message_done_P dest: keeps)
qed (use assms in \<open>auto simp: on_header_field_start_def on_header_almost_done_def on_header_value_lws_def Let_def\<close>)

lemma body_P:
  assumes "P s"
  shows "after (on_body_identity cbs data l s)" "after (on_body_identity_eof data l s)"
    "after (on_chunk_size_start ch l s)" "after (on_chunk_size ch l s)" "after (on_chunk_parameters ch l s)"
    "after (on_chunk_size_almost_done ch l s)" "after (on_chunk_data data l s)"
    "after (on_chunk_data_almost_done cbs data ch l s)" "after (on_chunk_data_done ch l s)"
proof -
  show "after (on_body_identity cbs data l s)" using assms
    by (auto simp: on_body_identity_def Let_def intro!: asserting_P data_P dest: keeps)
  show "after (on_chunk_data_almost_done cbs data ch l s)" using assms
    by (auto simp: on_chunk_data_almost_done_def intro!: asserting_P strict_P data_P dest: keeps)
qed (use assms in \<open>auto simp: on_body_identity_eof_def on_chunk_size_start_def on_chunk_size_def on_chunk_parameters_def
      on_chunk_size_almost_done_def on_chunk_data_def on_chunk_data_done_def Let_def intro!: asserting_P strict_P
      split: option.split\<close>)

lemma execute_byte_P: "P s \<Longrightarrow> after (execute_byte cbs addr data l s)"
  unfolding execute_byte_def Let_def
  by (cases "hp_state s") (simp_all add: request_line_P header_P body_P message_done_P on_header_field_state_P
      on_header_value_state_P)

lemma loop_P:
  assumes "P s"
  shows "after (loop_head cbs addr data l s)" "after (loop_end cbs data l s)"
proof -
  show "after (loop_head cbs addr data l s)" using assms
    by (auto simp: loop_head_def intro!: count_P execute_byte_P)
  show "after (loop_end cbs data l s)" using assms unfolding loop_end_def Let_def
    by (intro asserting_P data_P) (auto dest: keeps)
qed

lemma execute_loop_P:
  assumes "execute_loop cbs addr data again l s = Some r" "P s"
  shows "case r of Inl h \<Rightarrow> True | Inr (n, s') \<Rightarrow> P s'"
proof -
  have "cbs = cbs \<longrightarrow> P s \<longrightarrow> (case r of Inl h \<Rightarrow> True | Inr (n, s') \<Rightarrow> P s')"
  proof (rule execute_loop.raw_induct [where P = "\<lambda>c a d g l s r. c = cbs \<longrightarrow> P s \<longrightarrow>
      (case r of Inl h \<Rightarrow> True | Inr (n, s') \<Rightarrow> P s')", OF _ assms(1)], intro impI, goal_cases)
    case (1 f c a d g l s r)
    let ?c = "if g then execute_byte cbs a d l s else if lv_p l < length d then loop_head cbs a d l s else loop_end cbs d l s"
    have "after ?c" using 1(4) execute_byte_P loop_P by simp
    then show ?case using 1(1) 1(2) [unfolded 1(3)] 1(3) by (cases ?c) (auto split: prod.split)
  qed
  then show ?thesis using assms(2) by simp
qed

lemma execute_eof_P:
  "execute_eof cb s = Inr (n, s') \<Longrightarrow> P s \<Longrightarrow> (\<And>v t. cb s = Some (v, t) \<Longrightarrow> P t) \<Longrightarrow> P s'"
  by (auto simp: execute_eof_def split: if_splits option.splits)

lemma http_parser_execute_P:
  assumes "http_parser_execute cbs addr data s = Some (Inr (n, s'))" "P s"
  shows "P s'"
  using assms execute_loop_P [of addr data False "start_locals s" s "Inr (n, s')"] execute_eof_P keeps(8)
  by (auto simp: http_parser_execute_def split: if_splits)

end

end
