(* ===== verification/Crow_Connection_Props.thy ===== *)
theory Crow_Connection_Props
  imports Crow_Connection Http_Observer
begin

section \<open>HTTP connections: what every run keeps, and what requests are answered\<close>

subsection \<open>The parser of a connection\<close>

text \<open>A callback leaves the parser as it is or cleared for the next message.\<close>

definition kept :: "('d, 'w) connection \<Rightarrow> ('d, 'w) connection \<Rightarrow> bool" where
  "kept s s' \<longleftrightarrow> hp_http_errno s' = hp_http_errno s \<and> (same_parser s s' \<or> hp_state s' = s_start_req)"

lemma kept_trans: "kept s t \<Longrightarrow> kept t u \<Longrightarrow> kept s u"
  unfolding kept_def same_parser_def by (elim conjE disjE) simp_all

lemma kept_refl [simp]: "kept s s"
  by (simp add: kept_def same_parser_def)

lemma kept_completed: "kept s s' \<Longrightarrow> completed s s'"
  by (auto simp: kept_def same_parser_def completed_def settled_def)

lemma kept_update [simp]:
  "kept s (s\<lparr>cn_route := x1\<rparr>) " "kept s (s\<lparr>cn_res := x2\<rparr>)" "kept s (s\<lparr>cn_close := x3\<rparr>)" "kept s (s\<lparr>cn_after := x4\<rparr>)"
  "kept s (cn_do_read s)" "kept s (start_deadline s)" "kept s (cancel_deadline_timer s)" "kept s (close_adaptor s)"
  "kept s (cn_do_write s)" "kept s (after_write_sync s)" "kept s (prepare_buffers app s)"
  by (simp_all add: kept_def same_parser_def cn_do_read_def start_deadline_def cancel_deadline_timer_def close_adaptor_def
      cn_do_write_def after_write_sync_def clear_parser_def prepare_buffers_def Let_def)

lemma write_sync_kept: "do_write_sync app b s = Some s' \<Longrightarrow> kept s s'"
  by (auto simp: do_write_sync_def kept_def same_parser_def split: if_splits)

lemma write_chunks_kept: "write_chunks app bs s = Some s' \<Longrightarrow> kept s s'"
  by (induction bs arbitrary: s) (auto split: option.splits dest: write_sync_kept intro: kept_trans)

lemma do_write_static_kept: "do_write_static app s = Some s' \<Longrightarrow> kept s s'"
  by (auto simp: do_write_static_def split: option.splits dest!: write_sync_kept write_chunks_kept intro: kept_trans)

lemma do_write_general_kept: "do_write_general app s = Some s' \<Longrightarrow> kept s s'"
proof (cases "length (rs_body (cn_res s)) < ap_threshold app")
  case True
  then show "do_write_general app s = Some s' \<Longrightarrow> kept s s'"
    by (auto simp: do_write_general_def Let_def kept_def same_parser_def cn_do_write_def cn_do_read_def start_deadline_def
        split: if_splits)
next
  case False
  assume "do_write_general app s = Some s'"
  then obtain t u where tu: "do_write_sync app (concat (cn_buffers s)) s = Some t"
    "write_chunks app (chunks (rs_body (cn_res t))) (cancel_deadline_timer t) = Some u"
    "s' = after_write_sync (u\<lparr>cn_res := (cn_res u)\<lparr>rs_body := []\<rparr>\<rparr>)"
    using False by (auto simp: do_write_general_def split: option.splits)
  have "kept s (cancel_deadline_timer t)" using write_sync_kept [OF tu(1)] by (rule kept_trans) simp
  then have "kept s u" using write_chunks_kept [OF tu(2)] by (rule kept_trans)
  then have "kept s (u\<lparr>cn_res := (cn_res u)\<lparr>rs_body := []\<rparr>\<rparr>)" by (rule kept_trans) simp
  then show "kept s s'" unfolding tu(3) by (rule kept_trans) simp
qed

lemma complete_request_kept:
  assumes "complete_request app s = Some s'"
  shows "kept s s'"
proof -
  let ?t = "prepare_buffers app (s\<lparr>cn_after := False, cn_res := complete_location (cp_req s) (cn_res s)\<rparr>)"
  have "kept s ?t" by (simp add: kept_def same_parser_def prepare_buffers_def Let_def)
  moreover have "kept ?t s'" using assms do_write_static_kept do_write_general_kept
    by (auto simp: complete_request_def Let_def split: if_splits)
  ultimately show ?thesis by (rule kept_trans)
qed

lemma routed_step_kept: "routed_step out s = Some (b, s') \<Longrightarrow> kept s s'"
  by (auto simp: routed_step_def kept_def same_parser_def split: option.splits if_splits)

text \<open>What the two operations come down to.\<close>

lemma run_handlers_cases:
  assumes "run_handlers app s = Some s'"
  obtains out b u v where
    "routed_step out (s\<lparr>cn_res := (cn_res s)\<lparr>rs_handler := True\<rparr>, cn_after := True\<rparr>) = Some (b, u)"
    "(if b then complete_request app u else Some u) = Some v"
    "s' = v \<or> s' = v\<lparr>cn_res := set_header ''connection'' ''Keep-Alive'' (cn_res v)\<rparr>"
  using assms by (auto simp: run_handlers_def Let_def split: option.splits if_splits)

lemma cn_handle_cases:
  assumes "cn_handle app s = Some s'"
  obtains (respond) r where "complete_request app ((received app s)\<lparr>cn_after := False, cn_res := r\<rparr>) = Some s'"
    | (upgrade) out b u where "routed_step out ((received app s)\<lparr>cn_close := True\<rparr>) = Some (b, u)"
        "if b then complete_request app u = Some s' else s' \<in> {u, close_adaptor u}"
    | (run) r where "run_handlers app ((received app s)\<lparr>cn_after := False, cn_res := r\<rparr>) = Some s'"
proof -
  have o: "\<not> \<not> cn_open s" using assms by (cases "cn_open s") (simp_all add: cn_handle_def)
  from assms [unfolded cn_handle_def if_not_P [OF o]] show thesis
    by (auto simp: Let_def split: if_splits option.splits bool.splits intro: respond upgrade run)
qed

lemma run_handlers_kept:
  assumes "run_handlers app s = Some s'"
  shows "kept s s'"
  using assms
proof (cases rule: run_handlers_cases)
  case (1 out b u v)
  have "kept (s\<lparr>cn_res := (cn_res s)\<lparr>rs_handler := True\<rparr>, cn_after := True\<rparr>) u" by (rule routed_step_kept [OF 1(1)])
  then have "kept s u" by (simp add: kept_def same_parser_def)
  moreover have "kept u v" using 1(2) complete_request_kept by (auto split: if_splits)
  ultimately have "kept s v" by (rule kept_trans)
  then show ?thesis using 1(3) by (auto intro: kept_trans [OF _ kept_update(2)])
qed

lemma cn_handle_kept:
  assumes "cn_handle app s = Some s'"
  shows "kept s s'"
proof -
  have r: "kept ((received app s)\<lparr>cn_after := a, cn_res := r\<rparr>) t \<Longrightarrow> kept s t"
    "kept ((received app s)\<lparr>cn_close := a\<rparr>) t \<Longrightarrow> kept s t" for a r t
    by (simp_all add: kept_def same_parser_def received_def cancel_deadline_timer_def)
  from assms show ?thesis
  proof (cases rule: cn_handle_cases)
    case (upgrade out b u)
    have "kept u s'" using upgrade(2) complete_request_kept by (auto split: if_splits)
    then show ?thesis using kept_trans [OF routed_step_kept [OF upgrade(1)]] r(2) by blast
  qed (use r(1) complete_request_kept run_handlers_kept in blast)+
qed

lemma cn_handle_header_kept: "cn_handle_header s = Some s' \<Longrightarrow> same_parser s s' \<and> hp_http_errno s' = hp_http_errno s"
  by (cases "check_version (cp_req s) 1 1 \<and> rq_get_header_value (cp_req s) ''expect'' = ''100-continue''")
    (simp_all add: cn_handle_header_def, auto simp: cn_do_write_def same_parser_def)

lemma feed_done_completed:
  assumes "feed_done (cn_handle app) s = Inr (b, s')"
  shows "completed s s'"
proof -
  have "cn_handle app (s\<lparr>cp_message_complete := True\<rparr>) = Some t \<Longrightarrow> completed s t" for t
    using kept_completed [OF cn_handle_kept] by (fastforce simp: completed_def settled_def)
  then show ?thesis using assms
    by (auto simp: feed_done_def execute_eof_def feed_value_def returns0_def completed_def settled_def
        split: if_splits option.splits)
qed

lemma cn_handle_url_completed:
  assumes "cn_handle_url app s = Some s'"
  shows "completed s s'"
proof -
  obtain f out where fo: "handle_initial (ap_double app) (ap_router app) (cp_req s) (cn_res s) (cn_world s) = (f, out)"
    by fastforce
  obtain b t u where tu: "routed_step out (s\<lparr>cn_route := Some f\<rparr>) = Some (b, t)"
    "(if b then complete_request app t else Some t) = Some u"
    using assms fo by (auto simp: cn_handle_url_def split: option.splits)
  have "kept (s\<lparr>cn_route := Some f\<rparr>) t" by (rule routed_step_kept [OF tu(1)])
  moreover have "kept t u" using tu(2) complete_request_kept by (auto split: if_splits)
  ultimately have "kept (s\<lparr>cn_route := Some f\<rparr>) u" by (rule kept_trans)
  then have u: "kept s u" by (simp add: kept_def same_parser_def)
  show ?thesis
  proof (cases "rr_rule_index (fr_result f) \<noteq> 0")
    case True
    then show ?thesis using assms fo tu u kept_completed by (simp add: cn_handle_url_def)
  next
    case False
    then obtain c v where v: "feed_done (cn_handle app) u = Inr (c, v)" "complete_request app v = Some s'"
      using assms fo tu by (auto simp: cn_handle_url_def split: sum.splits)
    show ?thesis using u feed_done_completed [OF v(1)] complete_request_kept [OF v(2)]
      unfolding kept_def completed_def settled_def same_parser_def by (elim conjE disjE) simp_all
  qed
qed

lemma connection_handler_ok: "handler_ok (connection_handler app)"
  by (auto simp: handler_ok_def connection_handler_def cn_handle_url_completed
      dest: cn_handle_header_kept cn_handle_kept intro: kept_completed)
    (auto dest!: cn_handle_header_kept simp: settled_def same_parser_def)

interpretation connection: crow_client "connection_handler app" for app
  by unfold_locales (rule connection_handler_ok)

subsection \<open>One read at a time\<close>

text \<open>How an operation may move a read that is due to one that is started.\<close>

definition moves :: "('d, 'w) connection \<Rightarrow> ('d, 'w) connection \<Rightarrow> bool" where
  "moves s s' \<longleftrightarrow>
     cn_reading s' + of_bool (cn_restart s') = cn_reading s + of_bool (cn_restart s) \<and> (cn_restart s' \<longrightarrow> cn_restart s)"

lemma moves_refl [simp]: "moves s s"
  by (simp add: moves_def)

lemma moves_trans: "moves s t \<Longrightarrow> moves t u \<Longrightarrow> moves s u"
  by (simp add: moves_def)

lemma moves_update [simp]:
  "moves (s\<lparr>cp_req := x1\<rparr>) t = moves s t" "moves (s\<lparr>cn_res := x2\<rparr>) t = moves s t"
  "moves (s\<lparr>cn_close := x3\<rparr>) t = moves s t" "moves (s\<lparr>cn_after := x4\<rparr>) t = moves s t"
  "moves (s\<lparr>cn_keep_alive := x5\<rparr>) t = moves s t" "moves (s\<lparr>cn_route := x6\<rparr>) t = moves s t"
  "moves (s\<lparr>cp_message_complete := x7\<rparr>) t = moves s t" "moves (cancel_deadline_timer s) t = moves s t"
  "moves s (t\<lparr>cn_res := x2\<rparr>) = moves s t" "moves s (close_adaptor t) = moves s t"
  "moves s (t\<lparr>cn_world := x8\<rparr>) = moves s t" "moves s (after_write_sync t) = moves s t"
  "moves (prepare_buffers app s) t = moves s t"
  by (simp_all add: moves_def cancel_deadline_timer_def close_adaptor_def after_write_sync_def clear_parser_def
      prepare_buffers_def Let_def)

lemma write_chunks_moves:
  "write_chunks app bs s = Some s' \<Longrightarrow> cn_reading s' = cn_reading s \<and> cn_restart s' = cn_restart s \<and> cn_after s' = cn_after s"
  by (induction bs arbitrary: s) (auto simp: do_write_sync_def split: option.splits if_splits)

lemma complete_request_moves:
  assumes "complete_request app s = Some s'"
  shows "moves s s' \<and> \<not> cn_after s'"
proof -
  let ?t = "prepare_buffers app (s\<lparr>cn_after := False, cn_res := complete_location (cp_req s) (cn_res s)\<rparr>)"
  have t: "cn_reading ?t = cn_reading s" "cn_restart ?t = cn_restart s" "\<not> cn_after ?t"
    by (simp_all add: prepare_buffers_def Let_def)
  have s': "(if is_static_type (cn_res ?t) then do_write_static app ?t else do_write_general app ?t) = Some s'"
    using assms by (simp add: complete_request_def Let_def)
  have sync: "moves s u \<and> \<not> cn_after u"
    if "write_chunks app bs v = Some u" "cn_reading v = cn_reading s" "cn_restart v = cn_restart s" "\<not> cn_after v" for bs u v
    using write_chunks_moves [OF that(1)] that by (simp add: moves_def)
  have after: "cn_after (after_write_sync u) = cn_after u" for u :: "('a, 'b) connection"
    by (simp add: after_write_sync_def close_adaptor_def clear_parser_def Let_def)
  have first: "do_write_sync app b ?t = Some v \<Longrightarrow> cn_reading v = cn_reading s \<and> cn_restart v = cn_restart s \<and> \<not> cn_after v" for b v
    using t by (auto simp: do_write_sync_def split: if_splits)
  show ?thesis
  proof (cases "is_static_type (cn_res ?t)")
    case True
    then obtain v u where "do_write_sync app (concat (cn_buffers ?t)) ?t = Some v"
      "write_chunks app (case ap_file app (rs_file (cn_res v)) of None \<Rightarrow> [] | Some b \<Rightarrow> chunks b) v = Some u"
      "s' = after_write_sync u" using s' by (auto simp: do_write_static_def split: option.splits)
    then show ?thesis using first sync by (simp add: after)
  next
    case False
    then have g: "do_write_general app ?t = Some s'" using s' by simp
    show ?thesis
    proof (cases "length (rs_body (cn_res ?t)) < ap_threshold app")
      case True
      then show ?thesis using g t
        by (cases "cn_restart s") (auto simp: do_write_general_def Let_def cn_do_write_def cn_do_read_def start_deadline_def
            moves_def simp del: moves_update)
    next
      case False
      then obtain v u where "do_write_sync app (concat (cn_buffers ?t)) ?t = Some v"
        "write_chunks app (chunks (rs_body (cn_res v))) (cancel_deadline_timer v) = Some u"
        "s' = after_write_sync (u\<lparr>cn_res := (cn_res u)\<lparr>rs_body := []\<rparr>\<rparr>)"
        using g by (auto simp: do_write_general_def split: option.splits)
      then show ?thesis using first sync [of _ "cancel_deadline_timer v"]
        by (auto simp: after cancel_deadline_timer_def)
    qed
  qed
qed

lemma routed_step_moves: "routed_step out s = Some (b, s') \<Longrightarrow> moves s s'"
  by (auto simp: routed_step_def moves_def split: option.splits if_splits)

lemma run_handlers_moves:
  assumes "run_handlers app s = Some s'"
  shows "moves s s'"
  using assms
proof (cases rule: run_handlers_cases)
  case (1 out b u v)
  have "moves s u" using routed_step_moves [OF 1(1)] by simp
  moreover have "moves u v" using 1(2) complete_request_moves by (auto split: if_splits)
  ultimately have "moves s v" by (rule moves_trans)
  then show ?thesis using 1(3) by auto
qed

lemma cn_handle_moves:
  assumes "cn_handle app s = Some s'"
  shows "moves s s'"
proof -
  have r: "moves (received app s) t = moves s t" for t
    by (simp add: moves_def received_def cancel_deadline_timer_def)
  from assms show ?thesis
  proof (cases rule: cn_handle_cases)
    case (respond r)
    then show ?thesis using complete_request_moves [OF respond] by (simp add: r)
  next
    case (upgrade out b u)
    have "moves u s'" using upgrade(2) complete_request_moves by (auto split: if_splits)
    then show ?thesis using moves_trans [OF routed_step_moves [OF upgrade(1)]] by (simp add: r)
  next
    case (run r)
    then show ?thesis using run_handlers_moves [OF run] by (simp add: r)
  qed
qed

lemma feed_done_moves: "feed_done (cn_handle app) s = Inr (b, s') \<Longrightarrow> moves s s'"
  using cn_handle_moves [of app "s\<lparr>cp_message_complete := True\<rparr>"]
  by (auto simp: feed_done_def execute_eof_def feed_value_def returns0_def split: if_splits option.splits)
    (simp_all add: moves_def)

lemma cn_handle_url_moves:
  assumes "cn_handle_url app s = Some s'"
  shows "moves s s'"
proof -
  obtain f out where fo: "handle_initial (ap_double app) (ap_router app) (cp_req s) (cn_res s) (cn_world s) = (f, out)"
    by fastforce
  obtain b t u where tu: "routed_step out (s\<lparr>cn_route := Some f\<rparr>) = Some (b, t)"
    "(if b then complete_request app t else Some t) = Some u"
    using assms fo by (auto simp: cn_handle_url_def split: option.splits)
  have "moves s t" using routed_step_moves [OF tu(1)] by simp
  moreover have "moves t u" using tu(2) complete_request_moves by (auto split: if_splits)
  ultimately have u: "moves s u" by (rule moves_trans)
  show ?thesis
  proof (cases "rr_rule_index (fr_result f) \<noteq> 0")
    case True
    then show ?thesis using assms fo tu u by (simp add: cn_handle_url_def)
  next
    case False
    then obtain c v where v: "feed_done (cn_handle app) u = Inr (c, v)" "complete_request app v = Some s'"
      using assms fo tu by (auto simp: cn_handle_url_def split: sum.splits)
    show ?thesis using moves_trans [OF moves_trans [OF u feed_done_moves [OF v(1)]]] complete_request_moves [OF v(2)] by simp
  qed
qed

definition not_reading :: "('d, 'w) connection \<Rightarrow> bool" where
  "not_reading s \<longleftrightarrow> cn_reading s = 0 \<and> \<not> cn_restart s"

lemma moves_not_reading: "moves s s' \<Longrightarrow> not_reading s \<Longrightarrow> not_reading s'"
  by (auto simp: moves_def not_reading_def)

interpretation reads: parser_observer "crow_settings (connection_handler app)" not_reading for app
proof
  fix s s' :: "('a, 'b) connection" and v t
  show "on_url (crow_settings (connection_handler app)) t s = Some (v, s') \<Longrightarrow> not_reading s \<Longrightarrow> not_reading s'"
    by (auto simp: crow_settings_def cp_on_url_def Let_def returns0_def connection_handler_def split: option.splits
        dest!: cn_handle_url_moves) (auto simp: moves_def not_reading_def)
  show "on_headers_complete (crow_settings (connection_handler app)) s = Some (v, s') \<Longrightarrow> not_reading s \<Longrightarrow> not_reading s'"
    by (auto simp: crow_settings_def cp_on_headers_complete_def Let_def returns0_def connection_handler_def
        cn_handle_header_def set_connection_parameters_def emplace_header_def cn_do_write_def not_reading_def split: if_splits)
  show "on_message_complete (crow_settings (connection_handler app)) s = Some (v, s') \<Longrightarrow> not_reading s \<Longrightarrow> not_reading s'"
    by (auto simp: crow_settings_def cp_on_message_complete_def returns0_def connection_handler_def dest!: cn_handle_moves)
      (auto simp: moves_def not_reading_def)
qed (auto simp: not_reading_def crow_settings_def cp_on_message_begin_def cp_on_method_def cp_on_header_field_def
    cp_on_header_value_def cp_on_body_def emplace_header_def Let_def)

lemma feed_not_reading:
  assumes "feed (connection_handler app) addr data s = Some (Inr (b, s'))" "not_reading s"
  shows "not_reading s'"
proof (cases "cp_message_complete s")
  case False
  then obtain r where r: "http_parser_execute (crow_settings (connection_handler app)) addr data s = Some r"
    "map_sum id (feed_value (length data)) r = Inr (b, s')"
    using assms(1) by (auto simp: feed_def)
  obtain n t where "r = Inr (n, t)" using r(2) by (cases r) auto
  then have "not_reading t" "t = s'" using r assms(2) reads.http_parser_execute_P [of app addr data s n t]
    by (simp_all add: feed_value_def)
  then show ?thesis by simp
qed (use assms in \<open>simp add: feed_def\<close>)

text \<open>The invariant between two steps.\<close>

definition reads_in_turn :: "('d, 'w) connection \<Rightarrow> bool" where
  "reads_in_turn s \<longleftrightarrow>
     cn_reading s + of_bool (cn_restart s) \<le> 1 \<and> (cn_reading s = 1 \<longrightarrow> \<not> cn_after s)"

lemma not_reading_turn: "not_reading s \<Longrightarrow> reads_in_turn s"
  by (simp add: not_reading_def reads_in_turn_def)

lemma read_failed_turn: "read_failed app s = Some s' \<Longrightarrow> not_reading s \<Longrightarrow> reads_in_turn s'"
  by (auto simp: read_failed_def cn_done_def split: sum.splits dest!: feed_done_moves
      intro!: not_reading_turn moves_not_reading [of s])

lemma read_completed_turn:
  assumes "reads_in_turn s" "0 < cn_reading s" "read_completed app addr data s = Some s'"
  shows "reads_in_turn s'"
proof -
  let ?t = "s\<lparr>cn_reading := cn_reading s - 1\<rparr>"
  have t: "not_reading ?t" using assms(1,2) by (auto simp: reads_in_turn_def not_reading_def)
  show ?thesis
  proof (cases data)
    case None
    then show ?thesis using assms(3) read_failed_turn t by (simp add: read_completed_def)
  next
    case (Some b)
    then obtain ret u where u: "feed (connection_handler app) addr b ?t = Some (Inr (ret, u))"
      "(if \<not> (ret \<and> cn_open u) then read_failed app u
        else if cn_close u then cn_done app (cancel_deadline_timer u)
        else if \<not> cn_after u then Some (cn_do_read (start_deadline u))
        else Some (u\<lparr>cn_restart := True\<rparr>)) = Some s'"
      using assms(3) by (auto simp: read_completed_def Let_def split: option.splits sum.splits)
    have n: "not_reading u" by (rule feed_not_reading [OF u(1) t])
    have d: "cn_done app (cancel_deadline_timer u) = Some s' \<Longrightarrow> reads_in_turn s'"
      using moves_not_reading [OF _ n] by (auto simp: cn_done_def split: sum.splits dest!: feed_done_moves intro!: not_reading_turn)
    have "reads_in_turn (cn_do_read (start_deadline u))" if "\<not> cn_after u"
      using n that by (simp add: reads_in_turn_def not_reading_def cn_do_read_def start_deadline_def)
    moreover have "reads_in_turn (u\<lparr>cn_restart := True\<rparr>)" using n by (simp add: reads_in_turn_def not_reading_def)
    ultimately show ?thesis using u(2) d read_failed_turn [OF _ n] by (auto split: if_splits)
  qed
qed

lemma user_ends_turn:
  assumes "reads_in_turn s" "user_ends app r s = Some s'"
  shows "reads_in_turn s'"
proof -
  have "moves s s' \<and> \<not> cn_after s'" if "complete_request app (s\<lparr>cn_res := q\<rparr>) = Some s'" for q
    using complete_request_moves [OF that] by simp
  moreover have "moves s s' \<and> \<not> cn_after s' \<Longrightarrow> reads_in_turn s'"
    using assms(1) by (auto simp: reads_in_turn_def moves_def)
  ultimately show ?thesis using assms
    by (auto simp: user_ends_def Let_def reads_in_turn_def split: if_splits)
qed

lemma connection_turn: "cn_reachable app s \<Longrightarrow> reads_in_turn s"
proof (induction rule: cn_reachable.induct)
  case (cn_started w)
  show ?case
    by (simp add: reads_in_turn_def cn_start_def cn_do_read_def clear_parser_def start_deadline_def new_connection_def
        crow_parser.extend_def connection.fields_def)
next
  case (cn_stepped s e s')
  show ?case
  proof (cases e)
    case (Read_completed addr data)
    then show ?thesis using cn_stepped read_completed_turn [of s app addr data s'] by simp
  next
    case (Write_completed ok)
    then have "cn_reading s' = cn_reading s \<and> cn_restart s' = cn_restart s \<and> cn_after s' = cn_after s"
      using cn_stepped(3) by (clarsimp simp: write_completed_def Let_def clear_parser_def close_adaptor_def)
    then show ?thesis using cn_stepped(4) by (simp add: reads_in_turn_def)
  next
    case Timed_out
    then have "cn_reading s' = cn_reading s \<and> cn_restart s' = cn_restart s \<and> cn_after s' = cn_after s"
      using cn_stepped(3) by (clarsimp simp: timed_out_def close_adaptor_def)
    then show ?thesis using cn_stepped(4) by (simp add: reads_in_turn_def)
  next
    case (User_ends r)
    then show ?thesis using cn_stepped user_ends_turn by simp
  qed
qed

text \<open>
  C29. Whatever its peer sends, however its reads and writes end and whenever the application ends a response it
  has left open, a connection never has two reads under way, and none while it owes a response that a handler
  has yet to end.
\<close>

theorem connection_reads_in_turn:
  "cn_reachable app s \<Longrightarrow> cn_reading s \<le> 1 \<and> (cn_reading s = 1 \<longrightarrow> \<not> cn_after s)"
  using connection_turn [of app s] by (simp add: reads_in_turn_def)

end
