(* ===== verification/Crow_Connection_Serve.thy ===== *)
theory Crow_Connection_Serve
  imports Crow_Connection_Props
begin

section \<open>HTTP connections: from the bytes of a request to the bytes of its response\<close>

subsection \<open>The route of a request\<close>

lemma initial_found:
  assumes "serves rs ro" "rq_method req = m" "m \<notin> {InternalMethodCount, Head, Options}" "2 + length rs < 65536"
    "routed (choose_route D (rules_for (method_index m) rs) (rq_url req))"
  shows "handle_initial D ro req res w =
      (\<lparr>fr_result = method_find D ro (rq_url req) (method_index m), fr_method = Some m\<rparr>, Some (None, res, w))"
    "rr_rule_index (method_find D ro (rq_url req) (method_index m)) \<noteq> 0"
proof -
  have lt: "method_index m < 34" using assms(3) by (simp add: method_index_lt)
  have "finds_route (rules_for (method_index m) rs) (choose_route D (rules_for (method_index m) rs) (rq_url req))
      (method_find D ro (rq_url req) (method_index m))"
    using assms(1) lt unfolding serves_def by blast
  then show f: "rr_rule_index (method_find D ro (rq_url req) (method_index m)) \<noteq> 0"
    using finds_route_hit rules_for_len [OF assms(4)] assms(5) by blast
  show "handle_initial D ro req res w =
      (\<lparr>fr_result = method_find D ro (rq_url req) (method_index m), fr_method = Some m\<rparr>, Some (None, res, w))"
    using f lt assms(2,3) by (simp add: handle_initial_def Let_def method_index_count)
qed

lemma found_runs:
  assumes "serves rs ro" "m \<notin> {InternalMethodCount, Head, Options}" "2 + length rs < 65536"
    "routed (choose_route D (rules_for (method_index m) rs) url)"
  shows "Crow_Dispatch.handle ro \<lparr>fr_result = method_find D ro url (method_index m), fr_method = Some m\<rparr> req res w =
    run_route (choose_route D (rules_for (method_index m) rs) url) req res w other"
proof (rule handle_route)
  have lt: "method_index m < 34" using assms(2) by (simp add: method_index_lt)
  show "finds_route (rules_for (method_index m) rs) (choose_route D (rules_for (method_index m) rs) url)
      (method_find D ro url (method_index m))"
    "pm_rules (ro_per_methods ro ! method_index m) = [None, None] @ map (Some \<circ> packed) (rules_for (method_index m) rs)"
    "length (ro_per_methods ro) = 34"
    using assms(1) lt unfolding serves_def by blast+
  show "m \<noteq> InternalMethodCount" using assms(2) by simp
qed (use assms(3,4) rules_for_len in blast)+

subsection \<open>What is written\<close>

definition response_text :: "('d, 'w) http_app \<Rightarrow> bool \<Rightarrow> crow_request \<Rightarrow> crow_response \<Rightarrow> 'w \<Rightarrow> string" where
  "response_text app keep_alive req res w =
     (let r = checked_response (complete_location req res)
      in concat (head_buffers (ap_server_name app) (ap_date app w) keep_alive r) @ rs_body r)"

text \<open>Responses that differ in nothing that is sent.\<close>

definition same_content :: "crow_response \<Rightarrow> crow_response \<Rightarrow> bool" where
  "same_content a b \<longleftrightarrow>
     rs_code a = rs_code b \<and> rs_body a = rs_body b \<and> rs_headers a = rs_headers b \<and> rs_manual_length a = rs_manual_length b"

lemma same_content_text: "same_content a b \<Longrightarrow> response_text app k req a w = response_text app k req b w"
  by (simp add: same_content_def response_text_def checked_response_def complete_location_def Let_def
      rs_get_header_value_def set_header_def head_buffers_def)

lemma complete_location_fields [simp]:
  "rs_skip_body (complete_location q r) = rs_skip_body r" "rs_manual_length (complete_location q r) = rs_manual_length r"
  "rs_handler (complete_location q r) = rs_handler r" "rs_calls (complete_location q r) = rs_calls r"
  "rs_file (complete_location q r) = rs_file r" "rs_body (complete_location q r) = rs_body r"
  "rs_code (complete_location q r) = rs_code r" "rs_completed (complete_location q r) = rs_completed r"
  by (simp_all add: complete_location_def Let_def set_header_def)

lemma checked_fields [simp]:
  "rs_skip_body (checked_response r) = rs_skip_body r" "rs_manual_length (checked_response r) = rs_manual_length r"
  "rs_handler (checked_response r) = rs_handler r" "rs_calls (checked_response r) = rs_calls r"
  "rs_file (checked_response r) = rs_file r" "rs_completed (checked_response r) = rs_completed r"
  by (simp_all add: checked_response_def)

lemma checked_calls [simp]: "rs_body (checked_response (r\<lparr>rs_calls := n\<rparr>)) = rs_body (checked_response r)"
  by (simp add: checked_response_def)

text \<open>A response of moderate size is written at once.\<close>

lemma complete_request_small:
  assumes "cn_open s" "rs_file (cn_res s) = []" "\<not> cn_restart s"
    "length (rs_body (checked_response (cn_res s))) < ap_threshold app"
  shows "\<exists>r bs b. complete_request app s =
    Some (s\<lparr>cn_after := False, cn_res := r, cn_buffers := bs, cn_body_copy := b,
            cn_sent := cn_sent s @ [response_text app (cn_keep_alive s) (cp_req s) (cn_res s) (cn_world s)],
            cn_writing := cn_writing s + 1\<rparr>) \<and>
    rs_skip_body r = rs_skip_body (cn_res s) \<and> rs_manual_length r = rs_manual_length (cn_res s) \<and> \<not> rs_handler r \<and>
    rs_calls r = rs_calls (cn_res s)"
proof -
  let ?r0 = "(complete_location (cp_req s) (cn_res s))\<lparr>rs_handler := False\<rparr>"
  let ?r = "checked_response ?r0"
  let ?h = "head_buffers (ap_server_name app) (ap_date app (cn_world s)) (cn_keep_alive s) ?r"
  have body: "rs_body ?r = rs_body (checked_response (cn_res s))" by (simp add: checked_response_def)
  have "prepare_buffers app (s\<lparr>cn_after := False, cn_res := complete_location (cp_req s) (cn_res s)\<rparr>) =
      s\<lparr>cn_after := False, cn_res := ?r, cn_buffers := ?h\<rparr>"
    using assms(1) by (simp add: prepare_buffers_def Let_def)
  then have "complete_request app s =
      do_write_general app (s\<lparr>cn_after := False, cn_res := ?r, cn_buffers := ?h\<rparr>)"
    using assms(2) by (simp add: complete_request_def Let_def is_static_type_def)
  also have "\<dots> = Some (s\<lparr>cn_after := False, cn_res := ?r\<lparr>rs_body := cn_body_copy s\<rparr>, cn_buffers := ?h @ [rs_body ?r],
      cn_body_copy := rs_body ?r, cn_sent := cn_sent s @ [concat ?h @ rs_body ?r], cn_writing := cn_writing s + 1\<rparr>)"
    using assms(1,3,4) body by (simp add: do_write_general_def Let_def cn_do_write_def)
  also have "concat ?h @ rs_body ?r = response_text app (cn_keep_alive s) (cp_req s) (cn_res s) (cn_world s)"
    by (simp add: response_text_def Let_def checked_response_def head_buffers_def) blast
  finally show ?thesis
    by (intro exI [of _ "?r\<lparr>rs_body := cn_body_copy s\<rparr>"] exI [of _ "?h @ [rs_body ?r]"] exI [of _ "rs_body ?r"]) simp
qed

subsection \<open>A request and its answer\<close>

definition handled_request :: "('d, 'w) http_app \<Rightarrow> request_parts \<Rightarrow> crow_request" where
  "handled_request app q = (parsed_request q)\<lparr>rq_remote_ip := ap_remote app\<rparr>"

definition route_of :: "('d, 'w) http_app \<Rightarrow> ('d, 'w) rule list \<Rightarrow> request_parts \<Rightarrow> ('d, 'w) route" where
  "route_of app rs q = choose_route (ap_double app) (rules_for (method_index (w_method q)) rs) (w_path q)"

text \<open>
  A request that fits a buffer and is routed by the rules, and that its handler answers at once with a response
  of moderate size.
\<close>

definition answers ::
  "('d, 'w) http_app \<Rightarrow> ('d, 'w) rule list \<Rightarrow> request_parts \<Rightarrow> 'w \<Rightarrow> crow_response \<Rightarrow> 'w \<Rightarrow> bool" where
  "answers app rs q w res w' \<longleftrightarrow>
     request_ok q \<and> length (request_text q) \<le> 4096 \<and> w_method q \<notin> {Head, Options} \<and>
     ci_count (rev (w_headers q)) ''host'' \<noteq> 0 \<and> get_header_value (rev (w_headers q)) ''expect'' \<noteq> ''100-continue'' \<and>
     new_query (url_text (w_path q) (w_query q)) True \<noteq> None \<and> routed (route_of app rs q) \<and>
     (\<forall>n. run_route (route_of app rs q) (handled_request app q) (response\<lparr>rs_handler := True, rs_calls := n\<rparr>) w None =
        Some (None, res\<lparr>rs_calls := Suc n\<rparr>, w')) \<and>
     rs_file res = [] \<and> \<not> rs_skip_body res \<and> \<not> rs_manual_length res \<and>
     length (rs_body (checked_response res)) < ap_threshold app"

text \<open>A connection that waits for a request.\<close>

definition waiting :: "('d, 'w) connection \<Rightarrow> bool" where
  "waiting s \<longleftrightarrow>
     parser_ready s \<and> cn_open s \<and> cn_reading s = 1 \<and> cn_writing s = 0 \<and> \<not> cn_after s \<and> \<not> cn_restart s \<and>
     (\<exists>n. cn_res s = response\<lparr>rs_calls := n\<rparr>)"

lemma new_connection_waits: "waiting (cn_start (new_connection w))"
  by (auto simp: waiting_def parser_ready_def cn_start_def cn_do_read_def clear_parser_def start_deadline_def
      new_connection_def crow_parser.extend_def connection.fields_def new_parser_def http_parser_init_def response_def)

text \<open>What the connection does with a request that its parser has read.\<close>

lemma cn_handle_answers:
  assumes "answers app rs q (cn_world t) res w'" "serves rs (ap_router app)" "2 + length rs < 65536"
    "cp_req t = parsed_request q" "cn_open t" "\<not> cn_restart t" "cn_res t = response\<lparr>rs_calls := n\<rparr>"
    "cn_route t = Some \<lparr>fr_result = method_find (ap_double app) (ap_router app) (w_path q) (method_index (w_method q)),
      fr_method = Some (w_method q)\<rparr>"
  shows "\<exists>u. cn_handle app t = Some u \<and> kept t u \<and> cn_open u \<and> \<not> cn_restart u \<and> \<not> cn_after u \<and> \<not> cn_close u \<and>
    cn_reading u = cn_reading t \<and> cn_writing u = cn_writing t + 1 \<and> cn_world u = w' \<and> hp_nread u = hp_nread t \<and>
    cn_sent u = cn_sent t @ [response_text app True (handled_request app q) res w'] \<and>
    (\<exists>n. clear_response (cn_res u) = response\<lparr>rs_calls := n\<rparr>)"
proof -
  note a = assms(1) [unfolded answers_def]
  let ?t1 = "(received app t)\<lparr>cn_after := False, cn_res := (cn_res t)\<lparr>rs_handler := False\<rparr>\<rparr>"
  let ?t2 = "?t1\<lparr>cn_res := (cn_res ?t1)\<lparr>rs_handler := True\<rparr>, cn_after := True\<rparr>"
  have req: "cp_req ?t2 = handled_request app q" "cn_keep_alive ?t2" "\<not> cn_close ?t2"
    using assms(4) by (simp_all add: received_def cancel_deadline_timer_def handled_request_def parsed_request_def)
  have keep: "cn_open ?t2" "\<not> cn_restart ?t2" "cn_reading ?t2 = cn_reading t" "cn_writing ?t2 = cn_writing t"
    "cn_world ?t2 = cn_world t" "cn_sent ?t2 = cn_sent t" "cn_route ?t2 = cn_route t" "hp_nread ?t2 = hp_nread t"
    using assms(5,6) by (simp_all add: received_def cancel_deadline_timer_def)
  have res2: "cn_res ?t2 = response\<lparr>rs_handler := True, rs_calls := n\<rparr>"
    using assms(7) by (simp add: response_def)
  have host: "ci_count (rq_headers (cp_req (received app t))) ''host'' \<noteq> 0"
    "\<not> rq_upgrade (cp_req (received app t))" "\<not> rs_completed (cn_res t)"
    using a assms(4,7) by (simp_all add: received_def cancel_deadline_timer_def parsed_request_def response_def)
  have "cn_handle app t = run_handlers app ?t1"
    using assms(5) host by (simp add: cn_handle_def Let_def received_def cancel_deadline_timer_def)
  have "Crow_Dispatch.handle (ap_router app) (the (cn_route t)) (cp_req ?t2) (cn_res ?t2) (cn_world ?t2) =
      Some (None, res\<lparr>rs_calls := Suc n\<rparr>, w')"
    using found_runs [OF assms(2) _ assms(3), of "w_method q" "ap_double app" "w_path q" "cp_req ?t2" "cn_res ?t2" "cn_world ?t2" None]
      a assms(8) req(1) keep(5) unfolding res2 route_of_def by (simp add: request_ok_def)
  then have step: "routed_step (Crow_Dispatch.handle (ap_router app) (the (cn_route t)) (cp_req ?t2) (cn_res ?t2) (cn_world ?t2)) ?t2 =
      Some (True, ?t2\<lparr>cn_res := res\<lparr>rs_calls := Suc n\<rparr>, cn_world := w'\<rparr>)"
    using res2 by (simp add: routed_step_def)
  let ?t3 = "?t2\<lparr>cn_res := res\<lparr>rs_calls := Suc n\<rparr>, cn_world := w'\<rparr>"
  have small: "cn_open ?t3" "rs_file (cn_res ?t3) = []" "\<not> cn_restart ?t3"
    "length (rs_body (checked_response (cn_res ?t3))) < ap_threshold app"
    using a keep by simp_all
  obtain r bs b where r: "complete_request app ?t3 =
    Some (?t3\<lparr>cn_after := False, cn_res := r, cn_buffers := bs, cn_body_copy := b,
            cn_sent := cn_sent ?t3 @ [response_text app (cn_keep_alive ?t3) (cp_req ?t3) (cn_res ?t3) (cn_world ?t3)],
            cn_writing := cn_writing ?t3 + 1\<rparr>)"
    "rs_skip_body r = rs_skip_body (cn_res ?t3)" "rs_manual_length r = rs_manual_length (cn_res ?t3)" "\<not> rs_handler r"
    "rs_calls r = rs_calls (cn_res ?t3)"
    using complete_request_small [OF small] by blast
  have sent: "response_text app (cn_keep_alive ?t3) (cp_req ?t3) (cn_res ?t3) (cn_world ?t3) =
      response_text app True (handled_request app q) res w'"
    using req by (simp add: same_content_text [of "res\<lparr>rs_calls := Suc n\<rparr>" res] same_content_def)
  let ?u = "?t3\<lparr>cn_after := False, cn_res := set_header ''connection'' ''Keep-Alive'' r, cn_buffers := bs, cn_body_copy := b,
            cn_sent := cn_sent t @ [response_text app True (handled_request app q) res w'], cn_writing := cn_writing t + 1\<rparr>"
  have "run_handlers app ?t1 = Some ?u"
    using assms(8) step r(1) sent req(2) keep unfolding run_handlers_def Let_def by simp
  then have h: "cn_handle app t = Some ?u" using \<open>cn_handle app t = run_handlers app ?t1\<close> by simp
  moreover have "clear_response (cn_res ?u) = response\<lparr>rs_calls := Suc n\<rparr>"
    using r(2-5) a by (simp add: clear_response_def response_def set_header_def)
  ultimately show ?thesis
    using cn_handle_kept [OF h] keep req(3) by (intro exI [of _ ?u]) (auto simp: same_content_def)
qed

lemma found_url_taken:
  assumes "answers app rs q w res w'" "serves rs (ap_router app)" "2 + length rs < 65536"
  shows "url_taken (connection_handler app) q
    (\<lambda>e. crow_parser.more ((crow_parser.more_update (\<lambda>_. e) s)
      \<lparr>cn_route := Some \<lparr>fr_result = method_find (ap_double app) (ap_router app) (w_path q) (method_index (w_method q)),
        fr_method = Some (w_method q)\<rparr>\<rparr>))"
  unfolding url_taken_def
proof (intro allI impI)
  fix t :: "('a, 'b) connection"
  let ?f = "\<lparr>fr_result = method_find (ap_double app) (ap_router app) (w_path q) (method_index (w_method q)),
        fr_method = Some (w_method q)\<rparr>"
  assume t: "rq_method (cp_req t) = w_method q \<and> rq_raw_url (cp_req t) = url_text (w_path q) (w_query q) \<and>
    rq_url (cp_req t) = w_path q"
  note a = assms(1) [unfolded answers_def route_of_def]
  have "w_method q \<notin> {InternalMethodCount, Head, Options}" using a by (simp add: request_ok_def)
  moreover have "routed (choose_route (ap_double app) (rules_for (method_index (w_method q)) rs) (rq_url (cp_req t)))"
    using a t by simp
  ultimately have "handle_initial (ap_double app) (ap_router app) (cp_req t) (cn_res t) (cn_world t) =
      (?f, Some (None, cn_res t, cn_world t))" "rr_rule_index (fr_result ?f) \<noteq> 0"
    using initial_found [OF assms(2), of "cp_req t" "w_method q" "ap_double app"] assms(3) t by simp_all
  then have "cn_handle_url app t = Some (t\<lparr>cn_route := Some ?f\<rparr>)"
    by (simp add: cn_handle_url_def routed_step_def)
  moreover have "t\<lparr>cn_route := Some ?f\<rparr> =
      crow_parser.more_update (\<lambda>e. crow_parser.more ((crow_parser.more_update (\<lambda>_. e) s)\<lparr>cn_route := Some ?f\<rparr>)) t"
    by (cases t, cases s) simp
  ultimately show "h_handle_url (connection_handler app) t =
      Some (crow_parser.more_update (\<lambda>e. crow_parser.more ((crow_parser.more_update (\<lambda>_. e) s)\<lparr>cn_route := Some ?f\<rparr>)) t)"
    by (simp add: connection_handler_def)
qed

lemma no_expect_taken:
  assumes "get_header_value (rev (w_headers q)) ''expect'' \<noteq> ''100-continue''"
  shows "headers_taken (connection_handler app) q id"
  using assms by (simp add: headers_taken_def connection_handler_def cn_handle_header_def rq_get_header_value_def
      crow_parser.equality)

text \<open>The members of a connection that are not its parser's.\<close>

lemma more_members:
  assumes "crow_parser.more t = crow_parser.more ((s :: ('d, 'w) connection)\<lparr>cn_route := f\<rparr>)"
  shows "cn_open t = cn_open s" "cn_restart t = cn_restart s" "cn_res t = cn_res s" "cn_route t = f" "cn_world t = cn_world s"
    "cn_reading t = cn_reading s" "cn_writing t = cn_writing s" "cn_sent t = cn_sent s"
  using assms by (cases t, cases s, simp)+

lemma feed_true:
  assumes "feed hl addr data s = Some (Inr (True, s'))" "\<not> cp_message_complete s"
  shows "hp_http_errno s' = CHPE_OK"
proof -
  obtain r :: "halt + nat \<times> 'a crow_parser_scheme" where "map_sum id (feed_value (length data)) r = Inr (True, s')"
    using assms by (auto simp: feed_def)
  then show ?thesis by (cases r) (auto simp: feed_value_def)
qed

definition exchange :: "nat \<Rightarrow> request_parts \<Rightarrow> cn_event list" where
  "exchange addr q = [Read_completed addr (Some (request_text q)), Write_completed True]"

fun run_connection :: "('d, 'w) http_app \<Rightarrow> cn_event list \<Rightarrow> ('d, 'w) connection \<Rightarrow> ('d, 'w) connection option" where
  "run_connection app [] s = Some s"
| "run_connection app (e # es) s =
     (if cn_enabled e s then Option.bind (cn_step app e s) (run_connection app es) else None)"

lemma run_connection_append:
  "run_connection app (xs @ ys) s = Option.bind (run_connection app xs s) (run_connection app ys)"
  by (induction xs arbitrary: s) (auto split: bind_splits)

lemma exchange_answers:
  assumes "rules_ready rs" "router_validate (fold router_new_rule rs init_router) = Some (Inr (ap_router app))"
    "answers app rs q (cn_world s) res w'" "waiting s"
  shows "\<exists>s'. run_connection app (exchange addr q) s = Some s' \<and> waiting s' \<and> cn_world s' = w' \<and>
    cn_sent s' = cn_sent s @ [response_text app True (handled_request app q) res w']"
proof -
  have sv: "serves rs (ap_router app)" "2 + length rs < 65536"
    using router_built [OF assms(1)] assms(1,2) by (auto simp: rules_ready_def)
  let ?f = "Some \<lparr>fr_result = method_find (ap_double app) (ap_router app) (w_path q) (method_index (w_method q)),
      fr_method = Some (w_method q)\<rparr>"
  let ?s = "s\<lparr>cn_reading := cn_reading s - 1\<rparr>"
  note a = assms(3) [unfolded answers_def]
  obtain qp where qp: "new_query (url_text (w_path q) (w_query q)) True = Some qp" using a by blast
  have s: "parser_ready ?s" "cn_reading ?s = 0" "cn_writing ?s = 0" "cn_open ?s" "\<not> cn_restart ?s"
    using assms(4) by (simp_all add: waiting_def parser_ready_def)
  obtain n where n: "cn_res ?s = response\<lparr>rs_calls := n\<rparr>" using assms(4) by (auto simp: waiting_def)
  have keep: "\<forall>t t'. h_handle (connection_handler app) t = Some t' \<longrightarrow> hp_http_errno t' = hp_http_errno t"
    using cn_handle_kept [of app] by (auto simp: connection_handler_def kept_def)
  obtain t where t: "cp_req t = parsed_request q"
    "crow_parser.more t = id (crow_parser.more ((crow_parser.more_update (\<lambda>_. crow_parser.more ?s) ?s)\<lparr>cn_route := ?f\<rparr>))"
    and fd: "feed (connection_handler app) addr (request_text q) ?s =
      Some (case h_handle (connection_handler app) t of None \<Rightarrow> Inl Callback_stuck | Some u \<Rightarrow> Inr (True, u\<lparr>hp_nread := 0\<rparr>))"
    using request_parsed [OF _ s(1) qp found_url_taken [OF assms(3) sv] no_expect_taken keep] a by blast
  have m: "crow_parser.more t = crow_parser.more (?s\<lparr>cn_route := ?f\<rparr>)" using t(2) by simp
  note c = more_members [OF m]
  have "answers app rs q (cn_world t) res w'" using assms(3) c(5) by simp
  then obtain u where u: "cn_handle app t = Some u" "kept t u" "cn_open u" "\<not> cn_restart u" "\<not> cn_after u" "\<not> cn_close u"
    "cn_reading u = cn_reading t" "cn_writing u = cn_writing t + 1" "cn_world u = w'"
    "cn_sent u = cn_sent t @ [response_text app True (handled_request app q) res w']"
    "\<exists>n. clear_response (cn_res u) = response\<lparr>rs_calls := n\<rparr>"
    using cn_handle_answers [OF _ sv t(1), of res w' n] c s n by auto
  have fd: "feed (connection_handler app) addr (request_text q) ?s = Some (Inr (True, u\<lparr>hp_nread := 0\<rparr>))"
    using fd u(1) by (simp add: connection_handler_def)
  then have errno: "hp_http_errno u = CHPE_OK" using feed_true s(1) by (fastforce simp: parser_ready_def)
  let ?v = "cn_do_read (start_deadline (u\<lparr>hp_nread := 0\<rparr>))"
  have "read_completed app addr (Some (request_text q)) s = Some ?v"
    using fd u(3,5,6) by (simp add: read_completed_def Let_def)
  moreover have "cn_enabled (Read_completed addr (Some (request_text q))) s"
    using assms(4) a by (auto simp: waiting_def request_text_def head_text_def)
  moreover have "cn_enabled (Write_completed True) ?v" using u(8) by (simp add: cn_do_read_def start_deadline_def)
  ultimately have "run_connection app (exchange addr q) s = Some (write_completed True ?v)"
    by (simp add: exchange_def)
  moreover have "waiting (write_completed True ?v)"
    using u c s errno by (auto simp: waiting_def parser_ready_def write_completed_def Let_def clear_parser_def cn_do_read_def
        start_deadline_def)
  ultimately show ?thesis using u c
    by (auto simp: write_completed_def Let_def clear_parser_def cn_do_read_def start_deadline_def)
qed

text \<open>A series of requests, each answered in the state of the application that the one before has left.\<close>

inductive answers_all ::
  "('d, 'w) http_app \<Rightarrow> ('d, 'w) rule list \<Rightarrow> request_parts list \<Rightarrow> 'w \<Rightarrow> string list \<Rightarrow> 'w \<Rightarrow> bool" for app rs where
  answers_none: "answers_all app rs [] w [] w"
| answers_more: "answers app rs q w res w1 \<Longrightarrow> answers_all app rs qs w1 ts w2 \<Longrightarrow>
    answers_all app rs (q # qs) w (response_text app True (handled_request app q) res w1 # ts) w2"

text \<open>
  C28. A server that keeps its connections: a new connection that receives any number of requests, each in one read
  of at most 4096 bytes and after the write of the response before, writes for each exactly one response, in
  order, with the status line, the headers and the body of the response the handler made of this request, and
  waits for the next. Each request is well formed with a query that can be split, routed by the rules of the application, neither \<open>HEAD\<close> nor \<open>OPTIONS\<close>,
  with a \<open>Host\<close> header, no header with an empty value, and none of \<open>Connection\<close>, \<open>Proxy-Connection\<close>, \<open>Upgrade\<close>,
  \<open>Transfer-Encoding\<close> and \<open>Expect: 100-continue\<close>; its handler ends the response at once, with a body
  shorter than the streaming threshold and no file.
\<close>

theorem connection_serves:
  assumes "rules_ready rs" "router_validate (fold router_new_rule rs init_router) = Some (Inr (ap_router app))"
    "answers_all app rs qs w ts w'"
  shows "\<exists>s. run_connection app (concat (map (exchange addr) qs)) (cn_start (new_connection w)) = Some s \<and>
    cn_sent s = ts \<and> cn_world s = w' \<and> cn_open s \<and> cn_reading s = 1"
proof -
  have "\<exists>s'. run_connection app (concat (map (exchange addr) qs)) s = Some s' \<and> waiting s' \<and> cn_world s' = w' \<and>
      cn_sent s' = cn_sent s @ ts" if "waiting s" "cn_world s = w" for s
    using assms(3) that
  proof (induction arbitrary: s rule: answers_all.induct)
    case (answers_more q w res w1 qs ts w2)
    obtain t where t: "run_connection app (exchange addr q) s = Some t" "waiting t" "cn_world t = w1"
      "cn_sent t = cn_sent s @ [response_text app True (handled_request app q) res w1]"
      using exchange_answers [OF assms(1,2) _ answers_more.prems(1)] answers_more.hyps(1) answers_more.prems(2) by blast
    show ?case using answers_more.IH [OF t(2,3)] t(1,4) by (auto simp: run_connection_append)
  qed simp
  from this [OF new_connection_waits] show ?thesis
    by (force simp: waiting_def new_connection_def cn_start_def cn_do_read_def clear_parser_def start_deadline_def
        crow_parser.extend_def connection.fields_def)
qed

subsection \<open>What a connection gets wrong\<close>

text \<open>
  A request that arrives before the write of the last response has completed is taken from the socket and
  forgotten: its bytes are not looked at, and the connection reads on.
\<close>

lemma early_request_lost:
  "cp_message_complete s \<Longrightarrow> cn_open s \<Longrightarrow> \<not> cn_close s \<Longrightarrow> \<not> cn_after s \<Longrightarrow>
   read_completed app addr (Some b) s = Some (cn_do_read (start_deadline (s\<lparr>cn_reading := cn_reading s - 1\<rparr>)))"
  by (simp add: read_completed_def Let_def feed_def)

text \<open>
  The completion of a write makes the parser forget what it has read. After \<open>100 Continue\<close> that is the head
  of the request whose body is to come.
\<close>

lemma continue_forgets_request:
  assumes "check_version (cp_req s) 1 1" "rq_get_header_value (cp_req s) ''expect'' = ''100-continue''"
  shows "\<exists>s'. cn_handle_header s = Some s' \<and> cn_writing s' = cn_writing s + 1 \<and> cp_req s' = cp_req s \<and>
    cp_req (write_completed ok s') = empty_request \<and> hp_state (write_completed ok s') = s_start_req"
  using assms by (simp add: cn_handle_header_def cn_do_write_def write_completed_def Let_def clear_parser_def close_adaptor_def)

text \<open>Once a response was without its body, as the one to a \<open>HEAD\<close>, all later ones of the connection are.\<close>

lemma bodyless_for_ever:
  assumes "rs_skip_body r" "\<not> rs_completed r"
  shows "rs_skip_body (clear_response r) \<and> rs_body (end_response ((clear_response r)\<lparr>rs_body := b\<rparr>)) = []"
  using assms by (simp add: clear_response_def end_response_def Let_def set_header_def)

end
