(* ===== verification/Server_Wire.thy ===== *)
theory Server_Wire
  imports Web_Sample Crow_Connection_Serve
begin

section \<open>The server over its connections\<close>

text \<open>
  The routes and controllers of the program behind a connection of its HTTP server: bytes in, bytes out. The
  function of the controllers is \<open>Web_Server\<close>'s, the connection \<open>Crow_Connection\<close>'s.
\<close>

text \<open>The requests of the API with what the controllers do for them.\<close>

definition api_actions ::
  "'j json_lib \<Rightarrow> (string \<Rightarrow> 8 word list) \<Rightarrow> string \<Rightarrow> string \<Rightarrow> string \<Rightarrow> crow_request
   \<Rightarrow> (HTTPMethod \<times> string \<times> (crow_response \<Rightarrow> 'j web_world \<Rightarrow> 'j web_world outcome)) list" where
  "api_actions J H h g i req =
     [(Get, api_url ''/api/get/'' h g '''', get_events J h g),
      (Post, api_url ''/api/send/'' h g '''', send_event J H req h),
      (Get, api_url ''/api/send/'' h g (''/start/'' @ i), start_event J h g i),
      (Get, api_url ''/api/send/'' h g (''/clear/'' @ i), clear_event J H h g i),
      (Get, api_url ''/api/send/'' h g (''/finish/'' @ i), end_event J h g i)]"

lemma api_action_route:
  fixes J :: "'j json_lib"
  assumes "segment h" "segment g" "segment i" "(m, url, act) \<in> set (api_actions J H h g i req)"
  shows "\<exists>r q. choose_route D (rules_for (method_index m) (api_rules J H)) url = Run_rule r q \<and>
    (\<forall>res w. handle_rule r req q (res, w) = act res w)"
proof -
  note routes = api_routes [OF assms(1-3), of D J H]
  let ?q2 = "with_string g (with_string h empty_params)"
  have sq: "string_params ?q2 = [h, g]" "string_params (with_string i ?q2) = [h, g, i]"
    by (simp_all add: with_string_def empty_params_def)
  from assms(4) consider
      "m = Get" "url = api_url ''/api/get/'' h g ''''" "act = get_events J h g"
    | "m = Post" "url = api_url ''/api/send/'' h g ''''" "act = send_event J H req h"
    | "m = Get" "url = api_url ''/api/send/'' h g (''/start/'' @ i)" "act = start_event J h g i"
    | "m = Get" "url = api_url ''/api/send/'' h g (''/clear/'' @ i)" "act = clear_event J H h g i"
    | "m = Get" "url = api_url ''/api/send/'' h g (''/finish/'' @ i)" "act = end_event J h g i"
    unfolding api_actions_def list.set insert_iff empty_iff prod.inject by blast
  then show ?thesis
  proof cases
    case 1
    show ?thesis unfolding 1 by (rule exI conjI routes(1) allI api_handlers(1) sq)+
  next
    case 2
    show ?thesis unfolding 2 by (rule exI conjI routes(2) allI api_handlers(2) sq)+
  next
    case 3
    show ?thesis unfolding 3 by (rule exI conjI routes(3) allI api_handlers(3) sq refl)+
  next
    case 4
    show ?thesis unfolding 4 by (rule exI conjI routes(4) allI api_handlers(4) sq refl)+
  next
    case 5
    show ?thesis unfolding 5 by (rule exI conjI routes(5) allI api_handlers(5) sq refl)+
  qed
qed

text \<open>What a controller that answers with a text sends.\<close>

definition ok_text :: "string \<Rightarrow> string \<Rightarrow> string \<Rightarrow> string" where
  "ok_text name date b =
     ''HTTP/1.1 200 OK'' @ [CR, LF] @ ''Content-Length: '' @ dec_nat (length b) @ [CR, LF] @
     ''Server: '' @ name @ [CR, LF] @ ''Date: '' @ date @ [CR, LF] @ ''Connection: Keep-Alive'' @ [CR, LF, CR, LF] @ b"

definition answered :: "string \<Rightarrow> crow_response" where
  "answered b = response\<lparr>rs_body := b, rs_completed := True, rs_handler := True\<rparr>"

lemma status_200: "known_status 200 = 200" "status_line 200 = ''HTTP/1.1 200 OK'' @ [CR, LF]"
  by (simp_all add: known_status_def status_line_def statusCodes_def)

lemma answered_text: "response_text app True req (answered b) w = ok_text (ap_server_name app) (ap_date app w) b"
  by (simp add: response_text_def complete_location_def checked_response_def answered_def response_def status_200
      head_buffers_def ok_text_def rs_get_header_value_def get_header_value_def ci_count_def Let_def)

text \<open>A request of the API that its controller answers with a text is answered by the connection.\<close>

lemma api_answers:
  assumes "segment h" "segment g" "segment i"
    "(w_method q, w_path q, act) \<in> set (api_actions J H h g i (handled_request app q))"
    "request_ok q" "length (request_text q) \<le> 4096" "ci_count (rev (w_headers q)) ''host'' \<noteq> 0"
    "get_header_value (rev (w_headers q)) ''expect'' \<noteq> ''100-continue''"
    "new_query (url_text (w_path q) (w_query q)) True \<noteq> None"
    "\<forall>res. act res w = Some (None, end_response (res\<lparr>rs_body := b\<rparr>), w')" "length b < ap_threshold app"
  shows "answers app (api_rules J H) q w (answered b) w'"
proof -
  obtain r p where r: "route_of app (api_rules J H) q = Run_rule r p"
    "\<And>res w. handle_rule r (handled_request app q) p (res, w) = act res w"
    using api_action_route [OF assms(1-4), of "ap_double app"] by (auto simp: route_of_def)
  have m: "w_method q \<notin> {Head, Options}" using assms(4) by (auto simp: api_actions_def)
  have "run_route (route_of app (api_rules J H) q) (handled_request app q) (response\<lparr>rs_handler := True, rs_calls := n\<rparr>)
      w None = Some (None, (answered b)\<lparr>rs_calls := Suc n\<rparr>, w')" for n
    using assms(10) by (simp add: r run_route_def catch_500_def answered_def end_response_def response_def)
  moreover have "rs_body (checked_response (answered b)) = b"
    by (simp add: checked_response_def answered_def response_def status_200)
  ultimately show ?thesis
    using assms(5-9,11) m r(1) by (simp add: answers_def answered_def response_def)
qed

text \<open>
  C27. The API over the wire: when one of the five requests of the API arrives, in one read of at most 4096 bytes,
  at a connection that waits, and its controller answers with a text shorter than the streaming threshold, the
  connection writes exactly the response \<open>200\<close> with this text and its length, keeps itself, and waits for the
  next request; the task manager is left as the controller leaves it. The request has a \<open>Host\<close> header, no header
  with an empty value and none of \<open>Connection\<close>, \<open>Proxy-Connection\<close>, \<open>Upgrade\<close>, \<open>Transfer-Encoding\<close> and
  \<open>Expect: 100-continue\<close>, a query that can be split, and path segments that are not empty.
\<close>

theorem api_over_the_wire:
  assumes "router_validate (init_api_url J H init_router) = Some (Inr (ap_router app))"
    "segment h" "segment g" "segment i"
    "(w_method q, w_path q, act) \<in> set (api_actions J H h g i (handled_request app q))"
    "request_ok q" "length (request_text q) \<le> 4096" "ci_count (rev (w_headers q)) ''host'' \<noteq> 0"
    "get_header_value (rev (w_headers q)) ''expect'' \<noteq> ''100-continue''"
    "new_query (url_text (w_path q) (w_query q)) True \<noteq> None"
    "\<forall>res. act res (cn_world s) = Some (None, end_response (res\<lparr>rs_body := b\<rparr>), w')" "length b < ap_threshold app"
    "waiting s"
  shows "\<exists>s'. run_connection app (exchange addr q) s = Some s' \<and> waiting s' \<and> cn_world s' = w' \<and>
    cn_sent s' = cn_sent s @ [ok_text (ap_server_name app) (ap_date app w') b]"
  using exchange_answers [OF api_ready assms(1) [unfolded init_api_url_def] api_answers [OF assms(2-12)] assms(13), of addr]
  by (simp add: answered_text)

subsection \<open>A worker polls\<close>

definition wire_app :: "(nat, sj web_world) http_app" where
  "wire_app =
     \<lparr>ap_double = sample_strtod,
      ap_router = (case router_validate (init_api_url web_lib web_hash init_router) of
          Some (Inr ro) \<Rightarrow> ro | _ \<Rightarrow> init_router),
      ap_upgrade = (\<lambda>r req (res, w). Some (None, res, w)), ap_server_name = ''Crow/master'', ap_threshold = 1048576,
      ap_date = (\<lambda>w. ''Thu, 01 Jan 1970 00:00:00 GMT''), ap_remote = ''127.0.0.1'', ap_file = (\<lambda>p. None),
      ap_write_fails = (\<lambda>w. False)\<rparr>"

definition wire_poll :: request_parts where
  "wire_poll = \<lparr>w_method = Get, w_path = ''/api/get/w/g/command/event'', w_query = None,
     w_headers = [(''Host'', ''a'')], w_body = ''''\<rparr>"

lemma wire_router: "router_validate (init_api_url web_lib web_hash init_router) = Some (Inr (ap_router wire_app))"
proof -
  obtain ro :: "(nat, sj web_world) router" where
    "router_validate (init_api_url web_lib web_hash init_router) = Some (Inr ro)"
    using router_built [OF api_ready, of web_lib web_hash] by (auto simp: init_api_url_def)
  then show ?thesis by (simp add: wire_app_def)
qed

lemma wire_poll_ok: "request_ok wire_poll"
proof -
  have t: "map token ''Host'' = ''host''" by code_simp
  have "take k ''host'' \<noteq> ''transfer-encoding''" for k
  proof
    assume "take k ''host'' = ''transfer-encoding''"
    from arg_cong [OF this, of length] show False by simp
  qed
  moreover have "\<forall>c \<in> set ''Host''. token c \<noteq> NUL" by code_simp
  ultimately have "plain_name ''Host''" unfolding plain_name_def t by simp
  moreover have "value_ok ''a''" by (simp add: value_ok_def is_header_char_def)
  moreover have "url_ok ''/api/get/w/g/command/event'' None"
    by (simp add: url_ok_def is_url_char_def bit_at_def normal_url_char_def)
  moreover have "\<not> length_name ''Host''" by code_simp
  moreover have "method_name Get = ''GET''" by code_simp
  ultimately show ?thesis
    by (simp add: request_ok_def wire_poll_def headers_ok_def header_ok_def head_text_def headers_text_def
        header_text_def url_text_def max_header_size_def)
qed

lemma wire_poll_api: "segment ''w''" "segment ''g''" "segment ''7''"
  "(w_method wire_poll, w_path wire_poll, get_events web_lib ''w'' ''g'')
    \<in> set (api_actions web_lib web_hash ''w'' ''g'' ''7'' req)"
  by (simp_all add: segment_def api_actions_def wire_poll_def api_url_def)

lemma wire_poll_small: "length (request_text wire_poll) \<le> 4096" "ci_count (rev (w_headers wire_poll)) ''host'' \<noteq> 0"
  "get_header_value (rev (w_headers wire_poll)) ''expect'' \<noteq> ''100-continue''"
  "new_query (url_text (w_path wire_poll) (w_query wire_poll)) True \<noteq> None"
  by code_simp+

lemma wire_poll_answers:
  assumes "ask_tasker (\<lambda>c. tm_get_events_json web_lib c ''g'' ''w'') w = (Inr b, w')" "length b < 1048576"
  shows "answers wire_app (api_rules web_lib web_hash) wire_poll w (answered b) w'"
  by (rule api_answers [OF wire_poll_api wire_poll_ok wire_poll_small])
    (use assms in \<open>simp_all add: get_events_def answer_body_def wire_app_def\<close>)

lemma api_over_the_wire_witness:
  "\<exists>s w'. run_connection wire_app (exchange 4096 wire_poll) (cn_start (new_connection sample_web)) = Some s \<and>
    waiting s \<and>
    cn_sent s = [''HTTP/1.1 200 OK'' @ [CR, LF] @ ''Content-Length: 2'' @ [CR, LF] @ ''Server: Crow/master'' @ [CR, LF] @
      ''Date: Thu, 01 Jan 1970 00:00:00 GMT'' @ [CR, LF] @ ''Connection: Keep-Alive'' @ [CR, LF, CR, LF] @ ''{}'']"
proof -
  let ?s = "cn_start (new_connection sample_web) :: (nat, sj web_world) connection"
  have w: "cn_world ?s = sample_web" "cn_sent ?s = []"
    by (simp_all add: new_connection_def cn_start_def cn_do_read_def clear_parser_def start_deadline_def
        crow_parser.extend_def connection.fields_def)
  have "fst (ask_tasker (\<lambda>c. tm_get_events_json web_lib c ''g'' ''w'') sample_web) = Inr ''{}''" by code_simp
  then obtain w' where p: "ask_tasker (\<lambda>c. tm_get_events_json web_lib c ''g'' ''w'') sample_web = (Inr ''{}'', w')"
    by (metis prod.collapse)
  have a: "\<forall>res. get_events web_lib ''w'' ''g'' res (cn_world ?s) =
      Some (None, end_response (res\<lparr>rs_body := ''{}''\<rparr>), w')"
    using p w by (simp add: get_events_def answer_body_def)
  have d: "dec_nat (length ''{}'') = ''2''" by code_simp
  from api_over_the_wire [OF wire_router wire_poll_api wire_poll_ok wire_poll_small a _ new_connection_waits, of 4096]
  show ?thesis unfolding w ok_text_def d by (auto simp: wire_app_def)
qed


text \<open>A worker that polls twice on one connection.\<close>

lemma connection_serves_witness:
  "\<exists>s. run_connection wire_app (concat (map (exchange 4096) [wire_poll, wire_poll])) (cn_start (new_connection sample_web)) = Some s \<and>
    cn_sent s = replicate 2 (ok_text ''Crow/master'' ''Thu, 01 Jan 1970 00:00:00 GMT'' ''{}'') \<and> cn_reading s = 1"
proof -
  let ?ask = "ask_tasker (\<lambda>c. tm_get_events_json web_lib c ''g'' ''w'')"
  have f: "fst (?ask sample_web) = Inr ''{}''" "fst (?ask (snd (?ask sample_web))) = Inr ''{}''" by code_simp+
  obtain w1 w2 where p: "?ask sample_web = (Inr ''{}'', w1)" "?ask w1 = (Inr ''{}'', w2)"
    using f by (metis prod.collapse snd_conv)
  have l: "length ''{}'' < 1048576" by simp
  have "answers_all wire_app (api_rules web_lib web_hash) [wire_poll, wire_poll] sample_web
      [response_text wire_app True (handled_request wire_app wire_poll) (answered ''{}'') w1,
       response_text wire_app True (handled_request wire_app wire_poll) (answered ''{}'') w2] w2"
    by (intro answers_all.intros wire_poll_answers [OF p(1) l] wire_poll_answers [OF p(2) l])
  from connection_serves [OF api_ready wire_router [unfolded init_api_url_def] this, of 4096]
  show ?thesis by (auto simp: answered_text wire_app_def numeral_2_eq_2)
qed


lemma connection_reads_in_turn_witness:
  "cn_reading (cn_start (new_connection sample_web) :: (nat, sj web_world) connection) = 1 \<and>
   \<not> cn_after (cn_start (new_connection sample_web) :: (nat, sj web_world) connection)"
proof -
  let ?s = "cn_start (new_connection sample_web) :: (nat, sj web_world) connection"
  have "cn_reading ?s = 1"
    by (simp add: new_connection_def cn_start_def cn_do_read_def clear_parser_def start_deadline_def
        crow_parser.extend_def connection.fields_def)
  with connection_reads_in_turn [OF cn_started [of wire_app sample_web]] show ?thesis by simp
qed

end
