(* ===== verification/Crow_Timer.thy ===== *)
theory Crow_Timer
  imports Prelude "HOL-Library.Word"
begin

section \<open>Crow: the timer of a worker\<close>

text \<open>
  \<open>task_timer.h\<close>: tasks that run after a deadline unless they are cancelled, looked at once a second. The
  \<open>std::map\<close> of the tasks is the list of its entries in the order of their keys. The clock is an argument,
  in nanoseconds. A task is a value: what it does when it is called is its owner's, and the deadline task of
  a connection, the only one there is, does not touch the timer.
\<close>

record 'a task_timer =
  tt_default_timeout :: "8 word"
  tt_armed :: bool
  tt_tasks :: "(64 word \<times> int \<times> 'a) list"
  tt_highest_id :: "64 word"

definition SECOND :: int where
  "SECOND = 1000000000"

definition new_timer :: "'a task_timer" where
  "new_timer = \<lparr>tt_default_timeout = 5, tt_armed = True, tt_tasks = [], tt_highest_id = 0\<rparr>"

text \<open>Insertion does not replace an entry, as in a \<open>std::map\<close>.\<close>

fun tasks_insert :: "64 word \<Rightarrow> int \<times> 'a \<Rightarrow> (64 word \<times> int \<times> 'a) list \<Rightarrow> (64 word \<times> int \<times> 'a) list" where
  "tasks_insert k v [] = [(k, v)]"
| "tasks_insert k v (e # es) =
     (if k < fst e then (k, v) # e # es else if k = fst e then e # es else e # tasks_insert k v es)"

definition tasks_erase :: "64 word \<Rightarrow> (64 word \<times> int \<times> 'a) list \<Rightarrow> (64 word \<times> int \<times> 'a) list" where
  "tasks_erase k es = filter (\<lambda>e. fst e \<noteq> k) es"

definition timer_cancel :: "64 word \<Rightarrow> 'a task_timer \<Rightarrow> 'a task_timer" where
  "timer_cancel i s = s\<lparr>tt_tasks := tasks_erase i (tt_tasks s)\<rparr>"

definition schedule_in :: "int \<Rightarrow> 'a \<Rightarrow> 8 word \<Rightarrow> 'a task_timer \<Rightarrow> 64 word \<times> 'a task_timer" where
  "schedule_in now task timeout s =
     (let i = tt_highest_id s + 1
      in (i, s\<lparr>tt_highest_id := i, tt_tasks := tasks_insert i (now + uint timeout * SECOND, task) (tt_tasks s)\<rparr>))"

definition schedule :: "int \<Rightarrow> 'a \<Rightarrow> 'a task_timer \<Rightarrow> 64 word \<times> 'a task_timer" where
  "schedule now task s = schedule_in now task (tt_default_timeout s) s"

definition set_default_timeout :: "8 word \<Rightarrow> 'a task_timer \<Rightarrow> 'a task_timer" where
  "set_default_timeout t s = s\<lparr>tt_default_timeout := t\<rparr>"

definition is_due :: "int \<Rightarrow> 64 word \<times> int \<times> 'a \<Rightarrow> bool" where
  "is_due now e \<longleftrightarrow> fst (snd e) < now"

text \<open>The tasks that are called, in order, each with its identifier; and the timer after them.\<close>

definition process_tasks :: "int \<Rightarrow> 'a task_timer \<Rightarrow> (64 word \<times> 'a) list \<times> 'a task_timer" where
  "process_tasks now s =
     (let called = filter (is_due now) (tt_tasks s);
          rest = fold tasks_erase (map fst called) (tt_tasks s)
      in (map (\<lambda>e. (fst e, snd (snd e))) called,
          s\<lparr>tt_tasks := rest, tt_highest_id := (if rest = [] then 0 else tt_highest_id s)\<rparr>))"

definition tick_handler :: "bool \<Rightarrow> int \<Rightarrow> 'a task_timer \<Rightarrow> (64 word \<times> 'a) list \<times> 'a task_timer" where
  "tick_handler ec now s =
     (if ec then ([], s\<lparr>tt_armed := False\<rparr>)
      else case process_tasks now s of (called, s) \<Rightarrow> (called, s\<lparr>tt_armed := True\<rparr>))"

subsection \<open>The life of a timer\<close>

datatype 'a timer_event =
    Schedule int 'a
  | Schedule_in int 'a "8 word"
  | Cancel "64 word"
  | Set_default "8 word"
  | Tick int

fun timer_step :: "'a timer_event \<Rightarrow> 'a task_timer \<Rightarrow> (64 word \<times> 'a) list \<times> 'a task_timer" where
  "timer_step (Schedule now task) s = ([], snd (schedule now task s))"
| "timer_step (Schedule_in now task t) s = ([], snd (schedule_in now task t s))"
| "timer_step (Cancel i) s = ([], timer_cancel i s)"
| "timer_step (Set_default t) s = ([], set_default_timeout t s)"
| "timer_step (Tick now) s = tick_handler False now s"

fun timer_run :: "'a timer_event list \<Rightarrow> 'a task_timer \<Rightarrow> (64 word \<times> 'a) list \<times> 'a task_timer" where
  "timer_run [] s = ([], s)"
| "timer_run (e # es) s =
     (case timer_step e s of (called, s1) \<Rightarrow> case timer_run es s1 of (called', s2) \<Rightarrow> (called @ called', s2))"

lemma timer_run_append:
  "timer_run (xs @ ys) s =
     (case timer_run xs s of (a, s1) \<Rightarrow> case timer_run ys s1 of (b, s2) \<Rightarrow> (a @ b, s2))"
  by (induction xs arbitrary: s) (auto split: prod.splits)

subsection \<open>The invariant of the identifiers\<close>

text \<open>Identifiers ascend, none is above the last one given out, and none is zero.\<close>

definition timer_ok :: "'a task_timer \<Rightarrow> bool" where
  "timer_ok s \<longleftrightarrow>
     sorted_wrt (<) (map fst (tt_tasks s)) \<and> (\<forall>e \<in> set (tt_tasks s). 0 < fst e \<and> fst e \<le> tt_highest_id s)"

lemma new_timer_ok: "timer_ok new_timer"
  by (simp add: timer_ok_def new_timer_def)

lemma tasks_insert_last:
  "\<forall>e \<in> set es. fst e < k \<Longrightarrow> tasks_insert k v es = es @ [(k, v)]"
  by (induction es) auto

lemma fold_erase: "fold tasks_erase ks es = filter (\<lambda>e. fst e \<notin> set ks) es"
  by (induction ks arbitrary: es) (auto simp: tasks_erase_def intro: filter_cong)

lemma distinct_ids: "sorted_wrt (<) (map fst es) \<Longrightarrow> e \<in> set es \<Longrightarrow> e' \<in> set es \<Longrightarrow> fst e = fst e' \<Longrightarrow> e = e'"
  for es :: "('k :: linorder \<times> 'v) list"
  by (induction es) auto

lemma erase_called:
  assumes "timer_ok s"
  shows "fold tasks_erase (map fst (filter (is_due now) (tt_tasks s))) (tt_tasks s) = filter (\<lambda>e. \<not> is_due now e) (tt_tasks s)"
  unfolding fold_erase
proof (intro filter_cong refl)
  fix e assume e: "e \<in> set (tt_tasks s)"
  have "e' = e" if "e' \<in> set (tt_tasks s)" "fst e' = fst e" for e'
    using assms distinct_ids [of "tt_tasks s" e' e] e that unfolding timer_ok_def by blast
  then show "fst e \<notin> set (map fst (filter (is_due now) (tt_tasks s))) \<longleftrightarrow> \<not> is_due now e"
    using e by (auto simp del: split_paired_All)
qed

lemma sorted_filter_ids: "sorted_wrt (<) (map fst es) \<Longrightarrow> sorted_wrt (<) (map fst (filter P es))"
  by (induction es) auto

lemma next_id: "unat i + 1 < 2 ^ 64 \<Longrightarrow> i < i + 1" for i :: "64 word"
  by (simp add: word_less_nat_alt unat_word_ariths)

lemma schedule_in_ok:
  assumes "timer_ok s" "unat (tt_highest_id s) + 1 < 2 ^ 64"
  shows "tt_tasks (snd (schedule_in now task t s)) =
      tt_tasks s @ [(tt_highest_id s + 1, now + uint t * SECOND, task)]"
    "timer_ok (snd (schedule_in now task t s))"
proof -
  have above: "\<forall>e \<in> set (tt_tasks s). fst e < tt_highest_id s + 1"
    using assms next_id [of "tt_highest_id s"] by (auto simp: timer_ok_def)
  then show t: "tt_tasks (snd (schedule_in now task t s)) =
      tt_tasks s @ [(tt_highest_id s + 1, now + uint t * SECOND, task)]"
    by (simp add: schedule_in_def Let_def tasks_insert_last)
  have "0 < tt_highest_id s + 1" using next_id [OF assms(2)] by (metis word_gt_0 word_not_simps(1))
  then show "timer_ok (snd (schedule_in now task t s))"
    using assms(1) above t
    by (auto simp: timer_ok_def sorted_wrt_append schedule_in_def Let_def less_imp_le)
qed

lemma timer_step_ok:
  assumes "timer_ok s" "unat (tt_highest_id s) + 1 < 2 ^ 64"
  shows "timer_ok (snd (timer_step e s))" "unat (tt_highest_id (snd (timer_step e s))) \<le> unat (tt_highest_id s) + 1"
proof -
  have up: "unat (tt_highest_id s + 1) = unat (tt_highest_id s) + 1"
    using assms(2) by (simp add: unat_word_ariths)
  show "timer_ok (snd (timer_step e s))"
  proof (cases e)
    case (Tick now)
    then show ?thesis using assms(1) sorted_filter_ids [of "tt_tasks s"]
      by (auto simp: tick_handler_def process_tasks_def Let_def erase_called timer_ok_def filter_empty_conv)
  next
    case (Cancel i)
    then show ?thesis using assms(1) sorted_filter_ids [of "tt_tasks s"]
      by (auto simp: timer_cancel_def tasks_erase_def timer_ok_def)
  next
    case (Set_default t)
    then show ?thesis using assms(1) by (simp add: set_default_timeout_def timer_ok_def)
  qed (simp_all add: schedule_def schedule_in_ok [OF assms])
  show "unat (tt_highest_id (snd (timer_step e s))) \<le> unat (tt_highest_id s) + 1"
    by (cases e) (simp_all add: schedule_def schedule_in_def timer_cancel_def set_default_timeout_def tick_handler_def
        process_tasks_def Let_def up)
qed

subsection \<open>A task runs at the first tick after its deadline\<close>

definition task_pending :: "64 word \<Rightarrow> int \<Rightarrow> 'a \<Rightarrow> 'a task_timer \<Rightarrow> bool" where
  "task_pending i d task s \<longleftrightarrow> timer_ok s \<and> (i, d, task) \<in> set (tt_tasks s)"

text \<open>The events that leave a task with this deadline alone.\<close>

fun leaves :: "64 word \<Rightarrow> int \<Rightarrow> 'a timer_event \<Rightarrow> bool" where
  "leaves i d (Cancel j) \<longleftrightarrow> j \<noteq> i"
| "leaves i d (Tick now) \<longleftrightarrow> now \<le> d"
| "leaves i d e \<longleftrightarrow> True"

lemma pending_only:
  "task_pending i d task s \<Longrightarrow> e \<in> set (tt_tasks s) \<Longrightarrow> fst e = i \<Longrightarrow> e = (i, d, task)"
  using distinct_ids [of "tt_tasks s" e "(i, d, task)"] by (simp add: task_pending_def timer_ok_def)

lemma tick_tasks:
  assumes "timer_ok s"
  shows "fst (timer_step (Tick now) s) = map (\<lambda>e. (fst e, snd (snd e))) (filter (is_due now) (tt_tasks s))"
    "tt_tasks (snd (timer_step (Tick now) s)) = filter (\<lambda>e. \<not> is_due now e) (tt_tasks s)"
  by (simp_all add: tick_handler_def process_tasks_def Let_def erase_called [OF assms])

lemma step_leaves:
  assumes "task_pending i d task s" "unat (tt_highest_id s) + 1 < 2 ^ 64" "leaves i d e"
  shows "task_pending i d task (snd (timer_step e s))" "filter (\<lambda>r. fst r = i) (fst (timer_step e s)) = []"
proof -
  have ok: "timer_ok s" using assms(1) by (simp add: task_pending_def)
  have not_due: "\<not> is_due now (i, d, task)" if "now \<le> d" for now
    using that by (simp add: is_due_def)
  have "(i, d, task) \<in> set (tt_tasks (snd (timer_step e s)))"
  proof (cases e)
    case (Tick now)
    then show ?thesis using assms(1,3) not_due tick_tasks(2) [OF ok, of now] by (simp add: task_pending_def)
  qed (use assms schedule_in_ok(1) [OF ok assms(2)] in
      \<open>auto simp: task_pending_def schedule_def timer_cancel_def tasks_erase_def set_default_timeout_def\<close>)
  then show "task_pending i d task (snd (timer_step e s))"
    using timer_step_ok(1) [OF ok assms(2)] by (simp add: task_pending_def)
  show "filter (\<lambda>r. fst r = i) (fst (timer_step e s)) = []"
  proof (cases e)
    case (Tick now)
    then have "\<not> is_due now x" if "x \<in> set (tt_tasks s)" "fst x = i" for x
      using pending_only [OF assms(1) that] not_due assms(3) by simp
    then show ?thesis using Tick tick_tasks(1) [OF ok, of now]
      by (auto simp: filter_empty_conv simp del: timer_step.simps)
  qed simp_all
qed

lemma run_leaves:
  "task_pending i d task s \<Longrightarrow> unat (tt_highest_id s) + length es < 2 ^ 64 \<Longrightarrow> list_all (leaves i d) es \<Longrightarrow>
   task_pending i d task (snd (timer_run es s)) \<and> filter (\<lambda>r. fst r = i) (fst (timer_run es s)) = []"
proof (induction es arbitrary: s)
  case (Cons e es)
  let ?s = "snd (timer_step e s)"
  have one: "unat (tt_highest_id s) + 1 < 2 ^ 64" using Cons.prems(2) by simp
  have ok: "timer_ok s" using Cons.prems(1) by (simp add: task_pending_def)
  have "task_pending i d task ?s" "filter (\<lambda>r. fst r = i) (fst (timer_step e s)) = []"
    using step_leaves [OF Cons.prems(1) one] Cons.prems(3) by simp_all
  moreover have "unat (tt_highest_id ?s) + length es < 2 ^ 64"
    using timer_step_ok(2) [OF ok one, of e] Cons.prems(2) by simp
  ultimately show ?case using Cons.IH [of ?s] Cons.prems(3) by (auto split: prod.splits)
qed simp

lemma tick_calls:
  assumes "task_pending i d task s" "d < now"
  shows "filter (\<lambda>r. fst r = i) (fst (timer_step (Tick now) s)) = [(i, task)]"
    "\<forall>e \<in> set (tt_tasks (snd (timer_step (Tick now) s))). fst e \<noteq> i"
proof -
  have ok: "timer_ok s" using assms(1) by (simp add: task_pending_def)
  have one: "filter (\<lambda>e. fst e = i) es = [(i, d, task)]"
    if "sorted_wrt (<) (map fst es)" "(i, d, task) \<in> set es" for es :: "(64 word \<times> int \<times> 'a) list"
    using that
  proof (induction es)
    case (Cons e es)
    then show ?case by (cases "e = (i, d, task)") (auto simp: filter_empty_conv)
  qed simp
  have due: "is_due now (i, d, task)" using assms(2) by (simp add: is_due_def)
  have "filter (\<lambda>r. fst r = i) (map (\<lambda>e. (fst e, snd (snd e))) (filter (is_due now) (tt_tasks s))) =
      map (\<lambda>e. (fst e, snd (snd e))) (filter (is_due now) (filter (\<lambda>e. fst e = i) (tt_tasks s)))"
    by (simp add: filter_map o_def conj_commute)
  also have "\<dots> = [(i, task)]"
    using one assms(1) due by (simp add: task_pending_def timer_ok_def)
  finally show "filter (\<lambda>r. fst r = i) (fst (timer_step (Tick now) s)) = [(i, task)]"
    by (simp add: tick_tasks(1) [OF ok] del: timer_step.simps)
  show "\<forall>e \<in> set (tt_tasks (snd (timer_step (Tick now) s))). fst e \<noteq> i"
    using pending_only [OF assms(1)] due by (auto simp: tick_tasks(2) [OF ok] simp del: timer_step.simps)
qed

text \<open>
  C30. The deadline of a task: a task scheduled on a timer of the server that is not cancelled is called exactly
  once, by the first tick after its deadline, by none before; whatever is scheduled, cancelled or called
  besides, and as long as fewer than \<open>2 ^ 64\<close> identifiers are given out.
\<close>

theorem task_called_once:
  assumes "timer_ok s" "schedule_in now task t s = (i, s1)" "d = now + uint t * SECOND"
    "list_all (leaves i d) es" "d < tick" "unat (tt_highest_id s) + length es + 2 < 2 ^ 64"
  shows "filter (\<lambda>r. fst r = i) (fst (timer_run (es @ [Tick tick]) s1)) = [(i, task)] \<and>
    (\<forall>e \<in> set (tt_tasks (snd (timer_run (es @ [Tick tick]) s1))). fst e \<noteq> i)"
proof -
  have one: "unat (tt_highest_id s) + 1 < 2 ^ 64" using assms(6) by simp
  have s1: "s1 = snd (schedule_in now task t s)" "i = tt_highest_id s + 1"
    using assms(2) by (auto simp: schedule_in_def Let_def)
  have "task_pending i d task s1"
    using schedule_in_ok [OF assms(1) one, of now task t] by (simp add: task_pending_def s1 assms(3))
  moreover have "unat (tt_highest_id s1) + length es < 2 ^ 64"
    using timer_step_ok(2) [OF assms(1) one, of "Schedule_in now task t"] assms(6) by (simp add: s1)
  ultimately have r: "task_pending i d task (snd (timer_run es s1))" "filter (\<lambda>r. fst r = i) (fst (timer_run es s1)) = []"
    using run_leaves [OF _ _ assms(4)] by simp_all
  show ?thesis using r(2) tick_calls [OF r(1) assms(5)]
    by (auto simp: timer_run_append split: prod.splits simp del: timer_step.simps)
qed

lemma task_called_once_witness:
  "filter (\<lambda>r. fst r = 1)
     (fst (timer_run ([Schedule 0 ''b'', Tick SECOND, Cancel 2] @ [Tick (6 * SECOND)]) (snd (schedule_in 0 ''a'' 5 new_timer)))) =
   [(1, ''a'')]"
proof -
  have "schedule_in 0 ''a'' 5 new_timer = (1, snd (schedule_in 0 ''a'' 5 new_timer))"
    by (simp add: schedule_in_def new_timer_def)
  from task_called_once [OF new_timer_ok this refl, of "[Schedule 0 ''b'', Tick SECOND, Cancel 2]" "6 * SECOND"]
  show ?thesis by (simp add: SECOND_def new_timer_def)
qed

text \<open>
  Identifiers are given out again once no task is left, so a cancellation that comes after the call of its
  task takes another's: two connections, the first of which cancels the deadline that has closed it.
\<close>

lemma stale_cancel:
  "timer_run [Schedule 0 ''a'', Tick (6 * SECOND), Schedule (7 * SECOND) ''b'', Cancel 1, Tick (100 * SECOND)] new_timer =
   ([(1, ''a'')], new_timer)"
  by (simp add: new_timer_def SECOND_def schedule_def schedule_in_def tick_handler_def process_tasks_def is_due_def
      tasks_erase_def timer_cancel_def Let_def)

end
