(* ===== verification/Crow_Server.thy ===== *)
theory Crow_Server
  imports Crow_Timer
begin

section \<open>Crow: the server loop\<close>

text \<open>
  \<open>http_server.h\<close>: the pool of workers, the choice of the worker of a connection, the loop that accepts, the
  date every worker keeps for its responses, and the loop that keeps a worker alive. The sockets and the
  threads are the operating system's: whether an accept succeeds is an event, what a round of the event
  loop of a worker does is a value.
\<close>

subsection \<open>The worker with the shortest queue\<close>

text \<open>The index is kept in 16 bits.\<close>

definition idx16 :: "nat \<Rightarrow> nat" where
  "idx16 i = unat (word_of_nat i :: 16 word)"

function pick_loop :: "32 word list \<Rightarrow> nat \<Rightarrow> nat \<Rightarrow> nat" where
  "pick_loop pool i min_queue_idx =
     (if i < length pool \<and> 0 < pool ! min_queue_idx
      then pick_loop pool (i + 1) (if pool ! i < pool ! min_queue_idx then idx16 i else min_queue_idx)
      else min_queue_idx)"
  by pat_completeness auto
termination
  by (relation "measure (\<lambda>(pool, i, m). length pool - i)") auto

declare pick_loop.simps [simp del]

definition pick_io_service_idx :: "32 word list \<Rightarrow> nat" where
  "pick_io_service_idx pool = pick_loop pool 1 0"

lemma idx16_id: "i < 65536 \<Longrightarrow> idx16 i = i"
  by (simp add: idx16_def unat_of_nat)

lemma pick_loop_least:
  assumes "length pool \<le> 65536" "m < i" "i \<le> length pool" "\<forall>j<i. pool ! m \<le> pool ! j" "\<forall>j<m. pool ! m < pool ! j"
  shows "pick_loop pool i m < length pool \<and> (\<forall>j<length pool. pool ! pick_loop pool i m \<le> pool ! j) \<and>
    (\<forall>j<pick_loop pool i m. pool ! pick_loop pool i m < pool ! j)"
  using assms
proof (induction pool i m rule: pick_loop.induct)
  case (1 pool i m)
  show ?case
  proof (cases "i < length pool \<and> 0 < pool ! m")
    case True
    let ?m = "if pool ! i < pool ! m then idx16 i else m"
    have i: "idx16 i = i" using True 1(2) by (simp add: idx16_id)
    have "pool ! ?m \<le> pool ! j" if "j < i + 1" for j
      using that 1(5) i by (cases "j = i") (auto simp: less_Suc_eq dest: order.strict_trans2)
    moreover have "pool ! ?m < pool ! j" if "j < ?m" for j
      using that 1(5,6) i by (auto split: if_splits dest: order.strict_trans2)
    moreover have "?m < i + 1" using 1(3) i by simp
    moreover have "pick_loop pool i m = pick_loop pool (i + 1) ?m" using True by (subst pick_loop.simps) simp
    ultimately show ?thesis using 1(1) [OF True] 1(2) True by simp
  next
    case False
    then have p: "pick_loop pool i m = m" by (simp only: pick_loop.simps [of pool i m] False if_False)
    have "pool ! m \<le> pool ! j" if "j < length pool" for j
      using False 1(4,5) that by (cases "i < length pool") (auto simp: word_gt_0)
    then show ?thesis using 1(3,4,6) by (simp add: p)
  qed
qed

lemma pick_least:
  assumes "pool \<noteq> []" "length pool \<le> 65536"
  shows "pick_io_service_idx pool < length pool" "j < length pool \<Longrightarrow> pool ! pick_io_service_idx pool \<le> pool ! j"
    "j < pick_io_service_idx pool \<Longrightarrow> pool ! pick_io_service_idx pool < pool ! j"
proof -
  have "pick_loop pool 1 0 < length pool \<and> (\<forall>j<length pool. pool ! pick_loop pool 1 0 \<le> pool ! j) \<and>
      (\<forall>j<pick_loop pool 1 0. pool ! pick_loop pool 1 0 < pool ! j)"
    by (rule pick_loop_least) (use assms in \<open>auto simp: Suc_le_eq\<close>)
  then show "pick_io_service_idx pool < length pool" "j < length pool \<Longrightarrow> pool ! pick_io_service_idx pool \<le> pool ! j"
    "j < pick_io_service_idx pool \<Longrightarrow> pool ! pick_io_service_idx pool < pool ! j"
    by (auto simp: pick_io_service_idx_def)
qed

subsection \<open>Accepting\<close>

record http_server =
  sv_queues :: "32 word list"
  sv_shutting_down :: bool
  sv_stopped :: bool
  sv_accepting :: "nat option"
  sv_started :: "nat list"

text \<open>At least two threads, one of which accepts.\<close>

definition app_concurrency :: "16 word \<Rightarrow> 16 word" where
  "app_concurrency c = (if c < 2 then 2 else c)"

definition new_server :: "16 word \<Rightarrow> http_server" where
  "new_server c =
     \<lparr>sv_queues = replicate (unat c - 1) 0, sv_shutting_down = False, sv_stopped = False, sv_accepting = None,
      sv_started = []\<rparr>"

text \<open>Without a worker the pool is indexed out of its range.\<close>

definition do_accept :: "http_server \<Rightarrow> http_server option" where
  "do_accept s =
     (if sv_shutting_down s then Some s
      else let i = pick_io_service_idx (sv_queues s)
        in if i < length (sv_queues s)
           then Some (s\<lparr>sv_queues := (sv_queues s)[i := sv_queues s ! i + 1], sv_accepting := Some i\<rparr>)
           else None)"

text \<open>The completion of an accept: the connection is started by its worker, or was not made.\<close>

definition accepted :: "bool \<Rightarrow> nat \<Rightarrow> http_server \<Rightarrow> http_server option" where
  "accepted ec i s =
     do_accept
       (if \<not> ec then s\<lparr>sv_accepting := None, sv_started := sv_started s @ [i]\<rparr>
        else s\<lparr>sv_accepting := None, sv_queues := (sv_queues s)[i := sv_queues s ! i - 1]\<rparr>)"

definition server_stop :: "http_server \<Rightarrow> http_server" where
  "server_stop s = s\<lparr>sv_shutting_down := True, sv_stopped := True\<rparr>"

inductive sv_reachable :: "16 word \<Rightarrow> http_server \<Rightarrow> bool" for c where
  sv_run: "do_accept (new_server c) = Some s \<Longrightarrow> sv_reachable c s"
| sv_accepted: "sv_reachable c s \<Longrightarrow> \<not> sv_stopped s \<Longrightarrow> sv_accepting s = Some i \<Longrightarrow> accepted ec i s = Some s' \<Longrightarrow>
    sv_reachable c s'"
| sv_stop: "sv_reachable c s \<Longrightarrow> sv_reachable c (server_stop s)"

subsection \<open>What the queue lengths count\<close>

definition started_on :: "http_server \<Rightarrow> nat \<Rightarrow> nat" where
  "started_on s i = count_list (sv_started s) i"

lemma started_on_update [simp]:
  "started_on (s\<lparr>sv_queues := q\<rparr>) i = started_on s i" "started_on (s\<lparr>sv_accepting := a\<rparr>) i = started_on s i"
  by (simp_all add: started_on_def)

text \<open>The workers between two accepts: the lengths count what was started, in turn.\<close>

definition counted :: "16 word \<Rightarrow> http_server \<Rightarrow> bool" where
  "counted c s \<longleftrightarrow>
     length (sv_queues s) = unat c - 1 \<and>
     (\<forall>i < unat c - 1. sv_queues s ! i = word_of_nat (started_on s i + of_bool (sv_accepting s = Some i))) \<and>
     (\<forall>i < unat c - 1. \<forall>j < unat c - 1. started_on s i \<le> started_on s j + 1) \<and>
     (\<forall>i. sv_accepting s = Some i \<longrightarrow> i < unat c - 1 \<and> (\<forall>j < unat c - 1. started_on s i \<le> started_on s j))"

lemma two_le: "2 \<le> c \<Longrightarrow> 1 \<le> unat c - 1" for c :: "16 word"
  by (simp add: word_le_nat_alt)

lemma unat_16: "unat c < 65536" for c :: "16 word"
  using unsigned_less [of c] by simp

lemma word32_le: "a < 2 ^ 32 \<Longrightarrow> b < 2 ^ 32 \<Longrightarrow> (word_of_nat a :: 32 word) \<le> word_of_nat b \<longleftrightarrow> a \<le> b"
  by (simp add: word_le_nat_alt unat_of_nat)

lemma do_accept_counted:
  assumes "2 \<le> c" "counted c s" "sv_accepting s = None" "length (sv_started s) < 2 ^ 32"
  shows "\<exists>s'. do_accept s = Some s' \<and> counted c s' \<and> sv_started s' = sv_started s"
proof (cases "sv_shutting_down s")
  case True
  then show ?thesis using assms(2) by (simp add: do_accept_def)
next
  case False
  let ?n = "unat c - 1" and ?i = "pick_io_service_idx (sv_queues s)"
  have len: "length (sv_queues s) = ?n" and q: "\<And>i. i < ?n \<Longrightarrow> sv_queues s ! i = word_of_nat (started_on s i)"
    using assms(2,3) by (simp_all add: counted_def)
  have small: "started_on s i < 2 ^ 32" for i
    using assms(4) count_le_length [of "sv_started s" i] by (simp add: started_on_def)
  have pool: "sv_queues s \<noteq> []" "length (sv_queues s) \<le> 65536"
    using two_le [OF assms(1)] len unat_16 [of c] by auto
  have i: "?i < ?n" "\<And>j. j < ?n \<Longrightarrow> started_on s ?i \<le> started_on s j"
    using pick_least(1,2) [OF pool] len q word32_le [OF small small] by auto
  let ?s = "s\<lparr>sv_queues := (sv_queues s)[?i := sv_queues s ! ?i + 1], sv_accepting := Some ?i\<rparr>"
  have "counted c ?s"
    using assms(2) i len q by (auto simp: counted_def nth_list_update)
  then show ?thesis using False i(1) len by (simp add: do_accept_def Let_def)
qed

lemma accepted_counted:
  assumes "2 \<le> c" "counted c s" "sv_accepting s = Some i" "accepted ec i s = Some s'" "length (sv_started s') < 2 ^ 32"
  shows "counted c s' \<and> length (sv_started s) \<le> length (sv_started s')"
proof -
  let ?t = "if \<not> ec then s\<lparr>sv_accepting := None, sv_started := sv_started s @ [i]\<rparr>
        else s\<lparr>sv_accepting := None, sv_queues := (sv_queues s)[i := sv_queues s ! i - 1]\<rparr>"
  have t: "do_accept ?t = Some s'" using assms(4) by (simp add: accepted_def)
  have len: "length (sv_started ?t) < 2 ^ 32" "sv_started s' = sv_started ?t"
    using t assms(5) by (auto simp: do_accept_def Let_def split: if_splits)
  have "started_on ?t j = started_on s j + of_bool (\<not> ec \<and> i = j)" for j
    by (simp add: started_on_def)
  then have "counted c ?t"
    using assms(2,3) by (auto simp: counted_def nth_list_update intro: le_SucI)
  then show ?thesis
    using do_accept_counted [OF assms(1) _ _ len(1)] t len(2) by (auto split: if_splits)
qed

lemma reachable_counted:
  assumes "sv_reachable c s" "2 \<le> c" "length (sv_started s) < 2 ^ 32"
  shows "counted c s"
  using assms
proof (induction rule: sv_reachable.induct)
  case (sv_run s)
  have "counted c (new_server c)" by (simp add: counted_def new_server_def started_on_def)
  then show ?case using do_accept_counted [of c "new_server c"] sv_run by (auto simp: new_server_def)
next
  case (sv_accepted s i ec s')
  obtain "length (sv_started s) \<le> length (sv_started s')"
    using sv_accepted(4) by (auto simp: accepted_def do_accept_def Let_def split: if_splits)
  then show ?case using sv_accepted accepted_counted by (metis le_less_trans)
next
  case (sv_stop s)
  then show ?case by (simp add: counted_def server_stop_def started_on_def)
qed

text \<open>
  C31. The load of the workers: as long as fewer than \<open>2 ^ 32\<close> connections were started, the queue length of a
  worker is the number of connections ever started on it, and the one that is being accepted for it, whether
  they have ended or not; so connections go to the workers in turn, and no two workers differ by more than
  one; and with the least number of threads an application may have there is always a worker to accept for.
\<close>

theorem workers_in_turn:
  assumes "sv_reachable (app_concurrency c) s" "length (sv_started s) < 2 ^ 32" "n = unat (app_concurrency c) - 1"
    "i < n" "j < n"
  shows "sv_queues s ! i = word_of_nat (started_on s i + of_bool (sv_accepting s = Some i)) \<and>
    started_on s i \<le> started_on s j + 1 \<and>
    (sv_accepting s = Some i \<longrightarrow> started_on s i \<le> started_on s j \<and> (\<forall>ec. accepted ec i s \<noteq> None))"
proof -
  have two: "2 \<le> app_concurrency c" by (simp add: app_concurrency_def not_less)
  have c: "counted (app_concurrency c) s" by (rule reachable_counted [OF assms(1) two assms(2)])
  have len: "length (sv_queues t) = n" "n \<noteq> 0" "n \<le> 65536" if "sv_queues t = (sv_queues s)[i := x] \<or> sv_queues t = sv_queues s" for t x
    using that c two_le [OF two] unat_16 [of "app_concurrency c"] assms(3) by (auto simp: counted_def)
  have "do_accept t \<noteq> None" if "sv_queues t = (sv_queues s)[i := x] \<or> sv_queues t = sv_queues s" for t x
    using len [OF that] pick_least(1) [of "sv_queues t"] by (auto simp: do_accept_def Let_def)
  from this [of "s\<lparr>sv_accepting := None, sv_started := sv_started s @ [i]\<rparr>"]
    this [of "s\<lparr>sv_accepting := None, sv_queues := (sv_queues s)[i := sv_queues s ! i - 1]\<rparr>" "sv_queues s ! i - 1"]
  have "accepted ec i s \<noteq> None" for ec
    by (simp add: accepted_def)
  then show ?thesis using c assms(3-5) by (auto simp: counted_def)
qed

text \<open>Three connections on two workers, the second of which could not be made.\<close>

lemma workers_in_turn_witness:
  "\<exists>s. sv_reachable (app_concurrency 3) s \<and> sv_started s = [0, 1] \<and> sv_queues s = [2, 1] \<and> sv_accepting s = Some 0 \<and>
    accepted False 0 s \<noteq> None"
proof -
  define st where "st q a l = \<lparr>sv_queues = q, sv_shutting_down = False, sv_stopped = False, sv_accepting = Some a, sv_started = l\<rparr>"
    for q a l
  have c: "app_concurrency 3 = 3" by (simp add: app_concurrency_def)
  have p: "pick_io_service_idx [0, 0] = 0" "pick_io_service_idx [1, 0] = 1" "pick_io_service_idx [1, 1] = 0"
    by (simp_all add: pick_io_service_idx_def pick_loop.simps idx16_def)
  have r0: "sv_reachable 3 (st [1, 0] 0 [])"
  proof (rule sv_run)
    have "unat (3 :: 16 word) - 1 = Suc (Suc 0)" by simp
    then have "new_server 3 = \<lparr>sv_queues = [0, 0], sv_shutting_down = False, sv_stopped = False, sv_accepting = None,
        sv_started = []\<rparr>" unfolding new_server_def by (simp only: replicate.simps)
    then show "do_accept (new_server 3) = Some (st [1, 0] 0 [])" by (simp add: do_accept_def Let_def p st_def)
  qed
  have r1: "sv_reachable 3 (st [1, 1] 1 [0])"
    by (rule sv_accepted [OF r0, of 0 False]) (simp_all add: st_def accepted_def do_accept_def Let_def p)
  have r2: "sv_reachable 3 (st [1, 1] 1 [0])"
    by (rule sv_accepted [OF r1, of 1 True]) (simp_all add: st_def accepted_def do_accept_def Let_def p)
  have r3: "sv_reachable 3 (st [2, 1] 0 [0, 1])"
    by (rule sv_accepted [OF r2, of 1 False]) (simp_all add: st_def accepted_def do_accept_def Let_def p)
  have "sv_reachable (app_concurrency 3) (st [2, 1] 0 [0, 1])" using r3 by (simp only: c)
  from workers_in_turn [OF this _ refl, of 0 1] have "accepted False 0 (st [2, 1] 0 [0, 1]) \<noteq> None"
    by (simp add: c st_def)
  with r3 show ?thesis unfolding c by (intro exI [of _ "st [2, 1] 0 [0, 1]"]) (simp add: st_def)
qed

subsection \<open>The date of a worker\<close>

record date_cache =
  dc_last :: int
  dc_text :: string

text \<open>The steady clock is read twice, the calendar when the text is older than a second.\<close>

definition get_cached_date_str :: "(int \<Rightarrow> string) \<Rightarrow> int \<Rightarrow> int \<Rightarrow> int \<Rightarrow> date_cache \<Rightarrow> string \<times> date_cache" where
  "get_cached_date_str fmt now now2 calendar d =
     (let d = (if SECOND \<le> now - dc_last d then \<lparr>dc_last = now2, dc_text = fmt calendar\<rparr> else d)
      in (dc_text d, d))"

subsection \<open>The loop of a worker\<close>

text \<open>A round of the event loop ends with the number of handlers that ran, or with an exception of one.\<close>

datatype io_round = Ran nat | Crashed

fun worker_loop :: "io_round list \<Rightarrow> nat option" where
  "worker_loop [] = None"
| "worker_loop (Ran n # rs) = (if n = 0 then Some 0 else map_option Suc (worker_loop rs))"
| "worker_loop (Crashed # rs) = map_option Suc (worker_loop rs)"

text \<open>Nothing but an event loop without work ends a worker.\<close>

lemma worker_ends: "worker_loop rs = Some n \<longleftrightarrow> first_index (\<lambda>r. r = Ran 0) rs = Some n"
  by (induction rs arbitrary: n rule: worker_loop.induct) auto

end
