(* ===== verification/Spec2Isabelle.thy ===== *)
theory Spec2Isabelle
  imports Mutex Connector_Sample Web_Sample Logger Crow_Ws_Run Crow_Query Server_Wire Crow_Server
begin

text \<open>
  RESTServer is a task server over HTTP (\<open>src/*.cpp\<close>, \<open>src/include\<close>) on top of a copy of the Crow
  framework (\<open>src/Crow/include/crow\<close>). Clients register with a server under a group name and poll it
  for tasks; a task is started, cleared and finished by its id, and a new task is handed to the group of
  the next server on its list. This development models the program's own classes and the parts of Crow
  that compute, each as definitions translated from the source, and proves what makes them correct.

  \<^bold>\<open>The program's parts and their theories.\<close>

  \<^item> \<^bold>\<open>Task server\<close> (\<open>tasker_manager.h/.cpp\<close>): \<open>Tasker\<close> has the records \<open>client\<close>, \<open>event\<close>,
    \<open>group_clients\<close> and \<open>tasker_manager\<close> and one definition per method (\<open>gc_...\<close> for a group, \<open>tm_...\<close>
    for the manager). \<open>Tasker_Facts\<close> holds the invariant of a group and the abstract task pool,
    \<open>Tasker_Props\<close> runs of requests against one group, \<open>Tasker_Manager\<close> the manager as a map from names
    to groups, routing of tasks and what ids depend on.
  \<^item> \<^bold>\<open>Locks\<close> (\<open>mutex_n\<close>, \<open>scope_lock_mutex\<close> of both headers): \<open>Mutex\<close>, as step relations of threads
    with a program counter per statement. The task server's mutex gives exclusion and progress, the
    connector's does not.
  \<^item> \<^bold>\<open>Client\<close> (\<open>connector_manager.h\<close>, \<open>curl_wrapper.h\<close>): \<open>Connector_Queues\<close> (\<open>manager_task\<close>,
    \<open>manager_returns\<close>), \<open>Prog\<close> (programs over a state with exceptions and loops), \<open>Curl\<close>, \<open>Connector\<close>
    (\<open>connector_manager\<close> method by method), \<open>Connector_Wire\<close> (the parser of a poll's answer),
    \<open>Connector_Props\<close>, and \<open>Connector_Sample\<close> with the witnesses.
  \<^item> \<^bold>\<open>Server\<close> (\<open>url.cpp\<close>, \<open>controller.cpp\<close>, \<open>web_server.h\<close>, \<open>server_logic.h/.cpp\<close>): \<open>Web_Server\<close>
    (routes and controllers), \<open>Server_Logic\<close> (the two halves in one object), \<open>Web_Sample\<close>. \<open>Logger\<close> is
    the logging class both headers define.
  \<^item> \<^bold>\<open>Crow, dispatch\<close> (\<open>routing.h\<close>, \<open>common.h\<close>, \<open>app.h\<close>): \<open>Crow_Routing\<close> (the class \<open>Trie\<close>),
    \<open>Crow_Routing_Facts\<close> and \<open>Crow_Routing_Build\<close> (search and construction of the tree),
    \<open>Crow_Methods\<close>, \<open>Crow_Router\<close> (rules, blueprints, validation), \<open>Crow_Dispatch\<close> (from a request to
    its handler), \<open>Crow_Dispatch_Props\<close>.
  \<^item> \<^bold>\<open>Crow, values\<close> (\<open>utility.h\<close>, \<open>ci_map.h\<close>, \<open>http_request.h\<close>, \<open>http_response.h\<close>,
    \<open>mime_types.h\<close>): \<open>Crow_Util\<close>, \<open>Crow_Files\<close>, \<open>Crow_Response\<close>.
  \<^item> \<^bold>\<open>Crow, WebSocket\<close> (\<open>websocket.h\<close>, \<open>TinySHA1.hpp\<close>): \<open>Crow_Sha1\<close>, \<open>Crow_Websocket\<close> (the class
    \<open>Connection\<close>), \<open>Crow_Frames\<close> (frames as RFC 6455 has them), \<open>Crow_Ws_Props\<close> (what is delivered),
    \<open>Crow_Ws_Run\<close> (invariants over all runs).
  \<^item> \<^bold>\<open>Crow, query strings\<close> (\<open>query_string.h\<close>): \<open>Crow_Query\<close>, the memory of a URL that is split and
    decoded in place, and what a look-up returns from it.
  \<^item> \<^bold>\<open>Crow, HTTP parser\<close> (\<open>http_parser_merged.h\<close>, \<open>parser.h\<close>): \<open>Http_Parser\<close> has one definition for
    each state of \<open>http_parser_execute\<close> and the loop over a buffer, \<open>Http_Parser_Props\<close> what every step
    keeps, \<open>Http_Request\<close> the callbacks that build a request, \<open>Http_Wellformed\<close> the run over a
    well-formed request, \<open>Http_Observer\<close> what the parser keeps of its owner's state.
  \<^item> \<^bold>\<open>Crow, HTTP connections\<close> (\<open>http_connection.h\<close>): \<open>Crow_Connection\<close> is the class \<open>Connection\<close>, the owner of
    a parser, with a definition for each callback and for each completion of its socket, and the step
    relation of these; \<open>Crow_Connection_Props\<close> interprets the parser's locales on it and has the invariant of
    its reads, \<open>Crow_Connection_Serve\<close> what it answers, \<open>Server_Wire\<close> the API of the program behind it.
  \<^item> \<^bold>\<open>Crow, server loop\<close> (\<open>task_timer.h\<close>, \<open>http_server.h\<close>): \<open>Crow_Timer\<close>, the deadlines of a worker's
    connections, and \<open>Crow_Server\<close>, the workers and what each is given to do.
  \<^item> \<^bold>\<open>Shared\<close>: \<open>Prelude\<close> (exceptions, decimal text, first-match loops), \<open>Json_Api\<close> (the interface of
    the JSON library), \<open>Json_Sample\<close> (a concrete JSON type for the witnesses), \<open>Slots\<close> (the locales
    \<open>slot_table\<close> and \<open>keyed_table\<close> that the tables of groups, clients, tasks, replies, connections and
    log files instantiate).

  The parts meet in \<open>Web_Server\<close> (a request through router, controller and task manager), in
  \<open>Server_Wire\<close> (the same from the bytes a connection reads to those it writes), in
  \<open>Server_Logic\<close> (the client's URLs against the server's routes) and in this theory (the text a poll is
  answered with against the client's parser and buffer).

  \<^bold>\<open>Parameters.\<close> What is not in the repository is an argument: the JSON library (\<open>json_lib\<close>, with the
  laws \<open>access_laws\<close> where they are used), SHA-256 of OpenSSL (\<open>H\<close>), \<open>strtod\<close> (\<open>D\<close>), \<open>stat\<close>, libcurl and
  the network (\<open>net\<close>), clocks and sleeping, user callbacks (\<open>env\<close>, rule handlers, WebSocket handlers),
  ASIO (completions are steps with any outcome its documentation allows).

  \<^bold>\<open>Conventions.\<close> An exception is a value of \<open>exn\<close>, a call that may throw returns \<open>exn + 'a\<close>; undefined
  behaviour is the exception \<open>Undefined_behaviour\<close> or \<open>None\<close>, as the definition says. A method that
  changes an object returns the changed record. Strings are lists of characters, bytes 8 bit words where
  bits matter; counters are unbounded where the program cannot reach their width and words elsewhere.
  Operations that hold a lock from their first to their last statement are one step; \<open>Mutex\<close> says what
  that rests on.

  \<^bold>\<open>Loops.\<close> No fuel is used. Loops over a container are structural recursion or folds; \<open>send\<close>, the
  parser of an answer and the worker are \<open>repeat_until\<close>, a \<open>partial_function\<close> whose value \<open>None\<close> means that
  the loop runs forever, and the theorems that an operation returns are stated as such
  (\<open>send_first_answer\<close>, \<open>read_wire\<close>) beside one on when it does not (\<open>send_never_returns\<close>). Adding a rule
  to the tree can loop on a malformed pattern: \<open>trie_add\<close> is then \<open>None\<close>. The loop of the HTTP parser
  re-enters its switch without advancing; \<open>execute_loop\<close> is a \<open>partial_function\<close> that is shown to end
  (\<open>parser_never_aborts\<close>). The padding loops of SHA-1 are
  \<open>while_option\<close>, shown to end.

  \<^bold>\<open>What the lemmas show.\<close> Invariants of every reachable state (\<open>group_invariant\<close>,
  \<open>manager_invariant\<close>, \<open>ws_output_is_frames\<close>, \<open>connection_reads_in_turn\<close>, \<open>workers_in_turn\<close>);
  refinement of abstract machines (the task pool, the map of
  groups, the list of rules, the registry of a logger); round trips (wire format, base 64, method names,
  WebSocket messages, HTTP requests); equivalences with reference definitions (SHA-1, route tags, the search tree);
  behaviour on errors (answers 404, 405 and 500, lost replies, URLs no route serves).

  \<^bold>\<open>Not modelled.\<close> Sockets, threads and the ASIO loop (the vendored \<open>asio_windows\<close>, the start of the threads in
  \<open>http_server.h\<close>): what they do is decided by the operating system and the library; of a socket the model
  has what is under way on it and what was handed to it. Crow's own JSON type, templates, multipart bodies and middleware (\<open>json.h\<close>, \<open>mustache.h\<close>,
  \<open>multipart.h\<close>, \<open>middleware*.h\<close>): the program uses none of them.
  Console output, and the tests, examples, documentation and scripts of Crow.
\<close>

section \<open>From the server's queue to the client's buffer\<close>

text \<open>
  A task that waits in a group: the fields the server writes for it (its id object, its \<open>meta\<close> and
  its \<open>data\<close>) are those of the wire record \<open>it\<close>. The id object is reused from task to task; the JSON
  library keeps an object with the one member \<open>id\<close> (\<open>idj h\<close>) when it is assigned again.
\<close>

definition id_objects :: "'j json_lib \<Rightarrow> (string \<Rightarrow> 'j) \<Rightarrow> bool" where
  "id_objects J idj \<longleftrightarrow>
     j_assign J (j_null J) [K ''id''] (j_str J ''0'') = Inr (idj ''0'') \<and>
     (\<forall>h h'. j_assign J (idj h) [K ''id''] (j_str J h') = Inr (idj h'))"

definition wire_record_of :: "'j json_lib \<Rightarrow> (string \<Rightarrow> 'j) \<Rightarrow> 'j event \<Rightarrow> 'j wire_item \<Rightarrow> bool" where
  "wire_record_of J idj e it \<longleftrightarrow>
     it_id it = ev_hash_event e \<and> it_idj it = idj (ev_hash_event e) \<and>
     (\<exists>js js'. j_index J (ev_json e) (K ''meta'') = Some (js, it_meta it) \<and> j_contains J js ''data'' \<and>
       j_index J js (K ''data'') = Some (js', it_data it))"

definition wire_list :: "('j event \<Rightarrow> 'j wire_item) \<Rightarrow> 'j event list \<Rightarrow> string" where
  "wire_list f es = concat (map wire_text (map f (filter is_pending es)))"

lemma wire_list_simps [simp]:
  "wire_list f [] = []"
  "wire_list f (e # es) = (if is_pending e then wire_text (f e) @ wire_list f es else wire_list f es)"
  by (simp_all add: wire_list_def)

lemma wire_list_ne: "e \<in> set es \<Longrightarrow> is_pending e \<Longrightarrow> wire_list f es \<noteq> []"
  by (induction es) (auto simp: wire_text_def)

lemma event_record_wire:
  assumes "id_objects J idj" "wire_record_of J idj e it" "wire_ok J address it"
  shows "\<exists>e'. event_record J (idj h) e = (e', Inr (idj (ev_hash_event e), wire_text it))"
proof -
  obtain js js' where js: "j_index J (ev_json e) (K ''meta'') = Some (js, it_meta it)" "j_contains J js ''data''"
    "j_index J js (K ''data'') = Some (js', it_data it)"
    using assms(2) by (auto simp: wire_record_of_def)
  have "j_dump J (idj (ev_hash_event e)) = Some (it_idtext it)" "j_dump J (it_meta it) = Some (it_metatext it)"
    "j_dump J (it_data it) = Some (it_datatext it)"
    using assms(2,3) by (auto simp: wire_ok_def wire_record_of_def json_object_text_def)
  with js assms(1) show ?thesis
    by (simp add: event_record_def id_objects_def dump_def wire_text_def sized_def Let_def)
qed

lemma serialize_wire:
  assumes "id_objects J idj"
    and "\<forall>e \<in> set es. is_pending e \<longrightarrow> wire_record_of J idj e (f e) \<and> wire_ok J address (f e)"
  shows "\<exists>es'. serialize_events J (idj h) es respon =
    (es', Inr (respon @ wire_list f es))"
  using assms(2)
proof (induction es arbitrary: h respon)
  case (Cons e es)
  show ?case
  proof (cases "is_pending e")
    case True
    then obtain e' where e': "event_record J (idj h) e = (e', Inr (idj (ev_hash_event e), wire_text (f e)))"
      using event_record_wire [OF assms(1)] Cons.prems by fastforce
    from Cons.IH [of "ev_hash_event e" "respon @ wire_text (f e)"] Cons.prems obtain es' where
      "serialize_events J (idj (ev_hash_event e)) es (respon @ wire_text (f e)) =
        (es', Inr ((respon @ wire_text (f e)) @ wire_list f es))"
      by auto
    with True e' show ?thesis by simp
  next
    case False
    from Cons.IH [of h respon] Cons.prems obtain es' where
      "serialize_events J (idj h) es respon = (es', Inr (respon @ wire_list f es))"
      by auto
    with False show ?thesis by auto
  qed
qed simp

lemma poll_answer_wire:
  assumes "id_objects J idj"
    and "\<forall>e \<in> set (gc_events g). is_pending e \<longrightarrow> wire_record_of J idj e (f e) \<and> wire_ok J address (f e)"
    and "\<exists>e \<in> set (gc_events g). is_pending e"
  shows "fst (gc_get_events_json J c hw g) = Inr (wire_list f (gc_events g))"
proof -
  have ev: "gc_events (ensure_client c hw g) = gc_events g"
    by (simp add: ensure_client_def gc_get_new_client_def Let_def split: option.split)
  obtain es' where es': "serialize_events J (idj ''0'') (gc_events g) '''' =
      (es', Inr (wire_list f (gc_events g)))"
    using serialize_wire [OF assms(1,2), of "''0''" "''''"] by auto
  have "wire_list f (gc_events g) \<noteq> []" using assms(3) wire_list_ne by blast
  with ev es' assms(1) show ?thesis
    by (simp add: gc_get_events_json_def id_objects_def Let_def)
qed

text \<open>
  C1. From queue to buffer: when a poll of a group of the server with waiting tasks is answered to
  the connector, the connector reads the answer without an exception, and the task ids it holds
  afterwards are exactly the ids of the tasks that wait in the group. This is for a buffer with a free slot
  for every waiting task, whose tasks all have an id and whose marks are cleared, as every poll leaves them,
  and for tasks that are fit for the wire: they have \<open>meta\<close> and \<open>data\<close>, their texts are those of JSON objects,
  and the connector's server address is the one it polls.
\<close>

theorem poll_reaches_client:
  fixes s :: "('j, 'cb, 'w) connector"
  assumes "id_objects (en_json E) idj"
    and "\<forall>e \<in> set (gc_events g). is_pending e \<longrightarrow> wire_record_of (en_json E) idj e (f e) \<and>
           wire_ok (en_json E) (co_address (connections s ! i)) (f e) \<and>
           has_id (en_json E) (it_task (f e)) (ev_hash_event e)"
    and "\<exists>e \<in> set (gc_events g). is_pending e"
    and "i < length (connections s)" "co_count_try (connections s ! i) = 0"
    and "fst (gc_get_events_json (en_json E) c hw g) = Inr (co_respon_str (connections s ! i))"
    and "ids_ok (en_json E) (m_task s)" "\<forall>t \<in> set (m_task s). tk_note t \<longrightarrow> tk_empty t"
    and "length (filter is_pending (gc_events g)) \<le> length (filter tk_empty (m_task s))"
  shows "\<exists>temp' b. read_tasks E i temp s = Some (Inr temp', s\<lparr>m_task := b, empty_thread := True\<rparr>) \<and>
    live_ids (en_json E) b = ev_hash_event ` {e \<in> set (gc_events g). is_pending e}"
proof -
  let ?items = "map f (filter is_pending (gc_events g))"
  have ids: "is_pending e \<Longrightarrow> e \<in> set (gc_events g) \<Longrightarrow> it_id (f e) = ev_hash_event e" for e
    using assms(2) by (simp add: wire_record_of_def)
  have "co_respon_str (connections s ! i) = concat (map wire_text ?items)"
    using poll_answer_wire [OF assms(1), of g f "co_address (connections s ! i)" c hw] assms(2,3,6)
    by (auto simp: wire_list_def)
  moreover have "\<forall>it \<in> set ?items. wire_ok (en_json E) (co_address (connections s ! i)) it \<and>
      has_id (en_json E) (it_task it) (it_id it)"
    using assms(2) ids by auto
  moreover have "it_id ` set ?items = ev_hash_event ` {e \<in> set (gc_events g). is_pending e}"
    using ids by (auto simp: image_iff)
  ultimately show ?thesis
    using read_poll [OF assms(4,5) _ _ assms(7,8), of ?items temp] assms(9) by (simp only: length_map) blast
qed


definition sample_queued :: "string \<Rightarrow> int \<Rightarrow> bool \<Rightarrow> sj event" where
  "sample_queued i n p = \<lparr>ev_hash_worker = '''', ev_hash_event = i,
     ev_json = SObj [(''meta'', SObj [(''$type_event'', SStr ''req'')]), (''data'', SObj [(''n'', SInt n)])],
     ev_count_restart = 0, ev_busy = True, ev_process = p\<rparr>"

definition sample_group :: "sj group_clients" where
  "sample_group = \<lparr>gc_clients = [default_client],
     gc_events = [sample_queued ''7'' 1 False, sample_queued ''9'' 5 True, sample_queued ''8'' 2 False],
     gc_group = ''g'', gc_server_hash = ''''\<rparr>"

lemma poll_reaches_client_witness:
  "\<exists>temp' b. read_tasks (sample_env SNull sample_known) 0 SNull sample_poll_conn =
      Some (Inr temp', sample_poll_conn\<lparr>m_task := b, empty_thread := True\<rparr>) \<and>
    live_ids (sample_json (SNull # sample_known)) b = {''7'', ''8''}"
proof -
  let ?J = "sample_json (SNull # sample_known)" and ?s = sample_poll_conn
  define f where "f e = sample_wire_item (ev_hash_event e) (if ev_hash_event e = ''7'' then 1 else 2)" for e :: "sj event"
  have ids: "id_objects ?J (\<lambda>h. SObj [(''id'', SStr h)])" by (simp add: id_objects_def j_assign.simps)
  have ok: "\<forall>e \<in> set (gc_events sample_group). is_pending e \<longrightarrow> wire_record_of ?J (\<lambda>h. SObj [(''id'', SStr h)]) e (f e) \<and>
      wire_ok ?J ''http://s'' (f e) \<and> has_id ?J (it_task (f e)) (ev_hash_event e)"
    using sample_wire_ok
    by (simp add: sample_group_def sample_queued_def f_def sample_items_def wire_record_of_def)
  have "fst (gc_get_events_json ?J \<lparr>clk_client = 1, clk_time = 1, clk_clock = 1\<rparr> ''w'' sample_group) =
      Inr (wire_list f (gc_events sample_group))"
    by (rule poll_answer_wire [OF ids, of sample_group f "''http://s''"])
      (use ok in \<open>auto simp: sample_group_def sample_queued_def\<close>)
  moreover have "wire_list f (gc_events sample_group) = co_respon_str (connections ?s ! 0)"
    by (simp add: sample_group_def sample_queued_def f_def sample_poll_conn_def sample_items_def)
  ultimately have answer: "fst (gc_get_events_json ?J \<lparr>clk_client = 1, clk_time = 1, clk_clock = 1\<rparr> ''w'' sample_group) =
      Inr (co_respon_str (connections ?s ! 0))" by simp
  have pend: "{e \<in> set (gc_events sample_group). is_pending e} = {sample_queued ''7'' 1 False, sample_queued ''8'' 2 False}"
    by (auto simp: sample_group_def sample_queued_def)
  show ?thesis
    using poll_reaches_client [of "sample_env SNull sample_known" "\<lambda>h. SObj [(''id'', SStr h)]" sample_group f ?s 0
        "\<lparr>clk_client = 1, clk_time = 1, clk_clock = 1\<rparr>" "''w''" SNull] ids ok answer pend
    by (simp add: sample_poll_conn_def Connector.new_connection_def ids_ok_def default_task_def sample_group_def
        sample_queued_def numeral_2_eq_2 doubleton_eq_iff)
qed

end
